(* ===== verification/Lo2s_Prelude.thy ===== *)
theory Lo2s_Prelude
  imports Main "HOL-Library.Word"
begin

text \<open>
  Shared vocabulary of the development: machine integers, the error values that stand for the
  exceptions and failing assertions of the C++ code, the rounding of sizes to multiples of eight,
  little-endian encoding of 64 bit integers, and reads and writes on a circular byte buffer
  (used for the shared memory ring buffer of \<^verbatim>\<open>rb/\<close> and for the perf mmap buffer).
\<close>

unbundle bit_operations_syntax

type_synonym byte = "8 word"
type_synonym u32 = "32 word"
type_synonym u64 = "64 word"

text \<open>
  Errors: a failing \<open>assert\<close>, a thrown \<open>std::runtime_error\<close> (with its message),
  \<open>std::out_of_range\<close>, \<open>std::invalid_argument\<close>, \<open>std::system_error\<close> (with errno),
  an access outside of a mapped memory region, and a division by zero.
\<close>

datatype cpp_error =
    Assertion
  | Runtime_error string
  | Out_of_range
  | Invalid_argument
  | System_error int
  | Memory_fault
  | Division_by_zero

type_synonym 'a result = "cpp_error + 'a"

definition sum_bind :: "'a result \<Rightarrow> ('a \<Rightarrow> 'b result) \<Rightarrow> 'b result" where
  "sum_bind r f = (case r of Inl e \<Rightarrow> Inl e | Inr x \<Rightarrow> f x)"

lemma sum_bind_simps [simp]:
  "sum_bind (Inl e) f = Inl e"
  "sum_bind (Inr x) f = f x"
  by (simp_all add: sum_bind_def)

lemma sum_bind_Inr_iff: "sum_bind r f = Inr y \<longleftrightarrow> (\<exists>x. r = Inr x \<and> f x = Inr y)"
  by (cases r) auto

text \<open>\<open>assert(b)\<close> in an assertion-enabled build.\<close>

definition cpp_assert :: "bool \<Rightarrow> unit result" where
  "cpp_assert b = (if b then Inr () else Inl Assertion)"

lemma cpp_assert_simps [simp]:
  "cpp_assert True = Inr ()"
  "cpp_assert False = Inl Assertion"
  by (simp_all add: cpp_assert_def)

section \<open>Rounding to multiples of eight\<close>

definition align8 :: "u64 \<Rightarrow> u64" where
  "align8 x = (x + 7) AND NOT 7"

definition up8 :: "nat \<Rightarrow> nat" where
  "up8 n = (n + 7) div 8 * 8"

lemma up8_bounds: "n \<le> up8 n" "up8 n < n + 8" "8 dvd up8 n"
  unfolding up8_def by presburger+

lemma up8_id: "8 dvd n \<Longrightarrow> up8 n = n"
  by (auto simp: up8_def)

lemma up8_up8 [simp]: "up8 (up8 n) = up8 n"
  by (simp add: up8_id up8_bounds)

lemma up8_mono: "m \<le> n \<Longrightarrow> up8 m \<le> up8 n"
  by (simp add: up8_def div_le_mono)

lemma up8_pos: "0 < n \<Longrightarrow> 0 < up8 n"
  using up8_bounds(1)[of n] by linarith

lemma and_minus_8: "(w :: u64) AND - 8 = w - w mod 8"
proof -
  have "(w AND NOT 7) AND (w AND 7) = 0"
    by (rule bit_word_eqI) (simp add: bit_simps)
  then have "(w AND NOT 7) + (w AND 7) = (w AND NOT 7) OR (w AND 7)"
    by (rule disjunctive_add_eq_or)
  also have "\<dots> = w"
    by (rule bit_word_eqI) (auto simp: bit_simps)
  finally have "(w AND - 8) + (w AND 7) = w"
    by simp
  moreover have "w AND 7 = w mod 8"
    using take_bit_eq_mask[of 3 w] take_bit_eq_mod[of 3 w] by (simp add: mask_eq_exp_minus_1)
  ultimately show ?thesis
    by (metis add_diff_cancel_right')
qed

lemma unat_align8:
  assumes "unat x + 7 < 2 ^ 64"
  shows "unat (align8 x) = up8 (unat x)"
proof -
  let ?w = "x + 7"
  have w: "unat ?w = unat x + 7"
    using assms by (simp add: unat_word_ariths)
  have "unat (?w mod 8) = unat ?w mod 8"
    by (simp add: unat_mod)
  moreover have "?w mod 8 \<le> ?w"
    by (simp add: word_le_nat_alt unat_mod)
  ultimately have "unat (?w - ?w mod 8) = unat ?w - unat ?w mod 8"
    by (simp add: unat_sub)
  then show ?thesis
    by (simp add: align8_def and_minus_8 w up8_def minus_mod_eq_div_mult del: word_mod_no)
qed

section \<open>Little-endian encoding\<close>

definition le64 :: "u64 \<Rightarrow> byte list" where
  "le64 w = map (\<lambda>i. word_of_nat (unat w div 256 ^ i)) [0..<8]"

definition rd64 :: "byte list \<Rightarrow> u64" where
  "rd64 bs = word_of_nat (foldr (\<lambda>b a. unat b + 256 * a) bs 0)"

lemma length_le64 [simp]: "length (le64 w) = 8"
  by (simp add: le64_def)

lemma foldr_le_digits:
  "foldr (\<lambda>b a. unat (b :: byte) + 256 * a) (map (\<lambda>i. word_of_nat (n div 256 ^ i)) [0..<k]) 0
    = n mod 256 ^ k"
proof (induction k arbitrary: n)
  case 0
  then show ?case by simp
next
  case (Suc k)
  have shift: "map (\<lambda>i. word_of_nat (n div 256 ^ i) :: byte) [0..<Suc k]
      = word_of_nat n # map (\<lambda>i. word_of_nat (n div 256 div 256 ^ i)) [0..<k]"
    by (simp add: upt_conv_Cons map_Suc_upt[symmetric] div_mult2_eq del: upt_Suc)
  have "unat (word_of_nat n :: byte) = n mod 256"
    by (simp add: unat_of_nat)
  with Suc.IH[of "n div 256"] show ?case
    by (simp only: shift) (simp add: mod_mult2_eq)
qed

lemma rd64_le64 [simp]: "rd64 (le64 w) = w"
proof -
  have "unat w < 256 ^ 8"
    using unsigned_less[of w] by simp
  then show ?thesis
    unfolding rd64_def le64_def foldr_le_digits by simp
qed

section \<open>Circular byte buffers\<close>

text \<open>
  A circular buffer is a byte list; offset \<open>off\<close> denotes the byte \<open>off mod length\<close>. This is
  the effect of mapping the buffer twice back to back (\<^verbatim>\<open>ShmRingbuf\<close>).
\<close>

definition read_ring :: "byte list \<Rightarrow> nat \<Rightarrow> nat \<Rightarrow> byte list" where
  "read_ring m off len = map (\<lambda>i. m ! ((off + i) mod length m)) [0..<len]"

fun write_ring :: "byte list \<Rightarrow> nat \<Rightarrow> byte list \<Rightarrow> byte list" where
  "write_ring m off [] = m"
| "write_ring m off (b # bs) = write_ring (m[off mod length m := b]) (Suc off) bs"

lemma length_read_ring [simp]: "length (read_ring m off len) = len"
  by (simp add: read_ring_def)

lemma length_write_ring [simp]: "length (write_ring m off bs) = length m"
  by (induction m off bs rule: write_ring.induct) simp_all

lemma read_ring_0 [simp]: "read_ring m off 0 = []"
  by (simp add: read_ring_def)

lemma read_ring_mod: "read_ring m (off mod length m) len = read_ring m off len"
  by (simp add: read_ring_def mod_add_left_eq)

lemma read_ring_cong_mod:
  "a mod length m = b mod length m \<Longrightarrow> read_ring m a len = read_ring m b len"
  by (metis read_ring_mod)

lemma take_read_ring: "k \<le> len \<Longrightarrow> take k (read_ring m off len) = read_ring m off k"
  by (simp add: read_ring_def take_map)

lemma drop_read_ring: "drop k (read_ring m off len) = read_ring m (off + k) (len - k)"
  by (rule nth_equalityI) (simp_all add: read_ring_def less_diff_conv ac_simps)

lemma read_ring_append: "read_ring m off (a + b) = read_ring m off a @ read_ring m (off + a) b"
  by (rule nth_equalityI) (auto simp: read_ring_def nth_append)

lemma read_ring_contiguous:
  assumes "off + len \<le> length m"
  shows "read_ring m off len = take len (drop off m)"
  using assms by (intro nth_equalityI) (auto simp: read_ring_def)

lemma write_ring_snoc:
  "write_ring m off (bs @ [b]) =
    (write_ring m off bs)[(off + length bs) mod length m := b]"
  by (induction m off bs rule: write_ring.induct) simp_all

lemma write_ring_append:
  "write_ring m off (as @ bs) = write_ring (write_ring m off as) (off + length as) bs"
  by (induction m off as rule: write_ring.induct) simp_all

text \<open>Distance from \<open>off\<close> to position \<open>k\<close>, walking forward around the buffer.\<close>

definition ring_dist :: "nat \<Rightarrow> nat \<Rightarrow> nat \<Rightarrow> nat" where
  "ring_dist n off k = (k + (n - off mod n)) mod n"

lemma ring_dist_unique:
  assumes "k < n" "l < n"
  shows "(off + l) mod n = k \<longleftrightarrow> ring_dist n off k = l"
proof
  assume "(off + l) mod n = k"
  then have "k = (off mod n + l) mod n"
    by (simp add: mod_add_left_eq)
  then have "ring_dist n off k = (off mod n + l + (n - off mod n)) mod n"
    by (metis ring_dist_def mod_add_left_eq)
  moreover have "off mod n \<le> n"
    using assms by (simp add: less_imp_le)
  ultimately show "ring_dist n off k = l"
    using assms by simp
next
  assume "ring_dist n off k = l"
  then have "(off + l) mod n = (off mod n + (k + (n - off mod n))) mod n"
    by (metis ring_dist_def mod_add_eq mod_add_left_eq mod_mod_trivial)
  moreover have "off mod n \<le> n"
    using assms by (simp add: less_imp_le)
  ultimately show "(off + l) mod n = k"
    using assms by simp
qed

lemma nth_write_ring:
  assumes "length bs \<le> length m" "k < length m"
  shows "write_ring m off bs ! k =
    (if ring_dist (length m) off k < length bs then bs ! ring_dist (length m) off k else m ! k)"
  using assms(1)
proof (induction bs rule: rev_induct)
  case Nil
  then show ?case by simp
next
  case (snoc b bs)
  then have "(off + length bs) mod length m = k \<longleftrightarrow> ring_dist (length m) off k = length bs"
    using assms(2) by (intro ring_dist_unique) auto
  with snoc assms(2) show ?case
    by (auto simp: write_ring_snoc nth_list_update nth_append)
qed

lemma read_write_ring_same:
  assumes "length bs \<le> length m"
  shows "read_ring (write_ring m off bs) off (length bs) = bs"
proof (rule nth_equalityI)
  show "length (read_ring (write_ring m off bs) off (length bs)) = length bs"
    by simp
next
  fix i assume "i < length (read_ring (write_ring m off bs) off (length bs))"
  then have i: "i < length bs" by simp
  let ?k = "(off + i) mod length m"
  have k: "?k < length m" using assms i by (intro mod_less_divisor) linarith
  have "ring_dist (length m) off ?k = i"
    using assms i k by (subst ring_dist_unique[symmetric]) auto
  with i k assms show "read_ring (write_ring m off bs) off (length bs) ! i = bs ! i"
    by (simp add: read_ring_def nth_write_ring)
qed

text \<open>
  A write leaves every byte range untouched that ends before it, when both fit into the buffer
  together.
\<close>

lemma read_write_ring_before:
  assumes "pos + len \<le> off" "off + length bs \<le> pos + length m"
  shows "read_ring (write_ring m off bs) pos len = read_ring m pos len"
proof (rule nth_equalityI)
  fix i assume "i < length (read_ring (write_ring m off bs) pos len)"
  then have i: "i < len" by simp
  show "read_ring (write_ring m off bs) pos len ! i = read_ring m pos len ! i"
  proof (cases "bs = []")
    case False
    let ?n = "length m" and ?k = "(pos + i) mod length m"
    define l where "l = pos + i + ?n - off"
    have n: "0 < ?n" and l: "length bs \<le> l" "l < ?n"
      using False assms i by (auto simp: l_def)
    have "off + l = pos + i + ?n"
      using assms by (simp add: l_def)
    then have "(off + l) mod ?n = ?k"
      by simp
    then have "ring_dist ?n off ?k = l"
      using l n by (subst ring_dist_unique[symmetric]) auto
    with l n i assms show ?thesis
      by (simp add: read_ring_def nth_write_ring)
  qed simp
qed simp

lemma write_ring_mod: "write_ring m (off mod length m) bs = write_ring m off bs"
proof (induction bs arbitrary: m off)
  case (Cons b bs)
  have "write_ring m (Suc (off mod length m)) bs = write_ring m (Suc off) bs" for m :: "byte list"
    using Cons.IH[of m "Suc (off mod length m)"] Cons.IH[of m "Suc off"]
    by (simp add: mod_Suc_eq)
  from this[of "m[off mod length m := b]"] show ?case by simp
qed simp

lemma write_ring_cong_mod:
  "a mod length m = b mod length m \<Longrightarrow> write_ring m a bs = write_ring m b bs"
  by (metis write_ring_mod)

text \<open>A write inside of a region replaces exactly its own part of the region.\<close>

lemma read_write_ring_inside:
  assumes "k + length bs \<le> len" "len \<le> length m"
  shows "read_ring (write_ring m (off + k) bs) off len =
    take k (read_ring m off len) @ bs @ drop (k + length bs) (read_ring m off len)"
proof -
  let ?m' = "write_ring m (off + k) bs"
  obtain r where r: "len = k + (length bs + r)"
    using assms(1) by (metis le_Suc_ex add.assoc)
  have "read_ring ?m' off k = read_ring m off k"
    using assms r by (intro read_write_ring_before) auto
  moreover have "read_ring ?m' (off + k) (length bs) = bs"
    using assms r by (intro read_write_ring_same) auto
  moreover have "read_ring ?m' (off + (k + length bs)) r = read_ring m (off + (k + length bs)) r"
  proof -
    have "?m' = write_ring m (off + k + length m) bs"
      by (rule write_ring_cong_mod) simp
    then show ?thesis
      using assms r read_write_ring_before[of "off + (k + length bs)" r "off + k + length m" bs m]
      by simp
  qed
  ultimately show ?thesis
    using r by (simp add: read_ring_append take_read_ring drop_read_ring add.assoc)
qed

end
