(* ===== verification/Ringbuf.thy ===== *)
theory Ringbuf
  imports Lo2s_Prelude
begin

text \<open>
  The shared memory ring buffer that the injected OpenMP and GPU libraries use to send events to
  lo2s (\<^verbatim>\<open>include/lo2s/rb\<close>, \<^verbatim>\<open>src/rb\<close>): the class \<^verbatim>\<open>ShmRingbuf\<close>, its reader and its writer.
  The physical memory is a byte list of \<^verbatim>\<open>header->size\<close> bytes. It is mapped twice back to back at
  \<^verbatim>\<open>start_\<close>, so a pointer \<open>p\<close> denotes the byte \<open>(p - start_) mod size\<close> as long as
  \<open>p - start_ < 2 * size\<close>; any other access is a \<^const>\<open>Memory_fault\<close>.
\<close>

section \<open>State and operations\<close>

record ringbuf_header =
  rb_version :: u64
  rb_size :: u64
  rb_head :: u64
  rb_tail :: u64
  rb_pid :: int
  rb_type :: u64
  rb_clockid :: int

record shm_ringbuf =
  rb_header :: ringbuf_header
  rb_start :: u64
  rb_mem :: "byte list"

definition RINGBUF_VERSION :: u64 where
  "RINGBUF_VERSION = 2"

datatype RingbufMeasurementType = UNSET | GPU | OPENMP

fun measurement_type_code :: "RingbufMeasurementType \<Rightarrow> u64" where
  "measurement_type_code UNSET = 0"
| "measurement_type_code GPU = 1"
| "measurement_type_code OPENMP = 2"

abbreviation set_head :: "shm_ringbuf \<Rightarrow> u64 \<Rightarrow> shm_ringbuf" where
  "set_head rb h \<equiv> rb\<lparr>rb_header := (rb_header rb)\<lparr>rb_head := h\<rparr>\<rparr>"

abbreviation set_tail :: "shm_ringbuf \<Rightarrow> u64 \<Rightarrow> shm_ringbuf" where
  "set_tail rb t \<equiv> rb\<lparr>rb_header := (rb_header rb)\<lparr>rb_tail := t\<rparr>\<rparr>"

abbreviation hsize :: "shm_ringbuf \<Rightarrow> u64" where
  "hsize rb \<equiv> rb_size (rb_header rb)"

abbreviation hhead :: "shm_ringbuf \<Rightarrow> u64" where
  "hhead rb \<equiv> rb_head (rb_header rb)"

abbreviation htail :: "shm_ringbuf \<Rightarrow> u64" where
  "htail rb \<equiv> rb_tail (rb_header rb)"

text \<open>
  \<^verbatim>\<open>ShmRingbuf::ShmRingbuf\<close>: \<open>file\<close> is the header page and data of the shared memory file; the
  three \<open>mmap\<close> results (header page, double-size area, second half) are arguments, \<open>None\<close> being
  \<^verbatim>\<open>MAP_FAILED\<close> with the given errno.
\<close>

definition shm_ringbuf_new ::
    "u64 option \<Rightarrow> u64 option \<Rightarrow> u64 option \<Rightarrow> int \<Rightarrow> u64 \<Rightarrow> ringbuf_header \<Rightarrow> byte list
      \<Rightarrow> shm_ringbuf result" where
  "shm_ringbuf_new m0 m1 m2 errno pagesize hdr data =
    (case m0 of None \<Rightarrow> Inl (System_error errno) | Some _ \<Rightarrow>
      if rb_version hdr \<noteq> RINGBUF_VERSION
      then Inl (Runtime_error ''Incompatible Ringbuffer Version'')
      else case m1 of None \<Rightarrow> Inl (System_error errno) | Some base \<Rightarrow>
        (case m2 of None \<Rightarrow> Inl (System_error errno) | Some _ \<Rightarrow>
          Inr \<lparr>rb_header = hdr, rb_start = base + pagesize, rb_mem = data\<rparr>))"

definition shm_head :: "shm_ringbuf \<Rightarrow> u64 \<Rightarrow> u64 option result" where
  "shm_head rb size0 =
    (let ev_size = align8 size0; head = hhead rb; tail = htail rb in
     sum_bind (cpp_assert (tail mod 8 = 0)) (\<lambda>_.
     sum_bind (cpp_assert (head mod 8 = 0)) (\<lambda>_.
       if head \<ge> tail \<and> head + ev_size > tail + hsize rb then Inr None
       else if \<not> head \<ge> tail \<and> head + ev_size \<ge> tail then Inr None
       else let res = rb_start rb + head in
         if res mod 8 \<noteq> 0 then Inl (Runtime_error ''Got non-aligned tail!'')
         else Inr (Some res))))"

definition can_be_loaded :: "shm_ringbuf \<Rightarrow> u64 \<Rightarrow> bool result" where
  "can_be_loaded rb size0 =
    (let ev_size = align8 size0; head = hhead rb; tail = htail rb in
     sum_bind (cpp_assert (tail mod 8 = 0)) (\<lambda>_.
     sum_bind (cpp_assert (head mod 8 = 0)) (\<lambda>_.
       if tail \<le> head then Inr (tail + ev_size \<le> head)
       else Inr (tail + ev_size \<le> head + hsize rb))))"

definition shm_tail :: "shm_ringbuf \<Rightarrow> u64 \<Rightarrow> u64 option result" where
  "shm_tail rb size0 =
    (let ev_size = align8 size0 in
     sum_bind (can_be_loaded rb ev_size) (\<lambda>ok.
       if \<not> ok then Inr None
       else let res = rb_start rb + htail rb in
         if res mod 8 \<noteq> 0 then Inl (Runtime_error ''Got non-aligned tail!'')
         else Inr (Some res)))"

definition advance_head :: "shm_ringbuf \<Rightarrow> u64 \<Rightarrow> shm_ringbuf result" where
  "advance_head rb size0 =
    (let ev_size = align8 size0 in
     if hsize rb = 0 then Inl Division_by_zero
     else Inr (set_head rb ((hhead rb + ev_size) mod hsize rb)))"

definition advance_tail :: "shm_ringbuf \<Rightarrow> u64 \<Rightarrow> shm_ringbuf result" where
  "advance_tail rb size0 =
    (let ev_size = align8 size0 in
     sum_bind (can_be_loaded rb ev_size) (\<lambda>ok.
     sum_bind (cpp_assert ok) (\<lambda>_.
     sum_bind (cpp_assert ((htail rb + ev_size) mod 8 = 0)) (\<lambda>_.
       if hsize rb = 0 then Inl Division_by_zero
       else Inr (set_tail rb ((htail rb + ev_size) mod hsize rb))))))"

text \<open>Loads and stores through a pointer into the doubly mapped area.\<close>

definition rb_load :: "shm_ringbuf \<Rightarrow> u64 \<Rightarrow> nat \<Rightarrow> byte list result" where
  "rb_load rb p len =
    (let off = unat (p - rb_start rb) in
     if off + len \<le> 2 * length (rb_mem rb) then Inr (read_ring (rb_mem rb) off len)
     else Inl Memory_fault)"

definition rb_store :: "shm_ringbuf \<Rightarrow> u64 \<Rightarrow> byte list \<Rightarrow> shm_ringbuf result" where
  "rb_store rb p bs =
    (let off = unat (p - rb_start rb) in
     if off + length bs \<le> 2 * length (rb_mem rb)
     then Inr (rb\<lparr>rb_mem := write_ring (rb_mem rb) off bs\<rparr>)
     else Inl Memory_fault)"

subsection \<open>The reader\<close>

definition event_header_size :: u64 where
  "event_header_size = 16"

text \<open>
  \<^verbatim>\<open>RingbufReader::RingbufReader\<close>: \<open>fd\<close> is the result of \<open>memfd_create\<close> and \<open>truncated\<close>
  tells whether \<open>ftruncate\<close> succeeded. The size is computed in a C \<open>int\<close>; a page size for which
  that overflows does not exist on Linux, so the product is the one of the mathematical integers.
\<close>

definition ringbuf_reader_new ::
    "int \<Rightarrow> bool \<Rightarrow> u64 option \<Rightarrow> u64 option \<Rightarrow> u64 option \<Rightarrow> int \<Rightarrow> nat \<Rightarrow> int \<Rightarrow> shm_ringbuf result" where
  "ringbuf_reader_new fd truncated m0 m1 m2 errno pagesize clockid =
    (let size = pagesize * 16 in
     if fd = -1 then Inl (System_error errno)
     else if \<not> truncated then Inl (System_error errno)
     else if m0 = None then Inl (System_error errno)
     else let hdr = \<lparr>rb_version = RINGBUF_VERSION, rb_size = word_of_nat size, rb_head = 0,
                     rb_tail = 0, rb_pid = 0, rb_type = 0, rb_clockid = 0\<rparr> in
       sum_bind (shm_ringbuf_new m0 m1 m2 errno (word_of_nat pagesize) hdr (replicate size 0))
         (\<lambda>rb. Inr (rb\<lparr>rb_header := (rb_header rb)\<lparr>rb_clockid := clockid\<rparr>\<rparr>)))"

definition reader_empty :: "shm_ringbuf \<Rightarrow> bool result" where
  "reader_empty rb = sum_bind (shm_tail rb event_header_size) (\<lambda>h. Inr (h = None))"

definition get_top_event_type :: "shm_ringbuf \<Rightarrow> u64 result" where
  "get_top_event_type rb =
    sum_bind (shm_tail rb event_header_size) (\<lambda>h. case h of
      None \<Rightarrow> Inl (Runtime_error ''get_top_event_type called without checking empty first!'')
    | Some p \<Rightarrow> sum_bind (rb_load rb (p + 8) 8) (\<lambda>bs. Inr (rd64 bs)))"

definition reader_get :: "shm_ringbuf \<Rightarrow> u64 option result" where
  "reader_get rb =
    sum_bind (shm_tail rb event_header_size) (\<lambda>h. case h of
      None \<Rightarrow> Inr None
    | Some p \<Rightarrow> sum_bind (rb_load rb p 8) (\<lambda>bs. shm_tail rb (rd64 bs)))"

definition reader_pop :: "shm_ringbuf \<Rightarrow> shm_ringbuf result" where
  "reader_pop rb =
    sum_bind (shm_tail rb event_header_size) (\<lambda>h. case h of
      None \<Rightarrow> Inr rb
    | Some p \<Rightarrow> sum_bind (rb_load rb p 8) (\<lambda>bs. advance_tail rb (rd64 bs)))"

subsection \<open>The writer\<close>

record ringbuf_writer =
  rw_rb :: shm_ringbuf
  reserved_size :: u64

text \<open>
  \<^verbatim>\<open>RingbufWriter::reserve<T>(payload)\<close>, with \<open>sizeof(T)\<close> as an argument; the result is the
  pointer (or \<open>nullptr\<close>) and the writer with the zeroed event whose header holds its size.
\<close>

definition reserve :: "ringbuf_writer \<Rightarrow> u64 \<Rightarrow> u64 \<Rightarrow> (u64 option \<times> ringbuf_writer) result" where
  "reserve w sizeof_T payload =
    sum_bind (cpp_assert (reserved_size w = 0)) (\<lambda>_.
     let ev_size = sizeof_T + payload in
     sum_bind (shm_head (rw_rb w) ev_size) (\<lambda>h. case h of
       None \<Rightarrow> Inr (None, w)
     | Some p \<Rightarrow>
        sum_bind (rb_store (rw_rb w) p (replicate (unat ev_size) 0)) (\<lambda>rb1.
        sum_bind (rb_store rb1 p (le64 ev_size)) (\<lambda>rb2.
          Inr (Some p, w\<lparr>rw_rb := rb2, reserved_size := ev_size\<rparr>)))))"

definition commit :: "ringbuf_writer \<Rightarrow> ringbuf_writer result" where
  "commit w =
    sum_bind (cpp_assert (reserved_size w \<noteq> 0)) (\<lambda>_.
    sum_bind (advance_head (rw_rb w) (reserved_size w)) (\<lambda>rb.
      Inr (w\<lparr>rw_rb := rb, reserved_size := 0\<rparr>)))"

text \<open>A client store into the reserved event, \<open>off\<close> bytes after its start.\<close>

definition writer_store :: "ringbuf_writer \<Rightarrow> u64 \<Rightarrow> u64 \<Rightarrow> byte list \<Rightarrow> ringbuf_writer result" where
  "writer_store w p off bs =
    sum_bind (rb_store (rw_rb w) (p + off) bs) (\<lambda>rb. Inr (w\<lparr>rw_rb := rb\<rparr>))"

definition writer_timestamp :: "nat \<Rightarrow> nat \<Rightarrow> u64" where
  "writer_timestamp tv_sec tv_nsec = word_of_nat tv_sec * 1000000000 + word_of_nat tv_nsec"

section \<open>Well-formed buffers and their fill level\<close>

definition rb_valid :: "shm_ringbuf \<Rightarrow> bool" where
  "rb_valid rb \<longleftrightarrow>
    length (rb_mem rb) = unat (hsize rb) \<and> 0 < unat (hsize rb) \<and> 8 dvd unat (hsize rb) \<and>
    unat (hsize rb) \<le> 2 ^ 62 \<and>
    unat (hhead rb) < unat (hsize rb) \<and> 8 dvd unat (hhead rb) \<and>
    unat (htail rb) < unat (hsize rb) \<and> 8 dvd unat (htail rb) \<and>
    8 dvd unat (rb_start rb) \<and> unat (rb_start rb) + 2 * unat (hsize rb) < 2 ^ 64"

definition used :: "shm_ringbuf \<Rightarrow> nat" where
  "used rb = ring_dist (unat (hsize rb)) (unat (htail rb)) (unat (hhead rb))"

lemma rb_validD:
  assumes "rb_valid rb"
  shows "length (rb_mem rb) = unat (hsize rb)" "0 < unat (hsize rb)" "8 dvd unat (hsize rb)"
    "unat (hsize rb) \<le> 2 ^ 62" "unat (hhead rb) < unat (hsize rb)" "8 dvd unat (hhead rb)"
    "unat (htail rb) < unat (hsize rb)" "8 dvd unat (htail rb)" "8 dvd unat (rb_start rb)"
    "unat (rb_start rb) + 2 * unat (hsize rb) < 2 ^ 64"
  using assms by (auto simp: rb_valid_def)

lemma used_eq:
  assumes "rb_valid rb"
  shows "used rb = (if htail rb \<le> hhead rb then unat (hhead rb) - unat (htail rb)
                    else unat (hhead rb) + unat (hsize rb) - unat (htail rb))"
  using rb_validD[OF assms]
  by (auto simp: used_def ring_dist_def word_le_nat_alt mod_if)

lemma used_less: "rb_valid rb \<Longrightarrow> used rb < unat (hsize rb)"
  by (simp add: used_def ring_dist_def rb_validD)

lemma used_dvd: "rb_valid rb \<Longrightarrow> 8 dvd used rb"
  by (auto simp: used_eq rb_validD intro!: dvd_diff_nat)

lemma head_eq_tail_used:
  assumes "rb_valid rb"
  shows "unat (hhead rb) = (unat (htail rb) + used rb) mod unat (hsize rb)"
  using rb_validD[OF assms] by (auto simp: used_eq[OF assms] word_le_nat_alt mod_if)

lemma u64_mod8_iff: "(w :: u64) mod 8 = 0 \<longleftrightarrow> 8 dvd unat w"
  by (simp add: unat_eq_0[symmetric] unat_mod dvd_eq_mod_eq_0 del: unat_eq_0 word_mod_no)

lemma unat_add_small:
  "unat (a :: u64) + unat b < 2 ^ 64 \<Longrightarrow> unat (a + b) = unat a + unat b"
  by (simp add: unat_word_ariths)

lemma unat_align8_small: "unat (x :: u64) \<le> 2 ^ 62 \<Longrightarrow> unat (align8 x) = up8 (unat x)"
  by (rule unat_align8) simp

lemma up8_small: "n \<le> 2 ^ 62 \<Longrightarrow> up8 n \<le> 2 ^ 62"
  using up8_mono[of n "2 ^ 62"] by (simp add: up8_id)

lemma valid_mod8:
  "rb_valid rb \<Longrightarrow> hhead rb mod 8 = 0" "rb_valid rb \<Longrightarrow> htail rb mod 8 = 0"
  by (simp_all only: u64_mod8_iff rb_validD)

text \<open>The guards of the C++ code, restated on the fill level.\<close>

lemma can_be_loaded_eq:
  assumes v: "rb_valid rb" and s: "unat s \<le> 2 ^ 62"
  shows "can_be_loaded rb s = Inr (up8 (unat s) \<le> used rb)"
proof -
  have u: "up8 (unat s) \<le> 2 ^ 62"
    using s by (rule up8_small)
  have t: "unat (htail rb + align8 s) = unat (htail rb) + up8 (unat s)"
    using u rb_validD(4,7)[OF v] by (subst unat_add_small) (auto simp: unat_align8_small[OF s])
  have h: "unat (hhead rb + hsize rb) = unat (hhead rb) + unat (hsize rb)"
    using rb_validD(4,5)[OF v] by (subst unat_add_small) auto
  show ?thesis
    using rb_validD(5,7)[OF v]
    by (auto simp: can_be_loaded_def Let_def valid_mod8[OF v] used_eq[OF v] word_le_nat_alt t h)
qed

lemma ptr_aligned:
  assumes "rb_valid rb" "unat x < unat (hsize rb)" "8 dvd unat x"
  shows "(rb_start rb + x) mod 8 = 0"
proof -
  have "unat (rb_start rb + x) = unat (rb_start rb) + unat x"
    using rb_validD(10)[OF assms(1)] assms(2) by (intro unat_add_small) linarith
  then show ?thesis
    using assms rb_validD(9)[OF assms(1)] by (simp only: u64_mod8_iff dvd_add)
qed

lemma shm_tail_eq:
  assumes v: "rb_valid rb" and s: "unat s \<le> 2 ^ 62"
  shows "shm_tail rb s =
    Inr (if up8 (unat s) \<le> used rb then Some (rb_start rb + htail rb) else None)"
proof -
  have "unat (align8 s) \<le> 2 ^ 62"
    using up8_small[OF s] by (simp add: unat_align8_small[OF s])
  from can_be_loaded_eq[OF v this]
  have "can_be_loaded rb (align8 s) = Inr (up8 (unat s) \<le> used rb)"
    by (simp add: unat_align8_small[OF s])
  then show ?thesis
    using ptr_aligned[OF v rb_validD(7,8)[OF v]] by (simp add: shm_tail_def Let_def)
qed

lemma shm_head_eq:
  assumes v: "rb_valid rb" and s: "unat s \<le> 2 ^ 62"
  shows "shm_head rb s =
    Inr (if (if htail rb \<le> hhead rb then used rb + up8 (unat s) \<le> unat (hsize rb)
             else used rb + up8 (unat s) < unat (hsize rb))
         then Some (rb_start rb + hhead rb) else None)"
proof -
  have u: "up8 (unat s) \<le> 2 ^ 62"
    using s by (rule up8_small)
  have h: "unat (hhead rb + align8 s) = unat (hhead rb) + up8 (unat s)"
    using u rb_validD(4,5)[OF v] by (subst unat_add_small) (auto simp: unat_align8_small[OF s])
  have t: "unat (htail rb + hsize rb) = unat (htail rb) + unat (hsize rb)"
    using rb_validD(4,7)[OF v] by (subst unat_add_small) auto
  have a: "(rb_start rb + hhead rb) mod 8 = 0"
    using ptr_aligned[OF v rb_validD(5,6)[OF v]] .
  show ?thesis
    using rb_validD(5,7)[OF v]
    by (auto simp: shm_head_def Let_def valid_mod8[OF v] used_eq[OF v] word_le_nat_alt
        word_less_nat_alt t h a)
qed

text \<open>Moving the head or the tail keeps the buffer well formed and shifts the fill level.\<close>

lemma unat_advance:
  assumes v: "rb_valid rb" and s: "unat s \<le> 2 ^ 62" and x: "unat x < unat (hsize rb)"
  shows "unat ((x + align8 s) mod hsize rb) = (unat x + up8 (unat s)) mod unat (hsize rb)"
proof -
  have "unat (x + align8 s) = unat x + up8 (unat s)"
    using x up8_small[OF s] rb_validD(4)[OF v]
    by (subst unat_add_small) (auto simp: unat_align8_small[OF s])
  then show ?thesis by (simp add: unat_mod)
qed

lemma dvd_advance:
  assumes "rb_valid rb" "8 dvd unat (x :: u64)"
  shows "8 dvd (unat x + up8 k) mod unat (hsize rb)"
  using assms by (simp add: dvd_mod rb_validD up8_bounds)

lemma advance_head_eq:
  assumes v: "rb_valid rb" and s: "unat s \<le> 2 ^ 62"
  obtains rb' where "advance_head rb s = Inr rb'" "rb_valid rb'" "rb_mem rb' = rb_mem rb"
    "rb_start rb' = rb_start rb" "hsize rb' = hsize rb" "htail rb' = htail rb"
    "used rb' = (used rb + up8 (unat s)) mod unat (hsize rb)"
proof -
  let ?h = "(hhead rb + align8 s) mod hsize rb" and ?n = "unat (hsize rb)"
  let ?rb = "set_head rb ?h"
  have nz: "hsize rb \<noteq> 0"
    using rb_validD(2)[OF v] by auto
  have h: "unat ?h = (unat (hhead rb) + up8 (unat s)) mod ?n"
    using unat_advance[OF v s rb_validD(5)[OF v]] .
  have "rb_valid ?rb"
    using v h dvd_advance[OF v rb_validD(6)[OF v], of "unat s"] by (simp add: rb_valid_def)
  moreover have "used ?rb = (used rb + up8 (unat s)) mod ?n"
  proof -
    have "((a + k) mod ?n + c) mod ?n = ((a + c) mod ?n + k) mod ?n" for a k c :: nat
      by (simp only: mod_add_left_eq) (simp add: ac_simps)
    then show ?thesis by (simp add: used_def ring_dist_def h)
  qed
  moreover have "advance_head rb s = Inr ?rb"
    using nz by (simp add: advance_head_def Let_def)
  ultimately show thesis by (intro that[of ?rb]) simp_all
qed

lemma advance_tail_eq:
  assumes v: "rb_valid rb" and s: "unat s \<le> 2 ^ 62" and l: "up8 (unat s) \<le> used rb"
  obtains rb' where "advance_tail rb s = Inr rb'" "rb_valid rb'" "rb_mem rb' = rb_mem rb"
    "rb_start rb' = rb_start rb" "hsize rb' = hsize rb" "hhead rb' = hhead rb"
    "used rb' = used rb - up8 (unat s)"
    "unat (htail rb') = (unat (htail rb) + up8 (unat s)) mod unat (hsize rb)"
proof -
  let ?t = "(htail rb + align8 s) mod hsize rb" and ?n = "unat (hsize rb)"
  let ?rb = "set_tail rb ?t"
  have s': "unat (align8 s) \<le> 2 ^ 62"
    using up8_small[OF s] by (simp add: unat_align8_small[OF s])
  have nz: "hsize rb \<noteq> 0"
    using rb_validD(2)[OF v] by auto
  have t: "unat ?t = (unat (htail rb) + up8 (unat s)) mod ?n"
    using unat_advance[OF v s rb_validD(7)[OF v]] .
  have v': "rb_valid ?rb"
    using v t dvd_advance[OF v rb_validD(8)[OF v], of "unat s"] by (simp add: rb_valid_def)
  have "ring_dist ?n (unat ?t) (unat (hhead rb)) = used rb - up8 (unat s)"
  proof (subst ring_dist_unique[symmetric])
    have "(unat ?t + (used rb - up8 (unat s))) mod ?n = (unat (htail rb) + used rb) mod ?n"
      unfolding t mod_add_left_eq using l by simp
    then show "(unat ?t + (used rb - up8 (unat s))) mod ?n = unat (hhead rb)"
      using head_eq_tail_used[OF v] by simp
  qed (use rb_validD(5)[OF v] used_less[OF v] in auto)
  then have u: "used ?rb = used rb - up8 (unat s)"
    by (simp add: used_def)
  have "(htail rb + align8 s) mod 8 = 0"
  proof -
    have "unat (htail rb + align8 s) = unat (htail rb) + up8 (unat s)"
      using l used_less[OF v] rb_validD(4,7)[OF v]
      by (subst unat_add_small) (auto simp: unat_align8_small[OF s])
    then show ?thesis
      using rb_validD(8)[OF v] by (simp only: u64_mod8_iff dvd_add up8_bounds)
  qed
  then have "advance_tail rb s = Inr ?rb"
    using nz l can_be_loaded_eq[OF v s'] by (simp add: advance_tail_def Let_def unat_align8_small[OF s])
  with v' u t show thesis by (intro that[of ?rb]) simp_all
qed

section \<open>The events in a buffer\<close>

text \<open>
  The abstract content of a buffer is the list of events between tail and head. An event is a byte
  string that starts with an \<^verbatim>\<open>event_header\<close>: eight bytes for its size, eight for its type.
\<close>

definition event_ok :: "byte list \<Rightarrow> bool" where
  "event_ok e \<longleftrightarrow> 16 \<le> length e \<and> rd64 (take 8 e) = word_of_nat (length e)"

definition occ :: "byte list list \<Rightarrow> nat" where
  "occ es = sum_list (map (\<lambda>e. up8 (length e)) es)"

fun stored :: "byte list \<Rightarrow> nat \<Rightarrow> byte list list \<Rightarrow> bool" where
  "stored m pos [] = True"
| "stored m pos (e # es) = (read_ring m pos (length e) = e \<and> stored m (pos + up8 (length e)) es)"

function parse_events :: "byte list \<Rightarrow> nat \<Rightarrow> nat \<Rightarrow> byte list list" where
  "parse_events m pos len =
    (let s = unat (rd64 (read_ring m pos 8)) in
     if s < 16 \<or> len < up8 s then []
     else read_ring m pos s # parse_events m (pos + up8 s) (len - up8 s))"
  by pat_completeness auto
termination
proof (relation "measure (\<lambda>(m, pos, len). len)")
  fix m :: "byte list" and pos len s
  assume "s = unat (rd64 (read_ring m pos 8))" "\<not> (s < 16 \<or> len < up8 s)"
  moreover have "s \<le> up8 s" by (rule up8_bounds)
  ultimately show "((m, pos + up8 s, len - up8 s), m, pos, len) \<in> measure (\<lambda>(m, pos, len). len)"
    by simp
qed simp

declare parse_events.simps [simp del]

definition rb_events :: "shm_ringbuf \<Rightarrow> byte list list" where
  "rb_events rb = parse_events (rb_mem rb) (unat (htail rb)) (used rb)"

definition rb_inv :: "shm_ringbuf \<Rightarrow> bool" where
  "rb_inv rb \<longleftrightarrow> rb_valid rb \<and> occ (rb_events rb) = used rb"

lemma occ_simps [simp]:
  "occ [] = 0" "occ (e # es) = up8 (length e) + occ es" "occ (es @ fs) = occ es + occ fs"
  by (simp_all add: occ_def)

lemma stored_append:
  "stored m pos (es @ fs) \<longleftrightarrow> stored m pos es \<and> stored m (pos + occ es) fs"
  by (induction m pos es rule: stored.induct) (auto simp: add.assoc)

lemma stored_mod: "stored m (pos mod length m) es = stored m pos es"
proof (induction es arbitrary: pos)
  case (Cons e es)
  have "stored m (pos mod length m + k) es = stored m (pos + k) es" for k
    using Cons.IH[of "pos mod length m + k"] Cons.IH[of "pos + k"] by (simp add: mod_add_left_eq)
  then show ?case by (simp add: read_ring_mod)
qed simp

lemma stored_cong_mod: "a mod length m = b mod length m \<Longrightarrow> stored m a es = stored m b es"
  by (metis stored_mod)

lemma event_ok_len_occ: "\<forall>e \<in> set es. event_ok e \<Longrightarrow> e \<in> set es \<Longrightarrow> length e \<le> occ es"
proof (induction es)
  case (Cons a es)
  then show ?case using up8_bounds(1)[of "length a"] by auto
qed simp

lemma stored_parse:
  assumes "stored m pos es" "\<forall>e \<in> set es. event_ok e" "occ es < 2 ^ 64"
  shows "parse_events m pos (occ es) = es"
  using assms
proof (induction m pos es rule: stored.induct)
  case (1 m pos)
  have "unat (rd64 (read_ring m pos 8)) < 16 \<or> 0 < up8 (unat (rd64 (read_ring m pos 8)))"
    using up8_bounds(1)[of "unat (rd64 (read_ring m pos 8))"] by linarith
  then show ?case by (subst parse_events.simps) (simp add: Let_def)
next
  case (2 m pos e es)
  let ?s = "unat (rd64 (read_ring m pos 8))"
  have e: "read_ring m pos (length e) = e" "event_ok e"
    using 2 by auto
  have "take 8 (read_ring m pos (length e)) = read_ring m pos 8"
    using e(2) by (intro take_read_ring) (simp add: event_ok_def)
  then have "read_ring m pos 8 = take 8 e"
    by (simp only: e(1))
  moreover have "length e < 2 ^ 64"
    using 2 up8_bounds(1)[of "length e"] by simp
  ultimately have s: "?s = length e"
    using e by (simp add: event_ok_def unat_of_nat)
  moreover have "16 \<le> length e"
    using e by (simp add: event_ok_def)
  ultimately show ?case
    using 2 e(1) by (simp add: parse_events.simps[of m pos "up8 (length e) + occ es"] Let_def)
qed

lemma parse_sound:
  "stored m pos (parse_events m pos len) \<and> (\<forall>e \<in> set (parse_events m pos len). event_ok e)"
proof (induction m pos len rule: parse_events.induct)
  case (1 m pos len)
  let ?s = "unat (rd64 (read_ring m pos 8))"
  show ?case
  proof (cases "?s < 16 \<or> len < up8 ?s")
    case True
    then show ?thesis by (simp add: parse_events.simps[of m pos len] Let_def)
  next
    case False
    then have "take 8 (read_ring m pos ?s) = read_ring m pos 8"
      by (intro take_read_ring) simp
    with False have "event_ok (read_ring m pos ?s)"
      by (simp add: event_ok_def)
    with False 1[OF refl False] show ?thesis
      by (simp add: parse_events.simps[of m pos len] Let_def)
  qed
qed

lemma rb_invD:
  assumes "rb_inv rb"
  shows "rb_valid rb" "stored (rb_mem rb) (unat (htail rb)) (rb_events rb)"
    "\<forall>e \<in> set (rb_events rb). event_ok e" "occ (rb_events rb) = used rb"
  using assms parse_sound[of "rb_mem rb" "unat (htail rb)" "used rb"]
  by (auto simp: rb_inv_def rb_events_def)

lemma rb_eventsI:
  assumes v: "rb_valid rb" and "stored (rb_mem rb) (unat (htail rb)) es"
    and "\<forall>e \<in> set es. event_ok e" and o: "occ es = used rb"
  shows "rb_inv rb \<and> rb_events rb = es"
proof -
  have "occ es < 2 ^ 64"
    using o used_less[OF v] rb_validD(4)[OF v] by simp
  then have "rb_events rb = es"
    using stored_parse[OF assms(2,3)] o by (simp add: rb_events_def)
  with v o show ?thesis by (simp add: rb_inv_def)
qed

lemma event_len_bound:
  assumes "rb_inv rb" "e \<in> set (rb_events rb)"
  shows "length e \<le> used rb" "length e < 2 ^ 62" "16 \<le> length e"
proof -
  show l: "length e \<le> used rb"
    using event_ok_len_occ[OF rb_invD(3)[OF assms(1)] assms(2)] rb_invD(4)[OF assms(1)] by simp
  then show "length e < 2 ^ 62"
    using used_less rb_validD(4) rb_invD(1)[OF assms(1)] by (meson le_less_trans less_le_trans)
  show "16 \<le> length e"
    using rb_invD(3)[OF assms(1)] assms(2) by (simp add: event_ok_def)
qed

lemma rb_load_at:
  assumes "rb_valid rb" "unat x + len \<le> 2 * unat (hsize rb)"
  shows "rb_load rb (rb_start rb + x) len = Inr (read_ring (rb_mem rb) (unat x) len)"
  using assms by (simp add: rb_load_def rb_validD)

section \<open>The reader sees the first event\<close>

lemma reader_header:
  assumes "rb_inv rb"
  shows "shm_tail rb event_header_size =
    Inr (if rb_events rb = [] then None else Some (rb_start rb + htail rb))"
proof -
  have "up8 16 \<le> used rb \<longleftrightarrow> rb_events rb \<noteq> []"
  proof (cases "rb_events rb")
    case Nil
    then show ?thesis using rb_invD(4)[OF assms] by (simp add: up8_def)
  next
    case (Cons e es)
    then have "16 \<le> length e"
      using event_len_bound(3)[OF assms, of e] by simp
    then have "up8 16 \<le> up8 (length e)"
      by (rule up8_mono)
    then show ?thesis
      using Cons rb_invD(4)[OF assms] by simp
  qed
  then show ?thesis
    using shm_tail_eq[OF rb_invD(1)[OF assms], of event_header_size]
    by (auto simp: event_header_size_def)
qed

lemma first_event_size:
  assumes i: "rb_inv rb" and e: "rb_events rb = e # es"
  shows "rb_load rb (rb_start rb + htail rb) 8 = Inr (take 8 e)"
    "unat (rd64 (take 8 e)) = length e"
    "rb_load rb (rb_start rb + htail rb) (length e) = Inr e"
proof -
  have l: "length e \<le> used rb" "length e < 2 ^ 62" "16 \<le> length e"
    using event_len_bound[OF i, of e] e by auto
  have st: "read_ring (rb_mem rb) (unat (htail rb)) (length e) = e"
    using rb_invD(2)[OF i] e by simp
  have b: "unat (htail rb) + length e \<le> 2 * unat (hsize rb)"
    using l used_less[OF rb_invD(1)[OF i]] rb_validD(7)[OF rb_invD(1)[OF i]] by simp
  show "rb_load rb (rb_start rb + htail rb) (length e) = Inr e"
    using rb_load_at[OF rb_invD(1)[OF i] b] st by simp
  have "take 8 e = read_ring (rb_mem rb) (unat (htail rb)) 8"
    using take_read_ring[of 8 "length e" "rb_mem rb" "unat (htail rb)"] st l by simp
  then show "rb_load rb (rb_start rb + htail rb) 8 = Inr (take 8 e)"
    using rb_load_at[OF rb_invD(1)[OF i]] b l by simp
  have "event_ok e"
    using rb_invD(3)[OF i] e by simp
  then show "unat (rd64 (take 8 e)) = length e"
    using l by (simp add: event_ok_def unat_of_nat)
qed

lemma reader_empty_eq: "rb_inv rb \<Longrightarrow> reader_empty rb = Inr (rb_events rb = [])"
  by (simp add: reader_empty_def reader_header)

lemma reader_get_nil: "rb_inv rb \<Longrightarrow> rb_events rb = [] \<Longrightarrow> reader_get rb = Inr None"
  by (simp add: reader_get_def reader_header)

lemma reader_get_cons:
  assumes "rb_inv rb" "rb_events rb = e # es"
  shows "reader_get rb = Inr (Some (rb_start rb + htail rb))"
proof -
  have "up8 (length e) \<le> used rb"
    using rb_invD(4)[OF assms(1)] assms(2) by simp
  moreover have "length e \<le> 2 ^ 62"
    using event_len_bound(2)[OF assms(1), of e] assms(2) by simp
  ultimately show ?thesis
    using shm_tail_eq[OF rb_invD(1)[OF assms(1)], of "rd64 (take 8 e)"] assms
    by (simp add: reader_get_def reader_header first_event_size[OF assms])
qed

lemma get_top_event_type_cons:
  assumes i: "rb_inv rb" and e: "rb_events rb = e # es"
  shows "get_top_event_type rb = Inr (rd64 (take 8 (drop 8 e)))"
proof -
  have l: "16 \<le> length e" "length e \<le> used rb"
    using event_len_bound[OF i, of e] e by auto
  have v: "rb_valid rb" by (rule rb_invD(1)[OF i])
  have t: "unat (htail rb + 8) = unat (htail rb) + 8"
    using rb_validD(4,7)[OF v] by (subst unat_add_small) auto
  have "take 8 (drop 8 (read_ring (rb_mem rb) (unat (htail rb)) (length e)))
      = read_ring (rb_mem rb) (unat (htail rb) + 8) 8"
    using l by (simp add: drop_read_ring take_read_ring)
  then have "rb_load rb (rb_start rb + (htail rb + 8)) 8 = Inr (take 8 (drop 8 e))"
    using rb_load_at[OF v, of "htail rb + 8" 8] rb_invD(2)[OF i] e l used_less[OF v]
      rb_validD(7)[OF v] by (simp add: t)
  then show ?thesis
    using e by (simp add: get_top_event_type_def reader_header[OF i] add.assoc)
qed

lemma reader_pop_nil: "rb_inv rb \<Longrightarrow> rb_events rb = [] \<Longrightarrow> reader_pop rb = Inr rb"
  by (simp add: reader_pop_def reader_header)

lemma reader_pop_cons:
  assumes i: "rb_inv rb" and e: "rb_events rb = e # es"
  obtains rb' where "reader_pop rb = Inr rb'" "rb_inv rb'" "rb_events rb' = es"
    "rb_mem rb' = rb_mem rb" "rb_start rb' = rb_start rb" "hsize rb' = hsize rb"
    "hhead rb' = hhead rb" "used rb' = used rb - up8 (length e)"
proof -
  have v: "rb_valid rb" by (rule rb_invD(1)[OF i])
  have s: "unat (rd64 (take 8 e)) = length e"
    by (rule first_event_size(2)[OF i e])
  have len: "length e \<le> 2 ^ 62"
    using event_len_bound(2)[OF i, of e] e by simp
  have occ: "up8 (length e) + occ es = used rb"
    using rb_invD(4)[OF i] e by simp
  obtain rb' where rb': "advance_tail rb (rd64 (take 8 e)) = Inr rb'" "rb_valid rb'"
    "rb_mem rb' = rb_mem rb" "rb_start rb' = rb_start rb" "hsize rb' = hsize rb"
    "hhead rb' = hhead rb" "used rb' = used rb - up8 (length e)"
    "unat (htail rb') = (unat (htail rb) + up8 (length e)) mod unat (hsize rb)"
    using advance_tail_eq[OF v, of "rd64 (take 8 e)"] len occ unfolding s by auto
  have "stored (rb_mem rb') (unat (htail rb')) es"
    using rb_invD(2)[OF i] e rb'(3,8) rb_validD(1)[OF v] stored_mod[of "rb_mem rb"] by simp
  then have "rb_inv rb' \<and> rb_events rb' = es"
    using rb_invD(3)[OF i] e occ rb'(7) by (intro rb_eventsI[OF rb'(2)]) auto
  moreover have "reader_pop rb = Inr rb'"
    using e rb'(1) by (simp add: reader_pop_def reader_header[OF i] first_event_size[OF i e])
  ultimately show thesis using rb' by (intro that) auto
qed

section \<open>The writer\<close>

text \<open>
  The acceptance test of \<^const>\<open>shm_head\<close>. In the first case it is \<open>\<le>\<close>: an event may fill the
  buffer completely, after which head and tail coincide.
\<close>

definition has_space :: "shm_ringbuf \<Rightarrow> nat \<Rightarrow> bool" where
  "has_space rb n \<longleftrightarrow> (if htail rb \<le> hhead rb then used rb + up8 n \<le> unat (hsize rb)
                      else used rb + up8 n < unat (hsize rb))"

lemma has_space_le: "has_space rb n \<Longrightarrow> used rb + up8 n \<le> unat (hsize rb)"
  by (simp add: has_space_def split: if_splits)

lemma has_spaceI: "used rb + up8 n < unat (hsize rb) \<Longrightarrow> has_space rb n"
  by (simp add: has_space_def)

lemma stored_write:
  assumes "stored m pos es" "\<forall>e \<in> set es. event_ok e"
    "pos + occ es \<le> off" "off + length bs \<le> pos + length m"
  shows "stored (write_ring m off bs) pos es"
proof -
  have "stored (write_ring m off bs) p es"
    if "stored m p es" "pos \<le> p" "p + occ es \<le> off" for p
    using that
  proof (induction es arbitrary: p)
    case (Cons e es)
    then have "read_ring (write_ring m off bs) p (length e) = read_ring m p (length e)"
      using assms(4) up8_bounds(1)[of "length e"] by (intro read_write_ring_before) auto
    with Cons show ?case by simp
  qed simp
  with assms show ?thesis by simp
qed

text \<open>A store into the free part of the buffer does not disturb the events in it.\<close>

lemma write_free:
  assumes i: "rb_inv rb" and lo: "unat (hhead rb) \<le> off"
    and hi: "off + length bs \<le> unat (hhead rb) + (unat (hsize rb) - used rb)"
  defines "rb' \<equiv> rb\<lparr>rb_mem := write_ring (rb_mem rb) off bs\<rparr>"
  shows "rb_inv rb' \<and> rb_events rb' = rb_events rb"
proof (rule rb_eventsI)
  have v: "rb_valid rb" by (rule rb_invD(1)[OF i])
  show "rb_valid rb'"
    using v by (simp add: rb'_def rb_valid_def)
  have len: "length (rb_mem rb) = unat (hsize rb)"
    by (rule rb_validD(1)[OF v])
  define off' where "off' = unat (htail rb) + used rb + (off - unat (hhead rb))"
  have "off' mod length (rb_mem rb) = (unat (hhead rb) + (off - unat (hhead rb))) mod length (rb_mem rb)"
    using head_eq_tail_used[OF v] by (simp add: off'_def len mod_add_left_eq)
  then have "write_ring (rb_mem rb) off bs = write_ring (rb_mem rb) off' bs"
    using lo by (intro write_ring_cong_mod) simp
  moreover have "off' + length bs \<le> unat (htail rb) + length (rb_mem rb)"
    using hi lo len used_less[OF v] by (simp add: off'_def)
  ultimately show "stored (rb_mem rb') (unat (htail rb')) (rb_events rb)"
    using stored_write[OF rb_invD(2,3)[OF i], of off' bs] rb_invD(4)[OF i]
    by (simp add: rb'_def off'_def)
  show "\<forall>e \<in> set (rb_events rb). event_ok e"
    by (rule rb_invD(3)[OF i])
  show "occ (rb_events rb) = used rb'"
    using rb_invD(4)[OF i] by (simp add: rb'_def used_def)
qed

lemma rb_store_at:
  assumes "rb_valid rb" "unat x + length bs \<le> 2 * unat (hsize rb)"
  shows "rb_store rb (rb_start rb + x) bs = Inr (rb\<lparr>rb_mem := write_ring (rb_mem rb) (unat x) bs\<rparr>)"
  using assms by (simp add: rb_store_def rb_validD)

text \<open>
  The state between a successful \<open>reserve\<close> and the \<open>commit\<close>: the reserved event lies in the free
  part behind the head and its first eight bytes hold its size.
\<close>

definition writing :: "ringbuf_writer \<Rightarrow> bool" where
  "writing w \<longleftrightarrow>
    rb_inv (rw_rb w) \<and> 16 \<le> unat (reserved_size w) \<and> unat (reserved_size w) \<le> 2 ^ 62 \<and>
    used (rw_rb w) + up8 (unat (reserved_size w)) \<le> unat (hsize (rw_rb w)) \<and>
    read_ring (rb_mem (rw_rb w)) (unat (hhead (rw_rb w))) 8 = le64 (reserved_size w)"

text \<open>The event under construction.\<close>

definition draft :: "ringbuf_writer \<Rightarrow> byte list" where
  "draft w = read_ring (rb_mem (rw_rb w)) (unat (hhead (rw_rb w))) (unat (reserved_size w))"

lemma writingD:
  assumes "writing w"
  shows "rb_inv (rw_rb w)" "16 \<le> unat (reserved_size w)" "unat (reserved_size w) \<le> 2 ^ 62"
    "used (rw_rb w) + up8 (unat (reserved_size w)) \<le> unat (hsize (rw_rb w))"
    "read_ring (rb_mem (rw_rb w)) (unat (hhead (rw_rb w))) 8 = le64 (reserved_size w)"
  using assms by (simp_all add: writing_def)

lemma draft_event_ok: "writing w \<Longrightarrow> event_ok (draft w)"
  using take_read_ring[of 8 "unat (reserved_size w)" "rb_mem (rw_rb w)" "unat (hhead (rw_rb w))"]
  by (simp add: writing_def draft_def event_ok_def)

lemma reserve_full:
  assumes "rb_inv (rw_rb w)" "reserved_size w = 0" "unat (sizeof_T + payload) \<le> 2 ^ 62"
    "\<not> has_space (rw_rb w) (unat (sizeof_T + payload))"
  shows "reserve w sizeof_T payload = Inr (None, w)"
  using assms shm_head_eq[OF rb_invD(1)[OF assms(1)], of "sizeof_T + payload"]
  by (simp add: reserve_def Let_def has_space_def)

lemma reserve_ok:
  fixes sizeof_T payload :: u64
  defines "sz \<equiv> sizeof_T + payload"
  assumes i: "rb_inv (rw_rb w)" and r: "reserved_size w = 0"
    and sz: "16 \<le> unat sz" "unat sz \<le> 2 ^ 62" and sp: "has_space (rw_rb w) (unat sz)"
  obtains w' where
    "reserve w sizeof_T payload = Inr (Some (rb_start (rw_rb w) + hhead (rw_rb w)), w')"
    "writing w'" "reserved_size w' = sz" "rb_events (rw_rb w') = rb_events (rw_rb w)"
    "draft w' = le64 sz @ replicate (unat sz - 8) 0"
    "rb_header (rw_rb w') = rb_header (rw_rb w)" "rb_start (rw_rb w') = rb_start (rw_rb w)"
proof -
  let ?rb = "rw_rb w" and ?h = "unat (hhead (rw_rb w))"
  let ?m1 = "write_ring (rb_mem ?rb) ?h (replicate (unat sz) 0)"
  let ?m2 = "write_ring ?m1 ?h (le64 sz)"
  let ?rb1 = "?rb\<lparr>rb_mem := ?m1\<rparr>" and ?rb2 = "?rb\<lparr>rb_mem := ?m2\<rparr>"
  let ?w = "w\<lparr>rw_rb := ?rb2, reserved_size := sz\<rparr>"
  have v: "rb_valid ?rb" by (rule rb_invD(1)[OF i])
  have fit: "used ?rb + up8 (unat sz) \<le> unat (hsize ?rb)"
    using has_space_le[OF sp] .
  have le: "unat sz \<le> unat (hsize ?rb) - used ?rb"
    using fit up8_bounds(1)[of "unat sz"] by simp
  have len: "length (rb_mem ?rb) = unat (hsize ?rb)"
    by (rule rb_validD(1)[OF v])
  have i1: "rb_inv ?rb1 \<and> rb_events ?rb1 = rb_events ?rb"
    using write_free[OF i, of ?h "replicate (unat sz) 0"] le by simp
  then have v1: "rb_valid ?rb1" by (simp add: rb_inv_def)
  have i2: "rb_inv ?rb2 \<and> rb_events ?rb2 = rb_events ?rb"
    using write_free[of ?rb1 ?h "le64 sz"] i1 le sz by (simp add: used_def)
  have s1: "rb_store ?rb (rb_start ?rb + hhead ?rb) (replicate (unat sz) 0) = Inr ?rb1"
    using rb_validD(5)[OF v] le by (intro rb_store_at[OF v]) simp
  have s2: "rb_store ?rb1 (rb_start ?rb + hhead ?rb) (le64 sz) = Inr ?rb2"
    using rb_store_at[OF v1, of "hhead ?rb" "le64 sz"] rb_validD(5)[OF v] le sz by simp
  have res: "reserve w sizeof_T payload = Inr (Some (rb_start ?rb + hhead ?rb), ?w)"
    using sp r shm_head_eq[OF v sz(2)] s1 s2
    by (simp add: reserve_def Let_def sz_def[symmetric] has_space_def)
  have d1: "read_ring ?m1 ?h (unat sz) = replicate (unat sz) 0"
    using read_write_ring_same[of "replicate (unat sz) 0" "rb_mem ?rb" ?h] le len by simp
  have "read_ring ?m2 ?h (unat sz) = le64 sz @ drop 8 (replicate (unat sz) 0)"
    using read_write_ring_inside[of 0 "le64 sz" "unat sz" ?m1 ?h] sz le len d1 by simp
  then have dr: "draft ?w = le64 sz @ replicate (unat sz - 8) 0"
    by (simp add: draft_def)
  have "read_ring ?m2 ?h 8 = le64 sz"
    using read_write_ring_same[of "le64 sz" ?m1 ?h] sz le len by simp
  then have "writing ?w"
    using i2 sz fit by (simp add: writing_def used_def)
  with res dr i2 show thesis by (intro that[of ?w]) simp_all
qed

lemma writer_store_ok:
  assumes wr: "writing w" and off: "8 \<le> unat off" "unat off + length bs \<le> unat (reserved_size w)"
  obtains w' where
    "writer_store w (rb_start (rw_rb w) + hhead (rw_rb w)) off bs = Inr w'"
    "writing w'" "reserved_size w' = reserved_size w" "rb_events (rw_rb w') = rb_events (rw_rb w)"
    "draft w' = take (unat off) (draft w) @ bs @ drop (unat off + length bs) (draft w)"
    "rb_header (rw_rb w') = rb_header (rw_rb w)" "rb_start (rw_rb w') = rb_start (rw_rb w)"
proof -
  let ?rb = "rw_rb w" and ?h = "unat (hhead (rw_rb w))" and ?r = "unat (reserved_size w)"
  let ?m = "write_ring (rb_mem ?rb) (?h + unat off) bs"
  let ?w = "w\<lparr>rw_rb := ?rb\<lparr>rb_mem := ?m\<rparr>\<rparr>"
  have i: "rb_inv ?rb" by (rule writingD(1)[OF wr])
  have v: "rb_valid ?rb" by (rule rb_invD(1)[OF i])
  have le: "?r \<le> unat (hsize ?rb) - used ?rb"
    using writingD(4)[OF wr] up8_bounds(1)[of ?r] by simp
  have len: "length (rb_mem ?rb) = unat (hsize ?rb)"
    by (rule rb_validD(1)[OF v])
  have ho: "unat (hhead ?rb + off) = ?h + unat off"
    using off le rb_validD(4,5)[OF v] by (subst unat_add_small) auto
  have st: "writer_store w (rb_start ?rb + hhead ?rb) off bs = Inr ?w"
    using rb_store_at[OF v, of "hhead ?rb + off" bs] off le rb_validD(5)[OF v]
    by (simp add: writer_store_def ho add.assoc)
  have inv: "rb_inv (rw_rb ?w) \<and> rb_events (rw_rb ?w) = rb_events ?rb"
    using write_free[OF i, of "?h + unat off" bs] off le by simp
  have dr: "draft ?w = take (unat off) (draft w) @ bs @ drop (unat off + length bs) (draft w)"
    using read_write_ring_inside[of "unat off" bs ?r "rb_mem ?rb" ?h] off le len
    by (simp add: draft_def)
  have "read_ring ?m ?h 8 = read_ring (rb_mem ?rb) ?h 8"
    using off le len by (intro read_write_ring_before) simp_all
  then have "writing ?w"
    using wr inv by (simp add: writing_def used_def)
  with st inv dr show thesis by (intro that[of ?w]) simp_all
qed

lemma commit_ok:
  assumes wr: "writing w"
  obtains w' where "commit w = Inr w'" "rb_inv (rw_rb w')" "reserved_size w' = 0"
    "rb_events (rw_rb w') =
      (if used (rw_rb w) + up8 (unat (reserved_size w)) = unat (hsize (rw_rb w)) then []
       else rb_events (rw_rb w) @ [draft w])"
    "rb_start (rw_rb w') = rb_start (rw_rb w)" "hsize (rw_rb w') = hsize (rw_rb w)"
    "htail (rw_rb w') = htail (rw_rb w)"
proof -
  let ?rb = "rw_rb w" and ?r = "unat (reserved_size w)"
  have i: "rb_inv ?rb" by (rule writingD(1)[OF wr])
  have v: "rb_valid ?rb" by (rule rb_invD(1)[OF i])
  obtain rb' where rb': "advance_head ?rb (reserved_size w) = Inr rb'" "rb_valid rb'"
    "rb_mem rb' = rb_mem ?rb" "rb_start rb' = rb_start ?rb" "hsize rb' = hsize ?rb"
    "htail rb' = htail ?rb" "used rb' = (used ?rb + up8 ?r) mod unat (hsize ?rb)"
    using advance_head_eq[OF v writingD(3)[OF wr]] by blast
  let ?es = "if used ?rb + up8 ?r = unat (hsize ?rb) then [] else rb_events ?rb @ [draft w]"
  have "rb_inv rb' \<and> rb_events rb' = ?es"
  proof (cases "used ?rb + up8 ?r = unat (hsize ?rb)")
    case True
    with rb' show ?thesis by (intro rb_eventsI) simp_all
  next
    case False
    with writingD(4)[OF wr] have lt: "used ?rb + up8 ?r < unat (hsize ?rb)" by simp
    have "read_ring (rb_mem ?rb) (unat (htail ?rb) + used ?rb) ?r = draft w"
      unfolding draft_def using head_eq_tail_used[OF v] rb_validD(1,5)[OF v]
      by (intro read_ring_cong_mod) simp
    with lt rb' draft_event_ok[OF wr] rb_invD[OF i] False show ?thesis
      by (intro rb_eventsI) (auto simp: stored_append draft_def)
  qed
  moreover have "reserved_size w \<noteq> 0"
    using writingD(2)[OF wr] by auto
  then have "commit w = Inr (w\<lparr>rw_rb := rb', reserved_size := 0\<rparr>)"
    using rb'(1) by (simp add: commit_def)
  ultimately show thesis using rb' by (intro that[of "w\<lparr>rw_rb := rb', reserved_size := 0\<rparr>"]) simp_all
qed

end
