(* ===== verification/Fifo_Spec.thy ===== *)
theory Fifo_Spec
  imports Main
begin

text \<open>
  What a producer and a consumer expect of a bounded event channel: an event that is accepted while
  it fits is appended, the consumer sees the oldest event, and removing it removes nothing else. The
  consequence proved here once is lossless in-order delivery for every interleaving of the two
  sides.
\<close>

datatype 'e channel_op = Put 'e | Take

text \<open>
  A run of a channel: the events the producer was told to be accepted, the events the consumer took,
  and the final state. \<open>put\<close> answers \<open>None\<close> when it refuses the event.
\<close>

fun channel_run ::
    "('e \<Rightarrow> 's \<Rightarrow> 's option) \<Rightarrow> ('s \<Rightarrow> 'e option) \<Rightarrow> ('s \<Rightarrow> 's) \<Rightarrow> 's \<Rightarrow> 'e channel_op list
      \<Rightarrow> 'e list \<times> 'e list \<times> 's" where
  "channel_run put peek pop s [] = ([], [], s)"
| "channel_run put peek pop s (Put e # ops) =
    (case put e s of
       None \<Rightarrow> channel_run put peek pop s ops
     | Some s' \<Rightarrow> (case channel_run put peek pop s' ops of (acc, rcv, t) \<Rightarrow> (e # acc, rcv, t)))"
| "channel_run put peek pop s (Take # ops) =
    (case peek s of
       None \<Rightarrow> channel_run put peek pop s ops
     | Some e \<Rightarrow> (case channel_run put peek pop (pop s) ops of (acc, rcv, t) \<Rightarrow> (acc, e # rcv, t)))"

locale fifo_channel =
  fixes content :: "'s \<Rightarrow> 'e list"
    and invar :: "'s \<Rightarrow> bool"
    and put :: "'e \<Rightarrow> 's \<Rightarrow> 's option"
    and peek :: "'s \<Rightarrow> 'e option"
    and pop :: "'s \<Rightarrow> 's"
  assumes put_content: "invar s \<Longrightarrow> put e s = Some s' \<Longrightarrow> content s' = content s @ [e]"
    and put_invar: "invar s \<Longrightarrow> put e s = Some s' \<Longrightarrow> invar s'"
    and peek_content: "invar s \<Longrightarrow> peek s = (case content s of [] \<Rightarrow> None | e # _ \<Rightarrow> Some e)"
    and pop_content: "invar s \<Longrightarrow> content s \<noteq> [] \<Longrightarrow> content (pop s) = tl (content s)"
    and pop_invar: "invar s \<Longrightarrow> content s \<noteq> [] \<Longrightarrow> invar (pop s)"
begin

lemma run_fifo:
  "invar s \<Longrightarrow> channel_run put peek pop s ops = (acc, rcv, t) \<Longrightarrow>
    invar t \<and> content s @ acc = rcv @ content t"
proof (induction ops arbitrary: s acc rcv)
  case Nil
  then show ?case by simp
next
  case (Cons c ops)
  show ?case
  proof (cases c)
    case (Put e)
    show ?thesis
    proof (cases "put e s")
      case None
      with Put Cons show ?thesis by simp
    next
      case (Some s')
      with Put Cons.prems obtain acc' where
        "channel_run put peek pop s' ops = (acc', rcv, t)" "acc = e # acc'"
        by (auto split: prod.splits)
      with Some Cons.IH[of s' acc' rcv] Cons.prems(1) show ?thesis
        using put_content[of s e s'] put_invar[of s e s'] by simp
    qed
  next
    case Take
    show ?thesis
    proof (cases "content s")
      case Nil
      with Cons.prems Cons.IH[of s acc rcv] Take show ?thesis by (simp add: peek_content)
    next
      case content: (Cons e es)
      with Take Cons.prems obtain rcv' where
        "channel_run put peek pop (pop s) ops = (acc, rcv', t)" "rcv = e # rcv'"
        by (auto simp: peek_content split: prod.splits)
      with content Cons.prems Cons.IH[of "pop s" acc rcv'] show ?thesis
        by (simp add: pop_content pop_invar)
    qed
  qed
qed

end

end
