(* ===== verification/Ringbuf_Events.thy ===== *)
theory Ringbuf_Events
  imports Ringbuf Fifo_Spec
begin

text \<open>
  The event producers on top of the ring buffer: \<^verbatim>\<open>ompt::RingbufWriter\<close> (OpenMP constructs) and
  \<^verbatim>\<open>gpu::RingbufWriter\<close> (GPU kernels), and the decoding of their events in the monitors. Every
  producer reserves an event, assigns its fields and commits it; the mutex of the OpenMP writer makes
  that sequence one step.
\<close>

section \<open>Sending an event\<close>

text \<open>Field assignments through the reserved pointer, as pairs of offset and bytes.\<close>

fun writer_stores :: "ringbuf_writer \<Rightarrow> u64 \<Rightarrow> (u64 \<times> byte list) list \<Rightarrow> ringbuf_writer result" where
  "writer_stores w p [] = Inr w"
| "writer_stores w p ((off, bs) # fs) =
    sum_bind (writer_store w p off bs) (\<lambda>w'. writer_stores w' p fs)"

definition send :: "ringbuf_writer \<Rightarrow> u64 \<Rightarrow> u64 \<Rightarrow> (u64 \<times> byte list) list
    \<Rightarrow> (bool \<times> ringbuf_writer) result" where
  "send w sizeof_T payload flds =
    sum_bind (reserve w sizeof_T payload) (\<lambda>(ev, w1). case ev of
      None \<Rightarrow> Inr (False, w1)
    | Some p \<Rightarrow> sum_bind (writer_stores w1 p flds) (\<lambda>w2.
                sum_bind (commit w2) (\<lambda>w3. Inr (True, w3))))"

definition splice :: "u64 \<times> byte list \<Rightarrow> byte list \<Rightarrow> byte list" where
  "splice f e = take (unat (fst f)) e @ snd f @ drop (unat (fst f) + length (snd f)) e"

text \<open>The bytes an event has when it is committed.\<close>

definition event_bytes :: "u64 \<Rightarrow> (u64 \<times> byte list) list \<Rightarrow> byte list" where
  "event_bytes sz flds = fold splice flds (le64 sz @ replicate (unat sz - 8) 0)"

definition fields_ok :: "u64 \<Rightarrow> (u64 \<times> byte list) list \<Rightarrow> bool" where
  "fields_ok sz flds \<longleftrightarrow>
    (\<forall>f \<in> set flds. 8 \<le> unat (fst f) \<and> unat (fst f) + length (snd f) \<le> unat sz)"

lemma writer_stores_ok:
  assumes "writing w" "fields_ok (reserved_size w) flds"
  obtains w' where "writer_stores w (rb_start (rw_rb w) + hhead (rw_rb w)) flds = Inr w'"
    "writing w'" "reserved_size w' = reserved_size w" "rb_events (rw_rb w') = rb_events (rw_rb w)"
    "draft w' = fold splice flds (draft w)"
    "rb_header (rw_rb w') = rb_header (rw_rb w)" "rb_start (rw_rb w') = rb_start (rw_rb w)"
  using assms
proof (induction flds arbitrary: w thesis)
  case Nil
  then show ?case by simp
next
  case (Cons f flds)
  obtain off bs where f: "f = (off, bs)" by (cases f)
  from Cons.prems f obtain w1 where w1:
    "writer_store w (rb_start (rw_rb w) + hhead (rw_rb w)) off bs = Inr w1" "writing w1"
    "reserved_size w1 = reserved_size w" "rb_events (rw_rb w1) = rb_events (rw_rb w)"
    "draft w1 = splice f (draft w)"
    "rb_header (rw_rb w1) = rb_header (rw_rb w)" "rb_start (rw_rb w1) = rb_start (rw_rb w)"
    by (auto simp: fields_ok_def splice_def elim: writer_store_ok[of w off bs])
  have "fields_ok (reserved_size w1) flds"
    using Cons.prems w1 by (simp add: fields_ok_def)
  then obtain w2 where
    "writer_stores w1 (rb_start (rw_rb w1) + hhead (rw_rb w1)) flds = Inr w2" "writing w2"
    "reserved_size w2 = reserved_size w1" "rb_events (rw_rb w2) = rb_events (rw_rb w1)"
    "draft w2 = fold splice flds (draft w1)"
    "rb_header (rw_rb w2) = rb_header (rw_rb w1)" "rb_start (rw_rb w2) = rb_start (rw_rb w1)"
    using Cons.IH[of w1] w1(2) by blast
  with w1 f show ?case by (intro Cons.prems(1)[of w2]) simp_all
qed

text \<open>
  The outcome of a send. When the event fills the buffer to the last byte, head and tail coincide
  and the buffer counts as empty.
\<close>

definition exact_fill :: "shm_ringbuf \<Rightarrow> nat \<Rightarrow> bool" where
  "exact_fill rb n \<longleftrightarrow> used rb + up8 n = unat (hsize rb)"

lemma send_result:
  assumes szeq: "sizeof_T + payload = sz" and i: "rb_inv (rw_rb w)" and r: "reserved_size w = 0"
    and sz: "16 \<le> unat sz" "unat sz \<le> 2 ^ 62" and f: "fields_ok sz flds"
  obtains w' where
    "send w sizeof_T payload flds = Inr (has_space (rw_rb w) (unat sz), w')"
    "rb_inv (rw_rb w')" "reserved_size w' = 0" "hsize (rw_rb w') = hsize (rw_rb w)"
    "rb_start (rw_rb w') = rb_start (rw_rb w)"
    "rb_events (rw_rb w') =
      (if \<not> has_space (rw_rb w) (unat sz) then rb_events (rw_rb w)
       else if exact_fill (rw_rb w) (unat sz) then []
       else rb_events (rw_rb w) @ [event_bytes sz flds])"
proof (cases "has_space (rw_rb w) (unat sz)")
  case False
  then have "send w sizeof_T payload flds = Inr (False, w)"
    using reserve_full[OF i r] sz by (simp add: send_def szeq)
  with False i r show thesis by (intro that[of w]) simp_all
next
  case True
  let ?p = "rb_start (rw_rb w) + hhead (rw_rb w)"
  obtain w1 where w1: "reserve w sizeof_T payload = Inr (Some ?p, w1)"
    "writing w1" "reserved_size w1 = sz" "rb_events (rw_rb w1) = rb_events (rw_rb w)"
    "draft w1 = le64 sz @ replicate (unat sz - 8) 0"
    "rb_header (rw_rb w1) = rb_header (rw_rb w)" "rb_start (rw_rb w1) = rb_start (rw_rb w)"
    using reserve_ok[OF i r, of sizeof_T payload] sz True unfolding szeq by blast
  have "fields_ok (reserved_size w1) flds"
    using f w1 by simp
  then obtain w2 where w2:
    "writer_stores w1 (rb_start (rw_rb w1) + hhead (rw_rb w1)) flds = Inr w2" "writing w2"
    "reserved_size w2 = reserved_size w1" "rb_events (rw_rb w2) = rb_events (rw_rb w1)"
    "draft w2 = fold splice flds (draft w1)"
    "rb_header (rw_rb w2) = rb_header (rw_rb w1)" "rb_start (rw_rb w2) = rb_start (rw_rb w1)"
    using writer_stores_ok[OF w1(2)] by blast
  have u: "used (rw_rb w2) = used (rw_rb w)"
    using w1 w2 by (simp add: used_def)
  obtain w3 where w3: "commit w2 = Inr w3" "rb_inv (rw_rb w3)" "reserved_size w3 = 0"
    "rb_events (rw_rb w3) =
      (if used (rw_rb w2) + up8 (unat (reserved_size w2)) = unat (hsize (rw_rb w2)) then []
       else rb_events (rw_rb w2) @ [draft w2])"
    "rb_start (rw_rb w3) = rb_start (rw_rb w2)" "hsize (rw_rb w3) = hsize (rw_rb w2)"
    using commit_ok[OF w2(2)] by blast
  have "send w sizeof_T payload flds = Inr (True, w3)"
    using w1 w2 w3 by (simp add: send_def)
  with True w1 w2 w3 u show thesis
    by (intro that[of w3]) (simp_all add: exact_fill_def event_bytes_def)
qed

section \<open>OpenMP events\<close>

datatype OMPType = PARALLEL | MASTER | SYNC | LOOP | WORKSHARE | OTHER

fun OMPType_code :: "OMPType \<Rightarrow> u64" where
  "OMPType_code PARALLEL = 0"
| "OMPType_code MASTER = 1"
| "OMPType_code SYNC = 2"
| "OMPType_code LOOP = 3"
| "OMPType_code WORKSHARE = 4"
| "OMPType_code OTHER = 5"

text \<open>
  \<^verbatim>\<open>OMPTCctx\<close>, with the enumeration as its \<^verbatim>\<open>uint64_t\<close> code and the thread id as its 64 bit
  pattern.
\<close>

record OMPTCctx =
  omp_type :: u64
  omp_tid :: u64
  omp_addr :: u64
  omp_num_threads :: u64

text \<open>The constructor: \<open>gettid\<close> is the id of the calling thread.\<close>

definition OMPTCctx_new :: "u64 \<Rightarrow> OMPType \<Rightarrow> u64 \<Rightarrow> u64 \<Rightarrow> OMPTCctx" where
  "OMPTCctx_new gettid ty addr num_threads =
    \<lparr>omp_type = OMPType_code ty, omp_tid = gettid, omp_addr = addr, omp_num_threads = num_threads\<rparr>"

definition cctx_bytes :: "OMPTCctx \<Rightarrow> byte list" where
  "cctx_bytes c = le64 (omp_type c) @ le64 (omp_tid c) @ le64 (omp_addr c) @ le64 (omp_num_threads c)"

datatype OmptEventType = OMPT_ENTER | OMPT_EXIT

fun OmptEventType_code :: "OmptEventType \<Rightarrow> u64" where
  "OmptEventType_code OMPT_ENTER = 0"
| "OmptEventType_code OMPT_EXIT = 1"

definition sizeof_ompt_event :: u64 where
  "sizeof_ompt_event = 56"

definition ompt_enter :: "ringbuf_writer \<Rightarrow> u64 \<Rightarrow> OMPTCctx \<Rightarrow> (bool \<times> ringbuf_writer) result" where
  "ompt_enter w tp cctx = send w sizeof_ompt_event 0
    [(16, le64 tp), (8, le64 (OmptEventType_code OMPT_ENTER)), (24, cctx_bytes cctx)]"

definition ompt_leave :: "ringbuf_writer \<Rightarrow> u64 \<Rightarrow> OMPTCctx \<Rightarrow> (bool \<times> ringbuf_writer) result" where
  "ompt_leave w tp cctx = send w sizeof_ompt_event 0
    [(8, le64 (OmptEventType_code OMPT_EXIT)), (16, le64 tp), (24, cctx_bytes cctx)]"

text \<open>
  The consumer side of \<^verbatim>\<open>OpenMPMonitor::monitor\<close>: the type, time stamp and context of the
  first event, or \<open>None\<close> when the buffer is empty.
\<close>

definition cctx_of_bytes :: "byte list \<Rightarrow> OMPTCctx" where
  "cctx_of_bytes bs =
    \<lparr>omp_type = rd64 (take 8 bs), omp_tid = rd64 (take 8 (drop 8 bs)),
     omp_addr = rd64 (take 8 (drop 16 bs)), omp_num_threads = rd64 (take 8 (drop 24 bs))\<rparr>"

definition ompt_top :: "shm_ringbuf \<Rightarrow> (u64 \<times> u64 \<times> OMPTCctx) option result" where
  "ompt_top rb =
    sum_bind (reader_empty rb) (\<lambda>empty. if empty then Inr None else
    sum_bind (get_top_event_type rb) (\<lambda>ty.
    sum_bind (reader_get rb) (\<lambda>ev. case ev of
      None \<Rightarrow> Inl Memory_fault
    | Some p \<Rightarrow> sum_bind (rb_load rb (p + 16) 8) (\<lambda>tp.
                sum_bind (rb_load rb (p + 24) 32) (\<lambda>c.
                  Inr (Some (ty, rd64 tp, cctx_of_bytes c)))))))"

definition ompt_event :: "u64 \<times> u64 \<times> OMPTCctx \<Rightarrow> byte list" where
  "ompt_event e = (case e of (ty, tp, c) \<Rightarrow>
    le64 sizeof_ompt_event @ le64 ty @ le64 tp @ cctx_bytes c)"

definition ompt_decode :: "byte list \<Rightarrow> u64 \<times> u64 \<times> OMPTCctx" where
  "ompt_decode e = (rd64 (take 8 (drop 8 e)), rd64 (take 8 (drop 16 e)),
    cctx_of_bytes (take 32 (drop 24 e)))"

lemma length_cctx_bytes [simp]: "length (cctx_bytes c) = 32"
  by (simp add: cctx_bytes_def)

lemma cctx_roundtrip [simp]: "cctx_of_bytes (cctx_bytes c) = c"
  by (simp add: cctx_of_bytes_def cctx_bytes_def)

lemma length_ompt_event [simp]: "length (ompt_event e) = 56"
  by (simp add: ompt_event_def split: prod.splits)

lemma ompt_decode_event [simp]: "ompt_decode (ompt_event e) = e"
  by (cases e) (simp add: ompt_event_def ompt_decode_def)

lemma ompt_event_enter:
  "event_bytes 56 [(16, le64 tp), (8, le64 ty), (24, cctx_bytes c)] = ompt_event (ty, tp, c)"
  by (simp add: event_bytes_def splice_def ompt_event_def sizeof_ompt_event_def)

lemma ompt_event_leave:
  "event_bytes 56 [(8, le64 ty), (16, le64 tp), (24, cctx_bytes c)] = ompt_event (ty, tp, c)"
  by (simp add: event_bytes_def splice_def ompt_event_def sizeof_ompt_event_def)

text \<open>
  The OpenMP channel: all events have 56 bytes, and the buffer size is no multiple of 56 (it is
  sixteen pages), so an event never fills the buffer exactly.
\<close>

definition ompt_inv :: "ringbuf_writer \<Rightarrow> bool" where
  "ompt_inv w \<longleftrightarrow> rb_inv (rw_rb w) \<and> reserved_size w = 0 \<and> unat (hsize (rw_rb w)) mod 56 \<noteq> 0 \<and>
    (\<forall>e \<in> set (rb_events (rw_rb w)). e = ompt_event (ompt_decode e))"

definition ompt_content :: "ringbuf_writer \<Rightarrow> (u64 \<times> u64 \<times> OMPTCctx) list" where
  "ompt_content w = map ompt_decode (rb_events (rw_rb w))"

lemma ompt_occ:
  "\<forall>e \<in> set es. e = ompt_event (ompt_decode e) \<Longrightarrow> occ es = 56 * length es"
proof (induction es)
  case (Cons e es)
  then have "length e = 56"
    by (metis length_ompt_event list.set_intros(1))
  with Cons show ?case by (simp add: up8_def)
qed simp

lemma ompt_never_exact:
  assumes "ompt_inv w"
  shows "\<not> exact_fill (rw_rb w) 56"
proof
  assume "exact_fill (rw_rb w) 56"
  then have "56 * length (rb_events (rw_rb w)) + 56 = unat (hsize (rw_rb w))"
    using assms ompt_occ[of "rb_events (rw_rb w)"] rb_invD(4)[of "rw_rb w"]
    by (simp add: exact_fill_def ompt_inv_def up8_def)
  then have "unat (hsize (rw_rb w)) mod 56 = 0"
    by presburger
  with assms show False by (simp add: ompt_inv_def)
qed

lemma ompt_send:
  assumes i: "ompt_inv w" and f: "fields_ok 56 flds"
    and ev: "event_bytes 56 flds = ompt_event e"
  obtains w' where "send w sizeof_ompt_event 0 flds = Inr (has_space (rw_rb w) 56, w')"
    "ompt_inv w'"
    "ompt_content w' = ompt_content w @ (if has_space (rw_rb w) 56 then [e] else [])"
proof -
  have u: "unat (56 :: u64) = 56" by simp
  obtain w' where w': "send w sizeof_ompt_event 0 flds = Inr (has_space (rw_rb w) 56, w')"
    "rb_inv (rw_rb w')" "reserved_size w' = 0" "hsize (rw_rb w') = hsize (rw_rb w)"
    "rb_events (rw_rb w') = (if \<not> has_space (rw_rb w) 56 then rb_events (rw_rb w)
       else if exact_fill (rw_rb w) 56 then [] else rb_events (rw_rb w) @ [event_bytes 56 flds])"
    using send_result[of sizeof_ompt_event 0 56 w flds, unfolded u] i f
    by (auto simp: ompt_inv_def sizeof_ompt_event_def)
  then have "rb_events (rw_rb w') =
      rb_events (rw_rb w) @ (if has_space (rw_rb w) 56 then [ompt_event e] else [])"
    using ompt_never_exact[OF i] ev by simp
  moreover from this have "ompt_inv w'"
    using w' i by (auto simp: ompt_inv_def)
  ultimately show thesis
    using w' by (intro that[of w']) (simp_all add: ompt_content_def)
qed

lemma ompt_enter_result:
  assumes "ompt_inv w"
  obtains w' where "ompt_enter w tp c = Inr (has_space (rw_rb w) 56, w')" "ompt_inv w'"
    "ompt_content w' = ompt_content w @ (if has_space (rw_rb w) 56 then [(0, tp, c)] else [])"
  using ompt_send[OF assms, of "[(16, le64 tp), (8, le64 0), (24, cctx_bytes c)]" "(0, tp, c)"]
  by (auto simp: ompt_enter_def ompt_event_enter fields_ok_def)

lemma ompt_leave_result:
  assumes "ompt_inv w"
  obtains w' where "ompt_leave w tp c = Inr (has_space (rw_rb w) 56, w')" "ompt_inv w'"
    "ompt_content w' = ompt_content w @ (if has_space (rw_rb w) 56 then [(1, tp, c)] else [])"
  using ompt_send[OF assms, of "[(8, le64 1), (16, le64 tp), (24, cctx_bytes c)]" "(1, tp, c)"]
  by (auto simp: ompt_leave_def ompt_event_leave fields_ok_def)

text \<open>The consumer reads back what the producer wrote.\<close>

lemma rb_load_first:
  assumes i: "rb_inv rb" and e: "rb_events rb = e # es" and k: "unat k + len \<le> length e"
  shows "rb_load rb (rb_start rb + htail rb + k) len = Inr (take len (drop (unat k) e))"
proof -
  have v: "rb_valid rb" by (rule rb_invD(1)[OF i])
  have l: "length e \<le> used rb"
    using event_len_bound[OF i, of e] e by auto
  have t: "unat (htail rb + k) = unat (htail rb) + unat k"
    using rb_validD(4,7)[OF v] used_less[OF v] l k by (subst unat_add_small) auto
  have "take len (drop (unat k) (read_ring (rb_mem rb) (unat (htail rb)) (length e)))
      = read_ring (rb_mem rb) (unat (htail rb) + unat k) len"
    using k by (simp add: drop_read_ring take_read_ring)
  then show ?thesis
    using rb_load_at[OF v, of "htail rb + k" len] rb_invD(2)[OF i] e l k used_less[OF v]
      rb_validD(7)[OF v] by (simp add: t add.assoc)
qed

lemma ompt_top_eq:
  assumes "ompt_inv w"
  shows "ompt_top (rw_rb w) = Inr (case ompt_content w of [] \<Rightarrow> None | e # _ \<Rightarrow> Some e)"
proof (cases "rb_events (rw_rb w)")
  case Nil
  then show ?thesis
    using assms reader_empty_eq[of "rw_rb w"] by (simp add: ompt_top_def ompt_inv_def ompt_content_def)
next
  case (Cons e es)
  have i: "rb_inv (rw_rb w)" and len: "length e = 56"
    using assms Cons length_ompt_event[of "ompt_decode e"] by (auto simp: ompt_inv_def)
  have "rb_load (rw_rb w) (rb_start (rw_rb w) + htail (rw_rb w) + 16) 8 = Inr (take 8 (drop 16 e))"
    "rb_load (rw_rb w) (rb_start (rw_rb w) + htail (rw_rb w) + 24) 32 = Inr (take 32 (drop 24 e))"
    using rb_load_first[OF i Cons, of 16 8] rb_load_first[OF i Cons, of 24 32] len by simp_all
  then show ?thesis
    using Cons
    by (simp add: ompt_top_def reader_empty_eq[OF i] get_top_event_type_cons[OF i Cons]
        reader_get_cons[OF i Cons] ompt_content_def ompt_decode_def)
qed

lemma ompt_pop:
  assumes "ompt_inv w" "ompt_content w \<noteq> []"
  obtains rb' where "reader_pop (rw_rb w) = Inr rb'" "ompt_inv (w\<lparr>rw_rb := rb'\<rparr>)"
    "ompt_content (w\<lparr>rw_rb := rb'\<rparr>) = tl (ompt_content w)"
proof -
  obtain e es where e: "rb_events (rw_rb w) = e # es"
    using assms(2) by (cases "rb_events (rw_rb w)") (auto simp: ompt_content_def)
  have i: "rb_inv (rw_rb w)" using assms(1) by (simp add: ompt_inv_def)
  obtain rb' where "reader_pop (rw_rb w) = Inr rb'" "rb_inv rb'" "rb_events rb' = es"
    "hsize rb' = hsize (rw_rb w)"
    using reader_pop_cons[OF i e] by blast
  with assms(1) e show thesis by (intro that) (auto simp: ompt_inv_def ompt_content_def)
qed

text \<open>
  The OpenMP channel as the two sides use it: a producer thread calls \<^const>\<open>ompt_enter\<close> or
  \<^const>\<open>ompt_leave\<close>, the monitor reads the first event and pops it.
\<close>

datatype ompt_msg = Enter u64 OMPTCctx | Leave u64 OMPTCctx

fun ompt_put :: "ompt_msg \<Rightarrow> ringbuf_writer \<Rightarrow> ringbuf_writer option" where
  "ompt_put (Enter tp c) w =
    (case ompt_enter w tp c of Inr (True, w') \<Rightarrow> Some w' | _ \<Rightarrow> None)"
| "ompt_put (Leave tp c) w =
    (case ompt_leave w tp c of Inr (True, w') \<Rightarrow> Some w' | _ \<Rightarrow> None)"

definition ompt_msg_of :: "u64 \<times> u64 \<times> OMPTCctx \<Rightarrow> ompt_msg" where
  "ompt_msg_of e = (case e of (ty, tp, c) \<Rightarrow>
    if ty = OmptEventType_code OMPT_ENTER then Enter tp c else Leave tp c)"

definition ompt_peek :: "ringbuf_writer \<Rightarrow> ompt_msg option" where
  "ompt_peek w = (case ompt_top (rw_rb w) of Inr (Some e) \<Rightarrow> Some (ompt_msg_of e) | _ \<Rightarrow> None)"

definition ompt_take :: "ringbuf_writer \<Rightarrow> ringbuf_writer" where
  "ompt_take w = (case reader_pop (rw_rb w) of Inr rb \<Rightarrow> w\<lparr>rw_rb := rb\<rparr> | Inl _ \<Rightarrow> w)"

definition ompt_messages :: "ringbuf_writer \<Rightarrow> ompt_msg list" where
  "ompt_messages w = map ompt_msg_of (ompt_content w)"

lemma ompt_put_messages:
  assumes "ompt_inv w" "ompt_put m w = Some w'"
  shows "ompt_messages w' = ompt_messages w @ [m] \<and> ompt_inv w'"
proof (cases m)
  case (Enter tp c)
  obtain v where "ompt_enter w tp c = Inr (has_space (rw_rb w) 56, v)" "ompt_inv v"
    "ompt_content v = ompt_content w @ (if has_space (rw_rb w) 56 then [(0, tp, c)] else [])"
    using ompt_enter_result[OF assms(1)] .
  with Enter assms(2) show ?thesis
    by (auto simp: ompt_messages_def ompt_msg_of_def split: bool.splits)
next
  case (Leave tp c)
  obtain v where "ompt_leave w tp c = Inr (has_space (rw_rb w) 56, v)" "ompt_inv v"
    "ompt_content v = ompt_content w @ (if has_space (rw_rb w) 56 then [(1, tp, c)] else [])"
    using ompt_leave_result[OF assms(1)] .
  with Leave assms(2) show ?thesis
    by (auto simp: ompt_messages_def ompt_msg_of_def split: bool.splits)
qed

lemma ompt_take_messages:
  assumes "ompt_inv w" "ompt_messages w \<noteq> []"
  shows "ompt_messages (ompt_take w) = tl (ompt_messages w) \<and> ompt_inv (ompt_take w)"
proof -
  from assms obtain rb' where "reader_pop (rw_rb w) = Inr rb'" "ompt_inv (w\<lparr>rw_rb := rb'\<rparr>)"
    "ompt_content (w\<lparr>rw_rb := rb'\<rparr>) = tl (ompt_content w)"
    by (auto simp: ompt_messages_def elim: ompt_pop)
  then show ?thesis by (simp add: ompt_take_def ompt_messages_def map_tl)
qed

interpretation ompt: fifo_channel ompt_messages ompt_inv ompt_put ompt_peek ompt_take
proof
  fix w :: ringbuf_writer
  assume "ompt_inv w"
  then show "ompt_peek w = (case ompt_messages w of [] \<Rightarrow> None | e # _ \<Rightarrow> Some e)"
    by (simp add: ompt_peek_def ompt_messages_def ompt_top_eq split: list.splits)
qed (use ompt_put_messages ompt_take_messages in auto)

section \<open>GPU events\<close>

datatype GpuEventType = KERNEL | KERNEL_DEF

fun GpuEventType_code :: "GpuEventType \<Rightarrow> u64" where
  "GpuEventType_code KERNEL = 0"
| "GpuEventType_code KERNEL_DEF = 1"

text \<open>\<open>sizeof(struct kernel_def)\<close> and \<open>sizeof(struct kernel)\<close>, both packed.\<close>

definition sizeof_kernel_def :: u64 where
  "sizeof_kernel_def = 25"

definition sizeof_kernel :: u64 where
  "sizeof_kernel = 40"

definition kernel_def_fields :: "byte list \<Rightarrow> u64 \<Rightarrow> (u64 \<times> byte list) list" where
  "kernel_def_fields func kernel_id =
    [(24, func), (8, le64 (GpuEventType_code KERNEL_DEF)), (16, le64 kernel_id)]"

definition gpu_kernel_def :: "ringbuf_writer \<Rightarrow> byte list \<Rightarrow> u64 \<Rightarrow> (bool \<times> ringbuf_writer) result" where
  "gpu_kernel_def w func kernel_id =
    send w sizeof_kernel_def (word_of_nat (length func)) (kernel_def_fields func kernel_id)"

definition gpu_kernel :: "ringbuf_writer \<Rightarrow> u64 \<Rightarrow> u64 \<Rightarrow> u64 \<Rightarrow> (bool \<times> ringbuf_writer) result" where
  "gpu_kernel w start_tp end_tp kernel_id = send w sizeof_kernel 0
    [(8, le64 (GpuEventType_code KERNEL)), (16, le64 start_tp), (24, le64 end_tp), (32, le64 kernel_id)]"

record gpu_writer =
  gw_writer :: ringbuf_writer
  gw_cctxs :: "byte list \<rightharpoonup> u64"
  gw_next_cctx_ref :: u64

text \<open>
  \<^verbatim>\<open>kernel_def(func)\<close>: the id of a known function, otherwise a new id and a definition event. A full
  buffer gives 0 and registers nothing.
\<close>

definition gpu_kernel_id :: "gpu_writer \<Rightarrow> byte list \<Rightarrow> (u64 \<times> gpu_writer) result" where
  "gpu_kernel_id g func =
    (case gw_cctxs g func of
       Some ref \<Rightarrow> Inr (ref, g)
     | None \<Rightarrow>
        sum_bind (send (gw_writer g) sizeof_kernel_def (word_of_nat (length func))
                    (kernel_def_fields func (gw_next_cctx_ref g)))
          (\<lambda>(ok, w).
            if \<not> ok then Inr (0, g\<lparr>gw_writer := w\<rparr>)
            else Inr (gw_next_cctx_ref g,
              g\<lparr>gw_writer := w, gw_cctxs := (gw_cctxs g)(func \<mapsto> gw_next_cctx_ref g),
                gw_next_cctx_ref := gw_next_cctx_ref g + 1\<rparr>)))"

text \<open>
  The decoding in \<^verbatim>\<open>GPUMonitor::monitor\<close>. The function name is read as a C string, up to the first
  zero byte.
\<close>

definition rb_load_cstr :: "shm_ringbuf \<Rightarrow> u64 \<Rightarrow> byte list result" where
  "rb_load_cstr rb p =
    (let off = unat (p - rb_start rb);
         bs = read_ring (rb_mem rb) off (2 * length (rb_mem rb) - off) in
     if 0 \<in> set bs then Inr (takeWhile (\<lambda>b. b \<noteq> 0) bs) else Inl Memory_fault)"

datatype gpu_event = Kernel u64 u64 u64 | Kernel_def u64 "byte list" | Unknown_event u64

definition gpu_top :: "shm_ringbuf \<Rightarrow> gpu_event option result" where
  "gpu_top rb =
    sum_bind (reader_empty rb) (\<lambda>empty. if empty then Inr None else
    sum_bind (get_top_event_type rb) (\<lambda>ty.
      if ty = GpuEventType_code KERNEL then
        sum_bind (reader_get rb) (\<lambda>ev. case ev of None \<Rightarrow> Inl Memory_fault | Some p \<Rightarrow>
          sum_bind (rb_load rb (p + 16) 8) (\<lambda>s.
          sum_bind (rb_load rb (p + 24) 8) (\<lambda>e.
          sum_bind (rb_load rb (p + 32) 8) (\<lambda>k.
            Inr (Some (Kernel (rd64 s) (rd64 e) (rd64 k)))))))
      else if ty = GpuEventType_code KERNEL_DEF then
        sum_bind (reader_get rb) (\<lambda>ev. case ev of None \<Rightarrow> Inl Memory_fault | Some p \<Rightarrow>
          sum_bind (rb_load rb (p + 16) 8) (\<lambda>k.
          sum_bind (rb_load_cstr rb (p + 24)) (\<lambda>f.
            Inr (Some (Kernel_def (rd64 k) f)))))
      else Inr (Some (Unknown_event ty))))"

definition kernel_event :: "u64 \<Rightarrow> u64 \<Rightarrow> u64 \<Rightarrow> byte list" where
  "kernel_event s e k = le64 sizeof_kernel @ le64 0 @ le64 s @ le64 e @ le64 k"

definition kernel_def_event :: "byte list \<Rightarrow> u64 \<Rightarrow> byte list" where
  "kernel_def_event func k =
    le64 (sizeof_kernel_def + word_of_nat (length func)) @ le64 1 @ le64 k @ func @ [0]"

lemma kernel_event_bytes:
  "event_bytes 40 [(8, le64 0), (16, le64 s), (24, le64 e), (32, le64 k)] = kernel_event s e k"
  by (simp add: event_bytes_def splice_def kernel_event_def sizeof_kernel_def)

lemma sizeof_kernel_def_plus:
  assumes "25 + n < 2 ^ 62"
  shows "unat (sizeof_kernel_def + word_of_nat n) = 25 + n"
  using assms by (subst unat_add_small) (simp_all add: sizeof_kernel_def_def unat_of_nat)

lemma kernel_def_event_bytes:
  assumes "25 + length func < 2 ^ 62"
  shows "event_bytes (sizeof_kernel_def + word_of_nat (length func)) (kernel_def_fields func k)
    = kernel_def_event func k"
proof -
  have u: "unat (sizeof_kernel_def + word_of_nat (length func)) - 8 = 16 + (length func + 1)"
    using sizeof_kernel_def_plus[OF assms] by simp
  show ?thesis
    unfolding event_bytes_def u replicate_add
    by (simp add: kernel_def_fields_def splice_def kernel_def_event_def)
qed

lemma rb_load_cstr_first:
  assumes i: "rb_inv rb" and e: "rb_events rb = e # es" and k: "unat k \<le> length e"
    and z: "drop (unat k) e = s @ 0 # r" and s: "0 \<notin> set s"
  shows "rb_load_cstr rb (rb_start rb + htail rb + k) = Inr s"
proof -
  have v: "rb_valid rb" by (rule rb_invD(1)[OF i])
  have l: "length e \<le> used rb"
    using event_len_bound[OF i, of e] e by auto
  have t: "unat (htail rb + k) = unat (htail rb) + unat k"
    using rb_validD(4,7)[OF v] used_less[OF v] l k by (subst unat_add_small) auto
  let ?o = "unat (htail rb) + unat k" and ?m = "rb_mem rb"
  define rest where "rest = 2 * length ?m - ?o - (length e - unat k)"
  have len: "2 * length ?m - ?o = (length e - unat k) + rest"
    using l used_less[OF v] rb_validD(1,7)[OF v] k by (simp add: rest_def)
  have "read_ring ?m ?o (length e - unat k) = drop (unat k) e"
    using drop_read_ring[of "unat k" ?m "unat (htail rb)" "length e"] rb_invD(2)[OF i] e by simp
  then have "read_ring ?m ?o (2 * length ?m - ?o) = s @ 0 # r @ read_ring ?m (?o + (length e - unat k)) rest"
    unfolding len read_ring_append by (simp add: z)
  moreover have "takeWhile (\<lambda>b. b \<noteq> 0) (s @ 0 # xs) = s" for xs
    using s by (induction s) auto
  ultimately show ?thesis
    by (simp add: rb_load_cstr_def Let_def add.assoc t)
qed

lemma gpu_top_kernel:
  assumes i: "rb_inv rb" and e: "rb_events rb = kernel_event s t k # es"
  shows "gpu_top rb = Inr (Some (Kernel s t k))"
proof -
  let ?p = "rb_start rb + htail rb"
  have "rb_load rb (?p + 16) 8 = Inr (le64 s)" "rb_load rb (?p + 24) 8 = Inr (le64 t)"
    "rb_load rb (?p + 32) 8 = Inr (le64 k)"
    using rb_load_first[OF i e, of 16 8] rb_load_first[OF i e, of 24 8] rb_load_first[OF i e, of 32 8]
    by (simp_all add: kernel_event_def)
  moreover have "get_top_event_type rb = Inr 0"
    using get_top_event_type_cons[OF i e] by (simp add: kernel_event_def)
  ultimately show ?thesis
    using e by (simp add: gpu_top_def reader_empty_eq[OF i] reader_get_cons[OF i e])
qed

lemma gpu_top_kernel_def:
  assumes i: "rb_inv rb" and e: "rb_events rb = kernel_def_event f k # es" and f: "0 \<notin> set f"
  shows "gpu_top rb = Inr (Some (Kernel_def k f))"
proof -
  let ?p = "rb_start rb + htail rb"
  have "rb_load rb (?p + 16) 8 = Inr (le64 k)"
    using rb_load_first[OF i e, of 16 8] by (simp add: kernel_def_event_def)
  moreover have "rb_load_cstr rb (?p + 24) = Inr f"
    using rb_load_cstr_first[OF i e, of 24 f "[]"] f by (simp add: kernel_def_event_def)
  moreover have "get_top_event_type rb = Inr 1"
    using get_top_event_type_cons[OF i e] by (simp add: kernel_def_event_def)
  ultimately show ?thesis
    using e by (simp add: gpu_top_def reader_empty_eq[OF i] reader_get_cons[OF i e])
qed

end
