(* ===== verification/Ringbuf_System.thy ===== *)
theory Ringbuf_System
  imports Ringbuf_Events
begin

text \<open>
  The ring buffer as a system of two processes: the injected library reserves, fills and commits
  events, the monitor of lo2s pops them, in any interleaving. Head and tail are sequentially
  consistent atomics, the head is only stored by the writer and the tail only by the reader, so each
  operation is one step. The properties of the component follow at the end.
\<close>

section \<open>Interleaving of writer and reader\<close>

inductive rb_step :: "ringbuf_writer \<Rightarrow> ringbuf_writer \<Rightarrow> bool" where
  reserve_step: "reserved_size w = 0 \<Longrightarrow> 16 \<le> unat (a + b) \<Longrightarrow> unat (a + b) \<le> 2 ^ 62 \<Longrightarrow>
    reserve w a b = Inr (p, w') \<Longrightarrow> rb_step w w'"
| store_step: "reserved_size w \<noteq> 0 \<Longrightarrow> 8 \<le> unat off \<Longrightarrow>
    unat off + length bs \<le> unat (reserved_size w) \<Longrightarrow>
    writer_store w (rb_start (rw_rb w) + hhead (rw_rb w)) off bs = Inr w' \<Longrightarrow> rb_step w w'"
| commit_step: "reserved_size w \<noteq> 0 \<Longrightarrow> commit w = Inr w' \<Longrightarrow> rb_step w w'"
| pop_step: "reader_pop (rw_rb w) = Inr rb' \<Longrightarrow> rb_step w (w\<lparr>rw_rb := rb'\<rparr>)"

inductive rb_reachable :: "ringbuf_writer \<Rightarrow> ringbuf_writer \<Rightarrow> bool" for w0 where
  rb_start: "rb_reachable w0 w0"
| rb_next: "rb_reachable w0 w \<Longrightarrow> rb_step w w' \<Longrightarrow> rb_reachable w0 w'"

definition sys_inv :: "ringbuf_writer \<Rightarrow> bool" where
  "sys_inv w \<longleftrightarrow> (if reserved_size w = 0 then rb_inv (rw_rb w) else writing w)"

lemma sys_inv_rb: "sys_inv w \<Longrightarrow> rb_inv (rw_rb w)"
  by (auto simp: sys_inv_def writing_def split: if_splits)

lemma pop_sys_inv:
  assumes "sys_inv w"
  obtains rb' where "reader_pop (rw_rb w) = Inr rb'" "sys_inv (w\<lparr>rw_rb := rb'\<rparr>)"
    "rb_events rb' = tl (rb_events (rw_rb w))"
proof (cases "rb_events (rw_rb w)")
  case Nil
  then have "reader_pop (rw_rb w) = Inr (rw_rb w)"
    using reader_pop_nil sys_inv_rb[OF assms] by blast
  with assms Nil show thesis by (intro that) simp_all
next
  case (Cons e es)
  obtain rb' where "reader_pop (rw_rb w) = Inr rb'" "rb_inv rb'" "rb_events rb' = es"
    "rb_mem rb' = rb_mem (rw_rb w)" "hsize rb' = hsize (rw_rb w)" "hhead rb' = hhead (rw_rb w)"
    "used rb' = used (rw_rb w) - up8 (length e)"
    using reader_pop_cons[OF sys_inv_rb[OF assms] Cons] by blast
  with assms Cons show thesis
    by (intro that[of rb']) (auto simp: sys_inv_def writing_def split: if_splits)
qed

lemma reserve_sys_inv:
  assumes "sys_inv w" "reserved_size w = 0" "16 \<le> unat (a + b)" "unat (a + b) \<le> 2 ^ 62"
  obtains p w' where "reserve w a b = Inr (p, w')" "sys_inv w'"
proof (cases "has_space (rw_rb w) (unat (a + b))")
  case True
  then obtain w' where "reserve w a b = Inr (Some (rb_start (rw_rb w) + hhead (rw_rb w)), w')"
    "writing w'" "reserved_size w' = a + b"
    using reserve_ok[OF sys_inv_rb[OF assms(1)] assms(2-4)] by blast
  moreover from this assms have "sys_inv w'"
    by (auto simp: sys_inv_def)
  ultimately show thesis by (intro that)
next
  case False
  then have "reserve w a b = Inr (None, w)"
    using reserve_full[OF sys_inv_rb[OF assms(1)] assms(2,4)] by simp
  with assms show thesis by (intro that)
qed

lemma store_sys_inv:
  assumes "sys_inv w" "reserved_size w \<noteq> 0" "8 \<le> unat off"
    "unat off + length bs \<le> unat (reserved_size w)"
  obtains w' where "writer_store w (rb_start (rw_rb w) + hhead (rw_rb w)) off bs = Inr w'" "sys_inv w'"
proof -
  have "writing w" using assms(1,2) by (simp add: sys_inv_def)
  from writer_store_ok[OF this assms(3,4)] assms(2) that show thesis
    by (metis sys_inv_def)
qed

lemma commit_sys_inv:
  assumes "sys_inv w" "reserved_size w \<noteq> 0"
  obtains w' where "commit w = Inr w'" "sys_inv w'"
proof -
  have "writing w" using assms by (simp add: sys_inv_def)
  from commit_ok[OF this] that show thesis
    by (metis sys_inv_def)
qed

lemma rb_step_sys_inv: "rb_step w w' \<Longrightarrow> sys_inv w \<Longrightarrow> sys_inv w'"
proof (induction rule: rb_step.induct)
  case (reserve_step w a b p w')
  then show ?case by (metis reserve_sys_inv sum.inject(2) prod.inject)
next
  case (store_step w off bs w')
  then show ?case by (metis store_sys_inv sum.inject(2))
next
  case (commit_step w w')
  then show ?case by (metis commit_sys_inv sum.inject(2))
next
  case (pop_step w rb')
  then show ?case by (metis pop_sys_inv sum.inject(2))
qed

lemma rb_reachable_sys_inv: "rb_reachable w0 w \<Longrightarrow> sys_inv w0 \<Longrightarrow> sys_inv w"
  by (induction rule: rb_reachable.induct) (auto intro: rb_step_sys_inv)

lemma empty_buffer:
  assumes "rb_valid rb" "hhead rb = htail rb"
  shows "rb_inv rb \<and> rb_events rb = []"
proof -
  have "used rb = 0" using assms by (simp add: used_eq)
  with assms show ?thesis by (intro rb_eventsI) simp_all
qed

text \<open>The buffer lo2s creates: sixteen pages of 4096 bytes, mapped at address 4096.\<close>

definition fresh_rb :: shm_ringbuf where
  "fresh_rb = \<lparr>rb_header = \<lparr>rb_version = 2, rb_size = 65536, rb_head = 0, rb_tail = 0, rb_pid = 0,
      rb_type = 0, rb_clockid = 1\<rparr>, rb_start = 8192, rb_mem = replicate 65536 0\<rparr>"

definition fresh_writer :: ringbuf_writer where
  "fresh_writer = \<lparr>rw_rb = fresh_rb, reserved_size = 0\<rparr>"

lemma fresh_valid: "rb_valid fresh_rb"
  by (simp add: rb_valid_def fresh_rb_def)

lemma fresh_inv: "rb_inv fresh_rb" "rb_events fresh_rb = []"
  using empty_buffer[OF fresh_valid] by (simp_all add: fresh_rb_def)

lemma fresh_ompt_inv: "ompt_inv fresh_writer" "ompt_messages fresh_writer = []"
  using fresh_inv
  by (simp_all add: ompt_inv_def fresh_writer_def ompt_messages_def ompt_content_def)
    (simp add: fresh_rb_def)

section \<open>Properties\<close>

text \<open>
  C1. OpenMP events are delivered losslessly and in order: for every interleaving of producer calls
  (\<^verbatim>\<open>ompt_enter\<close>, \<^verbatim>\<open>ompt_leave\<close>) and consumer steps (read the first event, \<^verbatim>\<open>pop\<close>), the
  messages that were in the buffer followed by the accepted ones are exactly the received ones
  followed by those still in the buffer.
\<close>

theorem ompt_delivery:
  assumes "ompt_inv w" "channel_run ompt_put ompt_peek ompt_take w ops = (accepted, received, w')"
  shows "ompt_messages w @ accepted = received @ ompt_messages w' \<and> ompt_inv w'"
  using ompt.run_fifo[OF assms] by simp

definition demo_cctx :: OMPTCctx where
  "demo_cctx = OMPTCctx_new 4711 PARALLEL 1024 8"

theorem ompt_delivery_witness:
  "ompt_inv fresh_writer \<and>
   (case channel_run ompt_put ompt_peek ompt_take fresh_writer [Put (Enter 5 demo_cctx), Take, Take] of
      (accepted, received, w') \<Rightarrow> accepted = received @ ompt_messages w' \<and> ompt_inv w')"
  using ompt_delivery[OF fresh_ompt_inv(1), of "[Put (Enter 5 demo_cctx), Take, Take]"]
  by (auto simp: fresh_ompt_inv split: prod.splits)

text \<open>
  The OpenMP producer never fails an assertion and never touches memory outside of the mapping:
  \<^verbatim>\<open>ompt_enter\<close> and \<^verbatim>\<open>ompt_leave\<close> accept the event exactly when the buffer has room for its 56 bytes, an
  accepted event is appended unchanged, and a refused one leaves the content as it was.
\<close>

lemma ompt_producer_functional:
  assumes "ompt_inv w"
  shows "(\<exists>w'. ompt_enter w tp c = Inr (has_space (rw_rb w) 56, w') \<and> ompt_inv w' \<and>
      ompt_messages w' = ompt_messages w @ (if has_space (rw_rb w) 56 then [Enter tp c] else [])) \<and>
    (\<exists>w'. ompt_leave w tp c = Inr (has_space (rw_rb w) 56, w') \<and> ompt_inv w' \<and>
      ompt_messages w' = ompt_messages w @ (if has_space (rw_rb w) 56 then [Leave tp c] else []))"
proof
  obtain w' where "ompt_enter w tp c = Inr (has_space (rw_rb w) 56, w')" "ompt_inv w'"
    "ompt_content w' = ompt_content w @ (if has_space (rw_rb w) 56 then [(0, tp, c)] else [])"
    using ompt_enter_result[OF assms] .
  then show "\<exists>w'. ompt_enter w tp c = Inr (has_space (rw_rb w) 56, w') \<and> ompt_inv w' \<and>
      ompt_messages w' = ompt_messages w @ (if has_space (rw_rb w) 56 then [Enter tp c] else [])"
    by (auto simp: ompt_messages_def ompt_msg_of_def)
next
  obtain w' where "ompt_leave w tp c = Inr (has_space (rw_rb w) 56, w')" "ompt_inv w'"
    "ompt_content w' = ompt_content w @ (if has_space (rw_rb w) 56 then [(1, tp, c)] else [])"
    using ompt_leave_result[OF assms] .
  then show "\<exists>w'. ompt_leave w tp c = Inr (has_space (rw_rb w) 56, w') \<and> ompt_inv w' \<and>
      ompt_messages w' = ompt_messages w @ (if has_space (rw_rb w) 56 then [Leave tp c] else [])"
    by (auto simp: ompt_messages_def ompt_msg_of_def)
qed

lemma fresh_space: "has_space fresh_rb 56"
  using fresh_valid by (simp add: has_space_def used_eq) (simp add: fresh_rb_def up8_def)

lemma ompt_producer_functional_witness:
  "ompt_inv fresh_writer \<and> (\<exists>w'. ompt_enter fresh_writer 7 demo_cctx = Inr (True, w') \<and> ompt_inv w' \<and>
    ompt_messages w' = [Enter 7 demo_cctx])"
  using ompt_producer_functional[OF fresh_ompt_inv(1), of 7 demo_cctx] fresh_space
  by (simp add: fresh_ompt_inv) (simp add: fresh_writer_def)

text \<open>
  C5. In every state that writer and reader steps reach from a well-formed buffer, in any
  interleaving, the buffer is well formed, the reader's \<^verbatim>\<open>empty\<close>, \<^verbatim>\<open>get\<close> and \<^verbatim>\<open>pop\<close>
  succeed, an open reservation can be committed, and a new one can be asked for: no assertion fails,
  no unaligned pointer is reported and no access leaves the mapping.
\<close>

theorem ringbuf_reachable_safe:
  assumes "sys_inv w0" "rb_reachable w0 w"
  shows "rb_inv (rw_rb w) \<and>
    reader_empty (rw_rb w) = Inr (rb_events (rw_rb w) = []) \<and>
    (\<exists>p. reader_get (rw_rb w) = Inr p) \<and>
    (\<exists>rb'. reader_pop (rw_rb w) = Inr rb' \<and> rb_events rb' = tl (rb_events (rw_rb w))) \<and>
    (reserved_size w \<noteq> 0 \<longrightarrow> (\<exists>w'. commit w = Inr w')) \<and>
    (reserved_size w = 0 \<longrightarrow> 16 \<le> unat (a + b) \<longrightarrow> unat (a + b) \<le> 2 ^ 62 \<longrightarrow>
      (\<exists>p w'. reserve w a b = Inr (p, w')))"
proof -
  have s: "sys_inv w" using rb_reachable_sys_inv[OF assms(2,1)] .
  have i: "rb_inv (rw_rb w)" using sys_inv_rb[OF s] .
  have g: "\<exists>p. reader_get (rw_rb w) = Inr p"
    by (cases "rb_events (rw_rb w)") (auto simp: reader_get_nil[OF i] reader_get_cons[OF i])
  have p: "\<exists>rb'. reader_pop (rw_rb w) = Inr rb' \<and> rb_events rb' = tl (rb_events (rw_rb w))"
    using pop_sys_inv[OF s] by metis
  have c: "reserved_size w \<noteq> 0 \<Longrightarrow> \<exists>w'. commit w = Inr w'"
    using commit_sys_inv[OF s] by metis
  have r: "reserved_size w = 0 \<Longrightarrow> 16 \<le> unat (a + b) \<Longrightarrow> unat (a + b) \<le> 2 ^ 62 \<Longrightarrow>
      \<exists>p w'. reserve w a b = Inr (p, w')"
    using reserve_sys_inv[OF s] by metis
  from i g p c r show ?thesis by (simp add: reader_empty_eq[OF i])
qed

lemma fresh_sys_inv: "sys_inv fresh_writer"
  by (simp add: sys_inv_def fresh_writer_def fresh_inv)

theorem ringbuf_reachable_safe_witness:
  "sys_inv fresh_writer \<and> rb_reachable fresh_writer fresh_writer \<and>
   (\<exists>p w'. reserve fresh_writer 56 0 = Inr (p, w'))"
  using ringbuf_reachable_safe[OF fresh_sys_inv rb_start, of 56 0] fresh_sys_inv rb_start
  by (auto simp: fresh_writer_def)

text \<open>
  A kernel definition survives the trip through the buffer: when the GPU writer announces a
  function name (a string without zero bytes) with an id in an empty buffer that it does not fill
  completely, the call succeeds and the GPU monitor decodes exactly that name and id.
\<close>

lemma gpu_kernel_def_roundtrip:
  assumes i: "rb_inv (rw_rb w)" "reserved_size w = 0" "rb_events (rw_rb w) = []"
    and f: "0 \<notin> set func"
    and fit: "up8 (25 + length func) < unat (hsize (rw_rb w))"
  shows "\<exists>w'. gpu_kernel_def w func k = Inr (True, w') \<and> rb_inv (rw_rb w') \<and>
    gpu_top (rw_rb w') = Inr (Some (Kernel_def k func))"
proof -
  let ?sz = "sizeof_kernel_def + word_of_nat (length func)"
  have u: "used (rw_rb w) = 0" using rb_invD(4)[OF i(1)] i(3) by simp
  have len: "25 + length func < 2 ^ 62"
    using fit up8_bounds(1)[of "25 + length func"] rb_validD(4)[OF rb_invD(1)[OF i(1)]] by linarith
  note sz = sizeof_kernel_def_plus[OF len]
  have sp: "has_space (rw_rb w) (25 + length func)"
    using fit u by (intro has_spaceI) simp
  have ex: "\<not> exact_fill (rw_rb w) (25 + length func)"
    using fit u by (simp add: exact_fill_def)
  have ok: "fields_ok ?sz (kernel_def_fields func k)"
    using sz by (simp add: fields_ok_def kernel_def_fields_def)
  obtain w' where "gpu_kernel_def w func k = Inr (True, w')" "rb_inv (rw_rb w')"
    "rb_events (rw_rb w') = [kernel_def_event func k]"
    using send_result[OF refl i(1,2), of sizeof_kernel_def "word_of_nat (length func)"
        "kernel_def_fields func k", unfolded sz] len ok sp ex i(3)
    by (auto simp: gpu_kernel_def_def kernel_def_event_bytes[OF len])
  with f show ?thesis using gpu_top_kernel_def by blast
qed

lemma gpu_kernel_def_roundtrip_witness:
  "\<exists>w'. gpu_kernel_def fresh_writer [102, 111, 111] 3 = Inr (True, w') \<and> rb_inv (rw_rb w') \<and>
    gpu_top (rw_rb w') = Inr (Some (Kernel_def 3 [102, 111, 111]))"
proof (rule gpu_kernel_def_roundtrip)
  show "up8 (25 + length [102, 111, 111 :: byte]) < unat (hsize (rw_rb fresh_writer))"
    by (simp add: up8_def fresh_writer_def fresh_rb_def)
qed (simp_all add: fresh_writer_def fresh_inv)

text \<open>
  C31. The writer accepts an event that fills the buffer to the last byte (head at or behind the tail),
  and afterwards head and tail coincide: the call reports success, but every event in the buffer,
  read or not, is gone for the reader.
\<close>

theorem gpu_exact_fill_loses_events:
  assumes i: "rb_inv (rw_rb w)" "reserved_size w = 0"
    and le: "htail (rw_rb w) \<le> hhead (rw_rb w)"
    and fill: "used (rw_rb w) + 40 = unat (hsize (rw_rb w))"
  shows "\<exists>w'. gpu_kernel w s e k = Inr (True, w') \<and> rb_events (rw_rb w') = [] \<and>
    reader_empty (rw_rb w') = Inr True"
proof -
  have u: "unat (40 :: u64) = 40" by simp
  have sp: "has_space (rw_rb w) 40" "exact_fill (rw_rb w) 40"
    using le fill by (simp_all add: has_space_def exact_fill_def up8_def)
  have ok: "fields_ok 40 [(8, le64 0), (16, le64 s), (24, le64 e), (32, le64 k)]"
    by (simp add: fields_ok_def)
  obtain w' where "gpu_kernel w s e k = Inr (True, w')" "rb_inv (rw_rb w')" "rb_events (rw_rb w') = []"
    using send_result[OF _ i, of sizeof_kernel 0 40, unfolded u, OF _ _ _ ok] sp
    by (auto simp: gpu_kernel_def sizeof_kernel_def)
  then show ?thesis by (auto simp: reader_empty_eq)
qed

definition nearly_full :: ringbuf_writer where
  "nearly_full = \<lparr>rw_rb = \<lparr>rb_header = \<lparr>rb_version = 2, rb_size = 80, rb_head = 40, rb_tail = 0,
      rb_pid = 0, rb_type = 1, rb_clockid = 1\<rparr>, rb_start = 8192,
      rb_mem = kernel_event 1 2 3 @ replicate 40 0\<rparr>, reserved_size = 0\<rparr>"

lemma nearly_full_inv:
  "rb_valid (rw_rb nearly_full)" "used (rw_rb nearly_full) = 40"
  "rb_inv (rw_rb nearly_full) \<and> rb_events (rw_rb nearly_full) = [kernel_event 1 2 3]"
proof -
  have l: "length (kernel_event 1 2 3) = 40" by (simp add: kernel_event_def)
  show v: "rb_valid (rw_rb nearly_full)"
    by (simp add: rb_valid_def nearly_full_def l)
  show u: "used (rw_rb nearly_full) = 40"
    using used_eq[OF v] by (simp add: nearly_full_def)
  have "event_ok (kernel_event 1 2 3)"
    by (simp add: event_ok_def kernel_event_def sizeof_kernel_def)
  moreover have "read_ring (kernel_event 1 2 3 @ replicate 40 0) 0 40 = kernel_event 1 2 3"
    using read_ring_contiguous[of 0 40 "kernel_event 1 2 3 @ replicate 40 0"] l by simp
  ultimately show "rb_inv (rw_rb nearly_full) \<and> rb_events (rw_rb nearly_full) = [kernel_event 1 2 3]"
    using u l by (intro rb_eventsI[OF v]) (simp_all add: nearly_full_def up8_def)
qed

theorem gpu_exact_fill_loses_events_witness:
  "rb_events (rw_rb nearly_full) = [kernel_event 1 2 3] \<and>
   (\<exists>w'. gpu_kernel nearly_full 4 5 3 = Inr (True, w') \<and> rb_events (rw_rb w') = [] \<and>
    reader_empty (rw_rb w') = Inr True)"
  using gpu_exact_fill_loses_events[of nearly_full 4 5 3] nearly_full_inv
  by (simp add: nearly_full_def)

text \<open>
  The reader's constructor yields a well-formed empty buffer that carries the clock id, for every
  page size up to a mebibyte that is a multiple of eight and every aligned mapping that does not wrap
  around the address space; a failing system call is reported as a system error.
\<close>

lemma ringbuf_reader_new_inv:
  assumes "0 < pagesize" "8 dvd pagesize" "pagesize \<le> 2 ^ 20" "8 dvd unat base"
    and "unat base + 33 * pagesize < 2 ^ 64"
  shows "(\<exists>rb. ringbuf_reader_new fd True (Some a) (Some base) (Some b) errno pagesize clockid =
      (if fd = -1 then Inl (System_error errno) else Inr rb) \<and>
      rb_inv rb \<and> rb_events rb = [] \<and> rb_clockid (rb_header rb) = clockid) \<and>
    ringbuf_reader_new fd False m0 m1 m2 errno pagesize clockid = Inl (System_error errno)"
proof -
  let ?rb = "\<lparr>rb_header = \<lparr>rb_version = RINGBUF_VERSION, rb_size = word_of_nat (pagesize * 16),
      rb_head = 0, rb_tail = 0, rb_pid = 0, rb_type = 0, rb_clockid = clockid\<rparr>,
      rb_start = base + word_of_nat pagesize, rb_mem = replicate (pagesize * 16) 0\<rparr>"
  have p: "unat (word_of_nat pagesize :: u64) = pagesize"
    "unat (word_of_nat (pagesize * 16) :: u64) = pagesize * 16"
    using assms by (simp_all add: unat_of_nat del: of_nat_mult)
  have b: "unat (base + word_of_nat pagesize) = unat base + pagesize"
    using assms p by (subst unat_add_small) auto
  have "8 dvd unat base + pagesize" using assms by (intro dvd_add)
  then have "rb_valid ?rb"
    using assms unfolding rb_valid_def by (simp add: p b del: of_nat_mult)
  then have "rb_inv ?rb \<and> rb_events ?rb = []"
    by (rule empty_buffer) simp
  then show ?thesis
    by (auto simp: ringbuf_reader_new_def shm_ringbuf_new_def Let_def intro!: exI[of _ ?rb])
qed

lemma ringbuf_reader_new_inv_witness:
  "\<exists>rb. ringbuf_reader_new 3 True (Some 0) (Some 8192) (Some 0) 0 4096 1 = Inr rb \<and>
     rb_inv rb \<and> rb_events rb = [] \<and> rb_clockid (rb_header rb) = 1"
  using ringbuf_reader_new_inv[of 4096 8192 3 0 0 0 1] by simp

end
