(* ===== verification/Std_Map.thy ===== *)
theory Std_Map
  imports Lo2s_Prelude
begin

text \<open>
  \<^verbatim>\<open>std::map\<close> with a user-defined comparator, as the in-order sequence of its entries. The
  search functions follow the tree descent of the library: \<open>find\<close> locates the first element that
  is not less than the key, \<open>emplace\<close> the first element the key is less than and compares the key
  with the predecessor. On a sequence that the comparator partitions this does not depend on the
  shape of the tree.
\<close>

type_synonym ('k, 'v) std_map = "('k \<times> 'v) list"

definition std_find :: "('k \<Rightarrow> 'k \<Rightarrow> bool) \<Rightarrow> 'k \<Rightarrow> ('k, 'v) std_map \<Rightarrow> ('k \<times> 'v) option" where
  "std_find lt k xs =
    (case dropWhile (\<lambda>e. lt (fst e) k) xs of
       [] \<Rightarrow> None
     | e # _ \<Rightarrow> if lt k (fst e) then None else Some e)"

definition std_lookup :: "('k \<Rightarrow> 'k \<Rightarrow> bool) \<Rightarrow> ('k, 'v) std_map \<Rightarrow> 'k \<Rightarrow> 'v option" where
  "std_lookup lt xs k = map_option snd (std_find lt k xs)"

definition std_count :: "('k \<Rightarrow> 'k \<Rightarrow> bool) \<Rightarrow> ('k, 'v) std_map \<Rightarrow> 'k \<Rightarrow> nat" where
  "std_count lt xs k = (if std_find lt k xs = None then 0 else 1)"

definition std_at :: "('k \<Rightarrow> 'k \<Rightarrow> bool) \<Rightarrow> ('k, 'v) std_map \<Rightarrow> 'k \<Rightarrow> 'v result" where
  "std_at lt xs k = (case std_lookup lt xs k of None \<Rightarrow> Inl Out_of_range | Some v \<Rightarrow> Inr v)"

text \<open>\<open>emplace\<close>: the new sequence and whether the insertion took place.\<close>

definition std_emplace ::
    "('k \<Rightarrow> 'k \<Rightarrow> bool) \<Rightarrow> 'k \<Rightarrow> 'v \<Rightarrow> ('k, 'v) std_map \<Rightarrow> ('k, 'v) std_map \<times> bool" where
  "std_emplace lt k v xs =
    (let pre = takeWhile (\<lambda>e. \<not> lt k (fst e)) xs;
         post = dropWhile (\<lambda>e. \<not> lt k (fst e)) xs in
     if pre \<noteq> [] \<and> \<not> lt (fst (last pre)) k then (xs, False) else (pre @ (k, v) # post, True))"

text \<open>Assignment through a reference to the mapped value of the element \<open>find\<close> locates.\<close>

definition std_update ::
    "('k \<Rightarrow> 'k \<Rightarrow> bool) \<Rightarrow> 'k \<Rightarrow> ('v \<Rightarrow> 'v) \<Rightarrow> ('k, 'v) std_map \<Rightarrow> ('k, 'v) std_map" where
  "std_update lt k f xs =
    (let pre = takeWhile (\<lambda>e. lt (fst e) k) xs; post = dropWhile (\<lambda>e. lt (fst e) k) xs in
     case post of [] \<Rightarrow> xs
     | e # es \<Rightarrow> if lt k (fst e) then xs else pre @ (fst e, f (snd e)) # es)"

text \<open>Assignment through \<open>operator[]\<close>.\<close>

definition std_set :: "('k \<Rightarrow> 'k \<Rightarrow> bool) \<Rightarrow> 'k \<Rightarrow> 'v \<Rightarrow> ('k, 'v) std_map \<Rightarrow> ('k, 'v) std_map" where
  "std_set lt k v xs = std_update lt k (\<lambda>_. v) (fst (std_emplace lt k v xs))"

section \<open>Comparators that order the keys\<close>

text \<open>What \<^verbatim>\<open>std::map\<close> requires of its comparator, and what it provides then.\<close>

locale strict_weak_order =
  fixes lt :: "'k \<Rightarrow> 'k \<Rightarrow> bool"
  assumes lt_irrefl: "\<not> lt a a"
    and lt_trans: "lt a b \<Longrightarrow> lt b c \<Longrightarrow> lt a c"
    and incomp_trans: "\<not> lt a b \<Longrightarrow> \<not> lt b a \<Longrightarrow> \<not> lt b c \<Longrightarrow> \<not> lt c b \<Longrightarrow> \<not> lt a c \<and> \<not> lt c a"
begin

definition eqv :: "'k \<Rightarrow> 'k \<Rightarrow> bool" where
  "eqv a b \<longleftrightarrow> \<not> lt a b \<and> \<not> lt b a"

abbreviation sorted_keys :: "('k \<times> 'v) list \<Rightarrow> bool" where
  "sorted_keys xs \<equiv> sorted_wrt lt (map fst xs)"

lemma eqv_refl [simp]: "eqv a a"
  by (simp add: eqv_def lt_irrefl)

lemma eqv_sym: "eqv a b \<longleftrightarrow> eqv b a"
  by (auto simp: eqv_def)

lemma eqv_trans: "eqv a b \<Longrightarrow> eqv b c \<Longrightarrow> eqv a c"
  using incomp_trans[of a b c] unfolding eqv_def by blast

lemma lt_eqv: "lt a b \<Longrightarrow> eqv b c \<Longrightarrow> lt a c"
  using lt_trans[of c a b] incomp_trans[of a c b] unfolding eqv_def by blast

lemma eqv_lt: "eqv a b \<Longrightarrow> lt b c \<Longrightarrow> lt a c"
  using lt_trans[of b c a] incomp_trans[of b a c] unfolding eqv_def by blast

lemma std_find_Nil [simp]: "std_find lt k [] = None"
  by (simp add: std_find_def)

lemma std_find_Cons:
  "sorted_keys (e # xs) \<Longrightarrow>
    std_find lt k (e # xs) = (if eqv (fst e) k then Some e
                              else if lt k (fst e) then None else std_find lt k xs)"
  by (auto simp: std_find_def eqv_def dest: lt_trans simp: lt_irrefl)

lemma std_find_Some:
  "sorted_keys xs \<Longrightarrow> std_find lt k xs = Some e \<Longrightarrow> e \<in> set xs \<and> eqv (fst e) k"
  by (induction xs) (auto simp: std_find_Cons split: if_splits)

lemma std_find_None:
  "sorted_keys xs \<Longrightarrow> std_find lt k xs = None \<longleftrightarrow> (\<forall>e \<in> set xs. \<not> eqv (fst e) k)"
proof (induction xs)
  case (Cons e xs)
  have "\<not> eqv (fst x) k" if "lt k (fst e)" "x \<in> set xs" for x
    using that Cons.prems lt_trans by (auto simp: eqv_def)
  with Cons show ?case by (auto simp: std_find_Cons)
qed simp

lemma std_find_member: "sorted_keys xs \<Longrightarrow> e \<in> set xs \<Longrightarrow> std_find lt (fst e) xs = Some e"
proof (induction xs)
  case (Cons x xs)
  show ?case
  proof (cases "e = x")
    case True
    then show ?thesis using Cons.prems(1) by (simp add: std_find_Cons)
  next
    case False
    then have "e \<in> set xs" "lt (fst x) (fst e)" using Cons.prems by auto
    moreover from this have "\<not> eqv (fst x) (fst e)" by (simp add: eqv_def)
    ultimately show ?thesis using Cons by (auto simp: std_find_Cons dest: lt_trans simp: lt_irrefl)
  qed
qed simp

lemma std_find_cong:
  assumes "sorted_keys xs" "eqv k k'"
  shows "std_find lt k xs = std_find lt k' xs"
  using assms(1)
proof (induction xs)
  case (Cons e xs)
  have "eqv (fst e) k = eqv (fst e) k'" "lt k (fst e) = lt k' (fst e)"
    using assms(2) eqv_trans eqv_sym eqv_lt by blast+
  with Cons show ?case by (simp add: std_find_Cons)
qed simp

lemma std_emplace_Nil [simp]: "std_emplace lt k v [] = ([(k, v)], True)"
  by (simp add: std_emplace_def)

lemma std_emplace_Cons:
  assumes "sorted_keys (e # xs)"
  shows "std_emplace lt k v (e # xs) =
    (if lt k (fst e) then ((k, v) # e # xs, True)
     else if eqv (fst e) k then (e # xs, False)
     else (case std_emplace lt k v xs of (ys, b) \<Rightarrow> (e # ys, b)))"
proof -
  have "takeWhile (\<lambda>e. \<not> lt k (fst e)) xs = []" if "eqv (fst e) k"
    using assms that eqv_lt eqv_sym by (cases xs) auto
  then show ?thesis
    by (auto simp: std_emplace_def Let_def eqv_def)
qed

lemma std_emplace_set:
  "sorted_keys xs \<Longrightarrow> set (fst (std_emplace lt k v xs)) \<subseteq> insert (k, v) (set xs)"
  by (induction xs) (auto simp: std_emplace_Cons split: prod.splits)

lemma std_emplace_sorted: "sorted_keys xs \<Longrightarrow> sorted_keys (fst (std_emplace lt k v xs))"
proof (induction xs)
  case (Cons e xs)
  have "lt (fst e) k" if "\<not> lt k (fst e)" "\<not> eqv (fst e) k"
    using that by (auto simp: eqv_def)
  with Cons std_emplace_set[of xs k v] show ?case
    by (auto simp: std_emplace_Cons split: prod.splits intro: lt_trans)
qed simp

lemma std_emplace_inserted:
  "sorted_keys xs \<Longrightarrow> snd (std_emplace lt k v xs) \<longleftrightarrow> std_find lt k xs = None"
  by (induction xs) (auto simp: std_emplace_Cons std_find_Cons split: prod.splits simp: eqv_def)

lemma std_find_emplace_same:
  "sorted_keys xs \<Longrightarrow> std_find lt k (fst (std_emplace lt k v xs)) =
    (case std_find lt k xs of None \<Rightarrow> Some (k, v) | Some e \<Rightarrow> Some e)"
proof (induction xs)
  case (Cons e xs)
  have "sorted_keys (fst (std_emplace lt k v (e # xs)))"
    using std_emplace_sorted[OF Cons.prems] .
  with Cons show ?case
    by (auto simp: std_emplace_Cons std_find_Cons split: prod.splits if_splits simp: eqv_def)
qed (simp add: std_find_Cons)

lemma std_find_emplace_other:
  "sorted_keys xs \<Longrightarrow> \<not> eqv k k' \<Longrightarrow>
    std_find lt k' (fst (std_emplace lt k v xs)) = std_find lt k' xs"
proof (induction xs)
  case (Cons e xs)
  have "sorted_keys (fst (std_emplace lt k v (e # xs)))"
    using std_emplace_sorted[OF Cons.prems(1)] .
  moreover have "lt k' (fst e)" if "lt k' k" "lt k (fst e)"
    using that lt_trans by blast
  ultimately show ?case
    using Cons
    by (auto simp: std_emplace_Cons std_find_Cons split: prod.splits if_splits simp: eqv_def)
qed (auto simp: std_find_Cons)

lemma std_lookup_emplace:
  assumes "sorted_keys xs"
  shows "std_lookup lt (fst (std_emplace lt k v xs)) k' =
    (if eqv k k' then Some (case std_lookup lt xs k of None \<Rightarrow> v | Some u \<Rightarrow> u)
     else std_lookup lt xs k')"
proof (cases "eqv k k'")
  case True
  then have "std_find lt k' (fst (std_emplace lt k v xs)) = std_find lt k (fst (std_emplace lt k v xs))"
    using std_find_cong[OF std_emplace_sorted[OF assms]] eqv_sym by blast
  with True std_find_emplace_same[OF assms] show ?thesis
    by (auto simp: std_lookup_def split: option.splits)
next
  case False
  with std_find_emplace_other[OF assms] show ?thesis by (simp add: std_lookup_def)
qed

lemma std_emplace_length:
  "sorted_keys xs \<Longrightarrow>
    length (fst (std_emplace lt k v xs)) = length xs + (if std_find lt k xs = None then 1 else 0)"
  by (induction xs) (auto simp: std_emplace_Cons std_find_Cons split: prod.splits simp: eqv_def)

lemma std_update_Nil [simp]: "std_update lt k f [] = []"
  by (simp add: std_update_def)

lemma std_update_Cons:
  "sorted_keys (e # xs) \<Longrightarrow> std_update lt k f (e # xs) =
    (if eqv (fst e) k then (fst e, f (snd e)) # xs
     else if lt k (fst e) then e # xs else e # std_update lt k f xs)"
  by (auto simp: std_update_def eqv_def Let_def dest: lt_trans simp: lt_irrefl simp del: dropWhile_eq_Nil_conv split: list.split)

lemma std_update_keys: "sorted_keys xs \<Longrightarrow> map fst (std_update lt k f xs) = map fst xs"
  by (induction xs) (auto simp: std_update_Cons)

lemma std_find_update:
  "sorted_keys xs \<Longrightarrow> std_find lt k' (std_update lt k f xs) =
    (if eqv k k' then map_option (\<lambda>e. (fst e, f (snd e))) (std_find lt k' xs) else std_find lt k' xs)"
proof (induction xs)
  case (Cons e xs)
  have s: "sorted_keys (std_update lt k f (e # xs))"
    using Cons.prems std_update_keys[OF Cons.prems, of k f] by simp
  have "eqv (fst e) k' \<longleftrightarrow> eqv (fst e) k" "lt k' (fst e) \<longleftrightarrow> lt k (fst e)" if "eqv k k'"
    using that eqv_trans eqv_sym eqv_lt by blast+
  moreover have "eqv k k'" if "eqv (fst e) k" "eqv (fst e) k'"
    using that eqv_trans eqv_sym by blast
  ultimately show ?case
    using Cons s by (auto simp: std_update_Cons std_find_Cons split: if_splits)
qed simp

lemma std_lookup_update:
  "sorted_keys xs \<Longrightarrow> std_lookup lt (std_update lt k f xs) k' =
    (if eqv k k' then map_option f (std_lookup lt xs k') else std_lookup lt xs k')"
  by (simp add: std_lookup_def std_find_update option.map_comp o_def)

lemma std_update_split:
  assumes "sorted_keys xs" "std_find lt k xs = Some e"
  obtains pre post where "xs = pre @ e # post" "std_update lt k f xs = pre @ (fst e, f (snd e)) # post"
proof -
  let ?pre = "takeWhile (\<lambda>e. lt (fst e) k) xs"
  from assms(2) obtain post where p: "dropWhile (\<lambda>e. lt (fst e) k) xs = e # post" "\<not> lt k (fst e)"
    by (auto simp: std_find_def split: list.splits if_splits)
  have "xs = ?pre @ e # post"
    using takeWhile_dropWhile_id[of "\<lambda>e. lt (fst e) k" xs] p(1) by simp
  moreover have "std_update lt k f xs = ?pre @ (fst e, f (snd e)) # post"
    using p by (simp add: std_update_def)
  ultimately show thesis by (rule that)
qed

lemma std_emplace_split:
  assumes "sorted_keys xs" "std_find lt k xs = None"
  obtains pre post where "xs = pre @ post" "std_emplace lt k v xs = (pre @ (k, v) # post, True)"
proof -
  have "snd (std_emplace lt k v xs)" using std_emplace_inserted[OF assms(1)] assms(2) by simp
  then have "std_emplace lt k v xs =
      (takeWhile (\<lambda>e. \<not> lt k (fst e)) xs @ (k, v) # dropWhile (\<lambda>e. \<not> lt k (fst e)) xs, True)"
    by (auto simp: std_emplace_def Let_def split: if_splits)
  then show thesis using that takeWhile_dropWhile_id by metis
qed

lemma std_emplace_known: "sorted_keys xs \<Longrightarrow> std_find lt k xs = Some e \<Longrightarrow> std_emplace lt k v xs = (xs, False)"
  using std_emplace_inserted[of xs k v] by (auto simp: std_emplace_def Let_def split: if_splits)

lemma std_set_sorted: "sorted_keys xs \<Longrightarrow> sorted_keys (std_set lt k v xs)"
  using std_emplace_sorted[of xs k v] std_update_keys[of "fst (std_emplace lt k v xs)" k "\<lambda>_. v"]
  by (simp add: std_set_def)

lemma std_lookup_set:
  assumes "sorted_keys xs"
  shows "std_lookup lt (std_set lt k v xs) k' = (if eqv k k' then Some v else std_lookup lt xs k')"
  using std_lookup_update[OF std_emplace_sorted[OF assms], of k "\<lambda>_. v" k v k'] std_lookup_emplace[OF assms, of k v k']
  by (simp add: std_set_def)

text \<open>\<^verbatim>\<open>std::find_if\<close> on the entries finds the smallest key.\<close>

lemma find_smallest:
  assumes "sorted_keys xs" "List.find P xs = Some e"
  shows "e \<in> set xs \<and> P e \<and> (\<forall>e' \<in> set xs. P e' \<longrightarrow> e' = e \<or> lt (fst e) (fst e'))"
  using assms by (induction xs) (auto split: if_splits)

lemma std_update_sorted: "sorted_keys xs \<Longrightarrow> sorted_keys (std_update lt k f xs)"
  using std_update_keys[of xs k f] by simp

end

text \<open>Keys compared by an injective code in a linear order.\<close>

lemma strict_weak_order_code:
  fixes code :: "'k \<Rightarrow> 'o :: linorder"
  shows "strict_weak_order (\<lambda>a b. code a < code b)"
  by unfold_locales auto

text \<open>Keys compared by a code first and by a second comparator when the codes agree.\<close>

lemma lex_incomparable:
  "\<not> ((x :: 'o :: linorder) < y \<or> x = y \<and> P) \<and> \<not> (y < x \<or> y = x \<and> Q) \<longleftrightarrow> x = y \<and> \<not> P \<and> \<not> Q"
  by auto

lemma strict_weak_order_lex:
  fixes code :: "'k \<Rightarrow> 'o :: linorder"
  assumes "strict_weak_order lt"
  shows "strict_weak_order (\<lambda>a b. code a < code b \<or> code a = code b \<and> lt (g a) (g b))"
proof -
  note laws = strict_weak_order.lt_irrefl[OF assms] strict_weak_order.lt_trans[OF assms]
    strict_weak_order.incomp_trans[OF assms]
  show ?thesis
  proof (unfold_locales, goal_cases)
    case (1 a)
    then show ?case by (simp add: laws(1))
  next
    case (2 a b c)
    then show ?case using laws(2)[of "g a" "g b" "g c"] by auto
  next
    case (3 a b c)
    then have "code a = code b \<and> code b = code c" by auto
    with 3 show ?case using laws(3)[of "g a" "g b" "g c"] by auto
  qed
qed

interpretation int_key: strict_weak_order "(<) :: int \<Rightarrow> int \<Rightarrow> bool"
  by unfold_locales auto

lemma int_key_eqv [simp]: "int_key.eqv a b \<longleftrightarrow> a = b"
  by (auto simp: int_key.eqv_def)

interpretation u64_key: strict_weak_order "(<) :: u64 \<Rightarrow> u64 \<Rightarrow> bool"
  by unfold_locales auto

lemma u64_key_eqv [simp]: "u64_key.eqv a b \<longleftrightarrow> a = b"
  by (auto simp: u64_key.eqv_def)

end
