(* ===== verification/Address_Range.thy ===== *)
theory Address_Range
  imports Std_Map
begin

text \<open>
  Addresses, half-open address ranges and file mappings (\<^verbatim>\<open>include/lo2s/address.hpp\<close>). The
  comparison of ranges is not a strict weak order as soon as empty ranges occur: an empty range is
  less than itself. The lemmas below therefore speak about sequences in which every range ends
  before the next one starts.
\<close>

definition UINT64_MAX :: u64 where
  "UINT64_MAX = - 1"

record Range =
  range_start :: u64
  range_end :: u64

definition Range_new :: "u64 \<Rightarrow> u64 \<Rightarrow> Range result" where
  "Range_new mn mx = (if mn > mx then Inl (Runtime_error ''malformed range'')
                      else Inr \<lparr>range_start = mn, range_end = mx\<rparr>)"

definition Range_point :: "u64 \<Rightarrow> Range result" where
  "Range_point point = Range_new point (if point = UINT64_MAX then UINT64_MAX else point + 1)"

definition range_eq :: "Range \<Rightarrow> Range \<Rightarrow> bool" where
  "range_eq lhs rhs \<longleftrightarrow> range_start lhs = range_start rhs \<and> range_end lhs = range_end rhs"

definition range_less :: "Range \<Rightarrow> Range \<Rightarrow> bool" where
  "range_less lhs rhs \<longleftrightarrow> range_end lhs \<le> range_start rhs"

definition range_in :: "Range \<Rightarrow> Range \<Rightarrow> bool" where
  "range_in r other \<longleftrightarrow> range_start r \<ge> range_start other \<and> range_end r \<le> range_end other"

record Mapping =
  range :: Range
  pgoff :: u64

definition Mapping_empty :: "Mapping result" where
  "Mapping_empty = sum_bind (Range_new 0 0) (\<lambda>r. Inr \<lparr>range = r, pgoff = 0\<rparr>)"

definition Mapping_new :: "u64 \<Rightarrow> u64 \<Rightarrow> u64 \<Rightarrow> Mapping result" where
  "Mapping_new s e off = sum_bind (Range_new s e) (\<lambda>r. Inr \<lparr>range = r, pgoff = off\<rparr>)"

definition Mapping_point :: "u64 \<Rightarrow> Mapping result" where
  "Mapping_point addr = sum_bind (Range_point addr) (\<lambda>r. Inr \<lparr>range = r, pgoff = 0\<rparr>)"

definition Mapping_max :: "Mapping result" where
  "Mapping_max = Mapping_new 0 UINT64_MAX 0"

definition mapping_eq :: "Mapping \<Rightarrow> Mapping \<Rightarrow> bool" where
  "mapping_eq a b \<longleftrightarrow> range_eq (range a) (range b)"

definition mapping_less :: "Mapping \<Rightarrow> Mapping \<Rightarrow> bool" where
  "mapping_less a b \<longleftrightarrow> range_less (range a) (range b)"

definition mapping_in :: "Mapping \<Rightarrow> Mapping \<Rightarrow> bool" where
  "mapping_in a b \<longleftrightarrow> range_in (range a) (range b)"

text \<open>Bounds of a mapping, and the addresses it covers.\<close>

abbreviation lo :: "Mapping \<Rightarrow> u64" where
  "lo mp \<equiv> range_start (range mp)"

abbreviation hi :: "Mapping \<Rightarrow> u64" where
  "hi mp \<equiv> range_end (range mp)"

definition covers :: "Mapping \<Rightarrow> u64 \<Rightarrow> bool" where
  "covers mp a \<longleftrightarrow> lo mp \<le> a \<and> a < hi mp"

lemma Mapping_new_ok: "s \<le> e \<Longrightarrow> Mapping_new s e p = Inr \<lparr>range = \<lparr>range_start = s, range_end = e\<rparr>, pgoff = p\<rparr>"
  by (simp add: Mapping_new_def Range_new_def)

lemma u64_succ_le:
  assumes "a \<noteq> UINT64_MAX"
  shows "a + 1 \<le> b \<longleftrightarrow> a < (b :: u64)"
proof -
  have "unat UINT64_MAX = 2 ^ 64 - 1"
    by (simp add: UINT64_MAX_def unsigned_minus_1_eq_mask mask_eq_exp_minus_1)
  then have "unat a \<noteq> 2 ^ 64 - 1"
    using assms by (metis unsigned_word_eqI)
  moreover have "unat a < 2 ^ 64"
    using unsigned_less[of a] by simp
  ultimately have "unat a + 1 < 2 ^ 64"
    by simp
  then have "unat (a + 1) = unat a + 1"
    by (simp add: unat_word_ariths)
  then show ?thesis
    by (simp add: word_le_nat_alt word_less_nat_alt Suc_le_eq)
qed

definition point_mapping :: "u64 \<Rightarrow> Mapping" where
  "point_mapping a =
    \<lparr>range = \<lparr>range_start = a, range_end = (if a = UINT64_MAX then UINT64_MAX else a + 1)\<rparr>, pgoff = 0\<rparr>"

lemma Mapping_point_ok: "Mapping_point a = Inr (point_mapping a)"
proof -
  have "a \<le> a + 1" if "a \<noteq> UINT64_MAX"
    using u64_succ_le[OF that, of "a + 1"] by simp
  then show ?thesis
    by (auto simp: Mapping_point_def Range_point_def Range_new_def point_mapping_def)
qed

end
