(* ===== verification/Memory_Map.thy ===== *)
theory Memory_Map
  imports Address_Range
begin

text \<open>
  \<^verbatim>\<open>MemoryMap<T>\<close> of \<^verbatim>\<open>include/lo2s/memory_map.hpp\<close>: which binary is mapped at which
  address. The model keeps every step of \<^verbatim>\<open>emplace\<close>, its assertions and the exceptions of the
  \<^verbatim>\<open>Range\<close> constructor included.
\<close>

type_synonym 'a memory_map = "(Mapping, 'a) std_map"

section \<open>Operations\<close>

definition mm_find :: "'a memory_map \<Rightarrow> u64 \<Rightarrow> (Mapping \<times> 'a) option result" where
  "mm_find xs addr = sum_bind (Mapping_point addr) (\<lambda>k. Inr (std_find mapping_less k xs))"

definition mm_has :: "'a memory_map \<Rightarrow> u64 \<Rightarrow> bool result" where
  "mm_has xs addr = sum_bind (Mapping_point addr) (\<lambda>k. Inr (std_count mapping_less xs k \<noteq> 0))"

text \<open>\<open>map_.erase(it)\<close> for the iterator \<open>find(k)\<close> returned.\<close>

definition erase_found :: "Mapping \<Rightarrow> 'a memory_map \<Rightarrow> 'a memory_map" where
  "erase_found k xs =
    takeWhile (\<lambda>e. mapping_less (fst e) k) xs @ tl (dropWhile (\<lambda>e. mapping_less (fst e) k) xs)"

definition mm_insert :: "Mapping \<Rightarrow> 'a \<Rightarrow> 'a memory_map \<Rightarrow> 'a memory_map result" where
  "mm_insert k v xs =
    (case std_emplace mapping_less k v xs of (ys, inserted) \<Rightarrow>
      sum_bind (cpp_assert inserted) (\<lambda>_. Inr ys))"

text \<open>Step 2: the new mapping lies inside of an existing one, which is split.\<close>

definition mm_split :: "Mapping \<Rightarrow> 'a \<Rightarrow> Mapping \<times> 'a \<Rightarrow> 'a memory_map \<Rightarrow> 'a memory_map result" where
  "mm_split new_mapping v existing xs =
    (case existing of (existing_mapping, content) \<Rightarrow>
     sum_bind (Mapping_new (lo existing_mapping) (lo new_mapping) (pgoff existing_mapping)) (\<lambda>first_old.
     sum_bind (mm_insert first_old content xs) (\<lambda>xs1.
     sum_bind (mm_insert new_mapping v xs1) (\<lambda>xs2.
     sum_bind (Mapping_new (hi new_mapping) (hi existing_mapping) (pgoff existing_mapping)) (\<lambda>second_old.
       mm_insert second_old content xs2)))))"

text \<open>Step 4.1: an existing mapping overlaps the start of the new one.\<close>

definition mm_trim_start :: "Mapping \<Rightarrow> 'a memory_map \<Rightarrow> 'a memory_map result" where
  "mm_trim_start new_mapping xs =
    sum_bind (Mapping_point (lo new_mapping)) (\<lambda>k. case std_find mapping_less k xs of
      None \<Rightarrow> Inr xs
    | Some (existing_mapping, content) \<Rightarrow>
        mm_insert (existing_mapping\<lparr>range := (range existing_mapping)\<lparr>range_end := lo existing_mapping\<rparr>\<rparr>)
          content (erase_found k xs))"

text \<open>Step 4.2: an existing mapping overlaps the end of the new one.\<close>

definition mm_trim_end :: "Mapping \<Rightarrow> 'a memory_map \<Rightarrow> 'a memory_map result" where
  "mm_trim_end new_mapping xs =
    sum_bind (Mapping_point (hi new_mapping)) (\<lambda>k. case std_find mapping_less k xs of
      None \<Rightarrow> Inr xs
    | Some (existing_mapping, content) \<Rightarrow>
        mm_insert (existing_mapping\<lparr>range := (range existing_mapping)\<lparr>range_start := hi new_mapping\<rparr>\<rparr>)
          content (erase_found k xs))"

definition mm_emplace :: "Mapping \<Rightarrow> 'a \<Rightarrow> 'a memory_map \<Rightarrow> 'a memory_map result" where
  "mm_emplace new_mapping v xs =
    (let ys = filter (\<lambda>e. \<not> mapping_in (fst e) new_mapping) xs;
         outside = (\<lambda>e. \<not> mapping_in new_mapping (fst e)) in
     case dropWhile outside ys of
       existing # rest \<Rightarrow> mm_split new_mapping v existing (takeWhile outside ys @ rest)
     | [] \<Rightarrow>
         sum_bind (mm_trim_start new_mapping ys) (\<lambda>ys1.
         sum_bind (mm_trim_end new_mapping ys1) (\<lambda>ys2.
           Inr (fst (std_emplace mapping_less new_mapping v ys2)))))"

section \<open>Ordered maps\<close>

definition before :: "Mapping \<Rightarrow> Mapping \<Rightarrow> bool" where
  "before a b \<longleftrightarrow> hi a \<le> lo b"

definition mm_ordered :: "'a memory_map \<Rightarrow> bool" where
  "mm_ordered xs \<longleftrightarrow> sorted_wrt before (map fst xs) \<and> (\<forall>e \<in> set xs. lo (fst e) \<le> hi (fst e))"

text \<open>The value an address resolves to.\<close>

definition mm_lookup :: "'a memory_map \<Rightarrow> u64 \<Rightarrow> 'a option" where
  "mm_lookup xs a = map_option snd (std_find mapping_less (point_mapping a) xs)"

lemma mapping_less_before [simp]: "mapping_less = before"
  by (intro ext) (simp add: mapping_less_def range_less_def before_def)

lemma mm_ordered_Nil [simp]: "mm_ordered []"
  by (simp add: mm_ordered_def)

lemma mm_ordered_Cons:
  "mm_ordered (e # xs) \<longleftrightarrow>
    mm_ordered xs \<and> lo (fst e) \<le> hi (fst e) \<and> (\<forall>f \<in> set xs. before (fst e) (fst f))"
  by (auto simp: mm_ordered_def)

lemma mm_ordered_append:
  "mm_ordered (xs @ ys) \<longleftrightarrow>
    mm_ordered xs \<and> mm_ordered ys \<and> (\<forall>e \<in> set xs. \<forall>f \<in> set ys. before (fst e) (fst f))"
  by (auto simp: mm_ordered_def sorted_wrt_append)

lemma mm_ordered_filter: "mm_ordered xs \<Longrightarrow> mm_ordered (filter P xs)"
  by (induction xs) (auto simp: mm_ordered_Cons)

lemma mm_ordered_unique:
  assumes "mm_ordered xs" "e \<in> set xs" "f \<in> set xs" "covers (fst e) a" "covers (fst f) a"
  shows "e = f"
  using assms
proof (induction xs)
  case (Cons g xs)
  have "\<not> (before x y \<and> covers x a \<and> covers y a)" for x y
    by (auto simp: before_def covers_def)
  with Cons show ?case by (auto simp: mm_ordered_Cons)
qed simp

lemma std_find_point:
  "mm_ordered xs \<Longrightarrow> std_find before (point_mapping a) xs = Some e \<longleftrightarrow>
    e \<in> set xs \<and> covers (fst e) a"
proof (induction xs)
  case Nil
  then show ?case by (simp add: std_find_def)
next
  case (Cons g xs)
  have g: "lo (fst g) \<le> hi (fst g)" and later: "\<And>f. f \<in> set xs \<Longrightarrow> hi (fst g) \<le> lo (fst f)"
    using Cons.prems by (auto simp: mm_ordered_Cons before_def)
  have pt: "lo (point_mapping a) = a"
    "a \<noteq> UINT64_MAX \<Longrightarrow> before (point_mapping a) m \<longleftrightarrow> a < lo m" for m
    using u64_succ_le[of a "lo m"] by (simp_all add: point_mapping_def before_def)
  show ?case
  proof (cases "hi (fst g) \<le> a")
    case True
    then have "\<not> covers (fst g) a" by (auto simp: covers_def)
    moreover have "std_find before (point_mapping a) (g # xs) = std_find before (point_mapping a) xs"
      using True by (simp add: std_find_def before_def pt)
    ultimately show ?thesis using Cons by (auto simp: mm_ordered_Cons)
  next
    case False
    then have "a \<noteq> UINT64_MAX" by (auto simp: UINT64_MAX_def)
    with False have "std_find before (point_mapping a) (g # xs) =
        (if a < lo (fst g) then None else Some g)"
      by (simp add: std_find_def before_def[of "fst g"] pt)
    moreover have "\<forall>f \<in> set xs. \<not> covers (fst f) a"
      using later False by (fastforce simp: covers_def)
    moreover have "covers (fst g) a \<longleftrightarrow> \<not> a < lo (fst g)"
      using False by (auto simp: covers_def)
    ultimately show ?thesis by auto
  qed
qed

lemma mm_lookup_iff:
  "mm_ordered xs \<Longrightarrow> mm_lookup xs a = Some v \<longleftrightarrow> (\<exists>m. (m, v) \<in> set xs \<and> covers m a)"
  by (auto simp: mm_lookup_def std_find_point)

lemma mm_lookup_None:
  "mm_ordered xs \<Longrightarrow> mm_lookup xs a = None \<longleftrightarrow> (\<forall>e \<in> set xs. \<not> covers (fst e) a)"
  using mm_lookup_iff[of xs a] by (metis not_None_eq prod.collapse fst_conv)

section \<open>Insertion and removal\<close>

definition apart :: "Mapping \<Rightarrow> Mapping \<Rightarrow> bool" where
  "apart a b \<longleftrightarrow> before a b \<or> before b a"

lemma mm_insert_apart:
  assumes o: "mm_ordered xs" and k: "lo k \<le> hi k" and ap: "\<forall>e \<in> set xs. apart (fst e) k"
  obtains ys where "std_emplace before k v xs = (ys, True)" "mm_ordered ys"
    "set ys = insert (k, v) (set xs)"
proof -
  let ?pre = "takeWhile (\<lambda>e. \<not> before k (fst e)) xs" and ?post = "dropWhile (\<lambda>e. \<not> before k (fst e)) xs"
  have pre: "before (fst e) k" if "e \<in> set ?pre" for e
    using that ap set_takeWhileD[OF that] by (auto simp: apart_def)
  have post: "before k (fst e)" if el: "e \<in> set ?post" for e
  proof -
    obtain f fs where f: "?post = f # fs" using el by (meson list.set_cases)
    then have "before k (fst f)" by (metis (mono_tags) dropWhile_eq_Cons_conv)
    moreover have "mm_ordered (f # fs)"
      using o f by (metis mm_ordered_append takeWhile_dropWhile_id)
    ultimately show ?thesis
      using el f by (auto simp: mm_ordered_Cons before_def)
  qed
  have xs: "xs = ?pre @ ?post" by simp
  have "std_emplace before k v xs = (?pre @ (k, v) # ?post, True)"
    using pre[OF last_in_set] by (auto simp: std_emplace_def Let_def)
  moreover have "mm_ordered (?pre @ (k, v) # ?post)"
    using o k pre post xs by (metis (no_types, lifting) mm_ordered_append mm_ordered_Cons fst_conv set_ConsD)
  moreover have "set (?pre @ (k, v) # ?post) = insert (k, v) (set xs)"
    using arg_cong[OF xs, of set, unfolded set_append] by auto
  ultimately show thesis by (rule that)
qed

lemma mm_insert_ok:
  assumes "mm_ordered xs" "lo k \<le> hi k" "\<forall>e \<in> set xs. apart (fst e) k"
  obtains ys where "mm_insert k v xs = Inr ys" "mm_ordered ys" "set ys = insert (k, v) (set xs)"
proof -
  obtain ys where "std_emplace before k v xs = (ys, True)" "mm_ordered ys"
    "set ys = insert (k, v) (set xs)"
    using mm_insert_apart[OF assms] .
  then show thesis by (intro that[of ys]) (simp_all add: mm_insert_def)
qed

lemma remove_ordered:
  assumes o: "mm_ordered (xs @ e # ys)" and ne: "covers (fst e) a"
  shows "mm_ordered (xs @ ys)" "set (xs @ ys) = set (xs @ e # ys) - {e}"
    "\<forall>f \<in> set (xs @ ys). apart (fst f) (fst e)"
proof -
  show "mm_ordered (xs @ ys)" "\<forall>f \<in> set (xs @ ys). apart (fst f) (fst e)"
    using o by (auto simp: mm_ordered_append mm_ordered_Cons apart_def)
  moreover have "\<not> apart (fst e) (fst e)"
    using ne by (auto simp: apart_def before_def covers_def)
  ultimately show "set (xs @ ys) = set (xs @ e # ys) - {e}" by auto
qed

lemma erase_found_ok:
  assumes o: "mm_ordered xs" and f: "std_find before (point_mapping a) xs = Some e"
  shows "mm_ordered (erase_found (point_mapping a) xs)"
    "set (erase_found (point_mapping a) xs) = set xs - {e}"
    "\<forall>x \<in> set (erase_found (point_mapping a) xs). apart (fst x) (fst e)"
proof -
  let ?P = "\<lambda>e. before (fst e) (point_mapping a)"
  obtain es where d: "dropWhile ?P xs = e # es"
    using f by (auto simp: std_find_def split: list.splits if_splits)
  have c: "covers (fst e) a"
    using f std_find_point[OF o] by simp
  have xs: "takeWhile ?P xs @ e # es = xs"
    using takeWhile_dropWhile_id[of ?P xs] d by simp
  have er: "erase_found (point_mapping a) xs = takeWhile ?P xs @ es"
    using d by (simp add: erase_found_def)
  have o': "mm_ordered (takeWhile ?P xs @ e # es)" using o xs by simp
  show "mm_ordered (erase_found (point_mapping a) xs)"
    "set (erase_found (point_mapping a) xs) = set xs - {e}"
    "\<forall>x \<in> set (erase_found (point_mapping a) xs). apart (fst x) (fst e)"
    using remove_ordered[OF o' c] unfolding er xs by simp_all
qed

section \<open>The effect of \<open>emplace\<close>\<close>

text \<open>An existing mapping that reaches into the start of the new one without containing it.\<close>

definition overlaps_start :: "Mapping \<Rightarrow> Mapping \<Rightarrow> bool" where
  "overlaps_start mp new \<longleftrightarrow> lo mp < lo new \<and> lo new < hi mp \<and> hi mp < hi new"

definition valid_mapping :: "Mapping \<Rightarrow> bool" where
  "valid_mapping mp \<longleftrightarrow> lo mp \<le> hi mp"

lemma mapping_in_iff: "mapping_in a b \<longleftrightarrow> lo b \<le> lo a \<and> hi a \<le> hi b"
  by (simp add: mapping_in_def range_in_def)

lemma apart_inside:
  "apart e ex \<Longrightarrow> lo ex \<le> lo mp \<Longrightarrow> hi mp \<le> hi ex \<Longrightarrow> apart e mp"
  unfolding apart_def before_def by (meson order_trans)

lemma mm_split_ok:
  assumes o: "mm_ordered (xs @ (ex, c) # ys)" and n: "valid_mapping new" and i: "mapping_in new ex"
  obtains zs where "mm_split new v (ex, c) (xs @ ys) = Inr zs" "mm_ordered zs"
    "set zs = set (xs @ ys) \<union> {(\<lparr>range = \<lparr>range_start = lo ex, range_end = lo new\<rparr>, pgoff = pgoff ex\<rparr>, c),
      (new, v), (\<lparr>range = \<lparr>range_start = hi new, range_end = hi ex\<rparr>, pgoff = pgoff ex\<rparr>, c)}"
proof -
  let ?a = "\<lparr>range = \<lparr>range_start = lo ex, range_end = lo new\<rparr>, pgoff = pgoff ex\<rparr>"
  let ?b = "\<lparr>range = \<lparr>range_start = hi new, range_end = hi ex\<rparr>, pgoff = pgoff ex\<rparr>"
  have le: "lo ex \<le> lo new" "lo new \<le> hi new" "hi new \<le> hi ex"
    using n i by (auto simp: valid_mapping_def mapping_in_iff)
  have o': "mm_ordered (xs @ ys)"
    using o by (auto simp: mm_ordered_append mm_ordered_Cons)
  have "\<forall>e \<in> set (xs @ ys). apart (fst e) ex"
    using o by (auto simp: mm_ordered_append mm_ordered_Cons apart_def)
  then have ap: "\<forall>e \<in> set (xs @ ys). apart (fst e) mp" if "lo ex \<le> lo mp" "hi mp \<le> hi ex" for mp
    using that apart_inside by blast
  have le': "lo ex \<le> hi new" "lo new \<le> hi ex"
    using le by (meson order_trans)+
  have a1: "\<forall>e \<in> set (xs @ ys). apart (fst e) ?a"
    using le le' by (intro ap) simp_all
  obtain z1 where z1: "mm_insert ?a c (xs @ ys) = Inr z1" "mm_ordered z1"
    "set z1 = insert (?a, c) (set (xs @ ys))"
    using mm_insert_ok[OF o' _ a1] le by auto
  have "\<forall>e \<in> set (xs @ ys). apart (fst e) new"
    using le le' by (intro ap) simp_all
  then have a2: "\<forall>e \<in> set z1. apart (fst e) new"
    by (simp add: z1(3) apart_def before_def)
  obtain z2 where z2: "mm_insert new v z1 = Inr z2" "mm_ordered z2" "set z2 = insert (new, v) (set z1)"
    using mm_insert_ok[OF z1(2) le(2) a2] .
  have "\<forall>e \<in> set (xs @ ys). apart (fst e) ?b"
    using le le' by (intro ap) simp_all
  then have a3: "\<forall>e \<in> set z2. apart (fst e) ?b"
    using le by (simp add: z1(3) z2(3) apart_def before_def)
  obtain z3 where z3: "mm_insert ?b c z2 = Inr z3" "mm_ordered z3" "set z3 = insert (?b, c) (set z2)"
    using mm_insert_ok[OF z2(2) _ a3] le by auto
  have "mm_split new v (ex, c) (xs @ ys) = Inr z3"
    using z1(1) z2(1) z3(1) le by (simp add: mm_split_def Mapping_new_ok)
  with z1(3) z2(3) z3(2,3) show thesis by (intro that[of z3]) auto
qed

text \<open>
  The two trimming steps, on a map none of whose entries lies in the new mapping or contains it:
  afterwards every entry is apart from the new mapping.
\<close>

lemma mm_trim_start_ok:
  assumes o: "mm_ordered xs" and n: "valid_mapping new"
    and ni: "\<forall>e \<in> set xs. \<not> mapping_in (fst e) new \<and> \<not> mapping_in new (fst e)"
  obtains ys where "mm_trim_start new xs = Inr ys" "mm_ordered ys"
    "\<forall>e \<in> set ys. \<not> mapping_in (fst e) new \<and> \<not> mapping_in new (fst e) \<and> \<not> covers (fst e) (lo new)"
    "\<And>m u a. covers m a \<Longrightarrow> (m, u) \<in> set ys \<longleftrightarrow> (m, u) \<in> set xs \<and> \<not> overlaps_start m new"
proof (cases "std_find before (point_mapping (lo new)) xs")
  case None
  then have nc: "\<forall>e \<in> set xs. \<not> covers (fst e) (lo new)"
    using std_find_point[OF o] by (metis option.distinct(1))
  then have "\<forall>e \<in> set xs. \<not> overlaps_start (fst e) new"
    by (auto simp: covers_def overlaps_start_def)
  with None nc ni o show thesis
    by (intro that[of xs]) (auto simp: mm_trim_start_def Mapping_point_ok)
next
  case (Some e)
  obtain ex c where e: "e = (ex, c)" by (cases e)
  let ?k = "point_mapping (lo new)"
  let ?t = "ex\<lparr>range := (range ex)\<lparr>range_end := lo ex\<rparr>\<rparr>"
  have ex: "(ex, c) \<in> set xs" "covers ex (lo new)"
    using std_find_point[OF o] Some e by auto
  have b: "lo ex < lo new" "lo new < hi ex" "hi ex < hi new"
    using ex ni n by (fastforce simp: covers_def mapping_in_iff valid_mapping_def not_le)+
  have f: "std_find before ?k xs = Some (ex, c)" using Some e by simp
  note er = erase_found_ok[OF o f]
  have ap: "\<forall>x \<in> set (erase_found ?k xs). apart (fst x) ?t"
    using er(3) b by (auto simp: apart_def before_def intro: order_trans less_imp_le)
  obtain ys where ys: "mm_insert ?t c (erase_found ?k xs) = Inr ys" "mm_ordered ys"
    "set ys = insert (?t, c) (set (erase_found ?k xs))"
    using mm_insert_ok[OF er(1), of ?t c] ap by auto
  have run: "mm_trim_start new xs = Inr ys"
    using Some e ys(1) by (simp add: mm_trim_start_def Mapping_point_ok)
  have nc: "\<not> covers (fst x) (lo new)" if "x \<in> set (erase_found ?k xs)" for x
    using mm_ordered_unique[OF o _ ex(1) _ , of x "lo new"] that er(2) ex(2) by auto
  have t: "\<not> covers ?t a" for a by (auto simp: covers_def)
  have os: "overlaps_start m new \<longleftrightarrow> m = ex" if "(m, u) \<in> set xs" for m u
    using mm_ordered_unique[OF o that ex(1), of "lo new"] ex(2) b
    by (auto simp: overlaps_start_def covers_def)
  show thesis
  proof (rule that[OF run ys(2)])
    show "\<forall>e \<in> set ys. \<not> mapping_in (fst e) new \<and> \<not> mapping_in new (fst e) \<and> \<not> covers (fst e) (lo new)"
      using ys(3) er(2) ni nc t b n by (auto simp: mapping_in_iff valid_mapping_def)
    show "(m, u) \<in> set ys \<longleftrightarrow> (m, u) \<in> set xs \<and> \<not> overlaps_start m new" if "covers m a" for m u a
      using ys(3) er(2) t that os mm_ordered_unique[OF o _ ex(1), of "(m, u)" "lo new"] ex by auto
  qed
qed

lemma apart_if_no_overlap:
  assumes "valid_mapping new" "\<not> mapping_in m new" "\<not> covers m (lo new)" "\<not> covers m (hi new)"
    "lo m \<le> hi m"
  shows "apart m new"
  using assms by (auto simp: valid_mapping_def mapping_in_iff covers_def apart_def before_def not_le not_less)

lemma mm_trim_end_ok:
  assumes o: "mm_ordered xs" and n: "valid_mapping new"
    and ni: "\<forall>e \<in> set xs. \<not> mapping_in (fst e) new \<and> \<not> mapping_in new (fst e) \<and> \<not> covers (fst e) (lo new)"
  obtains ys where "mm_trim_end new xs = Inr ys" "mm_ordered ys" "\<forall>e \<in> set ys. apart (fst e) new"
    "\<And>a u. \<not> covers new a \<Longrightarrow>
      (\<exists>m. (m, u) \<in> set ys \<and> covers m a) \<longleftrightarrow> (\<exists>m. (m, u) \<in> set xs \<and> covers m a)"
proof (cases "std_find before (point_mapping (hi new)) xs")
  case None
  then have "\<forall>e \<in> set xs. \<not> covers (fst e) (hi new)"
    using std_find_point[OF o] by (metis option.distinct(1))
  then have "\<forall>e \<in> set xs. apart (fst e) new"
    using ni n o by (auto intro!: apart_if_no_overlap simp: mm_ordered_def)
  with None o show thesis
    by (intro that[of xs]) (auto simp: mm_trim_end_def Mapping_point_ok)
next
  case (Some e)
  obtain ex c where e: "e = (ex, c)" by (cases e)
  let ?k = "point_mapping (hi new)"
  let ?t = "ex\<lparr>range := (range ex)\<lparr>range_start := hi new\<rparr>\<rparr>"
  have ex: "(ex, c) \<in> set xs" "covers ex (hi new)"
    using std_find_point[OF o] Some e by auto
  have nl: "lo new \<le> hi new" using n by (simp add: valid_mapping_def)
  have b: "lo new < lo ex" "lo ex \<le> hi new" "hi new < hi ex"
    using ex ni nl by (auto simp: covers_def mapping_in_iff not_le not_less)
  have f: "std_find before ?k xs = Some (ex, c)" using Some e by simp
  note er = erase_found_ok[OF o f]
  have ap: "\<forall>x \<in> set (erase_found ?k xs). apart (fst x) ?t"
    using er(3) b by (auto intro: apart_inside)
  obtain ys where ys: "mm_insert ?t c (erase_found ?k xs) = Inr ys" "mm_ordered ys"
    "set ys = insert (?t, c) (set (erase_found ?k xs))"
    using mm_insert_ok[OF er(1), of ?t c] ap less_imp_le[OF b(3)] by auto
  have run: "mm_trim_end new xs = Inr ys"
    using Some e ys(1) by (simp add: mm_trim_end_def Mapping_point_ok)
  have nc: "\<not> covers (fst x) (hi new)" if "x \<in> set (erase_found ?k xs)" for x
    using mm_ordered_unique[OF o _ ex(1) _ , of x "hi new"] that er(2) ex(2) by auto
  have "apart (fst x) new" if "x \<in> set (erase_found ?k xs)" for x
    using that nc[OF that] ni n o er(2) by (auto intro!: apart_if_no_overlap simp: mm_ordered_def)
  moreover have "apart ?t new" by (simp add: apart_def before_def)
  ultimately have ap': "\<forall>e \<in> set ys. apart (fst e) new" using ys(3) by auto
  have t: "covers ?t a \<longleftrightarrow> covers ex a" if "\<not> covers new a" for a
    using that b by (auto simp: covers_def)
  show thesis
  proof (rule that[OF run ys(2) ap'])
    fix a u assume nc: "\<not> covers new a"
    show "(\<exists>m. (m, u) \<in> set ys \<and> covers m a) \<longleftrightarrow> (\<exists>m. (m, u) \<in> set xs \<and> covers m a)"
      using t[OF nc] ex(1) unfolding ys(3) er(2) by (cases "u = c \<and> covers ex a") auto
  qed
qed

lemma covers_in: "mapping_in m new \<Longrightarrow> covers m a \<Longrightarrow> covers new a"
  by (auto simp: mapping_in_iff covers_def)

definition mm_spec :: "Mapping \<Rightarrow> 'a \<Rightarrow> 'a memory_map \<Rightarrow> u64 \<Rightarrow> 'a option" where
  "mm_spec new v xs a =
    (if covers new a then Some v
     else if \<exists>e \<in> set xs. overlaps_start (fst e) new \<and> covers (fst e) a then None
     else mm_lookup xs a)"

lemma mm_spec_Some:
  assumes o: "mm_ordered xs" and nc: "\<not> covers new a"
  shows "mm_spec new v xs a = Some u \<longleftrightarrow>
    (\<exists>m. (m, u) \<in> set xs \<and> covers m a \<and> \<not> overlaps_start m new)"
proof (cases "\<exists>e \<in> set xs. overlaps_start (fst e) new \<and> covers (fst e) a")
  case True
  then obtain e where e: "e \<in> set xs" "overlaps_start (fst e) new" "covers (fst e) a" by blast
  have "overlaps_start m new" if "(m, w) \<in> set xs" "covers m a" for m w
    using mm_ordered_unique[OF o that(1) e(1), of a] that(2) e(2,3) by (metis fst_conv)
  with True nc show ?thesis by (auto simp: mm_spec_def)
next
  case False
  then have "\<not> overlaps_start m new" if "(m, w) \<in> set xs" "covers m a" for m w
    using that by fastforce
  with False show ?thesis
    unfolding mm_spec_def using nc mm_lookup_iff[OF o, of a u] by (simp, blast)
qed

lemma mm_lookup_eq_spec:
  assumes o: "mm_ordered xs" and z: "mm_ordered zs" "(new, v) \<in> set zs"
    and eq: "\<And>u. \<not> covers new a \<Longrightarrow> (\<exists>m. (m, u) \<in> set zs \<and> covers m a) \<longleftrightarrow>
        (\<exists>m. (m, u) \<in> set xs \<and> covers m a \<and> \<not> overlaps_start m new)"
  shows "mm_lookup zs a = mm_spec new v xs a"
proof (cases "covers new a")
  case True
  with z show ?thesis by (auto simp: mm_spec_def mm_lookup_iff)
next
  case False
  have "mm_lookup zs a = Some u \<longleftrightarrow> mm_spec new v xs a = Some u" for u
    using eq[OF False, of u] mm_lookup_iff[OF z(1), of a u] mm_spec_Some[OF o False, of v u] by simp
  then show ?thesis by (metis not_None_eq)
qed

lemma keep_outside:
  "covers m a \<Longrightarrow> \<not> covers new a \<Longrightarrow>
    (m, u) \<in> set (filter (\<lambda>e. \<not> mapping_in (fst e) new) xs) \<longleftrightarrow> (m, u) \<in> set xs"
  using covers_in[of m new a] by auto

lemma no_overlap_beside_split:
  assumes o: "mm_ordered ys" and n: "valid_mapping new"
    and e: "(ex, c) \<in> set ys" "mapping_in new ex" and m: "(m, u) \<in> set ys"
  shows "\<not> overlaps_start m new"
proof
  assume os: "overlaps_start m new"
  then have c: "covers m (lo new)" "covers new (lo new)"
    using n by (auto simp: overlaps_start_def covers_def valid_mapping_def)
  then have "m = ex"
    using mm_ordered_unique[OF o m e(1)] covers_in[OF e(2)] by auto
  with os e(2) show False by (auto simp: overlaps_start_def mapping_in_iff)
qed

lemma mm_emplace_split:
  assumes o: "mm_ordered xs" and n: "valid_mapping new"
    and d: "dropWhile (\<lambda>e. \<not> mapping_in new (fst e)) (filter (\<lambda>e. \<not> mapping_in (fst e) new) xs) = (ex, c) # rest"
  obtains zs where "mm_emplace new v xs = Inr zs" "mm_ordered zs"
    "\<And>a. mm_lookup zs a = mm_spec new v xs a"
proof -
  let ?ys = "filter (\<lambda>e. \<not> mapping_in (fst e) new) xs"
  let ?pre = "takeWhile (\<lambda>e. \<not> mapping_in new (fst e)) ?ys"
  let ?l = "\<lparr>range = \<lparr>range_start = lo ex, range_end = lo new\<rparr>, pgoff = pgoff ex\<rparr>"
  let ?r = "\<lparr>range = \<lparr>range_start = hi new, range_end = hi ex\<rparr>, pgoff = pgoff ex\<rparr>"
  have oy: "mm_ordered ?ys" using o by (rule mm_ordered_filter)
  have i: "mapping_in new ex"
    using d by (metis (mono_tags) dropWhile_eq_Cons_conv fst_conv)
  have y: "?ys = ?pre @ (ex, c) # rest"
    using takeWhile_dropWhile_id[of "\<lambda>e. \<not> mapping_in new (fst e)" ?ys] d by simp
  obtain zs where zs: "mm_split new v (ex, c) (?pre @ rest) = Inr zs" "mm_ordered zs"
    "set zs = set (?pre @ rest) \<union> {(?l, c), (new, v), (?r, c)}"
    using mm_split_ok[of ?pre ex c rest new v] oy y n i by metis
  have ys: "set ?ys = insert (ex, c) (set (?pre @ rest))" by (subst y) auto
  then have e: "(ex, c) \<in> set ?ys" by simp
  have run: "mm_emplace new v xs = Inr zs" using zs(1) d by (simp add: mm_emplace_def)
  have cov: "covers ex a \<longleftrightarrow> covers ?l a \<or> covers ?r a" if "\<not> covers new a" for a
    using that i n by (auto simp: covers_def mapping_in_iff valid_mapping_def)
  have "mm_lookup zs a = mm_spec new v xs a" for a
  proof (rule mm_lookup_eq_spec[OF o zs(2)])
    show "(new, v) \<in> set zs" using zs(3) by simp
    fix u assume nc: "\<not> covers new a"
    have "(\<exists>m. (m, u) \<in> set zs \<and> covers m a) \<longleftrightarrow> (\<exists>m. (m, u) \<in> set ?ys \<and> covers m a)"
      using cov[OF nc] nc unfolding zs(3) ys by auto
    also have "\<dots> \<longleftrightarrow> (\<exists>m. (m, u) \<in> set xs \<and> covers m a \<and> \<not> overlaps_start m new)"
      using keep_outside[OF _ nc] no_overlap_beside_split[OF oy n e i] by metis
    finally show "(\<exists>m. (m, u) \<in> set zs \<and> covers m a) \<longleftrightarrow>
      (\<exists>m. (m, u) \<in> set xs \<and> covers m a \<and> \<not> overlaps_start m new)" .
  qed
  with run zs(2) show thesis by (rule that)
qed

lemma mm_emplace_trim:
  assumes o: "mm_ordered xs" and n: "valid_mapping new"
    and d: "dropWhile (\<lambda>e. \<not> mapping_in new (fst e)) (filter (\<lambda>e. \<not> mapping_in (fst e) new) xs) = []"
  obtains zs where "mm_emplace new v xs = Inr zs" "mm_ordered zs"
    "\<And>a. mm_lookup zs a = mm_spec new v xs a"
proof -
  let ?ys = "filter (\<lambda>e. \<not> mapping_in (fst e) new) xs"
  have oy: "mm_ordered ?ys" using o by (rule mm_ordered_filter)
  have ni: "\<forall>e \<in> set ?ys. \<not> mapping_in (fst e) new \<and> \<not> mapping_in new (fst e)"
    using d by (auto simp: dropWhile_eq_Nil_conv)
  obtain y1 where y1: "mm_trim_start new ?ys = Inr y1" "mm_ordered y1"
    "\<forall>e \<in> set y1. \<not> mapping_in (fst e) new \<and> \<not> mapping_in new (fst e) \<and> \<not> covers (fst e) (lo new)"
    "\<And>m u a. covers m a \<Longrightarrow> (m, u) \<in> set y1 \<longleftrightarrow> (m, u) \<in> set ?ys \<and> \<not> overlaps_start m new"
    using mm_trim_start_ok[OF oy n ni] by blast
  obtain y2 where y2: "mm_trim_end new y1 = Inr y2" "mm_ordered y2" "\<forall>e \<in> set y2. apart (fst e) new"
    "\<And>a u. \<not> covers new a \<Longrightarrow>
      (\<exists>m. (m, u) \<in> set y2 \<and> covers m a) \<longleftrightarrow> (\<exists>m. (m, u) \<in> set y1 \<and> covers m a)"
    using mm_trim_end_ok[OF y1(2) n y1(3)] by blast
  obtain zs where zs: "std_emplace before new v y2 = (zs, True)" "mm_ordered zs"
    "set zs = insert (new, v) (set y2)"
    using mm_insert_apart[OF y2(2) _ y2(3), of v] n by (auto simp: valid_mapping_def)
  have run: "mm_emplace new v xs = Inr zs"
    unfolding mm_emplace_def Let_def d using y1(1) y2(1) zs(1) by simp
  have "mm_lookup zs a = mm_spec new v xs a" for a
  proof (rule mm_lookup_eq_spec[OF o zs(2)])
    show "(new, v) \<in> set zs" using zs(3) by simp
    fix u assume nc: "\<not> covers new a"
    have "(\<exists>m. (m, u) \<in> set zs \<and> covers m a) \<longleftrightarrow> (\<exists>m. (m, u) \<in> set y1 \<and> covers m a)"
      using y2(4)[OF nc] nc zs(3) by auto
    also have "\<dots> \<longleftrightarrow> (\<exists>m. (m, u) \<in> set xs \<and> covers m a \<and> \<not> overlaps_start m new)"
      using y1(4)[of _ a] keep_outside[OF _ nc] by metis
    finally show "(\<exists>m. (m, u) \<in> set zs \<and> covers m a) \<longleftrightarrow>
      (\<exists>m. (m, u) \<in> set xs \<and> covers m a \<and> \<not> overlaps_start m new)" .
  qed
  with run zs(2) show thesis by (rule that)
qed

lemma mm_emplace_correct:
  assumes "mm_ordered xs" "valid_mapping new"
  obtains zs where "mm_emplace new v xs = Inr zs" "mm_ordered zs"
    "\<And>a. mm_lookup zs a = mm_spec new v xs a"
  using mm_emplace_split[OF assms] mm_emplace_trim[OF assms]
  by (metis list.exhaust surj_pair)

section \<open>Properties\<close>

lemma mm_find_lookup:
  "mm_find xs a = Inr (std_find mapping_less (point_mapping a) xs)"
  by (simp add: mm_find_def Mapping_point_ok)

lemma mm_has_lookup: "mm_has xs a = Inr (mm_lookup xs a \<noteq> None)"
  by (simp add: mm_has_def Mapping_point_ok std_count_def mm_lookup_def)

text \<open>
  C13. \<open>emplace\<close> of a well-formed mapping into an ordered map returns: none of its assertions fails
  and no range constructor throws. The map stays ordered, every address of the new mapping resolves
  to the new value, and every other address resolves as before, apart from the addresses of a
  mapping that overlapped the start of the new one, which no longer resolve at all.
\<close>
theorem mm_emplace_lookup:
  assumes "mm_ordered xs" "valid_mapping new"
  shows "\<exists>zs. mm_emplace new v xs = Inr zs \<and> mm_ordered zs \<and>
    (\<forall>a. mm_lookup zs a = mm_spec new v xs a \<and> mm_has zs a = Inr (mm_spec new v xs a \<noteq> None))"
  using mm_emplace_correct[OF assms, of v] by (metis mm_has_lookup)

abbreviation span :: "u64 \<Rightarrow> u64 \<Rightarrow> Mapping" where
  "span s e \<equiv> \<lparr>range = \<lparr>range_start = s, range_end = e\<rparr>, pgoff = 0\<rparr>"

theorem mm_emplace_lookup_witness:
  "\<exists>zs. mm_emplace (span 20 30) (7 :: int) [(span 0 10, 1), (span 25 40, 2)] = Inr zs \<and> mm_ordered zs \<and>
    (\<forall>a. mm_lookup zs a = mm_spec (span 20 30) 7 [(span 0 10, 1), (span 25 40, 2)] a \<and>
      mm_has zs a = Inr (mm_spec (span 20 30) (7 :: int) [(span 0 10, 1), (span 25 40, 2)] a \<noteq> None))"
  by (rule mm_emplace_lookup) (simp_all add: mm_ordered_def valid_mapping_def before_def)

text \<open>
  When no existing mapping overlaps the start of the new one, \<open>emplace\<close> is an exact overwrite:
  \<open>find\<close> succeeds at an address of the new mapping with the new value and behaves as before
  elsewhere. In particular a mapping that contains the new one is split without loss.
\<close>
lemma mm_emplace_overwrites:
  assumes "mm_ordered xs" "valid_mapping new" "\<forall>e \<in> set xs. \<not> overlaps_start (fst e) new"
    "mm_emplace new v xs = Inr zs"
  shows "\<exists>r. mm_find zs a = Inr r \<and>
    map_option snd r = (if covers new a then Some v else mm_lookup xs a)"
proof -
  have "mm_lookup zs a = mm_spec new v xs a"
    using mm_emplace_correct[OF assms(1,2), of v] assms(4) by (metis sum.inject(2))
  with assms(3) show ?thesis
    by (auto simp: mm_spec_def mm_find_lookup mm_lookup_def)
qed

lemma mm_emplace_overwrites_witness:
  "\<exists>r. mm_find [(span 0 10, 1), (span 10 20, 7), (span 20 40, 1)] 15 = Inr r \<and>
    map_option snd r = (if covers (span 10 20) 15 then Some (7 :: int) else mm_lookup [(span 0 40, 1)] 15)"
proof (rule mm_emplace_overwrites)
  show "mm_emplace (span 10 20) 7 [(span 0 40, 1)] = Inr [(span 0 10, 1), (span 10 20, 7), (span 20 40, 1)]"
    by (simp add: mm_emplace_def mapping_in_def range_in_def mm_split_def mm_insert_def Mapping_new_def
        Range_new_def std_emplace_def cpp_assert_def before_def)
qed (simp_all add: mm_ordered_def valid_mapping_def overlaps_start_def)

text \<open>
  A mapping that partially overlaps the start of a new mapping is cut to the empty range by
  \<open>emplace\<close> instead of being shortened to the start of the new mapping: the addresses in front of
  the new mapping, which resolved before the call, resolve to nothing after it.
\<close>
lemma mm_emplace_loses_prefix:
  assumes "mm_ordered xs" "valid_mapping new" "(old, w) \<in> set xs" "overlaps_start old new"
    "covers old a" "a < lo new" "mm_emplace new v xs = Inr zs"
  shows "mm_lookup xs a = Some w \<and> mm_find zs a = Inr None"
proof
  show "mm_lookup xs a = Some w" using assms(1,3,5) by (auto simp: mm_lookup_iff)
  have "mm_lookup zs a = mm_spec new v xs a"
    using mm_emplace_correct[OF assms(1,2), of v] assms(7) by (metis sum.inject(2))
  moreover have "\<not> covers new a" using assms(6) by (auto simp: covers_def)
  ultimately have "mm_lookup zs a = None" using assms(3-5) by (force simp: mm_spec_def)
  then show "mm_find zs a = Inr None" by (simp add: mm_find_lookup mm_lookup_def)
qed

lemma mm_emplace_loses_prefix_witness:
  "mm_lookup [(span 0 20, 1 :: int)] 5 = Some 1 \<and> mm_find [(span 0 0, 1), (span 10 30, 7 :: int)] 5 = Inr None"
proof (rule mm_emplace_loses_prefix[where new = "span 10 30" and old = "span 0 20"])
  have k: "point_mapping 10 = \<lparr>range = \<lparr>range_start = 10, range_end = 11\<rparr>, pgoff = 0\<rparr>"
    "point_mapping 30 = \<lparr>range = \<lparr>range_start = 30, range_end = 31\<rparr>, pgoff = 0\<rparr>"
    by (simp_all add: point_mapping_def UINT64_MAX_def)
  show "mm_emplace (span 10 30) 7 [(span 0 20, 1)] = Inr [(span 0 0, 1), (span 10 30, 7)]"
    by (simp add: mm_emplace_def mapping_in_def range_in_def mm_trim_start_def mm_trim_end_def mm_insert_def
        std_emplace_def std_find_def erase_found_def cpp_assert_def before_def Mapping_point_ok k)
qed (simp_all add: mm_ordered_def valid_mapping_def overlaps_start_def covers_def)

end
