(* ===== verification/Text_Format.thy ===== *)
theory Text_Format
  imports Lo2s_Prelude
begin

text \<open>
  Decimal output and input of integers, as \<^verbatim>\<open>fmt::format\<close>, \<^verbatim>\<open>std::to_string\<close> and \<^verbatim>\<open>std::stoul\<close> do it,
  and the string helpers the components share.
\<close>

definition digit_char :: "nat \<Rightarrow> char" where
  "digit_char d = char_of (48 + d)"

definition is_digit :: "char \<Rightarrow> bool" where
  "is_digit c \<longleftrightarrow> 48 \<le> (of_char c :: nat) \<and> (of_char c :: nat) \<le> 57"

definition digit_value :: "char \<Rightarrow> nat" where
  "digit_value c = of_char c - 48"

fun show_nat :: "nat \<Rightarrow> string" where
  "show_nat n = (if n < 10 then [digit_char n] else show_nat (n div 10) @ [digit_char (n mod 10)])"

declare show_nat.simps [simp del]

definition show_int :: "int \<Rightarrow> string" where
  "show_int i = (if i < 0 then ''-'' @ show_nat (nat (- i)) else show_nat (nat i))"

definition show_u64 :: "u64 \<Rightarrow> string" where
  "show_u64 w = show_nat (unat w)"

fun show_hex_nat :: "nat \<Rightarrow> string" where
  "show_hex_nat n =
    (let d = (if n mod 16 < 10 then char_of (48 + n mod 16) else char_of (87 + n mod 16)) in
     if n < 16 then [d] else show_hex_nat (n div 16) @ [d])"

declare show_hex_nat.simps [simp del]

definition show_hex :: "u64 \<Rightarrow> string" where
  "show_hex w = show_hex_nat (unat w)"

definition digits_value :: "string \<Rightarrow> nat" where
  "digits_value s = foldl (\<lambda>acc c. 10 * acc + digit_value c) 0 s"

lemma of_digit_char [simp]: "d < 10 \<Longrightarrow> (of_char (digit_char d) :: nat) = 48 + d"
  by (simp add: digit_char_def)

lemma digit_char_is_digit [simp]: "d < 10 \<Longrightarrow> is_digit (digit_char d)"
  by (simp add: is_digit_def)

lemma digit_value_digit_char [simp]: "d < 10 \<Longrightarrow> digit_value (digit_char d) = d"
  by (simp add: digit_value_def)

lemma digits_value_snoc: "digits_value (s @ [c]) = 10 * digits_value s + digit_value c"
  by (simp add: digits_value_def)

lemma show_nat_digits: "c \<in> set (show_nat n) \<Longrightarrow> is_digit c"
  by (induction n rule: show_nat.induct) (subst (asm) (2) show_nat.simps, auto split: if_splits)

lemma show_nat_not_Nil [simp]: "show_nat n \<noteq> []"
  by (subst show_nat.simps) auto

lemma digits_value_show_nat [simp]: "digits_value (show_nat n) = n"
proof (induction n rule: show_nat.induct)
  case (1 n)
  show ?case
  proof (cases "n < 10")
    case True
    then show ?thesis by (subst show_nat.simps) (simp add: digits_value_def)
  next
    case False
    with 1 show ?thesis by (subst show_nat.simps) (simp add: digits_value_snoc)
  qed
qed

lemma show_nat_inj [simp]: "show_nat m = show_nat n \<longleftrightarrow> m = n"
  by (metis digits_value_show_nat)

lemma show_nat_no_minus: "show_nat n \<noteq> CHR ''-'' # s"
  using show_nat_digits[of "CHR ''-''" n] by (auto simp: is_digit_def)

lemma show_int_inj [simp]: "show_int i = show_int j \<longleftrightarrow> i = j"
  using show_nat_no_minus not_sym[OF show_nat_no_minus]
  by (auto simp: show_int_def nat_eq_iff)

lemma show_u64_inj [simp]: "show_u64 v = show_u64 w \<longleftrightarrow> v = w"
  by (simp add: show_u64_def word_unat_eq_iff)

section \<open>Reading numbers\<close>

text \<open>
  \<^verbatim>\<open>std::stoi\<close>: white space, an optional sign, then as many digits as there are; the rest is ignored.
  No digits is \<^verbatim>\<open>std::invalid_argument\<close>, a value outside of \<^verbatim>\<open>int\<close> is \<^verbatim>\<open>std::out_of_range\<close>.
\<close>

definition is_space :: "char \<Rightarrow> bool" where
  "is_space c \<longleftrightarrow> c = CHR '' '' \<or> (9 \<le> (of_char c :: nat) \<and> (of_char c :: nat) \<le> 13)"

definition stoi :: "string \<Rightarrow> int result" where
  "stoi s =
    (let t = dropWhile is_space s;
         neg = (t \<noteq> [] \<and> hd t = CHR ''-'');
         u = (if t \<noteq> [] \<and> (hd t = CHR ''-'' \<or> hd t = CHR ''+'') then tl t else t);
         ds = takeWhile is_digit u;
         v = (if neg then - int (digits_value ds) else int (digits_value ds)) in
     if ds = [] then Inl Invalid_argument
     else if v < - (2 ^ 31) \<or> 2 ^ 31 \<le> v then Inl Out_of_range
     else Inr v)"

lemma takeWhile_show_nat: "(\<And>c cs. rest = c # cs \<Longrightarrow> \<not> is_digit c) \<Longrightarrow> takeWhile is_digit (show_nat n @ rest) = show_nat n"
  by (cases rest) (auto simp: takeWhile_append show_nat_digits)

lemma show_nat_hd_digit: "is_digit (hd (show_nat n))"
  using show_nat_digits[of "hd (show_nat n)" n] by simp

lemma stoi_show_nat:
  assumes "n < 2 ^ 31"
  shows "stoi (show_nat n) = Inr (int n)"
proof -
  obtain c cs where s: "show_nat n = c # cs" by (cases "show_nat n") auto
  have c: "is_digit c" using show_nat_hd_digit[of n] s by simp
  then have "\<not> is_space c" "c \<noteq> CHR ''-''" "c \<noteq> CHR ''+''"
    by (auto simp: is_space_def is_digit_def)
  moreover have "takeWhile is_digit (show_nat n) = show_nat n"
    using takeWhile_show_nat[of "[]" n] by simp
  ultimately show ?thesis
    using assms s digits_value_show_nat[of n] by (simp add: stoi_def Let_def del: digits_value_show_nat)
qed

end
