(* ===== verification/Scopes.thy ===== *)
theory Scopes
  imports Std_Map Text_Format
begin

text \<open>
  Identifiers of processes, threads, CPUs, cores and packages (\<^verbatim>\<open>include/lo2s/types\<close>), the
  execution scopes and measurement scopes that wrap them, and \<^verbatim>\<open>ExecutionScopeGroup\<close>, which
  records the group every scope belongs to. The identifiers are \<^verbatim>\<open>int64_t\<close> values on which the code
  never computes, so they are integers here.
\<close>

section \<open>Identifiers\<close>

datatype Process = Process (process_as_int: int)

datatype Thread = Thread (thread_as_int: int)

datatype Cpu = Cpu (cpu_as_int: int)

datatype Core = Core (core_as_int: int) (package_as_int: int)

datatype Package = Package (package_id: int)

definition Process_no_parent :: Process where
  "Process_no_parent = Process 0"

definition Process_invalid :: Process where
  "Process_invalid = Process (- 1)"

definition Process_idle :: Process where
  "Process_idle = Process 0"

text \<open>\<open>operator!\<close>\<close>

definition process_unset :: "Process \<Rightarrow> bool" where
  "process_unset p \<longleftrightarrow> process_as_int p = - 1"

definition thread_unset :: "Thread \<Rightarrow> bool" where
  "thread_unset t \<longleftrightarrow> thread_as_int t = - 1"

definition process_as_thread :: "Process \<Rightarrow> Thread" where
  "process_as_thread p = Thread (process_as_int p)"

definition thread_as_process :: "Thread \<Rightarrow> Process" where
  "thread_as_process t = Process (thread_as_int t)"

definition process_less :: "Process \<Rightarrow> Process \<Rightarrow> bool" where
  "process_less a b \<longleftrightarrow> process_as_int a < process_as_int b"

definition thread_less :: "Thread \<Rightarrow> Thread \<Rightarrow> bool" where
  "thread_less a b \<longleftrightarrow> thread_as_int a < thread_as_int b"

definition cpu_less :: "Cpu \<Rightarrow> Cpu \<Rightarrow> bool" where
  "cpu_less a b \<longleftrightarrow> cpu_as_int a < cpu_as_int b"

definition core_less :: "Core \<Rightarrow> Core \<Rightarrow> bool" where
  "core_less a b \<longleftrightarrow>
    (if package_as_int a = package_as_int b then core_as_int a < core_as_int b
     else package_as_int a < package_as_int b)"

definition package_less :: "Package \<Rightarrow> Package \<Rightarrow> bool" where
  "package_less a b \<longleftrightarrow> package_id a < package_id b"

interpretation process_key: strict_weak_order process_less
  by unfold_locales (auto simp: process_less_def)

interpretation thread_key: strict_weak_order thread_less
  by unfold_locales (auto simp: thread_less_def)

interpretation cpu_key: strict_weak_order cpu_less
  by unfold_locales (auto simp: cpu_less_def)

interpretation core_key: strict_weak_order core_less
  by unfold_locales (auto simp: core_less_def split: if_splits)

interpretation package_key: strict_weak_order package_less
  by unfold_locales (auto simp: package_less_def)

lemma process_key_eqv [simp]: "process_key.eqv a b \<longleftrightarrow> a = b"
  by (cases a; cases b) (auto simp: process_key.eqv_def process_less_def)

lemma thread_key_eqv [simp]: "thread_key.eqv a b \<longleftrightarrow> a = b"
  by (cases a; cases b) (auto simp: thread_key.eqv_def thread_less_def)

lemma cpu_key_eqv [simp]: "cpu_key.eqv a b \<longleftrightarrow> a = b"
  by (cases a; cases b) (auto simp: cpu_key.eqv_def cpu_less_def)

lemma core_key_eqv [simp]: "core_key.eqv a b \<longleftrightarrow> a = b"
  by (cases a; cases b) (auto simp: core_key.eqv_def core_less_def)

section \<open>Execution scopes\<close>

datatype ExecutionScopeType = THREAD | PROCESS | CPU | UNKNOWN

fun ExecutionScopeType_code :: "ExecutionScopeType \<Rightarrow> nat" where
  "ExecutionScopeType_code THREAD = 0"
| "ExecutionScopeType_code PROCESS = 1"
| "ExecutionScopeType_code CPU = 2"
| "ExecutionScopeType_code UNKNOWN = 3"

record ExecutionScope =
  es_type :: ExecutionScopeType
  es_id :: int

definition ExecutionScope_default :: ExecutionScope where
  "ExecutionScope_default = \<lparr>es_type = UNKNOWN, es_id = - 1\<rparr>"

definition scope_of_thread :: "Thread \<Rightarrow> ExecutionScope" where
  "scope_of_thread t = \<lparr>es_type = THREAD, es_id = thread_as_int t\<rparr>"

definition scope_of_process :: "Process \<Rightarrow> ExecutionScope" where
  "scope_of_process p = \<lparr>es_type = PROCESS, es_id = process_as_int p\<rparr>"

definition scope_of_cpu :: "Cpu \<Rightarrow> ExecutionScope" where
  "scope_of_cpu c = \<lparr>es_type = CPU, es_id = cpu_as_int c\<rparr>"

definition execution_scope_name :: "ExecutionScope \<Rightarrow> string result" where
  "execution_scope_name s = (case es_type s of
     THREAD \<Rightarrow> Inr (''thread '' @ show_int (es_id s))
   | PROCESS \<Rightarrow> Inr (''process '' @ show_int (es_id s))
   | CPU \<Rightarrow> Inr (''cpu '' @ show_int (es_id s))
   | UNKNOWN \<Rightarrow> Inl (Runtime_error ''Unknown ExecutionScopeType!''))"

definition scope_as_thread :: "ExecutionScope \<Rightarrow> Thread result" where
  "scope_as_thread s = sum_bind (cpp_assert (es_type s = THREAD)) (\<lambda>_. Inr (Thread (es_id s)))"

definition scope_as_process :: "ExecutionScope \<Rightarrow> Process result" where
  "scope_as_process s = sum_bind (cpp_assert (es_type s = PROCESS)) (\<lambda>_. Inr (Process (es_id s)))"

definition scope_as_cpu :: "ExecutionScope \<Rightarrow> Cpu result" where
  "scope_as_cpu s = sum_bind (cpp_assert (es_type s = CPU)) (\<lambda>_. Inr (Cpu (es_id s)))"

definition scope_is_process :: "ExecutionScope \<Rightarrow> bool" where
  "scope_is_process s \<longleftrightarrow> es_type s = PROCESS"

definition scope_is_thread :: "ExecutionScope \<Rightarrow> bool" where
  "scope_is_thread s \<longleftrightarrow> es_type s = THREAD"

definition scope_is_cpu :: "ExecutionScope \<Rightarrow> bool" where
  "scope_is_cpu s \<longleftrightarrow> es_type s = CPU"

definition scope_less :: "ExecutionScope \<Rightarrow> ExecutionScope \<Rightarrow> bool" where
  "scope_less a b \<longleftrightarrow>
    (if es_type a \<noteq> es_type b then ExecutionScopeType_code (es_type a) < ExecutionScopeType_code (es_type b)
     else es_id a < es_id b)"

definition scope_eq :: "ExecutionScope \<Rightarrow> ExecutionScope \<Rightarrow> bool" where
  "scope_eq a b \<longleftrightarrow> es_type a = es_type b \<and> es_id a = es_id b"

lemma ExecutionScopeType_code_inj [simp]: "ExecutionScopeType_code a = ExecutionScopeType_code b \<longleftrightarrow> a = b"
  by (cases a; cases b) auto

lemma scope_less_code:
  "scope_less = (\<lambda>a b. ExecutionScopeType_code (es_type a) < ExecutionScopeType_code (es_type b) \<or>
     ExecutionScopeType_code (es_type a) = ExecutionScopeType_code (es_type b) \<and> es_id a < es_id b)"
  by (intro ext) (auto simp: scope_less_def)

interpretation scope_key: strict_weak_order scope_less
  unfolding scope_less_code by (rule strict_weak_order_lex) (rule int_key.strict_weak_order_axioms)

lemma scope_eq_iff [simp]: "scope_eq a b \<longleftrightarrow> a = b"
  by (cases a; cases b) (auto simp: scope_eq_def)

lemma scope_key_eqv [simp]: "scope_key.eqv a b \<longleftrightarrow> a = b"
  unfolding scope_key.eqv_def unfolding scope_less_code lex_incomparable
  by (cases a; cases b) auto

section \<open>Measurement scopes\<close>

datatype MeasurementScopeType = SAMPLE | NEC_SAMPLE | GROUP_METRIC | USERSPACE_METRIC | NEC_METRIC
  | BIO | SYSCALL | GPU | TRACEPOINT | POSIX_IO | OPENMP | MS_UNKNOWN

fun MeasurementScopeType_code :: "MeasurementScopeType \<Rightarrow> nat" where
  "MeasurementScopeType_code SAMPLE = 0"
| "MeasurementScopeType_code NEC_SAMPLE = 1"
| "MeasurementScopeType_code GROUP_METRIC = 2"
| "MeasurementScopeType_code USERSPACE_METRIC = 3"
| "MeasurementScopeType_code NEC_METRIC = 4"
| "MeasurementScopeType_code BIO = 5"
| "MeasurementScopeType_code SYSCALL = 6"
| "MeasurementScopeType_code GPU = 7"
| "MeasurementScopeType_code TRACEPOINT = 8"
| "MeasurementScopeType_code POSIX_IO = 9"
| "MeasurementScopeType_code OPENMP = 10"
| "MeasurementScopeType_code MS_UNKNOWN = 11"

record MeasurementScope =
  ms_type :: MeasurementScopeType
  ms_scope :: ExecutionScope

definition MeasurementScope_default :: MeasurementScope where
  "MeasurementScope_default = \<lparr>ms_type = MS_UNKNOWN, ms_scope = ExecutionScope_default\<rparr>"

definition measurement_scope :: "MeasurementScopeType \<Rightarrow> ExecutionScope \<Rightarrow> MeasurementScope" where
  "measurement_scope ty s = \<lparr>ms_type = ty, ms_scope = s\<rparr>"

definition ms_eq :: "MeasurementScope \<Rightarrow> MeasurementScope \<Rightarrow> bool" where
  "ms_eq a b \<longleftrightarrow> scope_eq (ms_scope a) (ms_scope b) \<and> ms_type a = ms_type b"

definition ms_less :: "MeasurementScope \<Rightarrow> MeasurementScope \<Rightarrow> bool" where
  "ms_less a b \<longleftrightarrow>
    (if ms_type a \<noteq> ms_type b
     then MeasurementScopeType_code (ms_type a) < MeasurementScopeType_code (ms_type b)
     else scope_less (ms_scope a) (ms_scope b))"

definition ms_name :: "MeasurementScope \<Rightarrow> string result" where
  "ms_name m =
    (let with_name = (\<lambda>prefix. sum_bind (execution_scope_name (ms_scope m)) (\<lambda>n. Inr (prefix @ n))) in
     case ms_type m of
       GROUP_METRIC \<Rightarrow> with_name ''metrics for ''
     | USERSPACE_METRIC \<Rightarrow> with_name ''metrics for ''
     | NEC_METRIC \<Rightarrow> with_name ''metrics for NEC ''
     | SAMPLE \<Rightarrow> with_name ''samples for ''
     | BIO \<Rightarrow> with_name ''block layer I/O events for ''
     | SYSCALL \<Rightarrow> with_name ''syscall events for ''
     | GPU \<Rightarrow> with_name ''gpu kernel events for ''
     | TRACEPOINT \<Rightarrow> with_name ''tracepoint events for ''
     | POSIX_IO \<Rightarrow> with_name ''POSIX I/O events for ''
     | NEC_SAMPLE \<Rightarrow> with_name ''samples for NEC process ''
     | OPENMP \<Rightarrow> with_name ''OpenMP events for ''
     | MS_UNKNOWN \<Rightarrow> Inl (Runtime_error ''Unknown ExecutionScopeType!''))"

lemma MeasurementScopeType_code_inj [simp]:
  "MeasurementScopeType_code a = MeasurementScopeType_code b \<longleftrightarrow> a = b"
  by (cases a; cases b) auto

lemma ms_less_code:
  "ms_less = (\<lambda>a b. MeasurementScopeType_code (ms_type a) < MeasurementScopeType_code (ms_type b) \<or>
     MeasurementScopeType_code (ms_type a) = MeasurementScopeType_code (ms_type b) \<and>
     scope_less (ms_scope a) (ms_scope b))"
  by (intro ext) (auto simp: ms_less_def)

interpretation ms_key: strict_weak_order ms_less
  unfolding ms_less_code by (rule strict_weak_order_lex) (rule scope_key.strict_weak_order_axioms)

lemma ms_key_eqv [simp]: "ms_key.eqv a b \<longleftrightarrow> a = b"
  unfolding ms_key.eqv_def unfolding ms_less_code lex_incomparable
  using scope_key_eqv[of "ms_scope a" "ms_scope b"] unfolding scope_key.eqv_def
  by (cases a; cases b) auto

section \<open>Groups\<close>

type_synonym scope_groups = "(ExecutionScope, ExecutionScope) std_map"

definition is_group :: "scope_groups \<Rightarrow> ExecutionScope \<Rightarrow> bool" where
  "is_group groups scope =
    (case std_find scope_less scope groups of None \<Rightarrow> False | Some it \<Rightarrow> scope_eq (snd it) scope)"

definition group_is_process :: "scope_groups \<Rightarrow> Thread \<Rightarrow> bool" where
  "group_is_process groups thread = is_group groups (scope_of_thread thread)"

definition get_parent :: "scope_groups \<Rightarrow> ExecutionScope \<Rightarrow> ExecutionScope result" where
  "get_parent groups scope = std_at scope_less groups scope"

definition get_process :: "scope_groups \<Rightarrow> Thread \<Rightarrow> Process result" where
  "get_process groups thread =
    (if std_count scope_less groups (scope_of_thread thread) = 0 then Inr (Process 0)
     else sum_bind (std_at scope_less groups (scope_of_thread thread)) scope_as_process)"

definition add_process :: "Process \<Rightarrow> scope_groups \<Rightarrow> scope_groups" where
  "add_process process groups =
    fst (std_emplace scope_less (scope_of_thread (process_as_thread process)) (scope_of_process process) groups)"

definition add_thread :: "Thread \<Rightarrow> Process \<Rightarrow> scope_groups \<Rightarrow> scope_groups" where
  "add_thread thread process groups =
    fst (std_emplace scope_less (scope_of_thread thread) (scope_of_process process) groups)"

definition add_thread_of :: "Thread \<Rightarrow> Thread \<Rightarrow> scope_groups \<Rightarrow> scope_groups" where
  "add_thread_of child parent groups =
    (case std_find scope_less (scope_of_thread parent) groups of
       None \<Rightarrow> fst (std_emplace scope_less (scope_of_thread child)
                 (scope_of_process (thread_as_process parent)) groups)
     | Some real_parent \<Rightarrow> fst (std_emplace scope_less (scope_of_thread child) (snd real_parent) groups))"

definition add_cpu :: "Cpu \<Rightarrow> scope_groups \<Rightarrow> scope_groups" where
  "add_cpu cpu groups = fst (std_emplace scope_less (scope_of_cpu cpu) (scope_of_cpu cpu) groups)"

text \<open>The tables that any sequence of registrations builds from the empty one.\<close>

inductive groups_reachable :: "scope_groups \<Rightarrow> bool" where
  empty: "groups_reachable []"
| process: "groups_reachable g \<Longrightarrow> groups_reachable (add_process p g)"
| thread: "groups_reachable g \<Longrightarrow> groups_reachable (add_thread t p g)"
| thread_of: "groups_reachable g \<Longrightarrow> groups_reachable (add_thread_of t u g)"
| cpu: "groups_reachable g \<Longrightarrow> groups_reachable (add_cpu c g)"

text \<open>A thread belongs to a process and a CPU to itself; nothing else is a key.\<close>

fun group_entry_ok :: "ExecutionScope \<times> ExecutionScope \<Rightarrow> bool" where
  "group_entry_ok (k, v) \<longleftrightarrow> es_type k = THREAD \<and> es_type v = PROCESS \<or> es_type k = CPU \<and> v = k"

definition groups_ok :: "scope_groups \<Rightarrow> bool" where
  "groups_ok g \<longleftrightarrow> scope_key.sorted_keys g \<and> list_all group_entry_ok g"

lemma scope_of_simps [simp]:
  "es_type (scope_of_thread t) = THREAD" "es_type (scope_of_process p) = PROCESS" "es_type (scope_of_cpu c) = CPU"
  "es_id (scope_of_thread t) = thread_as_int t" "es_id (scope_of_process p) = process_as_int p"
  "scope_as_process (scope_of_process p) = Inr p"
  "scope_of_thread t = scope_of_thread t' \<longleftrightarrow> t = t'" "scope_of_cpu c = scope_of_cpu c' \<longleftrightarrow> c = c'"
  by (auto simp: scope_of_thread_def scope_of_process_def scope_of_cpu_def scope_as_process_def
      Thread.expand Cpu.expand)

lemma groups_ok_emplace:
  "groups_ok g \<Longrightarrow> group_entry_ok (k, v) \<Longrightarrow> groups_ok (fst (std_emplace scope_less k v g))"
  using scope_key.std_emplace_sorted[of g k v] scope_key.std_emplace_set[of g k v]
  unfolding groups_ok_def list_all_iff by blast

lemma groups_ok_lookup:
  assumes "groups_ok g" "std_lookup scope_less g k = Some s"
  shows "group_entry_ok (k, s)"
proof -
  obtain e where "std_find scope_less k g = Some e" "snd e = s"
    using assms(2) by (auto simp: std_lookup_def)
  with scope_key.std_find_Some[of g k e] assms(1) show ?thesis
    by (cases e) (auto simp: groups_ok_def list_all_iff)
qed

lemma groups_thread_lookup:
  assumes "groups_ok g" "std_lookup scope_less g (scope_of_thread t) = Some s"
  obtains q where "s = scope_of_process q"
  using groups_ok_lookup[OF assms] that[of "Process (es_id s)"]
  by (cases s) (auto simp: scope_of_process_def)

lemma groups_cpu_lookup:
  "groups_ok g \<Longrightarrow> std_lookup scope_less g (scope_of_cpu c) = Some s \<Longrightarrow> s = scope_of_cpu c"
  using groups_ok_lookup[of g "scope_of_cpu c" s] by auto

lemma std_find_lookup: "std_find lt k g = None \<longleftrightarrow> std_lookup lt g k = None"
  by (simp add: std_lookup_def)

lemma add_thread_of_lookup:
  "add_thread_of child parent g =
    fst (std_emplace scope_less (scope_of_thread child)
      (case std_lookup scope_less g (scope_of_thread parent) of
         None \<Rightarrow> scope_of_process (thread_as_process parent) | Some s \<Rightarrow> s) g)"
  by (simp add: add_thread_of_def std_lookup_def split: option.split)

lemma groups_reachable_ok: "groups_reachable g \<Longrightarrow> groups_ok g"
proof (induction rule: groups_reachable.induct)
  case (thread_of g t u)
  then show ?case
    by (auto simp: add_thread_of_lookup intro!: groups_ok_emplace split: option.split
        elim: groups_thread_lookup)
qed (auto simp: groups_ok_def[of "[]"] add_process_def add_thread_def add_cpu_def intro!: groups_ok_emplace)

lemma groups_lookup_emplace:
  "groups_ok g \<Longrightarrow> std_lookup scope_less (fst (std_emplace scope_less k v g)) k' =
    (if k = k' then Some (case std_lookup scope_less g k of None \<Rightarrow> v | Some u \<Rightarrow> u)
     else std_lookup scope_less g k')"
  using scope_key.std_lookup_emplace[of g k v k'] by (simp add: groups_ok_def)

lemma get_process_lookup:
  "get_process g t = (case std_lookup scope_less g (scope_of_thread t) of
     None \<Rightarrow> Inr (Process 0) | Some s \<Rightarrow> scope_as_process s)"
  by (auto simp: get_process_def std_count_def std_at_def std_lookup_def split: option.splits)

lemma get_process_total:
  assumes "groups_reachable g"
  obtains q where "get_process g t = Inr q"
proof (cases "std_lookup scope_less g (scope_of_thread t)")
  case None
  then show ?thesis using that by (simp add: get_process_lookup)
next
  case (Some s)
  then obtain q where "s = scope_of_process q" using groups_thread_lookup[OF groups_reachable_ok[OF assms]] by blast
  with Some that show ?thesis by (simp add: get_process_lookup)
qed

lemma get_process_add_thread:
  assumes "groups_reachable g"
  shows "get_process (add_thread t p g) t' =
    (if t' = t \<and> std_count scope_less g (scope_of_thread t) = 0 then Inr p else get_process g t')"
  using groups_lookup_emplace[OF groups_reachable_ok[OF assms], of "scope_of_thread t" "scope_of_process p" "scope_of_thread t'"]
  by (auto simp: get_process_lookup add_thread_def std_count_def std_find_lookup split: option.splits if_splits)

text \<open>
  In every table built by the registration functions, \<open>get_process\<close> returns for every thread
  (the assertion of \<open>as_process\<close> holds), and after \<open>add_thread\<close> it returns the registered process
  when the thread was not known before, keeps the earlier answer when it was, and is unchanged for
  every other thread.
\<close>
lemma get_process_after_add_thread:
  assumes "groups_reachable g"
  shows "\<exists>q. get_process g t' = Inr q \<and> get_process (add_thread t p g) t' = Inr
    (if t' = t \<and> std_count scope_less g (scope_of_thread t) = 0 then p else q)"
  using get_process_total[OF assms, of t'] get_process_add_thread[OF assms, of t p t'] by metis

lemma get_process_after_add_thread_witness:
  "\<exists>q. get_process (add_process (Process 7) []) (Thread 9) = Inr q \<and>
    get_process (add_thread (Thread 9) (Process 7) (add_process (Process 7) [])) (Thread 9) = Inr
    (if Thread 9 = Thread 9 \<and> std_count scope_less (add_process (Process 7) []) (scope_of_thread (Thread 9)) = 0
     then Process 7 else q)"
  using get_process_after_add_thread[OF groups_reachable.process[OF groups_reachable.empty]] .

text \<open>
  A child thread that is registered through its parent thread joins the group of that thread,
  or the process with the number of the parent thread when the parent is unknown; a registered CPU
  is its own group.
\<close>
lemma get_parent_of_registered:
  assumes "groups_reachable g" "std_count scope_less g (scope_of_thread child) = 0"
  shows "get_parent (add_thread_of child parent g) (scope_of_thread child) =
      (case get_parent g (scope_of_thread parent) of
         Inr s \<Rightarrow> Inr s | Inl _ \<Rightarrow> Inr (scope_of_process (thread_as_process parent))) \<and>
    get_parent (add_cpu c g) (scope_of_cpu c) = Inr (scope_of_cpu c)"
proof -
  have ok: "groups_ok g" using groups_reachable_ok[OF assms(1)] .
  have "std_lookup scope_less g (scope_of_thread child) = None"
    using assms(2) by (simp add: std_count_def std_find_lookup split: if_splits)
  then show ?thesis
    using groups_cpu_lookup[OF ok, of c]
    by (simp add: add_thread_of_lookup add_cpu_def get_parent_def std_at_def groups_lookup_emplace[OF ok]
        split: option.split)
qed

lemma get_parent_of_registered_witness:
  "get_parent (add_thread_of (Thread 9) (Thread 7) (add_process (Process 7) [])) (scope_of_thread (Thread 9)) =
      (case get_parent (add_process (Process 7) []) (scope_of_thread (Thread 7)) of
         Inr s \<Rightarrow> Inr s | Inl _ \<Rightarrow> Inr (scope_of_process (thread_as_process (Thread 7)))) \<and>
    get_parent (add_cpu (Cpu 3) (add_process (Process 7) [])) (scope_of_cpu (Cpu 3)) = Inr (scope_of_cpu (Cpu 3))"
  by (rule get_parent_of_registered[OF groups_reachable.process[OF groups_reachable.empty]])
    (simp add: add_process_def std_count_def std_find_def scope_less_def process_as_thread_def)

text \<open>
  \<open>is_process\<close> is false for every thread in every table the registration functions build, even
  for the leader of a process that has just been registered: the scope stored for a thread is a
  process scope, and \<open>is_group\<close> compares it with the thread scope of the key.
\<close>
lemma group_is_process_never:
  assumes "groups_reachable g"
  shows "\<not> group_is_process g t \<and> \<not> group_is_process (add_process p g) (process_as_thread p)"
proof -
  have "\<not> group_is_process h t" if ok: "groups_ok h" for h t
  proof (cases "std_find scope_less (scope_of_thread t) h")
    case (Some e)
    then obtain q where "snd e = scope_of_process q"
      using groups_thread_lookup[OF ok, of t] by (auto simp: std_lookup_def)
    with Some show ?thesis by (simp add: group_is_process_def is_group_def scope_of_process_def scope_of_thread_def)
  qed (simp add: group_is_process_def is_group_def)
  with assms show ?thesis by (blast intro: groups_reachable_ok groups_reachable.process)
qed

lemma group_is_process_never_witness:
  "\<not> group_is_process [] (Thread 7) \<and> \<not> group_is_process (add_process (Process 7) []) (process_as_thread (Process 7))"
  using group_is_process_never[OF groups_reachable.empty] .

end
