(* ===== verification/Calling_Context.thy ===== *)
theory Calling_Context
  imports Scopes Ringbuf_Events "HOL-Library.Product_Lexorder"
begin

text \<open>
  \<^verbatim>\<open>CallingContext\<close> of \<^verbatim>\<open>include/lo2s/calling_context.hpp\<close>: a tag and a union. The comparison
  operators are those of the source; \<open>operator!=\<close> reads the members of the left operand's type from
  both unions although the types differ, so the model has the storage of the union as well.
\<close>

datatype CallingContext =
    CC_ROOT
  | CC_PROCESS Process
  | CC_THREAD Thread
  | CC_SAMPLE_ADDR u64
  | CC_GPU_KERNEL u64
  | CC_SYSCALL u64
  | CC_OPENMP OMPTCctx

fun cctx_type :: "CallingContext \<Rightarrow> int" where
  "cctx_type CC_ROOT = 0"
| "cctx_type (CC_PROCESS _) = 1"
| "cctx_type (CC_THREAD _) = 2"
| "cctx_type (CC_SAMPLE_ADDR _) = 3"
| "cctx_type (CC_GPU_KERNEL _) = 4"
| "cctx_type (CC_SYSCALL _) = 5"
| "cctx_type (CC_OPENMP _) = 6"

definition to_addr :: "CallingContext \<Rightarrow> u64 result" where
  "to_addr c = (case c of CC_SAMPLE_ADDR a \<Rightarrow> Inr a | _ \<Rightarrow> Inl (Runtime_error ''Not an Address!''))"

definition to_syscall_id :: "CallingContext \<Rightarrow> u64 result" where
  "to_syscall_id c = (case c of CC_SYSCALL i \<Rightarrow> Inr i | _ \<Rightarrow> Inl (Runtime_error ''Not a system call!''))"

definition to_kernel_id :: "CallingContext \<Rightarrow> u64 result" where
  "to_kernel_id c = (case c of CC_GPU_KERNEL k \<Rightarrow> Inr k | _ \<Rightarrow> Inl (Runtime_error ''Not a GPU kernel!''))"

definition to_omp_cctx :: "CallingContext \<Rightarrow> OMPTCctx result" where
  "to_omp_cctx c = (case c of CC_OPENMP oc \<Rightarrow> Inr oc | _ \<Rightarrow> Inl (Runtime_error ''Not a OpenMP cctx!''))"

definition to_process :: "CallingContext \<Rightarrow> Process result" where
  "to_process c = (case c of CC_PROCESS p \<Rightarrow> Inr p | _ \<Rightarrow> Inl (Runtime_error ''Not a Process!''))"

definition to_thread :: "CallingContext \<Rightarrow> Thread result" where
  "to_thread c = (case c of CC_THREAD t \<Rightarrow> Inr t | _ \<Rightarrow> Inl (Runtime_error ''Not a Process!''))"

section \<open>Comparison\<close>

definition ompt_less :: "OMPTCctx \<Rightarrow> OMPTCctx \<Rightarrow> bool" where
  "ompt_less lhs rhs \<longleftrightarrow>
    (if omp_type lhs = omp_type rhs
     then if omp_num_threads lhs = omp_num_threads rhs then omp_addr lhs < omp_addr rhs
          else omp_num_threads lhs < omp_num_threads rhs
     else omp_type lhs < omp_type rhs)"

definition ompt_eq :: "OMPTCctx \<Rightarrow> OMPTCctx \<Rightarrow> bool" where
  "ompt_eq lhs rhs \<longleftrightarrow> omp_type lhs = omp_type rhs \<and> omp_num_threads lhs = omp_num_threads rhs
    \<and> omp_addr lhs = omp_addr rhs"

definition roots_error :: "bool result" where
  "roots_error = Inl (Runtime_error ''Can not have two CallingContext Roots!'')"

definition cctx_less :: "CallingContext \<Rightarrow> CallingContext \<Rightarrow> bool result" where
  "cctx_less lhs rhs =
    (if cctx_type lhs \<noteq> cctx_type rhs then Inr (cctx_type lhs < cctx_type rhs)
     else case (lhs, rhs) of
       (CC_PROCESS p, CC_PROCESS q) \<Rightarrow> Inr (process_less p q)
     | (CC_THREAD t, CC_THREAD u) \<Rightarrow> Inr (thread_less t u)
     | (CC_GPU_KERNEL k, CC_GPU_KERNEL l) \<Rightarrow> Inr (k < l)
     | (CC_SAMPLE_ADDR a, CC_SAMPLE_ADDR b) \<Rightarrow> Inr (a < b)
     | (CC_SYSCALL i, CC_SYSCALL j) \<Rightarrow> Inr (i < j)
     | (CC_OPENMP o1, CC_OPENMP o2) \<Rightarrow> Inr (ompt_less o1 o2)
     | _ \<Rightarrow> roots_error)"

definition cctx_eq :: "CallingContext \<Rightarrow> CallingContext \<Rightarrow> bool result" where
  "cctx_eq lhs rhs =
    (if cctx_type lhs = cctx_type rhs then case (lhs, rhs) of
       (CC_PROCESS p, CC_PROCESS q) \<Rightarrow> Inr (p = q)
     | (CC_THREAD t, CC_THREAD u) \<Rightarrow> Inr (t = u)
     | (CC_SAMPLE_ADDR a, CC_SAMPLE_ADDR b) \<Rightarrow> Inr (a = b)
     | (CC_GPU_KERNEL k, CC_GPU_KERNEL l) \<Rightarrow> Inr (k = l)
     | (CC_SYSCALL i, CC_SYSCALL j) \<Rightarrow> Inr (i = j)
     | (CC_OPENMP o1, CC_OPENMP o2) \<Rightarrow> Inr (ompt_eq o1 o2)
     | _ \<Rightarrow> roots_error
     else Inr False)"

text \<open>
  The words of the union at the offsets of \<^verbatim>\<open>OMPTCctx\<close>: type, tid, addr, num_threads. Every
  constructor function writes the first word; the others are determined for OpenMP contexts only and
  come from \<open>junk\<close>, the previous content of the storage, in all other cases.
\<close>

type_synonym storage = "u64 \<times> u64 \<times> u64"

fun union_words :: "storage \<Rightarrow> CallingContext \<Rightarrow> u64 \<times> u64 \<times> u64 \<times> u64" where
  "union_words junk CC_ROOT = (0, junk)"
| "union_words junk (CC_PROCESS p) = (word_of_int (process_as_int p), junk)"
| "union_words junk (CC_THREAD t) = (word_of_int (thread_as_int t), junk)"
| "union_words junk (CC_SAMPLE_ADDR a) = (a, junk)"
| "union_words junk (CC_GPU_KERNEL k) = (k, junk)"
| "union_words junk (CC_SYSCALL i) = (i, junk)"
| "union_words junk (CC_OPENMP c) = (omp_type c, omp_tid c, omp_addr c, omp_num_threads c)"

definition union_ompt :: "storage \<Rightarrow> CallingContext \<Rightarrow> OMPTCctx" where
  "union_ompt junk c = (case union_words junk c of (ty, tid, addr, n) \<Rightarrow>
     \<lparr>omp_type = ty, omp_tid = tid, omp_addr = addr, omp_num_threads = n\<rparr>)"

definition cctx_ne :: "storage \<Rightarrow> CallingContext \<Rightarrow> CallingContext \<Rightarrow> bool result" where
  "cctx_ne junk lhs rhs =
    (if cctx_type lhs \<noteq> cctx_type rhs then case lhs of
       CC_ROOT \<Rightarrow> roots_error
     | CC_OPENMP o1 \<Rightarrow> Inr (\<not> ompt_eq o1 (union_ompt junk rhs))
     | _ \<Rightarrow> Inr (fst (union_words junk lhs) \<noteq> fst (union_words junk rhs))
     else Inr False)"

section \<open>The order of the keys of the calling context trees\<close>

definition cctx_lt :: "CallingContext \<Rightarrow> CallingContext \<Rightarrow> bool" where
  "cctx_lt a b \<longleftrightarrow> cctx_less a b = Inr True"

fun cctx_code :: "CallingContext \<Rightarrow> int \<times> int \<times> int \<times> int" where
  "cctx_code CC_ROOT = (0, 0, 0, 0)"
| "cctx_code (CC_PROCESS p) = (1, process_as_int p, 0, 0)"
| "cctx_code (CC_THREAD t) = (2, thread_as_int t, 0, 0)"
| "cctx_code (CC_SAMPLE_ADDR a) = (3, uint a, 0, 0)"
| "cctx_code (CC_GPU_KERNEL k) = (4, uint k, 0, 0)"
| "cctx_code (CC_SYSCALL i) = (5, uint i, 0, 0)"
| "cctx_code (CC_OPENMP c) = (6, uint (omp_type c), uint (omp_num_threads c), uint (omp_addr c))"

lemma cctx_lt_code: "cctx_lt = (\<lambda>a b. cctx_code a < cctx_code b)"
proof (intro ext)
  fix a b
  show "cctx_lt a b \<longleftrightarrow> cctx_code a < cctx_code b"
    by (cases a; cases b)
      (auto simp: cctx_lt_def cctx_less_def roots_error_def process_less_def thread_less_def ompt_less_def
        word_less_def word_uint_eq_iff)
qed

interpretation cctx_key: strict_weak_order cctx_lt
  unfolding cctx_lt_code by (rule strict_weak_order_code)

lemma cctx_key_eqv: "cctx_key.eqv a b \<longleftrightarrow> cctx_code a = cctx_code b"
  unfolding cctx_key.eqv_def unfolding cctx_lt_code by auto

lemma cctx_eq_eqv: "a \<noteq> CC_ROOT \<or> b \<noteq> CC_ROOT \<Longrightarrow> cctx_eq a b = Inr (cctx_key.eqv a b)"
  unfolding cctx_key_eqv
  by (cases a; cases b)
    (auto simp: cctx_eq_def roots_error_def ompt_eq_def word_uint_eq_iff Process.expand Thread.expand)

lemma eqv_eq_unless_openmp: "cctx_key.eqv a b \<Longrightarrow> \<forall>c. a \<noteq> CC_OPENMP c \<Longrightarrow> a = b"
  unfolding cctx_key_eqv by (cases a; cases b) (auto simp: word_uint_eq_iff Process.expand Thread.expand)

lemma cctx_ne_same_type: "cctx_type a = cctx_type b \<Longrightarrow> cctx_ne junk a b = Inr False"
  by (simp add: cctx_ne_def)

text \<open>
  \<open>operator<\<close> and \<open>operator==\<close> of calling contexts agree: for two contexts that are not both the
  root neither throws, exactly one of \<open>a < b\<close>, \<open>a == b\<close> and \<open>b < a\<close> holds, and \<open><\<close> is transitive.
\<close>
lemma cctx_comparison_trichotomy:
  assumes "a \<noteq> CC_ROOT \<or> b \<noteq> CC_ROOT"
  shows "\<exists>lt eq gt. cctx_less a b = Inr lt \<and> cctx_eq a b = Inr eq \<and> cctx_less b a = Inr gt \<and>
    (lt \<or> eq \<or> gt) \<and> \<not> (lt \<and> eq) \<and> \<not> (lt \<and> gt) \<and> \<not> (eq \<and> gt) \<and>
    (\<forall>c. lt \<longrightarrow> cctx_less b c = Inr True \<longrightarrow> cctx_less a c = Inr True)"
proof -
  have tot: "\<exists>r. cctx_less a b = Inr r" "\<exists>r. cctx_less b a = Inr r"
    using assms by (cases a; cases b; auto simp: cctx_less_def)+
  then have "cctx_less a b = Inr (cctx_lt a b)" "cctx_less b a = Inr (cctx_lt b a)"
    by (auto simp: cctx_lt_def)
  moreover have "cctx_eq a b = Inr (\<not> cctx_lt a b \<and> \<not> cctx_lt b a)"
    using cctx_eq_eqv[OF assms] by (simp add: cctx_key.eqv_def)
  ultimately show ?thesis
    using cctx_key.lt_trans[of a b] cctx_key.lt_trans[of a b a] cctx_key.lt_irrefl[of a]
    by (auto simp: cctx_lt_def)
qed

lemma cctx_comparison_trichotomy_witness:
  "\<exists>lt eq gt. cctx_less (CC_PROCESS (Process 3)) (CC_SYSCALL 1) = Inr lt \<and>
    cctx_eq (CC_PROCESS (Process 3)) (CC_SYSCALL 1) = Inr eq \<and>
    cctx_less (CC_SYSCALL 1) (CC_PROCESS (Process 3)) = Inr gt \<and>
    (lt \<or> eq \<or> gt) \<and> \<not> (lt \<and> eq) \<and> \<not> (lt \<and> gt) \<and> \<not> (eq \<and> gt) \<and>
    (\<forall>c. lt \<longrightarrow> cctx_less (CC_SYSCALL 1) c = Inr True \<longrightarrow> cctx_less (CC_PROCESS (Process 3)) c = Inr True)"
  by (rule cctx_comparison_trichotomy) simp

end
