(* ===== verification/Local_Cctx_Tree.thy ===== *)
theory Local_Cctx_Tree
  imports Calling_Context "HOL-Library.Multiset"
begin

text \<open>
  \<^verbatim>\<open>LocalCctxTree\<close> (\<^verbatim>\<open>include/lo2s/local_cctx_tree.hpp\<close>, \<^verbatim>\<open>src/local_cctx_tree.cpp\<close>): the tree of
  calling contexts of one location, the current call stack as a vector of pointers into the tree,
  and the events written to its trace location. Besides the
  calling context events these are the thread and metric events the sample writer adds. The nodes of a \<^verbatim>\<open>std::map\<close> never move and the vector
  always holds a chain that starts at the root, so a pointer is the list of keys that leads to its
  node. References are counted without bound; the trace format allows fewer than \<open>2 ^ 32\<close> of them.
\<close>

section \<open>Data\<close>

datatype cctx_node = Node (node_ref: nat) (children: "(CallingContext \<times> cctx_node) list")

datatype cctx_event =
    Cctx_enter int nat nat
  | Cctx_leave int nat
  | Cctx_sample int nat u64 nat
  | Thread_begin int nat
  | Thread_end int nat
  | Cpuid_metric int int

fun event_time :: "cctx_event \<Rightarrow> int" where
  "event_time (Cctx_enter tp _ _) = tp"
| "event_time (Cctx_leave tp _) = tp"
| "event_time (Cctx_sample tp _ _ _) = tp"
| "event_time (Thread_begin tp _) = tp"
| "event_time (Thread_end tp _) = tp"
| "event_time (Cpuid_metric tp _) = tp"

record local_cctx_tree =
  lt_tree :: cctx_node
  lt_cur :: "CallingContext list"
  lt_ref_count :: nat
  lt_next_cctx_ref :: nat
  lt_written :: "cctx_event list"

primrec node_at :: "CallingContext list \<Rightarrow> cctx_node \<Rightarrow> cctx_node option" where
  "node_at [] n = Some n"
| "node_at (k # ks) n = Option.bind (std_lookup cctx_lt (children n) k) (node_at ks)"

primrec modify_at :: "CallingContext list \<Rightarrow> (cctx_node \<Rightarrow> cctx_node) \<Rightarrow> cctx_node \<Rightarrow> cctx_node" where
  "modify_at [] f n = f n"
| "modify_at (k # ks) f n = Node (node_ref n) (std_update cctx_lt k (modify_at ks f) (children n))"

section \<open>Operations\<close>

definition local_cctx_tree_new :: local_cctx_tree where
  "local_cctx_tree_new =
    \<lparr>lt_tree = Node 0 [], lt_cur = [CC_ROOT], lt_ref_count = 0, lt_next_cctx_ref = 0, lt_written = []\<rparr>"

definition lt_finalize :: "local_cctx_tree \<Rightarrow> local_cctx_tree" where
  "lt_finalize t = t\<lparr>lt_ref_count := lt_next_cctx_ref t\<rparr>"

definition num_cctx :: "local_cctx_tree \<Rightarrow> nat" where
  "num_cctx t = lt_ref_count t"

definition cur_level :: "local_cctx_tree \<Rightarrow> nat result" where
  "cur_level t = sum_bind (cpp_assert (length (lt_cur t) > 0)) (\<lambda>_. Inr (length (lt_cur t) - 1))"

definition lt_write :: "cctx_event \<Rightarrow> local_cctx_tree \<Rightarrow> local_cctx_tree" where
  "lt_write e t = t\<lparr>lt_written := lt_written t @ [e]\<rparr>"

text \<open>The reference of the node a pointer leads to.\<close>

definition ref_at :: "CallingContext list \<Rightarrow> local_cctx_tree \<Rightarrow> nat result" where
  "ref_at path t = (case node_at path (lt_tree t) of None \<Rightarrow> Inl Memory_fault | Some n \<Rightarrow> Inr (node_ref n))"

definition create_cctx_node ::
    "CallingContext \<Rightarrow> CallingContext list \<Rightarrow> local_cctx_tree
      \<Rightarrow> (CallingContext list \<times> local_cctx_tree) result" where
  "create_cctx_node cctx path t =
    (case node_at path (lt_tree t) of None \<Rightarrow> Inl Memory_fault
     | Some n \<Rightarrow>
       if cctx = CC_ROOT \<and> CC_ROOT \<in> fst ` set (children n)
       then Inl (Runtime_error ''Can not have two CallingContext Roots!'')
       else
         (case std_emplace cctx_lt cctx (Node (lt_next_cctx_ref t) []) (children n) of (ch, inserted) \<Rightarrow>
          case std_find cctx_lt cctx ch of None \<Rightarrow> Inl Memory_fault
          | Some it \<Rightarrow>
            Inr (path @ [fst it],
              t\<lparr>lt_tree := modify_at path (\<lambda>_. Node (node_ref n) ch) (lt_tree t),
                lt_next_cctx_ref := (if inserted then lt_next_cctx_ref t + 1 else lt_next_cctx_ref t)\<rparr>)))"

text \<open>\<open>cctx_leave(tp, level)\<close> and \<open>cctx_leave(tp)\<close>\<close>

function leave_level :: "int \<Rightarrow> nat \<Rightarrow> local_cctx_tree \<Rightarrow> (nat \<times> local_cctx_tree) result" where
  "leave_level tp level t =
    (case cur_level t of Inl e \<Rightarrow> Inl e
     | Inr l \<Rightarrow>
       if level > 0 \<and> l \<ge> level
       then case ref_at (tl (lt_cur t)) t of Inl e \<Rightarrow> Inl e
            | Inr r \<Rightarrow> leave_level tp level ((lt_write (Cctx_leave tp r) t)\<lparr>lt_cur := butlast (lt_cur t)\<rparr>)
       else Inr (l, t))"
  by auto
termination
  by (relation "measure (\<lambda>(tp, level, t). length (lt_cur t))") (auto simp: cur_level_def cpp_assert_def split: if_splits)

definition cctx_leave :: "int \<Rightarrow> local_cctx_tree \<Rightarrow> (nat \<times> local_cctx_tree) result" where
  "cctx_leave tp t = sum_bind (cur_level t) (\<lambda>l. leave_level tp l t)"

definition push_cctx :: "int \<Rightarrow> CallingContext \<Rightarrow> local_cctx_tree \<Rightarrow> local_cctx_tree result" where
  "push_cctx tp cctx t =
    sum_bind (create_cctx_node cctx (tl (lt_cur t)) t) (\<lambda>(path, t1).
    sum_bind (ref_at path t1) (\<lambda>r.
      Inr (lt_write (Cctx_enter tp r 2) (t1\<lparr>lt_cur := hd (lt_cur t) # path\<rparr>))))"

definition handle_enter_cctx_node ::
    "storage \<Rightarrow> int \<Rightarrow> nat \<Rightarrow> CallingContext \<Rightarrow> local_cctx_tree \<Rightarrow> local_cctx_tree result" where
  "handle_enter_cctx_node junk tp level cctx t =
    sum_bind (cpp_assert (level > 0)) (\<lambda>_.
    sum_bind (cur_level t) (\<lambda>l.
    sum_bind (cpp_assert (level \<le> l + 1)) (\<lambda>_.
      if level = l + 1 then push_cctx tp cctx t
      else sum_bind (cctx_ne junk (lt_cur t ! level) cctx) (\<lambda>ne.
        if ne then sum_bind (leave_level tp level t) (\<lambda>(_, t1). push_cctx tp cctx t1)
        else Inr t))))"

text \<open>The variadic \<open>cctx_enter\<close>: at a given level, and below the current call stack.\<close>

fun cctx_enter_at ::
    "storage \<Rightarrow> int \<Rightarrow> nat \<Rightarrow> CallingContext list \<Rightarrow> local_cctx_tree \<Rightarrow> local_cctx_tree result" where
  "cctx_enter_at junk tp level [] t = Inr t"
| "cctx_enter_at junk tp level (c # cs) t =
    sum_bind (handle_enter_cctx_node junk tp level c t) (cctx_enter_at junk tp (level + 1) cs)"

definition cctx_enter ::
    "storage \<Rightarrow> int \<Rightarrow> CallingContext list \<Rightarrow> local_cctx_tree \<Rightarrow> (nat \<times> local_cctx_tree) result" where
  "cctx_enter junk tp cs t =
    sum_bind (cur_level t) (\<lambda>l. sum_bind (cctx_enter_at junk tp (l + 1) cs t) (\<lambda>t1. Inr (l + 1, t1)))"

definition PERF_CONTEXT_KERNEL :: u64 where
  "PERF_CONTEXT_KERNEL = - 128"

definition PERF_CONTEXT_USER :: u64 where
  "PERF_CONTEXT_USER = - 512"

text \<open>
  The two variants of \<open>cctx_sample\<close>; \<open>ig\<close> is the reference of the interrupt generator. The loop
  index runs from \<open>num_ips - 1\<close>, computed with 64 bits, down to 1.
\<close>

function sample_loop ::
    "nat \<Rightarrow> u64 list \<Rightarrow> CallingContext list \<Rightarrow> local_cctx_tree
      \<Rightarrow> (CallingContext list \<times> local_cctx_tree) result" where
  "sample_loop i ips node t =
    (if i = 0 then Inr (node, t)
     else if i \<ge> length ips then Inl Memory_fault
     else if ips ! i = PERF_CONTEXT_KERNEL \<or> ips ! i = PERF_CONTEXT_USER
     then if i \<le> 1 then Inr (node, t) else sample_loop (i - 1) ips node t
     else case create_cctx_node (CC_SAMPLE_ADDR (ips ! i)) node t of Inl e \<Rightarrow> Inl e
          | Inr (node', t') \<Rightarrow> sample_loop (i - 1) ips node' t')"
  by pat_completeness auto
termination by (relation "measure fst") auto

definition cctx_sample_chain ::
    "nat \<Rightarrow> int \<Rightarrow> u64 \<Rightarrow> u64 list \<Rightarrow> local_cctx_tree \<Rightarrow> local_cctx_tree result" where
  "cctx_sample_chain ig tp num_ips ips t =
    sum_bind (sample_loop (unat (num_ips - 1)) ips (tl (lt_cur t)) t) (\<lambda>(node, t1).
    sum_bind (ref_at node t1) (\<lambda>r. Inr (lt_write (Cctx_sample tp r num_ips ig) t1)))"

definition cctx_sample :: "nat \<Rightarrow> int \<Rightarrow> u64 \<Rightarrow> local_cctx_tree \<Rightarrow> local_cctx_tree result" where
  "cctx_sample ig tp ip t =
    sum_bind (create_cctx_node (CC_SAMPLE_ADDR ip) (tl (lt_cur t)) t) (\<lambda>(node, t1).
    sum_bind (ref_at node t1) (\<lambda>r. Inr (lt_write (Cctx_sample tp r 2 ig) t1)))"

declare leave_level.simps [simp del] sample_loop.simps [simp del]

section \<open>Well-formed trees\<close>

fun node_ok :: "cctx_node \<Rightarrow> bool" where
  "node_ok (Node r ch) \<longleftrightarrow> cctx_key.sorted_keys ch \<and> (\<forall>e \<in> set ch. node_ok (snd e))"

fun node_refs :: "cctx_node \<Rightarrow> nat multiset" where
  "node_refs (Node r ch) = add_mset r (sum_list (map (\<lambda>e. node_refs (snd e)) ch))"

text \<open>The references along a path below a node.\<close>

primrec path_refs :: "CallingContext list \<Rightarrow> cctx_node \<Rightarrow> nat list option" where
  "path_refs [] n = Some []"
| "path_refs (k # ks) n =
    (case std_lookup cctx_lt (children n) k of None \<Rightarrow> None
     | Some m \<Rightarrow> map_option ((#) (node_ref m)) (path_refs ks m))"

definition tree_ext :: "cctx_node \<Rightarrow> cctx_node \<Rightarrow> bool" where
  "tree_ext n n' \<longleftrightarrow> (\<forall>q rs. path_refs q n = Some rs \<longrightarrow> path_refs q n' = Some rs)"

lemma node_ok_alt: "node_ok n \<longleftrightarrow> cctx_key.sorted_keys (children n) \<and> (\<forall>e \<in> set (children n). node_ok (snd e))"
  by (cases n) simp

lemma node_ok_sorted: "node_ok n \<Longrightarrow> cctx_key.sorted_keys (children n)"
  by (cases n) simp

lemma node_ok_lookup: "node_ok n \<Longrightarrow> std_lookup cctx_lt (children n) k = Some m \<Longrightarrow> node_ok m"
  using cctx_key.std_find_Some[of "children n" k] by (fastforce simp: node_ok_alt[of n] std_lookup_def)

lemma node_at_ok: "node_ok n \<Longrightarrow> node_at p n = Some m \<Longrightarrow> node_ok m"
  by (induction p arbitrary: n) (auto simp: Option.bind_eq_Some_conv dest: node_ok_lookup)

lemma path_refs_node_at: "path_refs p n = None \<longleftrightarrow> node_at p n = None"
  by (induction p arbitrary: n) (auto split: option.split)

lemma node_at_snoc:
  "node_at (p @ [k]) n = Option.bind (node_at p n) (\<lambda>m. std_lookup cctx_lt (children m) k)"
proof (induction p arbitrary: n)
  case Nil
  have "node_at [] = Some" by (intro ext) simp
  then show ?case by simp
next
  case (Cons a p)
  then show ?case by (cases "std_lookup cctx_lt (children n) a") simp_all
qed

lemma path_refs_snoc:
  "path_refs (p @ [k]) n =
    (case (path_refs p n, node_at (p @ [k]) n) of (Some rs, Some m) \<Rightarrow> Some (rs @ [node_ref m]) | _ \<Rightarrow> None)"
  by (induction p arbitrary: n) (auto split: option.split)

lemma path_refs_length: "path_refs p n = Some rs \<Longrightarrow> length rs = length p"
  by (induction p arbitrary: n rs) (auto split: option.splits)

lemma path_refs_butlast:
  "path_refs (p @ [k]) n = Some rs \<Longrightarrow>
    \<exists>rs' m. path_refs p n = Some rs' \<and> node_at (p @ [k]) n = Some m \<and> rs = rs' @ [node_ref m]"
  by (auto simp: path_refs_snoc split: option.splits)

lemma tree_ext_refl [simp]: "tree_ext n n" by (simp add: tree_ext_def)

lemma tree_ext_trans: "tree_ext a b \<Longrightarrow> tree_ext b c \<Longrightarrow> tree_ext a c"
  by (auto simp: tree_ext_def)

lemma node_ref_modify:
  "node_at p n = Some m \<Longrightarrow> node_ref m' = node_ref m \<Longrightarrow> node_ref (modify_at p (\<lambda>_. m') n) = node_ref n"
  by (cases p) auto

lemma node_at_modify: "node_ok n \<Longrightarrow> node_at p (modify_at p f n) = map_option f (node_at p n)"
proof (induction p arbitrary: n)
  case (Cons k p)
  then show ?case
    by (cases "std_lookup cctx_lt (children n) k")
      (simp_all add: cctx_key.std_lookup_update node_ok_sorted node_ok_lookup)
qed simp

lemma node_ok_modify:
  assumes "node_ok n" "node_at p n = Some m" "node_ok m'"
  shows "node_ok (modify_at p (\<lambda>_. m') n)"
  using assms
proof (induction p arbitrary: n)
  case (Cons k p)
  obtain e where e: "std_find cctx_lt k (children n) = Some e" "node_at p (snd e) = Some m"
    using Cons.prems(2) by (auto simp: std_lookup_def Option.bind_eq_Some_conv)
  have s: "cctx_key.sorted_keys (children n)" using Cons.prems(1) by (rule node_ok_sorted)
  then obtain pre post where split: "children n = pre @ e # post"
    "std_update cctx_lt k (modify_at p (\<lambda>_. m')) (children n) = pre @ (fst e, modify_at p (\<lambda>_. m') (snd e)) # post"
    using cctx_key.std_update_split[OF s e(1)] by metis
  have "node_ok (modify_at p (\<lambda>_. m') (snd e))"
    using Cons.prems(1,3) split(1) e(2) by (intro Cons.IH) (auto simp: node_ok_alt[of n])
  moreover have "\<forall>x \<in> set pre \<union> set post. node_ok (snd x)"
    using Cons.prems(1) split(1) by (auto simp: node_ok_alt[of n])
  moreover have "cctx_key.sorted_keys (pre @ (fst e, modify_at p (\<lambda>_. m') (snd e)) # post)"
    using s split(1) by simp
  ultimately show ?case using split(2) by auto
qed simp

lemma modify_at_id:
  assumes "node_ok n" "node_at p n = Some m"
  shows "modify_at p (\<lambda>_. m) n = n"
  using assms
proof (induction p arbitrary: n)
  case (Cons k p)
  obtain e where e: "std_find cctx_lt k (children n) = Some e" "node_at p (snd e) = Some m"
    using Cons.prems(2) by (auto simp: std_lookup_def Option.bind_eq_Some_conv)
  obtain pre post where split: "children n = pre @ e # post"
    "std_update cctx_lt k (modify_at p (\<lambda>_. m)) (children n) = pre @ (fst e, modify_at p (\<lambda>_. m) (snd e)) # post"
    using cctx_key.std_update_split[OF node_ok_sorted[OF Cons.prems(1)] e(1)] by metis
  have "modify_at p (\<lambda>_. m) (snd e) = snd e"
    using Cons.prems(1) split(1) e(2) by (intro Cons.IH) (auto simp: node_ok_alt[of n])
  then show ?case using split by (cases n) simp
qed simp

lemma node_refs_alt: "node_refs n = add_mset (node_ref n) (sum_list (map (\<lambda>e. node_refs (snd e)) (children n)))"
  by (cases n) simp

lemma node_refs_modify:
  assumes "node_ok n" "node_at p n = Some m" "node_refs m' = add_mset r (node_refs m)"
  shows "node_refs (modify_at p (\<lambda>_. m') n) = add_mset r (node_refs n)"
  using assms
proof (induction p arbitrary: n)
  case (Cons k p)
  obtain e where e: "std_find cctx_lt k (children n) = Some e" "node_at p (snd e) = Some m"
    using Cons.prems(2) by (auto simp: std_lookup_def Option.bind_eq_Some_conv)
  have s: "cctx_key.sorted_keys (children n)" using Cons.prems(1) by (rule node_ok_sorted)
  then obtain pre post where split: "children n = pre @ e # post"
    "std_update cctx_lt k (modify_at p (\<lambda>_. m')) (children n) = pre @ (fst e, modify_at p (\<lambda>_. m') (snd e)) # post"
    using cctx_key.std_update_split[OF s e(1)] by metis
  have "node_refs (modify_at p (\<lambda>_. m') (snd e)) = add_mset r (node_refs (snd e))"
    using Cons.prems(1,3) split(1) e(2) by (intro Cons.IH) (auto simp: node_ok_alt[of n])
  then show ?case using split by (simp add: node_refs_alt[of n])
qed simp

lemma tree_ext_modify:
  assumes "node_ok n" "node_at p n = Some m" "node_ref m' = node_ref m" "tree_ext m m'"
  shows "tree_ext n (modify_at p (\<lambda>_. m') n)"
  using assms
proof (induction p arbitrary: n)
  case (Cons k p)
  obtain c where c: "std_lookup cctx_lt (children n) k = Some c" "node_at p c = Some m"
    using Cons.prems(2) by (auto simp: Option.bind_eq_Some_conv)
  have "tree_ext c (modify_at p (\<lambda>_. m') c)" "node_ref (modify_at p (\<lambda>_. m') c) = node_ref c"
    using Cons c node_ref_modify by (auto dest: node_ok_lookup)
  moreover have "std_lookup cctx_lt (children n) k' = Some c" if "cctx_key.eqv k k'" for k'
    using c(1) that cctx_key.std_find_cong[OF node_ok_sorted[OF Cons.prems(1)], of k k']
    by (simp add: std_lookup_def)
  ultimately have "path_refs q (modify_at (k # p) (\<lambda>_. m') n) = Some rs" if "path_refs q n = Some rs" for q rs
    using that Cons.prems(1)
    by (cases q) (auto simp: tree_ext_def node_ok_alt[of n] cctx_key.std_lookup_update split: option.splits)
  then show ?case unfolding tree_ext_def by blast
qed simp

section \<open>The invariant\<close>

text \<open>Every reference below \<open>next_cctx_ref_\<close> belongs to exactly one node below the root.\<close>

definition tree_inv :: "local_cctx_tree \<Rightarrow> bool" where
  "tree_inv t \<longleftrightarrow> node_ok (lt_tree t) \<and>
    node_refs (lt_tree t) = add_mset 0 (mset [0..<lt_next_cctx_ref t]) \<and> node_ref (lt_tree t) = 0"

text \<open>What a reader of the trace reconstructs from the enter and leave events: the open regions.\<close>

fun replay :: "cctx_event list \<Rightarrow> nat list \<Rightarrow> nat list option" where
  "replay [] st = Some st"
| "replay (Cctx_enter tp r n # es) st = replay es (st @ [r])"
| "replay (Cctx_leave tp r # es) st = (if st \<noteq> [] \<and> last st = r then replay es (butlast st) else None)"
| "replay (Cctx_sample tp r n g # es) st = replay es st"
| "replay (Thread_begin tp c # es) st = replay es st"
| "replay (Thread_end tp c # es) st = replay es st"
| "replay (Cpuid_metric tp v # es) st = replay es st"

definition lt_inv :: "local_cctx_tree \<Rightarrow> bool" where
  "lt_inv t \<longleftrightarrow> tree_inv t \<and> lt_cur t \<noteq> [] \<and> hd (lt_cur t) = CC_ROOT \<and> CC_ROOT \<notin> set (tl (lt_cur t)) \<and>
    path_refs (tl (lt_cur t)) (lt_tree t) \<noteq> None \<and>
    replay (lt_written t) [] = path_refs (tl (lt_cur t)) (lt_tree t)"

lemma replay_append: "replay (es @ fs) st = Option.bind (replay es st) (replay fs)"
  by (induction es st rule: replay.induct) auto

lemma local_cctx_tree_new_inv: "lt_inv local_cctx_tree_new"
  by (simp add: lt_inv_def tree_inv_def local_cctx_tree_new_def)

lemma std_lookup_emplace_known:
  assumes "cctx_key.sorted_keys xs" "std_lookup cctx_lt xs k = Some x"
  shows "std_lookup cctx_lt (fst (std_emplace cctx_lt c v xs)) k = Some x"
  using cctx_key.std_lookup_emplace[OF assms(1), of c v k] assms(2)
    cctx_key.std_find_cong[OF assms(1), of c k] by (auto simp: std_lookup_def)

text \<open>The children of a node after \<open>emplace\<close>.\<close>

lemma emplace_child:
  fixes c r defines "new \<equiv> Node r []"
  assumes ok: "node_ok n" and em: "std_emplace cctx_lt c new (children n) = (ch, ins)"
  obtains it where "std_find cctx_lt c ch = Some it" "cctx_key.eqv (fst it) c"
    "std_lookup cctx_lt ch (fst it) = Some (snd it)"
    "std_lookup cctx_lt (children n) c = Some (snd it) \<or> node_ref (snd it) = r"
    "node_ok (Node (node_ref n) ch)" "tree_ext n (Node (node_ref n) ch)"
    "if ins then node_refs (Node (node_ref n) ch) = add_mset r (node_refs n) else Node (node_ref n) ch = n"
proof -
  note srt = node_ok_sorted[OF ok]
  have s: "cctx_key.sorted_keys ch" and sub: "set ch \<subseteq> insert (c, new) (set (children n))"
    using cctx_key.std_emplace_sorted[OF srt, of c new] cctx_key.std_emplace_set[OF srt, of c new]
    by (auto simp: em)
  obtain it where it: "std_find cctx_lt c ch = Some it"
    and old: "std_lookup cctx_lt (children n) c = Some (snd it) \<or> it = (c, new)"
    using cctx_key.std_find_emplace_same[OF srt, of c new] em by (auto simp: std_lookup_def split: option.splits)
  have eqv: "cctx_key.eqv (fst it) c" using cctx_key.std_find_Some[OF s it] by simp
  have ins: "ins \<longleftrightarrow> std_find cctx_lt c (children n) = None"
    using cctx_key.std_emplace_inserted[OF srt, of c new] em by simp
  have "path_refs q (Node (node_ref n) ch) = Some ss" if "path_refs q n = Some ss" for q ss
    using that std_lookup_emplace_known[OF srt, of _ _ c new] em by (cases q) (auto split: option.splits)
  then have ext: "tree_ext n (Node (node_ref n) ch)" by (simp add: tree_ext_def)
  have refs: "if ins then node_refs (Node (node_ref n) ch) = add_mset r (node_refs n) else Node (node_ref n) ch = n"
  proof (cases ins)
    case True
    then obtain pre post where "children n = pre @ post" "ch = pre @ (c, new) # post"
      using cctx_key.std_emplace_split[OF srt, of c new] ins em by (metis fst_conv)
    with True show ?thesis by (simp add: node_refs_alt[of n] new_def)
  next
    case False
    then show ?thesis using cctx_key.std_emplace_known[OF srt] ins em by (cases n) fastforce
  qed
  have okm: "node_ok (Node (node_ref n) ch)"
    using ok sub s by (auto simp: node_ok_alt[of n] new_def)
  have lk: "std_lookup cctx_lt ch (fst it) = Some (snd it)"
    using cctx_key.std_find_cong[OF s eqv] it by (simp add: std_lookup_def)
  have old': "std_lookup cctx_lt (children n) c = Some (snd it) \<or> node_ref (snd it) = r"
    using old by (auto simp: new_def)
  show thesis by (rule that[OF it eqv lk old' okm ext refs])
qed

lemma create_cctx_node_ok:
  assumes inv: "tree_inv t" and path: "path_refs path (lt_tree t) = Some rs" and c: "cctx \<noteq> CC_ROOT"
  obtains k t' r where "create_cctx_node cctx path t = Inr (path @ [k], t')"
    "cctx_key.eqv k cctx" "tree_inv t'" "tree_ext (lt_tree t) (lt_tree t')"
    "path_refs (path @ [k]) (lt_tree t') = Some (rs @ [r])" "ref_at (path @ [k]) t' = Inr r"
    "lt_cur t' = lt_cur t" "lt_written t' = lt_written t" "lt_ref_count t' = lt_ref_count t"
    "path_refs (path @ [cctx]) (lt_tree t) = Some (rs @ [r]) \<or> r = lt_next_cctx_ref t"
proof -
  obtain n where n: "node_at path (lt_tree t) = Some n"
    using path path_refs_node_at by (metis not_None_eq)
  have okt: "node_ok (lt_tree t)" using inv by (simp add: tree_inv_def)
  obtain ch ins where em: "std_emplace cctx_lt cctx (Node (lt_next_cctx_ref t) []) (children n) = (ch, ins)"
    by force
  let ?m = "Node (node_ref n) ch"
  obtain it where it: "std_find cctx_lt cctx ch = Some it" "cctx_key.eqv (fst it) cctx"
    "std_lookup cctx_lt ch (fst it) = Some (snd it)"
    "std_lookup cctx_lt (children n) cctx = Some (snd it) \<or> node_ref (snd it) = lt_next_cctx_ref t"
    "node_ok ?m" "tree_ext n ?m"
    "if ins then node_refs ?m = add_mset (lt_next_cctx_ref t) (node_refs n) else ?m = n"
    using emplace_child[OF node_at_ok[OF okt n] em] by metis
  let ?t = "t\<lparr>lt_tree := modify_at path (\<lambda>_. ?m) (lt_tree t),
    lt_next_cctx_ref := (if ins then lt_next_cctx_ref t + 1 else lt_next_cctx_ref t)\<rparr>"
  have run: "create_cctx_node cctx path t = Inr (path @ [fst it], ?t)"
    using c n em it(1) by (simp add: create_cctx_node_def)
  have ext: "tree_ext (lt_tree t) (lt_tree ?t)" using tree_ext_modify[OF okt n _ it(6)] by simp
  have refs: "node_refs (lt_tree ?t) = (if ins then add_mset (lt_next_cctx_ref t) else id) (node_refs (lt_tree t))"
    using it(7) node_refs_modify[OF okt n] modify_at_id[OF okt n] by (cases ins) auto
  have inv': "tree_inv ?t"
    using inv refs node_ok_modify[OF okt n it(5)] node_ref_modify[OF n, of ?m]
    by (auto simp: tree_inv_def atLeastLessThanSuc)
  have at: "node_at (path @ [fst it]) (lt_tree ?t) = Some (snd it)"
    using node_at_modify[OF okt, of path "\<lambda>_. ?m"] n it(3) by (simp add: node_at_snoc)
  have pr: "path_refs (path @ [fst it]) (lt_tree ?t) = Some (rs @ [node_ref (snd it)])"
    using at path ext by (auto simp: path_refs_snoc tree_ext_def)
  have last: "path_refs (path @ [cctx]) (lt_tree t) = Some (rs @ [node_ref (snd it)]) \<or>
      node_ref (snd it) = lt_next_cctx_ref t"
    using it(4) n path by (auto simp: path_refs_snoc node_at_snoc)
  show thesis
    by (rule that[OF run it(2) inv' ext pr _ _ _ _ last]) (use at in \<open>simp_all add: ref_at_def\<close>)
qed

section \<open>The operations preserve the invariant\<close>

lemma cur_level_ok: "lt_inv t \<Longrightarrow> cur_level t = Inr (length (lt_cur t) - 1)"
  by (simp add: cur_level_def lt_inv_def)

lemma lt_inv_write_sample: "lt_inv t \<Longrightarrow> lt_inv (lt_write (Cctx_sample tp r n g) t)"
  by (auto simp: lt_inv_def lt_write_def tree_inv_def replay_append)

lemma lt_inv_write_other:
  "lt_inv t \<Longrightarrow> lt_inv (lt_write (Thread_begin tp c) t)"
  "lt_inv t \<Longrightarrow> lt_inv (lt_write (Thread_end tp c) t)"
  "lt_inv t \<Longrightarrow> lt_inv (lt_write (Cpuid_metric tp v) t)"
  by (auto simp: lt_inv_def lt_write_def tree_inv_def replay_append)

lemma lt_inv_pop:
  assumes inv: "lt_inv t" and len: "1 < length (lt_cur t)"
  obtains r where "ref_at (tl (lt_cur t)) t = Inr r"
    "lt_inv ((lt_write (Cctx_leave tp r) t)\<lparr>lt_cur := butlast (lt_cur t)\<rparr>)"
proof -
  obtain p k where cur: "lt_cur t = CC_ROOT # p @ [k]"
    using inv len by (cases "lt_cur t"; cases "tl (lt_cur t)" rule: rev_cases) (auto simp: lt_inv_def)
  obtain rs m where "path_refs p (lt_tree t) = Some rs" "node_at (p @ [k]) (lt_tree t) = Some m"
    "path_refs (p @ [k]) (lt_tree t) = Some (rs @ [node_ref m])"
    using inv cur path_refs_butlast[of p k "lt_tree t"] by (auto simp: lt_inv_def)
  with inv cur show thesis
    by (intro that[of "node_ref m"])
      (auto simp: ref_at_def lt_inv_def lt_write_def tree_inv_def replay_append butlast_append)
qed

lemma leave_level_ok:
  "lt_inv t \<Longrightarrow> \<exists>t'. leave_level tp level t = Inr (length (lt_cur t') - 1, t') \<and> lt_inv t' \<and>
    lt_cur t' = (if level = 0 then lt_cur t else take level (lt_cur t)) \<and> lt_tree t' = lt_tree t \<and>
    lt_next_cctx_ref t' = lt_next_cctx_ref t \<and> lt_ref_count t' = lt_ref_count t"
proof (induction tp level t rule: leave_level.induct)
  case (1 tp level t)
  have ne: "lt_cur t \<noteq> []" using "1.prems" by (simp add: lt_inv_def)
  note lvl = cur_level_ok[OF "1.prems"]
  show ?case
  proof (cases "level > 0 \<and> length (lt_cur t) - 1 \<ge> level")
    case True
    then have "1 < length (lt_cur t)" by linarith
    then obtain r where r: "ref_at (tl (lt_cur t)) t = Inr r"
      "lt_inv ((lt_write (Cctx_leave tp r) t)\<lparr>lt_cur := butlast (lt_cur t)\<rparr>)"
      using lt_inv_pop[OF "1.prems"] by metis
    have "take level (butlast (lt_cur t)) = take level (lt_cur t)"
      using True by (simp add: butlast_conv_take min_def)
    with "1.IH"[OF lvl True r] True lvl r(1) show ?thesis
      by (subst leave_level.simps) (simp add: lt_write_def)
  next
    case False
    then have "level = 0 \<or> length (lt_cur t) \<le> level" by linarith
    with False lvl "1.prems" show ?thesis by (subst leave_level.simps) auto
  qed
qed

lemma push_cctx_ok:
  assumes inv: "lt_inv t" and c: "c \<noteq> CC_ROOT"
  obtains k t' r where "push_cctx tp c t = Inr t'" "lt_inv t'" "lt_cur t' = lt_cur t @ [k]"
    "cctx_key.eqv k c" "lt_written t' = lt_written t @ [Cctx_enter tp r 2]"
    "tree_ext (lt_tree t) (lt_tree t')" "lt_ref_count t' = lt_ref_count t"
proof -
  obtain p rs where cur: "lt_cur t = CC_ROOT # p" "path_refs p (lt_tree t) = Some rs" "CC_ROOT \<notin> set p"
    "replay (lt_written t) [] = Some rs" "tree_inv t"
    using inv by (cases "lt_cur t") (auto simp: lt_inv_def)
  obtain k t1 r where t1: "create_cctx_node c p t = Inr (p @ [k], t1)"
    "cctx_key.eqv k c" "tree_inv t1" "tree_ext (lt_tree t) (lt_tree t1)"
    "path_refs (p @ [k]) (lt_tree t1) = Some (rs @ [r])" "ref_at (p @ [k]) t1 = Inr r"
    "lt_cur t1 = lt_cur t" "lt_written t1 = lt_written t" "lt_ref_count t1 = lt_ref_count t"
    using create_cctx_node_ok[OF cur(5,2) c] by metis
  have "k \<noteq> CC_ROOT" using t1(2) c eqv_eq_unless_openmp[of k c] by auto
  then show thesis
    using t1 cur
    by (intro that[of "lt_write (Cctx_enter tp r 2) (t1\<lparr>lt_cur := CC_ROOT # p @ [k]\<rparr>)" k r])
      (auto simp: push_cctx_def lt_inv_def lt_write_def tree_inv_def replay_append)
qed

lemma cctx_ne_ok: "a \<noteq> CC_ROOT \<Longrightarrow> \<exists>b. cctx_ne junk a c = Inr b"
  by (cases a) (auto simp: cctx_ne_def)

lemma handle_enter_ok:
  assumes inv: "lt_inv t" and c: "c \<noteq> CC_ROOT" and lvl: "0 < level" "level \<le> length (lt_cur t)"
  obtains t' where "handle_enter_cctx_node junk tp level c t = Inr t'" "lt_inv t'"
    "if level < length (lt_cur t) \<and> cctx_ne junk (lt_cur t ! level) c = Inr False then t' = t
     else \<exists>k. cctx_key.eqv k c \<and> lt_cur t' = take level (lt_cur t) @ [k]"
    "lt_ref_count t' = lt_ref_count t" "tree_ext (lt_tree t) (lt_tree t')"
proof -
  have ne: "lt_cur t \<noteq> []" using inv by (simp add: lt_inv_def)
  note cl = cur_level_ok[OF inv]
  show thesis
  proof (cases "level = length (lt_cur t)")
    case True
    obtain k t' where "push_cctx tp c t = Inr t'" "lt_inv t'" "lt_cur t' = lt_cur t @ [k]"
      "cctx_key.eqv k c" "tree_ext (lt_tree t) (lt_tree t')" "lt_ref_count t' = lt_ref_count t"
      using push_cctx_ok[OF inv c] by metis
    with True lvl ne cl show thesis
      by (intro that[of t']) (auto simp: handle_enter_cctx_node_def)
  next
    case False
    have root: "lt_cur t ! level \<noteq> CC_ROOT"
    proof -
      have "tl (lt_cur t) ! (level - 1) = lt_cur t ! level" "level - 1 < length (tl (lt_cur t))"
        using lvl False by (simp_all add: nth_tl)
      then have "lt_cur t ! level \<in> set (tl (lt_cur t))" by (metis nth_mem)
      with inv show ?thesis by (auto simp: lt_inv_def)
    qed
    obtain b where b: "cctx_ne junk (lt_cur t ! level) c = Inr b" using cctx_ne_ok[OF root] by blast
    obtain t1 where t1: "leave_level tp level t = Inr (length (lt_cur t1) - 1, t1)" "lt_inv t1"
      "lt_cur t1 = take level (lt_cur t)" "lt_tree t1 = lt_tree t" "lt_ref_count t1 = lt_ref_count t"
      using leave_level_ok[OF inv, of tp level] lvl by auto
    obtain k t' where "push_cctx tp c t1 = Inr t'" "lt_inv t'" "lt_cur t' = lt_cur t1 @ [k]"
      "cctx_key.eqv k c" "tree_ext (lt_tree t1) (lt_tree t')" "lt_ref_count t' = lt_ref_count t1"
      using push_cctx_ok[OF t1(2) c] by metis
    with t1 b False lvl ne cl inv show thesis
      by (intro that[of "if b then t' else t"]) (auto simp: handle_enter_cctx_node_def)
  qed
qed

lemma cctx_enter_at_ok:
  "lt_inv t \<Longrightarrow> CC_ROOT \<notin> set cs \<Longrightarrow> 0 < level \<Longrightarrow> level \<le> length (lt_cur t) \<Longrightarrow>
    \<exists>t'. cctx_enter_at junk tp level cs t = Inr t' \<and> lt_inv t' \<and> lt_ref_count t' = lt_ref_count t \<and>
      tree_ext (lt_tree t) (lt_tree t') \<and> level + length cs \<le> length (lt_cur t') \<and>
      (level = length (lt_cur t) \<longrightarrow> (\<exists>ks. lt_cur t' = lt_cur t @ ks \<and> list_all2 cctx_key.eqv ks cs))"
proof (induction cs arbitrary: t level)
  case (Cons c cs)
  obtain t1 where t1: "handle_enter_cctx_node junk tp level c t = Inr t1" "lt_inv t1"
    "if level < length (lt_cur t) \<and> cctx_ne junk (lt_cur t ! level) c = Inr False then t1 = t
     else \<exists>k. cctx_key.eqv k c \<and> lt_cur t1 = take level (lt_cur t) @ [k]"
    "lt_ref_count t1 = lt_ref_count t" "tree_ext (lt_tree t) (lt_tree t1)"
    using Cons.prems by (auto intro: handle_enter_ok[of t c level junk tp])
  have len: "level + 1 \<le> length (lt_cur t1)"
    using t1(3) Cons.prems by (auto split: if_splits)
  obtain t' where "cctx_enter_at junk tp (level + 1) cs t1 = Inr t'" "lt_inv t'"
    "lt_ref_count t' = lt_ref_count t1" "tree_ext (lt_tree t1) (lt_tree t')"
    "level + 1 + length cs \<le> length (lt_cur t')"
    "level + 1 = length (lt_cur t1) \<longrightarrow> (\<exists>ks. lt_cur t' = lt_cur t1 @ ks \<and> list_all2 cctx_key.eqv ks cs)"
    using Cons.IH[OF t1(2) _ _ len] Cons.prems by auto
  with t1 show ?case by (auto intro: tree_ext_trans)
qed (auto simp: tree_ext_def)

lemma path_refs_tree_ext: "tree_ext a b \<Longrightarrow> path_refs p a = Some rs \<Longrightarrow> path_refs p b = Some rs"
  by (simp add: tree_ext_def)

lemma lt_inv_transfer:
  assumes "lt_inv t" "tree_inv t'" "tree_ext (lt_tree t) (lt_tree t')"
    "lt_cur t' = lt_cur t" "lt_written t' = lt_written t"
  shows "lt_inv t'"
  using assms by (auto simp: lt_inv_def dest: path_refs_tree_ext)

text \<open>The call chain a sample stands for: outermost caller first, without context markers.\<close>

definition is_marker :: "u64 \<Rightarrow> bool" where
  "is_marker ip \<longleftrightarrow> ip = PERF_CONTEXT_KERNEL \<or> ip = PERF_CONTEXT_USER"

definition chain :: "u64 list \<Rightarrow> CallingContext list" where
  "chain ips = map CC_SAMPLE_ADDR (rev (filter (\<lambda>ip. \<not> is_marker ip) ips))"

lemma eqv_sample_addr: "cctx_key.eqv k (CC_SAMPLE_ADDR a) \<Longrightarrow> k = CC_SAMPLE_ADDR a"
  using eqv_eq_unless_openmp[of "CC_SAMPLE_ADDR a" k] cctx_key.eqv_sym by blast

lemma sample_loop_ok:
  "tree_inv t \<Longrightarrow> path_refs node (lt_tree t) = Some rs \<Longrightarrow> i < length ips \<Longrightarrow>
    \<exists>t' rs'. sample_loop i ips node t = Inr (node @ chain (take i (tl ips)), t') \<and> tree_inv t' \<and>
      tree_ext (lt_tree t) (lt_tree t') \<and> path_refs (node @ chain (take i (tl ips))) (lt_tree t') = Some rs' \<and>
      lt_cur t' = lt_cur t \<and> lt_written t' = lt_written t \<and> lt_ref_count t' = lt_ref_count t"
proof (induction i ips node t arbitrary: rs rule: sample_loop.induct)
  case (1 i ips node t)
  show ?case
  proof (cases i)
    case 0
    with 1 show ?thesis by (subst sample_loop.simps) (auto simp: chain_def)
  next
    case (Suc j)
    have tk: "take i (tl ips) = take j (tl ips) @ [ips ! i]"
      using Suc "1.prems"(3) by (simp add: take_Suc_conv_app_nth nth_tl)
    show ?thesis
    proof (cases "is_marker (ips ! i)")
      case True
      then have ch: "chain (take i (tl ips)) = chain (take j (tl ips))" by (simp add: tk chain_def)
      have run: "sample_loop i ips node t = (if i \<le> 1 then Inr (node, t) else sample_loop (i - 1) ips node t)"
        using True Suc "1.prems"(3) by (subst sample_loop.simps) (auto simp: is_marker_def)
      show ?thesis
      proof (cases "i \<le> 1")
        case True
        with run Suc ch "1.prems" show ?thesis by (auto simp: chain_def)
      next
        case False
        with "1.IH"(1)[of rs] run Suc ch True "1.prems" show ?thesis by (simp add: is_marker_def)
      qed
    next
      case False
      obtain k t1 r where t1: "create_cctx_node (CC_SAMPLE_ADDR (ips ! i)) node t = Inr (node @ [k], t1)"
        "cctx_key.eqv k (CC_SAMPLE_ADDR (ips ! i))" "tree_inv t1" "tree_ext (lt_tree t) (lt_tree t1)"
        "path_refs (node @ [k]) (lt_tree t1) = Some (rs @ [r])"
        "lt_cur t1 = lt_cur t" "lt_written t1 = lt_written t" "lt_ref_count t1 = lt_ref_count t"
        using create_cctx_node_ok[OF "1.prems"(1,2), of "CC_SAMPLE_ADDR (ips ! i)"] by (metis CallingContext.distinct(5))
      have k: "k = CC_SAMPLE_ADDR (ips ! i)" using eqv_sample_addr[OF t1(2)] .
      have ch: "chain (take i (tl ips)) = CC_SAMPLE_ADDR (ips ! i) # chain (take j (tl ips))"
        using False by (simp add: tk chain_def)
      have run: "sample_loop i ips node t = sample_loop j ips (node @ [k]) t1"
        using False Suc "1.prems"(3) t1(1) by (subst sample_loop.simps) (auto simp: is_marker_def)
      obtain t' rs' where "sample_loop j ips (node @ [k]) t1 = Inr ((node @ [k]) @ chain (take j (tl ips)), t')"
        "tree_inv t'" "tree_ext (lt_tree t1) (lt_tree t')"
        "path_refs ((node @ [k]) @ chain (take j (tl ips))) (lt_tree t') = Some rs'"
        "lt_cur t' = lt_cur t1" "lt_written t' = lt_written t1" "lt_ref_count t' = lt_ref_count t1"
        using "1.IH"(2)[OF _ _ _ t1(1), of "node @ [k]" t1 "rs @ [r]"] False Suc "1.prems"(3) t1
        by (auto simp: is_marker_def)
      with run ch k t1 show ?thesis by (auto intro: tree_ext_trans)
    qed
  qed
qed

lemma cctx_sample_ok:
  assumes inv: "lt_inv t"
  obtains t' where "cctx_sample ig tp ip t = Inr t'" "lt_inv t'" "lt_cur t' = lt_cur t"
    "lt_ref_count t' = lt_ref_count t"
proof -
  obtain rs where rs: "path_refs (tl (lt_cur t)) (lt_tree t) = Some rs" and ti: "tree_inv t"
    using inv by (auto simp: lt_inv_def)
  obtain k t1 r where t1: "create_cctx_node (CC_SAMPLE_ADDR ip) (tl (lt_cur t)) t = Inr (tl (lt_cur t) @ [k], t1)"
    "tree_inv t1" "tree_ext (lt_tree t) (lt_tree t1)" "ref_at (tl (lt_cur t) @ [k]) t1 = Inr r"
    "lt_cur t1 = lt_cur t" "lt_written t1 = lt_written t" "lt_ref_count t1 = lt_ref_count t"
    using create_cctx_node_ok[OF ti rs, of "CC_SAMPLE_ADDR ip"] by (metis CallingContext.distinct(5))
  then have "lt_inv t1" using lt_inv_transfer[OF inv] by blast
  then show thesis
    using t1 by (intro that[of "lt_write (Cctx_sample tp r 2 ig) t1"])
      (auto simp: cctx_sample_def lt_inv_write_sample, auto simp: lt_write_def)
qed

lemma cctx_sample_chain_ok:
  assumes inv: "lt_inv t" and n: "num_ips \<noteq> 0" "unat num_ips \<le> length ips"
  obtains t' r rs where "cctx_sample_chain ig tp num_ips ips t = Inr t'" "lt_inv t'" "lt_cur t' = lt_cur t"
    "lt_written t' = lt_written t @ [Cctx_sample tp r num_ips ig]"
    "ref_at (tl (lt_cur t) @ chain (tl (take (unat num_ips) ips))) t' = Inr r"
    "lt_ref_count t' = lt_ref_count t"
proof -
  obtain rs where rs: "path_refs (tl (lt_cur t)) (lt_tree t) = Some rs" and ti: "tree_inv t"
    using inv by (auto simp: lt_inv_def)
  have i: "unat (num_ips - 1) = unat num_ips - 1" "unat num_ips \<noteq> 0"
    using n(1) by (simp_all add: unat_minus_one unat_eq_0)
  let ?p = "tl (lt_cur t) @ chain (take (unat num_ips - 1) (tl ips))"
  obtain t1 rs1 where t1: "sample_loop (unat num_ips - 1) ips (tl (lt_cur t)) t = Inr (?p, t1)" "tree_inv t1"
    "tree_ext (lt_tree t) (lt_tree t1)" "path_refs ?p (lt_tree t1) = Some rs1"
    "lt_cur t1 = lt_cur t" "lt_written t1 = lt_written t" "lt_ref_count t1 = lt_ref_count t"
  proof -
    have "unat num_ips - 1 < length ips" using n(2) i(2) by linarith
    then show thesis using sample_loop_ok[OF ti rs, of "unat num_ips - 1" ips] that by blast
  qed
  obtain r where r: "ref_at ?p t1 = Inr r"
    using t1(4) path_refs_node_at[of ?p "lt_tree t1"] by (auto simp: ref_at_def)
  have "lt_inv t1" using lt_inv_transfer[OF inv] t1 by blast
  moreover have "tl (take (unat num_ips) ips) = take (unat num_ips - 1) (tl ips)"
    by (simp add: tl_take)
  ultimately show thesis
    using t1 r i(1)
    by (intro that[of "lt_write (Cctx_sample tp r num_ips ig) t1" r])
      (auto simp: cctx_sample_chain_def lt_inv_write_sample, auto simp: lt_write_def ref_at_def)
qed

section \<open>Properties\<close>

text \<open>The states the users of the class can bring a tree into.\<close>

inductive lt_reachable :: "local_cctx_tree \<Rightarrow> bool" where
  new: "lt_reachable local_cctx_tree_new"
| enter: "lt_reachable t \<Longrightarrow> CC_ROOT \<notin> set cs \<Longrightarrow> cctx_enter junk tp cs t = Inr (l, t') \<Longrightarrow> lt_reachable t'"
| enter_at: "lt_reachable t \<Longrightarrow> CC_ROOT \<notin> set cs \<Longrightarrow> cs \<noteq> [] \<Longrightarrow>
    cctx_enter_at junk tp level cs t = Inr t' \<Longrightarrow> lt_reachable t'"
| leave: "lt_reachable t \<Longrightarrow> cctx_leave tp t = Inr (l, t') \<Longrightarrow> lt_reachable t'"
| leave_at: "lt_reachable t \<Longrightarrow> leave_level tp level t = Inr (l, t') \<Longrightarrow> lt_reachable t'"
| sample: "lt_reachable t \<Longrightarrow> cctx_sample ig tp ip t = Inr t' \<Longrightarrow> lt_reachable t'"
| sample_chain: "lt_reachable t \<Longrightarrow> num_ips \<noteq> 0 \<Longrightarrow> unat num_ips \<le> length ips \<Longrightarrow>
    cctx_sample_chain ig tp num_ips ips t = Inr t' \<Longrightarrow> lt_reachable t'"
| finish: "lt_reachable t \<Longrightarrow> lt_reachable (lt_finalize t)"

lemma handle_enter_level:
  assumes "lt_inv t" "handle_enter_cctx_node junk tp level c t = Inr t'"
  shows "0 < level \<and> level \<le> length (lt_cur t)"
  using assms cur_level_ok[OF assms(1)]
  by (auto simp: handle_enter_cctx_node_def cpp_assert_def lt_inv_def split: if_splits)

lemma lt_reachable_inv: "lt_reachable t \<Longrightarrow> lt_inv t"
proof (induction rule: lt_reachable.induct)
  case new
  then show ?case by (rule local_cctx_tree_new_inv)
next
  case (enter t cs junk tp l t')
  then show ?case
    using cctx_enter_at_ok[of t cs "length (lt_cur t)" junk tp] cur_level_ok[of t]
    by (auto simp: cctx_enter_def lt_inv_def[of t])
next
  case (enter_at t cs junk tp level t')
  then obtain c cs' t1 where "cs = c # cs'" "handle_enter_cctx_node junk tp level c t = Inr t1"
    by (cases cs; cases "handle_enter_cctx_node junk tp level (hd cs) t") auto
  with enter_at show ?case
    using cctx_enter_at_ok[of t cs level junk tp] handle_enter_level by fastforce
next
  case (leave t tp l t')
  then show ?case
    using leave_level_ok[of t tp "length (lt_cur t) - 1"] cur_level_ok[of t] by (auto simp: cctx_leave_def)
next
  case (leave_at t tp level l t')
  then show ?case using leave_level_ok[of t tp level] by auto
next
  case (sample t ig tp ip t')
  then show ?case using cctx_sample_ok[of t ig tp ip] by (metis sum.inject(2))
next
  case (sample_chain t num_ips ips ig tp t')
  then show ?case using cctx_sample_chain_ok[of t num_ips ips ig tp] by (metis sum.inject(2))
next
  case (finish t)
  then show ?case by (simp add: lt_inv_def lt_finalize_def tree_inv_def)
qed

text \<open>
  C20. The calling context events a tree has written are well nested at any time: replaying them
  never leaves a region that is not the innermost open one, the open regions are those of the nodes
  on the current call stack, and leaving level 1, as the writers do when they finish, closes all of
  them.
\<close>
theorem cctx_events_nested:
  assumes "lt_reachable t"
  shows "\<exists>st. replay (lt_written t) [] = Some st \<and> path_refs (tl (lt_cur t)) (lt_tree t) = Some st \<and>
    (\<exists>t'. leave_level tp 1 t = Inr (0, t') \<and> replay (lt_written t') [] = Some [])"
proof -
  have inv: "lt_inv t" using lt_reachable_inv[OF assms] .
  obtain t' where t': "leave_level tp 1 t = Inr (length (lt_cur t') - 1, t')" "lt_inv t'"
    "lt_cur t' = take 1 (lt_cur t)"
    using leave_level_ok[OF inv, of tp 1] by auto
  then have "length (lt_cur t') = 1" "tl (lt_cur t') = []" using inv by (auto simp: lt_inv_def take_Suc)
  with t' have "leave_level tp 1 t = Inr (0, t') \<and> replay (lt_written t') [] = Some []"
    by (auto simp: lt_inv_def)
  with inv show ?thesis by (auto simp: lt_inv_def)
qed

definition example_tree :: local_cctx_tree where
  "example_tree =
    \<lparr>lt_tree = Node 0 [(CC_PROCESS (Process 7), Node 0 [])], lt_cur = [CC_ROOT, CC_PROCESS (Process 7)],
     lt_ref_count = 0, lt_next_cctx_ref = 1, lt_written = [Cctx_enter 5 0 2]\<rparr>"

lemma example_tree_enter:
  "cctx_enter (0, 0, 0) 5 [CC_PROCESS (Process 7)] local_cctx_tree_new = Inr (1, example_tree)"
  by (simp add: example_tree_def cctx_enter_def local_cctx_tree_new_def cur_level_def handle_enter_cctx_node_def
      push_cctx_def create_cctx_node_def ref_at_def lt_write_def std_emplace_def std_find_def std_lookup_def
      cctx_lt_def cctx_less_def process_less_def)

lemma example_tree_reachable: "lt_reachable example_tree"
  by (rule lt_reachable.enter[OF lt_reachable.new _ example_tree_enter]) simp

theorem cctx_events_nested_witness:
  "\<exists>st. replay (lt_written example_tree) [] = Some st \<and>
    path_refs (tl (lt_cur example_tree)) (lt_tree example_tree) = Some st \<and>
    (\<exists>t'. leave_level 9 1 example_tree = Inr (0, t') \<and> replay (lt_written t') [] = Some [])"
  by (rule cctx_events_nested[OF example_tree_reachable])

text \<open>
  Entering any contexts below the current call stack succeeds and returns the level of the first
  new node; leaving that level restores the call stack exactly, and no reference that was handed out
  before changes.
\<close>
lemma cctx_enter_leave_roundtrip:
  assumes "lt_reachable t" "CC_ROOT \<notin> set cs"
  shows "\<exists>l t1 t2. cctx_enter junk tp cs t = Inr (l, t1) \<and> l = length (lt_cur t) \<and>
    length (lt_cur t1) = length (lt_cur t) + length cs \<and>
    leave_level tp2 l t1 = Inr (length (lt_cur t) - 1, t2) \<and> lt_cur t2 = lt_cur t \<and>
    tree_ext (lt_tree t) (lt_tree t2)"
proof -
  have inv: "lt_inv t" using lt_reachable_inv[OF assms(1)] .
  then have ne: "0 < length (lt_cur t)" by (auto simp: lt_inv_def)
  obtain t1 ks where t1: "cctx_enter_at junk tp (length (lt_cur t)) cs t = Inr t1" "lt_inv t1"
    "tree_ext (lt_tree t) (lt_tree t1)" "lt_cur t1 = lt_cur t @ ks" "list_all2 cctx_key.eqv ks cs"
    using cctx_enter_at_ok[OF inv assms(2) ne order_refl, of junk tp] by blast
  obtain t2 where "leave_level tp2 (length (lt_cur t)) t1 = Inr (length (lt_cur t2) - 1, t2)"
    "lt_cur t2 = take (length (lt_cur t)) (lt_cur t1)" "lt_tree t2 = lt_tree t1"
    using leave_level_ok[OF t1(2), of tp2 "length (lt_cur t)"] ne by auto
  with t1 ne show ?thesis
    by (auto simp: cctx_enter_def cur_level_ok[OF inv] list_all2_lengthD)
qed

lemma cctx_enter_leave_roundtrip_witness:
  "\<exists>l t1 t2. cctx_enter (0, 0, 0) 6 [CC_THREAD (Thread 9)] example_tree = Inr (l, t1) \<and>
    l = length (lt_cur example_tree) \<and>
    length (lt_cur t1) = length (lt_cur example_tree) + length [CC_THREAD (Thread 9)] \<and>
    leave_level 8 l t1 = Inr (length (lt_cur example_tree) - 1, t2) \<and> lt_cur t2 = lt_cur example_tree \<and>
    tree_ext (lt_tree example_tree) (lt_tree t2)"
  by (rule cctx_enter_leave_roundtrip[OF example_tree_reachable]) simp

text \<open>
  The references of the nodes below the root are exactly the numbers below \<open>next_cctx_ref_\<close>,
  each used once, so \<open>num_cctx\<close> counts the nodes after \<open>finalize\<close>. The root keeps reference 0, which
  the first node that is created gets as well.
\<close>
lemma cctx_refs_dense:
  assumes "lt_reachable t"
  shows "node_refs (lt_tree t) = add_mset (node_ref (lt_tree t)) (mset [0..<num_cctx (lt_finalize t)]) \<and>
    node_ref (lt_tree t) = 0"
  using lt_reachable_inv[OF assms] by (simp add: lt_inv_def tree_inv_def num_cctx_def lt_finalize_def)

lemma cctx_refs_dense_witness:
  "node_refs (lt_tree example_tree) =
      add_mset (node_ref (lt_tree example_tree)) (mset [0..<num_cctx (lt_finalize example_tree)]) \<and>
    node_ref (lt_tree example_tree) = 0"
  by (rule cctx_refs_dense[OF example_tree_reachable])

text \<open>
  Entering a context at a level where the call stack already holds a context of the same type
  changes nothing, even if it is a different process, thread, kernel or system call: \<open>operator!=\<close>
  answers false whenever the types agree, so the old context stays open and no event is written.
\<close>
lemma enter_same_type_ignored:
  assumes "lt_reachable t" "0 < level" "level < length (lt_cur t)"
    "cctx_type (lt_cur t ! level) = cctx_type c"
  shows "cctx_enter_at junk tp level [c] t = Inr t"
proof -
  have "level \<noteq> length (lt_cur t) - 1 + 1" "level \<le> length (lt_cur t) - 1 + 1" using assms(3) by linarith+
  then show ?thesis
    using assms(2,4) cur_level_ok[OF lt_reachable_inv[OF assms(1)]]
    by (simp add: handle_enter_cctx_node_def cctx_ne_same_type)
qed

lemma enter_same_type_ignored_witness:
  "cctx_enter_at (0, 0, 0) 6 1 [CC_PROCESS (Process 8)] example_tree = Inr example_tree"
  by (rule enter_same_type_ignored[OF example_tree_reachable]) (simp_all add: example_tree_def)

text \<open>
  A sample with a call chain of at least one entry is attributed to the node that is reached from
  the current call stack by the recorded addresses, outermost caller first, without the context
  markers and without the entry at index 0; the call stack does not change. With an empty call chain
  the loop starts at index \<open>2 ^ 64 - 1\<close> and reads outside of the array.
\<close>
lemma cctx_sample_chain_node:
  assumes "lt_reachable t" "unat num_ips \<le> length ips" "length ips < 2 ^ 64"
  shows "if num_ips = 0 then cctx_sample_chain ig tp num_ips ips t = Inl Memory_fault
    else \<exists>t' r. cctx_sample_chain ig tp num_ips ips t = Inr t' \<and> lt_cur t' = lt_cur t \<and>
      lt_written t' = lt_written t @ [Cctx_sample tp r num_ips ig] \<and>
      ref_at (tl (lt_cur t) @ chain (tl (take (unat num_ips) ips))) t' = Inr r"
proof (cases "num_ips = 0")
  case True
  have "unat (- 1 :: u64) = 2 ^ 64 - 1"
    by (simp add: unsigned_minus_1_eq_mask mask_eq_exp_minus_1)
  with True assms(3) show ?thesis
    by (simp add: cctx_sample_chain_def sample_loop.simps[of 18446744073709551615])
next
  case False
  with cctx_sample_chain_ok[OF lt_reachable_inv[OF assms(1)] False assms(2), of ig tp] show ?thesis
    by metis
qed

lemma cctx_sample_chain_node_witness:
  "if (3 :: u64) = 0 then cctx_sample_chain 1 9 3 [PERF_CONTEXT_USER, 10, 20] example_tree = Inl Memory_fault
    else \<exists>t' r. cctx_sample_chain 1 9 3 [PERF_CONTEXT_USER, 10, 20] example_tree = Inr t' \<and>
      lt_cur t' = lt_cur example_tree \<and>
      lt_written t' = lt_written example_tree @ [Cctx_sample 9 r 3 1] \<and>
      ref_at (tl (lt_cur example_tree) @ chain (tl (take (unat (3 :: u64)) [PERF_CONTEXT_USER, 10, 20]))) t' = Inr r"
  by (rule cctx_sample_chain_node[OF example_tree_reachable]) simp_all

end
