(* ===== verification/Sample_Writer.thy ===== *)
theory Sample_Writer
  imports Local_Cctx_Tree
begin

text \<open>
  The writers that turn perf records into calling context events: \<^verbatim>\<open>perf::sample::Writer\<close>
  (\<^verbatim>\<open>src/perf/sample/writer.cpp\<close>) and \<^verbatim>\<open>perf::syscall::Writer\<close> (\<^verbatim>\<open>src/perf/syscall/writer.cpp\<close>). The
  time converter, the communicator of a process, the interrupt generator and the clock are
  parameters; calls into the trace and the summary are recorded.
\<close>

section \<open>Records and state\<close>

record writer_env =
  conv :: "u64 \<Rightarrow> int"
  process_comm :: "Thread \<Rightarrow> nat"
  interrupt_generator :: nat
  union_junk :: storage

record sample_record =
  s_ip :: u64
  s_pid :: u32
  s_tid :: u32
  s_time :: u64
  s_nr :: u64
  s_ips :: "u64 list"

record switch_record =
  sw_misc :: "16 word"
  sw_pid :: u32
  sw_tid :: u32
  sw_time :: u64
  sw_cpu :: u32

record mmap_record =
  mm_pid :: u32
  mm_tid :: u32
  mm_addr :: u64
  mm_len :: u64
  mm_pgoff :: u64
  mm_filename :: string

record comm_record =
  cm_pid :: u32
  cm_tid :: u32
  cm_comm :: string

datatype trace_call =
    Emplace_process Process Process string
  | Emplace_thread Process Thread string
  | Register_process Process

record sample_writer =
  w_scope :: ExecutionScope
  w_tree :: local_cctx_tree
  w_record_callgraph :: bool
  w_first_event :: bool
  w_first_time_point :: int
  w_last_time_point :: int
  w_cached_mmap_events :: "mmap_record list"
  w_trace_calls :: "trace_call list"

definition PERF_RECORD_MISC_SWITCH_OUT :: "16 word" where
  "PERF_RECORD_MISC_SWITCH_OUT = 2 ^ 13"

definition CCTX_LEVEL_PROCESS :: nat where
  "CCTX_LEVEL_PROCESS = 1"

definition pid_process :: "u32 \<Rightarrow> Process" where
  "pid_process pid = Process (uint pid)"

definition tid_thread :: "u32 \<Rightarrow> Thread" where
  "tid_thread tid = Thread (uint tid)"

section \<open>The sample writer\<close>

definition sample_writer_new :: "ExecutionScope \<Rightarrow> bool \<Rightarrow> int \<Rightarrow> sample_writer" where
  "sample_writer_new scope callgraph now =
    \<lparr>w_scope = scope, w_tree = local_cctx_tree_new, w_record_callgraph = callgraph, w_first_event = True,
     w_first_time_point = now, w_last_time_point = now, w_cached_mmap_events = [], w_trace_calls = []\<rparr>"

definition adjust_timepoints :: "int \<Rightarrow> sample_writer \<Rightarrow> int \<times> sample_writer" where
  "adjust_timepoints tp w =
    (let tp' = (if w_last_time_point w > tp then w_last_time_point w else tp) in
     (tp', w\<lparr>w_last_time_point := tp'\<rparr>))"

definition update_calling_context ::
    "writer_env \<Rightarrow> Process \<Rightarrow> Thread \<Rightarrow> int \<Rightarrow> bool \<Rightarrow> sample_writer \<Rightarrow> sample_writer result" where
  "update_calling_context env process thread tp switch_out w =
    (if switch_out
     then sum_bind (leave_level tp CCTX_LEVEL_PROCESS (w_tree w)) (\<lambda>(_, t). Inr (w\<lparr>w_tree := t\<rparr>))
     else
       let w1 = (if w_first_event w \<and> \<not> scope_is_cpu (w_scope w)
                 then w\<lparr>w_tree := lt_write (Thread_begin tp (process_comm env thread)) (w_tree w),
                        w_first_event := False\<rparr>
                 else w) in
       sum_bind (cctx_enter_at (union_junk env) tp CCTX_LEVEL_PROCESS [CC_PROCESS process, CC_THREAD thread]
                  (w_tree w1)) (\<lambda>t. Inr (w1\<lparr>w_tree := t\<rparr>)))"

definition handle_sample :: "writer_env \<Rightarrow> sample_record \<Rightarrow> sample_writer \<Rightarrow> sample_writer result" where
  "handle_sample env sample w =
    (case adjust_timepoints (conv env (s_time sample)) w of (tp, w1) \<Rightarrow>
     sum_bind (update_calling_context env (pid_process (s_pid sample)) (tid_thread (s_tid sample)) tp False w1) (\<lambda>w2.
     sum_bind (if \<not> w_record_callgraph w2
               then cctx_sample (interrupt_generator env) tp (s_ip sample) (w_tree w2)
               else cctx_sample_chain (interrupt_generator env) tp (s_nr sample) (s_ips sample) (w_tree w2)) (\<lambda>t.
       Inr (w2\<lparr>w_tree := t\<rparr>))))"

definition handle_mmap :: "mmap_record \<Rightarrow> sample_writer \<Rightarrow> sample_writer result" where
  "handle_mmap m w = Inr (w\<lparr>w_cached_mmap_events := w_cached_mmap_events w @ [m]\<rparr>)"

definition is_switch_out :: "switch_record \<Rightarrow> bool" where
  "is_switch_out s \<longleftrightarrow> sw_misc s AND PERF_RECORD_MISC_SWITCH_OUT \<noteq> 0"

definition handle_switch_cpu_wide :: "writer_env \<Rightarrow> switch_record \<Rightarrow> sample_writer \<Rightarrow> sample_writer result" where
  "handle_switch_cpu_wide env s w =
    sum_bind (cpp_assert (scope_is_cpu (w_scope w))) (\<lambda>_.
    case adjust_timepoints (conv env (sw_time s)) w of (tp, w1) \<Rightarrow>
      update_calling_context env (pid_process (sw_pid s)) (tid_thread (sw_tid s)) tp (is_switch_out s) w1)"

definition handle_switch :: "writer_env \<Rightarrow> switch_record \<Rightarrow> sample_writer \<Rightarrow> sample_writer result" where
  "handle_switch env s w =
    sum_bind (cpp_assert (\<not> scope_is_cpu (w_scope w))) (\<lambda>_.
    case adjust_timepoints (conv env (sw_time s)) w of (tp, w1) \<Rightarrow>
    sum_bind (update_calling_context env (pid_process (sw_pid s)) (tid_thread (sw_tid s)) tp (is_switch_out s) w1) (\<lambda>w2.
      Inr (w2\<lparr>w_tree := lt_write (Cpuid_metric tp (if is_switch_out s then - 1 else uint (sw_cpu s))) (w_tree w2)\<rparr>)))"

definition handle_comm :: "comm_record \<Rightarrow> sample_writer \<Rightarrow> sample_writer result" where
  "handle_comm c w =
    Inr (w\<lparr>w_trace_calls := w_trace_calls w @
      [if cm_pid c = cm_tid c then Emplace_process Process_no_parent (pid_process (cm_pid c)) (cm_comm c)
       else Emplace_thread (pid_process (cm_pid c)) (tid_thread (cm_tid c)) (cm_comm c),
       Register_process (pid_process (cm_pid c))]\<rparr>)"

definition sample_end :: "writer_env \<Rightarrow> int \<Rightarrow> sample_writer \<Rightarrow> sample_writer result" where
  "sample_end env now w =
    (if \<not> scope_is_cpu (w_scope w)
     then case adjust_timepoints now w of (_, w1) \<Rightarrow>
       sum_bind (scope_as_thread (w_scope w1)) (\<lambda>thread.
         let comm = process_comm env thread;
             t1 = (if w_first_event w1 then lt_write (Thread_begin (w_first_time_point w1) comm) (w_tree w1)
                   else w_tree w1) in
         Inr (w1\<lparr>w_tree := lt_write (Thread_end (w_last_time_point w1) comm) t1\<rparr>))
     else Inr w)"

definition sample_destroy :: "sample_writer \<Rightarrow> sample_writer result" where
  "sample_destroy w =
    sum_bind (leave_level (w_last_time_point w) CCTX_LEVEL_PROCESS (w_tree w)) (\<lambda>(_, t).
      Inr (w\<lparr>w_tree := lt_finalize t\<rparr>))"

text \<open>The records of one reader, in the order the event loop hands them over.\<close>

datatype perf_record =
    Sample sample_record
  | Mmap mmap_record
  | Comm comm_record
  | Switch switch_record
  | Switch_cpu_wide switch_record

fun handle_record :: "writer_env \<Rightarrow> perf_record \<Rightarrow> sample_writer \<Rightarrow> sample_writer result" where
  "handle_record env (Sample s) w = handle_sample env s w"
| "handle_record env (Mmap m) w = handle_mmap m w"
| "handle_record env (Comm c) w = handle_comm c w"
| "handle_record env (Switch s) w = handle_switch env s w"
| "handle_record env (Switch_cpu_wide s) w = handle_switch_cpu_wide env s w"

fun handle_records :: "writer_env \<Rightarrow> perf_record list \<Rightarrow> sample_writer \<Rightarrow> sample_writer result" where
  "handle_records env [] w = Inr w"
| "handle_records env (r # rs) w = sum_bind (handle_record env r w) (handle_records env rs)"

section \<open>The system call writer\<close>

record syscall_record =
  sc_id :: u64
  sc_time :: u64
  sc_nr :: u64

record syscall_writer =
  sy_tree :: local_cctx_tree
  sy_last_tp :: int

definition CCTX_LEVEL_SYSCALL :: nat where
  "CCTX_LEVEL_SYSCALL = 1"

definition handle_syscall :: "writer_env \<Rightarrow> u64 \<Rightarrow> syscall_record \<Rightarrow> syscall_writer \<Rightarrow> syscall_writer result" where
  "handle_syscall env sys_enter_id sample w =
    (let tp = conv env (sc_time sample) in
     sum_bind (if sc_id sample = sys_enter_id
               then cctx_enter_at (union_junk env) tp CCTX_LEVEL_SYSCALL [CC_SYSCALL (sc_nr sample)] (sy_tree w)
               else sum_bind (leave_level tp CCTX_LEVEL_SYSCALL (sy_tree w)) (\<lambda>(_, t). Inr t)) (\<lambda>t.
       Inr (w\<lparr>sy_tree := t, sy_last_tp := tp\<rparr>)))"

definition syscall_destroy :: "syscall_writer \<Rightarrow> syscall_writer result" where
  "syscall_destroy w =
    sum_bind (leave_level (sy_last_tp w) 1 (sy_tree w)) (\<lambda>(_, t). Inr (w\<lparr>sy_tree := lt_finalize t\<rparr>))"

fun handle_syscalls :: "writer_env \<Rightarrow> u64 \<Rightarrow> syscall_record list \<Rightarrow> syscall_writer \<Rightarrow> syscall_writer result" where
  "handle_syscalls env i [] w = Inr w"
| "handle_syscalls env i (r # rs) w = sum_bind (handle_syscall env i r w) (handle_syscalls env i rs)"

section \<open>Timestamps of the written events\<close>

definition appends :: "int \<Rightarrow> local_cctx_tree \<Rightarrow> local_cctx_tree \<Rightarrow> bool" where
  "appends tp t t' \<longleftrightarrow> (\<exists>es. lt_written t' = lt_written t @ es \<and> (\<forall>e \<in> set es. event_time e = tp))"

lemma appends_refl: "lt_written t' = lt_written t \<Longrightarrow> appends tp t t'"
  by (simp add: appends_def)

lemma appends_trans: "appends tp a b \<Longrightarrow> appends tp b c \<Longrightarrow> appends tp a c"
  unfolding appends_def by (metis Un_iff append.assoc set_append)

lemma appends_write: "event_time e = tp \<Longrightarrow> lt_written t' = lt_written t @ [e] \<Longrightarrow> appends tp t t'"
  by (simp add: appends_def)

lemma create_cctx_node_written: "create_cctx_node c p t = Inr (q, t') \<Longrightarrow> lt_written t' = lt_written t"
  by (auto simp: create_cctx_node_def split: option.splits if_splits prod.splits)

lemma leave_level_appends: "leave_level tp level t = Inr (l, t') \<Longrightarrow> appends tp t t'"
proof (induction tp level t rule: leave_level.induct)
  case (1 tp level t)
  show ?case
  proof (cases "cur_level t")
    case (Inr c)
    show ?thesis
    proof (cases "level > 0 \<and> c \<ge> level")
      case True
      with Inr "1.prems" obtain r where r: "ref_at (tl (lt_cur t)) t = Inr r"
        by (subst (asm) leave_level.simps) (auto split: sum.splits)
      let ?u = "(lt_write (Cctx_leave tp r) t)\<lparr>lt_cur := butlast (lt_cur t)\<rparr>"
      have "leave_level tp level ?u = Inr (l, t')"
        using Inr True r "1.prems" by (subst (asm) leave_level.simps) auto
      then have "appends tp ?u t'" using "1.IH"[OF Inr True r] by blast
      moreover have "appends tp t ?u" by (rule appends_write[of "Cctx_leave tp r"]) (simp_all add: lt_write_def)
      ultimately show ?thesis using appends_trans by blast
    next
      case False
      then show ?thesis using Inr "1.prems" by (subst (asm) leave_level.simps) (auto intro: appends_refl)
    qed
  next
    case (Inl e)
    then show ?thesis using "1.prems" by (subst (asm) leave_level.simps) auto
  qed
qed

lemma push_cctx_appends:
  assumes "push_cctx tp c t = Inr t'"
  shows "appends tp t t'"
proof -
  obtain path t1 r where "create_cctx_node c (tl (lt_cur t)) t = Inr (path, t1)"
    "t' = lt_write (Cctx_enter tp r 2) (t1\<lparr>lt_cur := hd (lt_cur t) # path\<rparr>)"
    using assms by (auto simp: push_cctx_def sum_bind_Inr_iff)
  then show ?thesis
    using create_cctx_node_written[of c "tl (lt_cur t)" t path t1]
    by (intro appends_write[of "Cctx_enter tp r 2"]) (auto simp: lt_write_def)
qed

lemma handle_enter_appends: "handle_enter_cctx_node junk tp level c t = Inr t' \<Longrightarrow> appends tp t t'"
  by (auto simp: handle_enter_cctx_node_def sum_bind_Inr_iff split: if_splits
      intro: push_cctx_appends appends_refl appends_trans leave_level_appends)

lemma cctx_enter_at_appends: "cctx_enter_at junk tp level cs t = Inr t' \<Longrightarrow> appends tp t t'"
  by (induction cs arbitrary: t level)
    (auto simp: sum_bind_Inr_iff intro: appends_refl appends_trans handle_enter_appends)

lemma sample_loop_written: "sample_loop i ips p t = Inr (q, t') \<Longrightarrow> lt_written t' = lt_written t"
proof (induction i ips p t rule: sample_loop.induct)
  case (1 i ips node t)
  note IH = "1.IH"(1)[unfolded One_nat_def] "1.IH"(2)[unfolded One_nat_def, OF _ _ _ _ refl]
  from "1.prems" show ?case
    by (subst (asm) sample_loop.simps)
      (auto split: if_splits sum.splits simp: IH(1), use IH(2) create_cctx_node_written in fastforce)
qed

lemma cctx_sample_appends:
  "cctx_sample ig tp ip t = Inr t' \<Longrightarrow> appends tp t t'"
  "cctx_sample_chain ig tp n ips t = Inr t' \<Longrightarrow> appends tp t t'"
  by (auto simp: cctx_sample_def cctx_sample_chain_def sum_bind_Inr_iff lt_write_def appends_def
      dest!: create_cctx_node_written sample_loop_written)

section \<open>Invariant of the sample writer\<close>

definition times :: "local_cctx_tree \<Rightarrow> int list" where
  "times t = map event_time (lt_written t)"

definition sw_inv :: "sample_writer \<Rightarrow> bool" where
  "sw_inv w \<longleftrightarrow> lt_inv (w_tree w) \<and> sorted (times (w_tree w)) \<and>
    (\<forall>x \<in> set (times (w_tree w)). w_first_time_point w \<le> x \<and> x \<le> w_last_time_point w) \<and>
    w_first_time_point w \<le> w_last_time_point w"

text \<open>Records the kernel delivers for a reader on the given scope.\<close>

fun record_ok :: "ExecutionScope \<Rightarrow> bool \<Rightarrow> perf_record \<Rightarrow> bool" where
  "record_ok scope callgraph (Sample s) \<longleftrightarrow>
    callgraph \<longrightarrow> s_nr s \<noteq> 0 \<and> unat (s_nr s) \<le> length (s_ips s)"
| "record_ok scope callgraph (Switch _) \<longleftrightarrow> \<not> scope_is_cpu scope"
| "record_ok scope callgraph (Switch_cpu_wide _) \<longleftrightarrow> scope_is_cpu scope"
| "record_ok scope callgraph _ \<longleftrightarrow> True"

lemma sw_inv_new: "sw_inv (sample_writer_new scope cg now)"
  by (simp add: sw_inv_def sample_writer_new_def times_def local_cctx_tree_new_def
      local_cctx_tree_new_inv[unfolded local_cctx_tree_new_def])

lemma sw_inv_appends:
  assumes "sw_inv w" "appends (w_last_time_point w) (w_tree w) t" "lt_inv t"
  shows "sw_inv (w\<lparr>w_tree := t\<rparr>)"
proof -
  obtain es where es: "lt_written t = lt_written (w_tree w) @ es" "\<forall>e \<in> set es. event_time e = w_last_time_point w"
    using assms(2) by (auto simp: appends_def)
  then have "sorted (map event_time es)" by (auto simp: sorted_iff_nth_mono)
  with es assms show ?thesis
    by (auto simp: sw_inv_def times_def sorted_append)
qed

lemma adjust_timepoints_ok:
  assumes "sw_inv w" "adjust_timepoints tp w = (tp', w')"
  shows "sw_inv w' \<and> w_last_time_point w' = tp' \<and> tp \<le> tp' \<and> w_scope w' = w_scope w \<and>
    w_record_callgraph w' = w_record_callgraph w \<and> w_tree w' = w_tree w \<and> w_first_event w' = w_first_event w
    \<and> w_first_time_point w' = w_first_time_point w"
proof -
  have "tp' = max (w_last_time_point w) tp" "w' = w\<lparr>w_last_time_point := max (w_last_time_point w) tp\<rparr>"
    using assms(2) by (auto simp: adjust_timepoints_def Let_def max_def)
  with assms(1) show ?thesis by (auto simp: sw_inv_def le_max_iff_disj)
qed

lemma update_calling_context_ok:
  assumes inv: "sw_inv w"
  obtains w' where "update_calling_context env p th (w_last_time_point w) out w = Inr w'" "sw_inv w'"
    "w_scope w' = w_scope w" "w_record_callgraph w' = w_record_callgraph w"
    "w_last_time_point w' = w_last_time_point w" "w_first_time_point w' = w_first_time_point w"
    "w_first_event w' = (w_first_event w \<and> (out \<or> scope_is_cpu (w_scope w)))"
proof (cases out)
  case True
  have lt: "lt_inv (w_tree w)" using inv by (simp add: sw_inv_def)
  obtain t where t: "leave_level (w_last_time_point w) 1 (w_tree w) = Inr (length (lt_cur t) - 1, t)" "lt_inv t"
    using leave_level_ok[OF lt] by blast
  then have "sw_inv (w\<lparr>w_tree := t\<rparr>)" using sw_inv_appends[OF inv leave_level_appends] by blast
  with True t show thesis
    by (intro that[of "w\<lparr>w_tree := t\<rparr>"]) (auto simp: update_calling_context_def CCTX_LEVEL_PROCESS_def)
next
  case False
  let ?tp = "w_last_time_point w"
  define w1 where "w1 = (if w_first_event w \<and> \<not> scope_is_cpu (w_scope w)
    then w\<lparr>w_tree := lt_write (Thread_begin ?tp (process_comm env th)) (w_tree w), w_first_event := False\<rparr> else w)"
  have w1: "w_last_time_point w1 = ?tp" "w_scope w1 = w_scope w" "w_record_callgraph w1 = w_record_callgraph w"
    "w_first_time_point w1 = w_first_time_point w" "w_first_event w1 = (w_first_event w \<and> scope_is_cpu (w_scope w))"
    by (auto simp: w1_def)
  have "sw_inv (w\<lparr>w_tree := lt_write (Thread_begin ?tp (process_comm env th)) (w_tree w)\<rparr>)"
    using inv by (intro sw_inv_appends)
      (auto simp: sw_inv_def lt_inv_write_other intro!: appends_write[of "Thread_begin ?tp (process_comm env th)"],
        auto simp: lt_write_def)
  then have inv1: "sw_inv w1" using inv by (auto simp: sw_inv_def w1_def)
  then have lt: "lt_inv (w_tree w1)" by (simp add: sw_inv_def)
  then have "1 \<le> length (lt_cur (w_tree w1))" by (auto simp: lt_inv_def Suc_le_eq)
  then obtain t where t: "cctx_enter_at (union_junk env) ?tp 1 [CC_PROCESS p, CC_THREAD th] (w_tree w1) = Inr t"
    "lt_inv t"
    using cctx_enter_at_ok[OF lt, of "[CC_PROCESS p, CC_THREAD th]" 1 "union_junk env" ?tp] by auto
  have "sw_inv (w1\<lparr>w_tree := t\<rparr>)"
    using sw_inv_appends[OF inv1 _ t(2)] cctx_enter_at_appends[OF t(1)] w1(1) by simp
  moreover have "update_calling_context env p th ?tp out w = Inr (w1\<lparr>w_tree := t\<rparr>)"
    using False t(1) unfolding update_calling_context_def Let_def w1_def[symmetric]
    by (simp add: CCTX_LEVEL_PROCESS_def)
  ultimately show thesis
    using False w1 by (intro that[of "w1\<lparr>w_tree := t\<rparr>"]) auto
qed

lemma handle_record_ok:
  assumes inv: "sw_inv w" and ok: "record_ok (w_scope w) (w_record_callgraph w) r"
  obtains w' where "handle_record env r w = Inr w'" "sw_inv w'" "w_scope w' = w_scope w"
    "w_record_callgraph w' = w_record_callgraph w" "w_first_time_point w' = w_first_time_point w"
proof (cases r)
  case (Sample s)
  obtain tp w1 where a: "adjust_timepoints (conv env (s_time s)) w = (tp, w1)" by force
  note a1 = adjust_timepoints_ok[OF inv a]
  obtain w2 where w2: "update_calling_context env (pid_process (s_pid s)) (tid_thread (s_tid s)) tp False w1 = Inr w2"
    "sw_inv w2" "w_scope w2 = w_scope w1" "w_record_callgraph w2 = w_record_callgraph w1"
    "w_last_time_point w2 = w_last_time_point w1" "w_first_time_point w2 = w_first_time_point w1"
    using update_calling_context_ok[of w1 env "pid_process (s_pid s)" "tid_thread (s_tid s)" False] a1 by metis
  have lt: "lt_inv (w_tree w2)" using w2(2) by (simp add: sw_inv_def)
  let ?smp = "if \<not> w_record_callgraph w2
    then cctx_sample (interrupt_generator env) tp (s_ip s) (w_tree w2)
    else cctx_sample_chain (interrupt_generator env) tp (s_nr s) (s_ips s) (w_tree w2)"
  obtain t where t: "?smp = Inr t" "lt_inv t"
  proof (cases "w_record_callgraph w2")
    case True
    then have "s_nr s \<noteq> 0" "unat (s_nr s) \<le> length (s_ips s)" using ok Sample w2(4) a1 by auto
    then show ?thesis using cctx_sample_chain_ok[OF lt] that True by metis
  next
    case False
    then show ?thesis using cctx_sample_ok[OF lt] that by metis
  qed
  have "appends tp (w_tree w2) t" using t(1) cctx_sample_appends by (auto split: if_splits)
  then have "sw_inv (w2\<lparr>w_tree := t\<rparr>)" using sw_inv_appends[OF w2(2) _ t(2)] w2(5) a1 by simp
  with Sample a w2 t(1) a1 show thesis
    by (intro that[of "w2\<lparr>w_tree := t\<rparr>"]) (simp_all add: handle_sample_def)
next
  case (Mmap m)
  with inv show thesis by (auto intro!: that simp: handle_mmap_def sw_inv_def)
next
  case (Comm c)
  with inv show thesis by (auto intro!: that simp: handle_comm_def sw_inv_def)
next
  case (Switch s)
  obtain tp w1 where a: "adjust_timepoints (conv env (sw_time s)) w = (tp, w1)" by force
  note a1 = adjust_timepoints_ok[OF inv a]
  obtain w2 where w2: "update_calling_context env (pid_process (sw_pid s)) (tid_thread (sw_tid s)) tp
      (is_switch_out s) w1 = Inr w2"
    "sw_inv w2" "w_scope w2 = w_scope w1" "w_record_callgraph w2 = w_record_callgraph w1"
    "w_last_time_point w2 = w_last_time_point w1" "w_first_time_point w2 = w_first_time_point w1"
    using update_calling_context_ok[of w1 env "pid_process (sw_pid s)" "tid_thread (sw_tid s)" "is_switch_out s"]
      a1 by metis
  let ?e = "Cpuid_metric tp (if is_switch_out s then - 1 else uint (sw_cpu s))"
  have "sw_inv (w2\<lparr>w_tree := lt_write ?e (w_tree w2)\<rparr>)"
    using w2(2,5) a1 by (intro sw_inv_appends appends_write[of ?e])
      (auto simp: sw_inv_def lt_inv_write_other, auto simp: lt_write_def)
  with Switch a w2 a1 ok show thesis
    by (intro that[of "w2\<lparr>w_tree := lt_write ?e (w_tree w2)\<rparr>"]) (simp_all add: handle_switch_def)
next
  case (Switch_cpu_wide s)
  obtain tp w1 where a: "adjust_timepoints (conv env (sw_time s)) w = (tp, w1)" by force
  note a1 = adjust_timepoints_ok[OF inv a]
  show thesis
    using update_calling_context_ok[of w1 env "pid_process (sw_pid s)" "tid_thread (sw_tid s)" "is_switch_out s"]
      a1 a that Switch_cpu_wide ok by (auto simp: handle_switch_cpu_wide_def)
qed

lemma handle_records_ok:
  "sw_inv w \<Longrightarrow> list_all (record_ok (w_scope w) (w_record_callgraph w)) rs \<Longrightarrow>
    \<exists>w'. handle_records env rs w = Inr w' \<and> sw_inv w' \<and> w_scope w' = w_scope w
      \<and> w_first_time_point w' = w_first_time_point w"
proof (induction rs arbitrary: w)
  case (Cons r rs)
  obtain w1 where "handle_record env r w = Inr w1" "sw_inv w1" "w_scope w1 = w_scope w"
    "w_record_callgraph w1 = w_record_callgraph w" "w_first_time_point w1 = w_first_time_point w"
    using handle_record_ok[OF Cons.prems(1)] Cons.prems(2) by (metis list_all_iff list.set_intros(1))
  with Cons.IH[of w1] Cons.prems(2) show ?case by auto
qed simp

section \<open>Properties\<close>


definition example_env :: writer_env where
  "example_env = \<lparr>conv = uint, process_comm = (\<lambda>_. 3), interrupt_generator = 0, union_junk = (0, 0, 0)\<rparr>"


text \<open>
  C32. When a thread has been seen running, \<open>end\<close> and the destructor finish its location properly:
  they return, the timestamps stay in order, and every calling context that was entered is left.
\<close>
theorem sample_writer_finish:
  assumes "handle_records env rs (sample_writer_new (scope_of_thread th) callgraph now) = Inr w"
    "list_all (record_ok (scope_of_thread th) callgraph) rs" "\<not> w_first_event w"
  shows "\<exists>w1 w2. sample_end env later w = Inr w1 \<and> sample_destroy w1 = Inr w2 \<and>
    sorted (map event_time (lt_written (w_tree w2))) \<and> replay (lt_written (w_tree w2)) [] = Some [] \<and>
    num_cctx (w_tree w2) = lt_next_cctx_ref (w_tree w2)"
proof -
  let ?n = "sample_writer_new (scope_of_thread th) callgraph now"
  have "list_all (record_ok (w_scope ?n) (w_record_callgraph ?n)) rs"
    using assms(2) by (simp add: sample_writer_new_def)
  from handle_records_ok[OF sw_inv_new this, of env] assms(1)
  have inv: "sw_inv w" and sc: "w_scope w = scope_of_thread th" by (auto simp: sample_writer_new_def)
  obtain tp w' where a: "adjust_timepoints later w = (tp, w')" by force
  note a1 = adjust_timepoints_ok[OF inv a]
  let ?e = "Thread_end tp (process_comm env (Thread (thread_as_int th)))"
  let ?w1 = "w'\<lparr>w_tree := lt_write ?e (w_tree w')\<rparr>"
  have run1: "sample_end env later w = Inr ?w1"
    using a a1 sc assms(3) by (auto simp: sample_end_def scope_is_cpu_def scope_as_thread_def Let_def)
  have inv1: "sw_inv ?w1"
    using a1 by (intro sw_inv_appends appends_write[of ?e])
      (auto simp: sw_inv_def lt_inv_write_other, auto simp: lt_write_def)
  then have lt1: "lt_inv (w_tree ?w1)" by (simp add: sw_inv_def)
  obtain t where t: "leave_level (w_last_time_point ?w1) 1 (w_tree ?w1) = Inr (length (lt_cur t) - 1, t)"
    "lt_inv t" "lt_cur t = take 1 (lt_cur (w_tree ?w1))"
    using leave_level_ok[OF lt1, of "w_last_time_point ?w1" 1] by auto
  have "sw_inv (?w1\<lparr>w_tree := t\<rparr>)" using sw_inv_appends[OF inv1 leave_level_appends[OF t(1)] t(2)] .
  moreover have "replay (lt_written t) [] = Some []"
    using t(2,3) by (cases "lt_cur (w_tree ?w1)") (auto simp: lt_inv_def)
  moreover have "sample_destroy ?w1 = Inr (?w1\<lparr>w_tree := lt_finalize t\<rparr>)"
    using t(1) by (simp add: sample_destroy_def CCTX_LEVEL_PROCESS_def)
  ultimately show ?thesis
    using run1 by (auto simp: sw_inv_def times_def lt_finalize_def num_cctx_def)
qed

lemma example_switch_in:
  "handle_records example_env [Switch \<lparr>sw_misc = 0, sw_pid = 7, sw_tid = 9, sw_time = 20, sw_cpu = 1\<rparr>]
    (sample_writer_new (scope_of_thread (Thread 9)) False 10) = Inr
     \<lparr>w_scope = scope_of_thread (Thread 9),
      w_tree = \<lparr>lt_tree = Node 0 [(CC_PROCESS (Process 7), Node 0 [(CC_THREAD (Thread 9), Node 1 [])])],
        lt_cur = [CC_ROOT, CC_PROCESS (Process 7), CC_THREAD (Thread 9)], lt_ref_count = 0, lt_next_cctx_ref = 2,
        lt_written = [Thread_begin 20 3, Cctx_enter 20 0 2, Cctx_enter 20 1 2, Cpuid_metric 20 1]\<rparr>,
      w_record_callgraph = False, w_first_event = False, w_first_time_point = 10, w_last_time_point = 20,
      w_cached_mmap_events = [], w_trace_calls = []\<rparr>"
  by (simp add: handle_switch_def sample_writer_new_def scope_is_cpu_def adjust_timepoints_def Let_def example_env_def
      is_switch_out_def update_calling_context_def CCTX_LEVEL_PROCESS_def local_cctx_tree_new_def
      cur_level_def handle_enter_cctx_node_def push_cctx_def create_cctx_node_def ref_at_def lt_write_def
      std_emplace_def std_find_def std_lookup_def std_update_def cctx_lt_def cctx_less_def process_less_def
      thread_less_def pid_process_def tid_thread_def)

theorem sample_writer_finish_witness:
  "\<exists>w1 w2. sample_end example_env 30
     \<lparr>w_scope = scope_of_thread (Thread 9),
      w_tree = \<lparr>lt_tree = Node 0 [(CC_PROCESS (Process 7), Node 0 [(CC_THREAD (Thread 9), Node 1 [])])],
        lt_cur = [CC_ROOT, CC_PROCESS (Process 7), CC_THREAD (Thread 9)], lt_ref_count = 0, lt_next_cctx_ref = 2,
        lt_written = [Thread_begin 20 3, Cctx_enter 20 0 2, Cctx_enter 20 1 2, Cpuid_metric 20 1]\<rparr>,
      w_record_callgraph = False, w_first_event = False, w_first_time_point = 10, w_last_time_point = 20,
      w_cached_mmap_events = [], w_trace_calls = []\<rparr> = Inr w1 \<and> sample_destroy w1 = Inr w2 \<and>
    sorted (map event_time (lt_written (w_tree w2))) \<and> replay (lt_written (w_tree w2)) [] = Some [] \<and>
    num_cctx (w_tree w2) = lt_next_cctx_ref (w_tree w2)"
  by (rule sample_writer_finish[OF example_switch_in]) (simp_all add: scope_is_cpu_def)

text \<open>
  When the only record of a thread is that it was switched out, \<open>end\<close> writes the begin of the
  thread with the time the writer was constructed after the metric event of the switch, which is
  later: the timestamps on the location are out of order.
\<close>
lemma thread_begin_out_of_order:
  assumes "is_switch_out s" "now < conv env (sw_time s)"
  shows "\<exists>w w1. handle_records env [Switch s] (sample_writer_new (scope_of_thread th) callgraph now) = Inr w \<and>
    sample_end env later w = Inr w1 \<and> \<not> sorted (map event_time (lt_written (w_tree w1)))"
  using assms
  by (simp add: handle_switch_def sample_writer_new_def scope_is_cpu_def adjust_timepoints_def Let_def
      update_calling_context_def CCTX_LEVEL_PROCESS_def local_cctx_tree_new_def leave_level.simps
      cur_level_def sample_end_def scope_as_thread_def lt_write_def)

lemma thread_begin_out_of_order_witness:
  "\<exists>w w1. handle_records example_env [Switch \<lparr>sw_misc = 8192, sw_pid = 7, sw_tid = 9, sw_time = 20, sw_cpu = 1\<rparr>]
      (sample_writer_new (scope_of_thread (Thread 9)) False 10) = Inr w \<and>
    sample_end example_env 30 w = Inr w1 \<and> \<not> sorted (map event_time (lt_written (w_tree w1)))"
  by (rule thread_begin_out_of_order) (simp_all add: is_switch_out_def PERF_RECORD_MISC_SWITCH_OUT_def example_env_def)

text \<open>
  The system call writer returns for any sequence of enter and exit records, has at most one
  system call open at any time, and its destructor closes it.
\<close>
lemma syscall_writer_balanced:
  shows "\<exists>w w'. handle_syscalls env i rs \<lparr>sy_tree = local_cctx_tree_new, sy_last_tp = tp0\<rparr> = Inr w \<and>
    (\<exists>st. replay (lt_written (sy_tree w)) [] = Some st \<and> length st \<le> 1) \<and>
    syscall_destroy w = Inr w' \<and> replay (lt_written (sy_tree w')) [] = Some []"
proof -
  have step: "\<exists>w'. handle_syscall env i r w = Inr w' \<and> lt_inv (sy_tree w') \<and> length (lt_cur (sy_tree w')) \<le> 2"
    if inv: "lt_inv (sy_tree w)" and len: "length (lt_cur (sy_tree w)) \<le> 2" for r w
  proof -
    have ne: "0 < (1 :: nat)" "1 \<le> length (lt_cur (sy_tree w))" using inv by (auto simp: lt_inv_def Suc_le_eq)
    have nr: "CC_SYSCALL (sc_nr r) \<noteq> CC_ROOT" by simp
    obtain t where t: "handle_enter_cctx_node (union_junk env) (conv env (sc_time r)) 1 (CC_SYSCALL (sc_nr r)) (sy_tree w) = Inr t"
      "lt_inv t" "if 1 < length (lt_cur (sy_tree w)) \<and>
          cctx_ne (union_junk env) (lt_cur (sy_tree w) ! 1) (CC_SYSCALL (sc_nr r)) = Inr False then t = sy_tree w
        else \<exists>k. cctx_key.eqv k (CC_SYSCALL (sc_nr r)) \<and> lt_cur t = take 1 (lt_cur (sy_tree w)) @ [k]"
      using handle_enter_ok[OF inv nr ne, of "union_junk env" "conv env (sc_time r)"] by blast
    have "length (lt_cur t) \<le> 2" using t(3) len by (auto split: if_splits)
    moreover obtain u where "leave_level (conv env (sc_time r)) 1 (sy_tree w) = Inr (length (lt_cur u) - 1, u)"
      "lt_inv u" "length (lt_cur u) \<le> 2"
      using leave_level_ok[OF inv, of "conv env (sc_time r)" 1] by auto
    ultimately show ?thesis
      using t(1,2) unfolding handle_syscall_def CCTX_LEVEL_SYSCALL_def Let_def
      by (cases "sc_id r = i") simp_all
  qed
  have run: "\<exists>w'. handle_syscalls env i rs w = Inr w' \<and> lt_inv (sy_tree w') \<and> length (lt_cur (sy_tree w')) \<le> 2"
    if "lt_inv (sy_tree w)" "length (lt_cur (sy_tree w)) \<le> 2" for w
    using that
  proof (induction rs arbitrary: w)
    case (Cons r rs)
    with step[OF Cons.prems, of r] show ?case by auto
  qed simp
  obtain w where w: "handle_syscalls env i rs \<lparr>sy_tree = local_cctx_tree_new, sy_last_tp = tp0\<rparr> = Inr w"
    "lt_inv (sy_tree w)" "length (lt_cur (sy_tree w)) \<le> 2"
    using run[of "\<lparr>sy_tree = local_cctx_tree_new, sy_last_tp = tp0\<rparr>"] local_cctx_tree_new_inv
    by (auto simp: local_cctx_tree_new_def)
  obtain st where st: "replay (lt_written (sy_tree w)) [] = Some st" "length st \<le> 1"
    using w(2,3) path_refs_length[of "tl (lt_cur (sy_tree w))" "lt_tree (sy_tree w)"] by (auto simp: lt_inv_def)
  obtain t where "leave_level (sy_last_tp w) 1 (sy_tree w) = Inr (length (lt_cur t) - 1, t)" "lt_inv t"
    "lt_cur t = take 1 (lt_cur (sy_tree w))"
    using leave_level_ok[OF w(2), of "sy_last_tp w" 1] by auto
  then have "\<exists>w'. syscall_destroy w = Inr w' \<and> replay (lt_written (sy_tree w')) [] = Some []"
    by (cases "lt_cur (sy_tree w)") (auto simp: syscall_destroy_def lt_finalize_def lt_inv_def)
  with w(1) st show ?thesis by blast
qed

end
