(* ===== verification/Event_Reader.thy ===== *)
theory Event_Reader
  imports Lo2s_Prelude
begin

text \<open>
  \<^verbatim>\<open>EventReader\<close> (\<^verbatim>\<open>include/lo2s/perf/event_reader.hpp\<close>): the reader of the ring buffer the kernel
  fills for a perf event. The kernel is the producer; between two of its writes the data area, the
  head and the tail are the state below. \<open>get\<close> copies a record that spans the end of the data area
  into \<open>event_copy\<close>; the model returns the bytes the resulting pointer addresses.
\<close>

section \<open>State and operations\<close>

record event_reader =
  er_data :: "byte list"
  er_head :: u64
  er_tail :: u64
  er_mmap_pages :: u64
  er_page_size :: u64
  er_copy :: "byte list"
  er_throttle_samples :: u64
  er_lost_samples :: u64

definition PERF_SAMPLE_MAX_SIZE :: nat where
  "PERF_SAMPLE_MAX_SIZE = 65536"

definition er_data_size :: "event_reader \<Rightarrow> u64" where
  "er_data_size r = er_mmap_pages r * er_page_size r"

definition er_empty :: "event_reader \<Rightarrow> bool" where
  "er_empty r \<longleftrightarrow> er_head r = er_tail r"

text \<open>The fields \<open>type\<close> and \<open>size\<close> of \<^verbatim>\<open>perf_event_header\<close>.\<close>

definition header_type :: "byte list \<Rightarrow> u64" where
  "header_type ev = rd64 (take 4 ev)"

definition header_size :: "byte list \<Rightarrow> u64" where
  "header_size ev = rd64 (take 2 (drop 6 ev))"

definition er_get :: "event_reader \<Rightarrow> (byte list \<times> event_reader) result" where
  "er_get r =
    sum_bind (cpp_assert (er_tail r \<le> er_head r)) (\<lambda>_.
    sum_bind (cpp_assert (er_head r - er_tail r \<le> er_data_size r)) (\<lambda>_.
      if er_data_size r = 0 then Inl Division_by_zero
      else
        let index = er_tail r mod er_data_size r in
        if unat index + 8 > length (er_data r) then Inl Memory_fault
        else
          let len = header_size (drop (unat index) (er_data r)) in
          if index + len > er_data_size r
          then
            let before_wrap = er_data_size r - index; after_wrap = len - before_wrap in
            if unat index + unat before_wrap > length (er_data r) \<or> unat after_wrap > length (er_data r) \<or>
              unat before_wrap + unat after_wrap > length (er_copy r)
            then Inl Memory_fault
            else
              let c = take (unat before_wrap) (drop (unat index) (er_data r)) @ take (unat after_wrap) (er_data r) @
                      drop (unat before_wrap + unat after_wrap) (er_copy r) in
              Inr (take (unat len) c, r\<lparr>er_copy := c\<rparr>)
          else Inr (take (unat len) (drop (unat index) (er_data r)), r)))"

definition er_pop :: "event_reader \<Rightarrow> event_reader result" where
  "er_pop r = sum_bind (er_get r) (\<lambda>(ev, r1). Inr (r1\<lparr>er_tail := er_tail r1 + header_size ev\<rparr>))"

section \<open>The read loop\<close>

datatype record_kind = K_mmap | K_mmap2 | K_switch | K_switch_cpu_wide | K_throttle | K_lost | K_lost_samples
  | K_exit | K_fork | K_sample | K_comm | K_unknown

definition record_kind_of :: "u64 \<Rightarrow> record_kind" where
  "record_kind_of ty =
    (if ty = 1 then K_mmap else if ty = 10 then K_mmap2 else if ty = 14 then K_switch
     else if ty = 15 then K_switch_cpu_wide else if ty = 5 \<or> ty = 6 then K_throttle
     else if ty = 2 then K_lost else if ty = 13 then K_lost_samples else if ty = 4 then K_exit
     else if ty = 7 then K_fork else if ty = 9 then K_sample else if ty = 3 then K_comm else K_unknown)"

text \<open>
  The \<open>switch\<close> of \<open>read\<close>. \<open>handle\<close> stands for the overloads of the reader's own class: it gets the
  kind of the record, the record and the state, and says whether to stop.
\<close>

type_synonym 's handler = "record_kind \<Rightarrow> byte list \<Rightarrow> 's \<Rightarrow> (bool \<times> 's) result"

definition er_dispatch ::
    "'s handler \<Rightarrow> byte list \<Rightarrow> 's \<Rightarrow> event_reader \<Rightarrow> (bool \<times> 's \<times> event_reader) result" where
  "er_dispatch handle ev s r =
    (let k = record_kind_of (header_type ev) in
     case k of
       K_throttle \<Rightarrow> Inr (False, s, r\<lparr>er_throttle_samples := er_throttle_samples r + 1\<rparr>)
     | K_lost \<Rightarrow> Inr (False, s, r\<lparr>er_lost_samples := er_lost_samples r + rd64 (take 8 (drop 16 ev))\<rparr>)
     | K_lost_samples \<Rightarrow> Inr (False, s, r\<lparr>er_lost_samples := er_lost_samples r + rd64 (take 8 (drop 8 ev))\<rparr>)
     | K_exit \<Rightarrow> Inr (False, s, r)
     | _ \<Rightarrow> sum_bind (handle k ev s) (\<lambda>(stop, s'). Inr (stop, s', r)))"

text \<open>\<open>read\<close>, with the number of iterations bounded by \<open>fuel\<close>: \<open>None\<close> when the bound is reached.\<close>

fun er_read :: "nat \<Rightarrow> 's handler \<Rightarrow> event_reader \<Rightarrow> 's \<Rightarrow> ('s \<times> event_reader) result option" where
  "er_read fuel handle r s =
    (if er_empty r then Some (Inr (s, r))
     else case fuel of 0 \<Rightarrow> None
     | Suc n \<Rightarrow>
       (case er_get r of Inl e \<Rightarrow> Some (Inl e)
        | Inr (ev, r1) \<Rightarrow>
          case er_dispatch handle ev s r1 of Inl e \<Rightarrow> Some (Inl e)
          | Inr (stop, s', r2) \<Rightarrow>
            case er_pop r2 of Inl e \<Rightarrow> Some (Inl e)
            | Inr r3 \<Rightarrow> if stop then Some (Inr (s', r3)) else er_read n handle r3 s'))"

declare er_read.simps [simp del]

section \<open>The records in the buffer\<close>

text \<open>What the kernel promises of a record, and of the buffer between two writes.\<close>

definition perf_event :: "byte list \<Rightarrow> bool" where
  "perf_event ev \<longleftrightarrow> 8 dvd length ev \<and> 8 \<le> length ev \<and> length ev < PERF_SAMPLE_MAX_SIZE \<and>
    unat (header_size ev) = length ev"

definition er_ok :: "event_reader \<Rightarrow> bool" where
  "er_ok r \<longleftrightarrow> unat (er_data_size r) = length (er_data r) \<and> 0 < length (er_data r) \<and> 8 dvd length (er_data r) \<and>
    length (er_data r) < 2 ^ 63 \<and> length (er_copy r) = PERF_SAMPLE_MAX_SIZE"

definition er_holds :: "event_reader \<Rightarrow> byte list list \<Rightarrow> bool" where
  "er_holds r es \<longleftrightarrow> er_ok r \<and> 8 dvd unat (er_tail r) \<and>
    unat (er_tail r) + length (concat es) = unat (er_head r) \<and> length (concat es) \<le> length (er_data r) \<and>
    read_ring (er_data r) (unat (er_tail r)) (length (concat es)) = concat es \<and> list_all perf_event es"

lemma er_holds_empty: "er_holds r es \<Longrightarrow> er_empty r \<longleftrightarrow> es = []"
  by (cases es) (auto simp: er_holds_def er_empty_def word_unat_eq_iff perf_event_def)

lemma read_ring_wrap:
  assumes "off < length m" "length m \<le> off + len" "len \<le> length m"
  shows "read_ring m off len = drop off m @ take (len - (length m - off)) m"
proof -
  have len: "len = (length m - off) + (len - (length m - off))" using assms by simp
  have "read_ring m off (length m - off) = drop off m"
    using assms(1) by (subst read_ring_contiguous) auto
  moreover have "read_ring m (off + (length m - off)) k = take k m" if "k \<le> length m" for k
    using assms(1) that read_ring_mod[of m "length m" k] by (simp add: read_ring_contiguous)
  ultimately show ?thesis
    using assms by (subst len) (simp only: read_ring_append)
qed

text \<open>Facts shared by the two branches of \<open>get\<close>.\<close>

lemma er_holds_first:
  assumes "er_holds r (ev # es)"
  defines "n \<equiv> length (er_data r)" and "i \<equiv> unat (er_tail r) mod length (er_data r)"
  shows "er_tail r \<le> er_head r" "er_head r - er_tail r \<le> er_data_size r" "er_data_size r \<noteq> 0"
    "unat (er_tail r mod er_data_size r) = i" "i + 8 \<le> n" "i < n"
    "header_size (drop i (er_data r)) = header_size ev" "unat (header_size ev) = length ev"
    "read_ring (er_data r) i (length ev) = ev" "length ev \<le> n"
proof -
  note h = assms(1)[unfolded er_holds_def er_ok_def]
  have pe: "perf_event ev" using h by simp
  show le: "er_tail r \<le> er_head r" using h by (simp add: word_le_nat_alt)
  have "unat (er_head r - er_tail r) = length (concat (ev # es))"
    using h unat_sub[OF le] by auto
  then show "er_head r - er_tail r \<le> er_data_size r" using h by (simp add: word_le_nat_alt)
  show "er_data_size r \<noteq> 0" using h by auto
  show "unat (er_tail r mod er_data_size r) = i" using h by (simp add: unat_mod i_def)
  have d: "8 dvd n" "8 dvd i" "0 < n" using h by (auto simp: n_def i_def dvd_mod)
  show lt: "i < n" using d(3) by (simp add: i_def n_def)
  then show i8: "i + 8 \<le> n" using d by (auto elim!: dvdE)
  show "length ev \<le> n" using h by (simp add: n_def)
  have "take (length ev) (read_ring (er_data r) (unat (er_tail r)) (length (concat (ev # es)))) = ev"
    using h by simp
  then have "read_ring (er_data r) (unat (er_tail r)) (length ev) = ev" by (simp add: take_read_ring)
  then show ev: "read_ring (er_data r) i (length ev) = ev" by (simp add: i_def read_ring_mod)
  show "unat (header_size ev) = length ev" using pe by (simp add: perf_event_def)
  have "take 8 ev = read_ring (er_data r) i 8"
    using ev pe by (metis perf_event_def take_read_ring)
  also have "\<dots> = take 8 (drop i (er_data r))" using i8 by (simp add: read_ring_contiguous n_def)
  finally have "take 2 (drop 6 (take 8 ev)) = take 2 (drop 6 (take 8 (drop i (er_data r))))" by simp
  then show "header_size (drop i (er_data r)) = header_size ev"
    by (simp add: header_size_def drop_take take_take min_def)
qed

lemma er_get_ok:
  assumes "er_holds r (ev # es)"
  obtains c where "er_get r = Inr (ev, r\<lparr>er_copy := c\<rparr>)" "length c = PERF_SAMPLE_MAX_SIZE"
proof -
  note f = er_holds_first[OF assms]
  let ?n = "length (er_data r)" and ?i = "unat (er_tail r) mod length (er_data r)"
  have n: "unat (er_data_size r) = ?n" "?n < 2 ^ 63" "length (er_copy r) = PERF_SAMPLE_MAX_SIZE"
    and ev: "length ev < PERF_SAMPLE_MAX_SIZE" "perf_event ev"
    using assms by (auto simp: er_holds_def er_ok_def perf_event_def)
  let ?index = "er_tail r mod er_data_size r" and ?len = "header_size ev"
  have sum: "unat (?index + ?len) = ?i + length ev"
    using f(4,6,8,10) n(2) by (simp add: unat_word_ariths)
  show thesis
  proof (cases "?i + length ev > ?n")
    case False
    then have nw: "\<not> ?index + ?len > er_data_size r" using sum n(1) by (simp add: word_less_nat_alt)
    have "take (length ev) (drop ?i (er_data r)) = ev"
      using f(9) False by (simp add: read_ring_contiguous)
    then have "er_get r = Inr (ev, r)"
      using nw f by (simp add: er_get_def Let_def)
    with n(3) show thesis by (intro that[of "er_copy r"]) auto
  next
    case True
    then have w: "?index + ?len > er_data_size r" using sum n(1) by (simp add: word_less_nat_alt)
    let ?before = "er_data_size r - ?index"
    have le: "?index \<le> er_data_size r" using f(4,6) n(1) by (simp add: word_le_nat_alt)
    have b: "unat ?before = ?n - ?i" using unat_sub[OF le] f(4) n(1) by simp
    have le2: "?before \<le> ?len" using b f(8) True by (simp add: word_le_nat_alt)
    have a: "unat (?len - ?before) = length ev - (?n - ?i)" using unat_sub[OF le2] b f(8) by simp
    let ?c = "drop ?i (er_data r) @ take (length ev - (?n - ?i)) (er_data r) @ drop (length ev) (er_copy r)"
    have wrap: "ev = drop ?i (er_data r) @ take (length ev - (?n - ?i)) (er_data r)"
      using f(6,9,10) True read_ring_wrap[of ?i "er_data r" "length ev"] by simp
    have guard: "\<not> (unat ?index + unat ?before > ?n \<or> unat (?len - ?before) > ?n \<or>
        unat ?before + unat (?len - ?before) > length (er_copy r))"
      using a b f(4,6,10) n(3) ev(1) True by auto
    have tot: "unat ?before + unat (?len - ?before) = length ev" using a b True f(6) by auto
    have "er_get r = Inr (take (length ev) ?c, r\<lparr>er_copy := ?c\<rparr>)"
      using w f(1-5,7,8) guard tot a b by (simp add: er_get_def Let_def)
    moreover have "take (length ev) ?c = ev"
      using wrap by (metis append_eq_conv_conj append.assoc)
    moreover have "length ?c = PERF_SAMPLE_MAX_SIZE"
    proof -
      have "length ?c = length (ev @ drop (length ev) (er_copy r))" using wrap by (metis append.assoc)
      also have "\<dots> = PERF_SAMPLE_MAX_SIZE" using ev(1) n(3) by simp
      finally show ?thesis .
    qed
    ultimately show thesis using that by metis
  qed
qed

lemma er_holds_copy: "er_holds r es \<Longrightarrow> length c = PERF_SAMPLE_MAX_SIZE \<Longrightarrow> er_holds (r\<lparr>er_copy := c\<rparr>) es"
  by (simp add: er_holds_def er_ok_def er_data_size_def)

lemma er_pop_ok:
  assumes "er_holds r (ev # es)"
  obtains r' where "er_pop r = Inr r'" "er_holds r' es" "er_throttle_samples r' = er_throttle_samples r"
    "er_lost_samples r' = er_lost_samples r"
proof -
  obtain c where c: "er_get r = Inr (ev, r\<lparr>er_copy := c\<rparr>)" "length c = PERF_SAMPLE_MAX_SIZE"
    using er_get_ok[OF assms] .
  note h = assms[unfolded er_holds_def er_ok_def]
  have "unat (er_tail r) + length ev < 2 ^ 64"
  proof -
    have "unat (er_head r) < 2 ^ 64" using unsigned_less[of "er_head r"] by simp
    with h show ?thesis by auto
  qed
  then have t: "unat (er_tail r + header_size ev) = unat (er_tail r) + length ev"
    using er_holds_first(8)[OF assms] by (simp add: unat_word_ariths)
  have "drop (length ev) (read_ring (er_data r) (unat (er_tail r)) (length (concat (ev # es)))) = concat es"
    using h by simp
  then have "read_ring (er_data r) (unat (er_tail r) + length ev) (length (concat es)) = concat es"
    by (simp add: drop_read_ring)
  then have "er_holds (r\<lparr>er_copy := c, er_tail := er_tail r + header_size ev\<rparr>) es"
    using h c(2) t by (auto simp: er_holds_def er_ok_def er_data_size_def perf_event_def)
  then show thesis
    using c(1) by (intro that[of "r\<lparr>er_copy := c, er_tail := er_tail r + header_size ev\<rparr>"]) (auto simp: er_pop_def)
qed

section \<open>Properties\<close>

text \<open>The records handed to the handler, one after the other, until it stops.\<close>

fun deliver :: "'s handler \<Rightarrow> byte list list \<Rightarrow> 's \<Rightarrow> event_reader
    \<Rightarrow> ('s \<times> u64 \<times> u64 \<times> byte list list) result" where
  "deliver handle [] s r = Inr (s, er_throttle_samples r, er_lost_samples r, [])"
| "deliver handle (ev # es) s r =
    sum_bind (er_dispatch handle ev s r) (\<lambda>(stop, s', r').
      if stop then Inr (s', er_throttle_samples r', er_lost_samples r', es) else deliver handle es s' r')"

lemma er_dispatch_counters:
  assumes "er_throttle_samples r = er_throttle_samples q" "er_lost_samples r = er_lost_samples q"
  shows "er_dispatch h ev s r = (case er_dispatch h ev s q of Inl e \<Rightarrow> Inl e
    | Inr (stop, s', q') \<Rightarrow> Inr (stop, s', r\<lparr>er_throttle_samples := er_throttle_samples q',
        er_lost_samples := er_lost_samples q'\<rparr>))"
  using assms
  by (cases r; cases q; cases "record_kind_of (header_type ev)")
    (auto simp: er_dispatch_def sum_bind_def split: sum.split)

lemma deliver_counters:
  "er_throttle_samples r = er_throttle_samples q \<Longrightarrow> er_lost_samples r = er_lost_samples q \<Longrightarrow>
    deliver h es s r = deliver h es s q"
proof (induction es arbitrary: s r q)
  case (Cons ev es)
  show ?case
  proof (cases "er_dispatch h ev s q")
    case (Inl e)
    then show ?thesis using er_dispatch_counters[OF Cons.prems, of h ev s] by simp
  next
    case (Inr x)
    obtain stop s' q' where x: "x = (stop, s', q')" by (cases x)
    let ?r = "r\<lparr>er_throttle_samples := er_throttle_samples q', er_lost_samples := er_lost_samples q'\<rparr>"
    have "deliver h es s' ?r = deliver h es s' q'" by (rule Cons.IH) simp_all
    with Inr x er_dispatch_counters[OF Cons.prems, of h ev s] show ?thesis by simp
  qed
qed simp

lemma er_holds_counters:
  "er_holds r es \<Longrightarrow> er_holds (r\<lparr>er_throttle_samples := a, er_lost_samples := b\<rparr>) es"
  by (simp add: er_holds_def er_ok_def er_data_size_def)

lemma er_dispatch_frame:
  "er_dispatch h ev s r = Inr (stop, s', r') \<Longrightarrow>
    \<exists>a b. r' = r\<lparr>er_throttle_samples := a, er_lost_samples := b\<rparr>"
  using er_dispatch_counters[of r r h ev s] by (auto split: sum.splits)

lemma er_read_deliver:
  "er_holds r es \<Longrightarrow> length es \<le> fuel \<Longrightarrow>
    (case deliver h es s r of Inl e \<Rightarrow> er_read fuel h r s = Some (Inl e)
     | Inr (s', thr, lost, rest) \<Rightarrow> \<exists>r'. er_read fuel h r s = Some (Inr (s', r')) \<and> er_holds r' rest \<and>
         er_throttle_samples r' = thr \<and> er_lost_samples r' = lost)"
proof (induction es arbitrary: r s fuel)
  case Nil
  then show ?case using er_holds_empty[of r "[]"] by (auto simp: er_read.simps)
next
  case (Cons ev es)
  obtain n where n: "fuel = Suc n" "length es \<le> n" using Cons.prems(2) by (cases fuel) auto
  obtain c where c: "er_get r = Inr (ev, r\<lparr>er_copy := c\<rparr>)" "length c = PERF_SAMPLE_MAX_SIZE"
    using er_get_ok[OF Cons.prems(1)] .
  let ?r1 = "r\<lparr>er_copy := c\<rparr>"
  have ne: "\<not> er_empty r" using er_holds_empty[OF Cons.prems(1)] by simp
  have d: "deliver h (ev # es) s r = deliver h (ev # es) s ?r1" by (rule deliver_counters) simp_all
  show ?case
  proof (cases "er_dispatch h ev s ?r1")
    case (Inl e)
    then show ?thesis unfolding d using c(1) ne n by (simp add: er_read.simps)
  next
    case (Inr x)
    obtain stop s' r2 where x: "x = (stop, s', r2)" by (cases x)
    obtain a b where r2: "r2 = ?r1\<lparr>er_throttle_samples := a, er_lost_samples := b\<rparr>"
      using er_dispatch_frame[of h ev s ?r1 stop s' r2] Inr x by auto
    have h2: "er_holds r2 (ev # es)"
      unfolding r2 by (intro er_holds_counters er_holds_copy Cons.prems(1) c(2))
    obtain r3 where r3: "er_pop r2 = Inr r3" "er_holds r3 es" "er_throttle_samples r3 = er_throttle_samples r2"
      "er_lost_samples r3 = er_lost_samples r2"
      using er_pop_ok[OF h2] .
    have run: "er_read fuel h r s = (if stop then Some (Inr (s', r3)) else er_read n h r3 s')"
      using c(1) ne n Inr x r3(1) by (subst er_read.simps) simp
    have "deliver h es s' r3 = deliver h es s' r2" by (rule deliver_counters) (simp_all add: r3)
    with Cons.IH[OF r3(2) n(2), of s'] Inr x run r3 show ?thesis
      unfolding d by (cases stop) (auto split: sum.splits)
  qed
qed

text \<open>
  While the buffer holds records, \<open>get\<close> returns the bytes of the oldest one, also when the record
  spans the end of the data area: neither assertion fails and no access leaves the data area or
  \<open>event_copy\<close>. \<open>pop\<close> then removes exactly this record.
\<close>
lemma perf_get_pop:
  assumes "er_holds r (ev # es)"
  shows "\<exists>r1 r2. er_get r = Inr (ev, r1) \<and> er_holds r1 (ev # es) \<and> er_pop r1 = Inr r2 \<and> er_holds r2 es"
proof -
  obtain c where c: "er_get r = Inr (ev, r\<lparr>er_copy := c\<rparr>)" "length c = PERF_SAMPLE_MAX_SIZE"
    using er_get_ok[OF assms] .
  with er_holds_copy[OF assms c(2)] er_pop_ok[OF er_holds_copy[OF assms c(2)]] show ?thesis by metis
qed

definition example_event :: "byte list" where
  "example_event = [9, 0, 0, 0, 0, 0, 16, 0, 1, 2, 3, 4, 5, 6, 7, 8]"

definition example_reader :: event_reader where
  "example_reader = \<lparr>er_data = [1, 2, 3, 4, 5, 6, 7, 8, 9, 0, 0, 0, 0, 0, 16, 0], er_head = 24, er_tail = 8,
    er_mmap_pages = 1, er_page_size = 16, er_copy = replicate 65536 0, er_throttle_samples = 0, er_lost_samples = 0\<rparr>"

lemma example_reader_holds: "er_holds example_reader [example_event]"
proof -
  have len: "length example_event = 16" "length (er_data example_reader) = 16"
    by (simp_all add: example_event_def example_reader_def)
  have "read_ring (er_data example_reader) 8 16 = example_event"
    by (simp add: read_ring_def example_reader_def example_event_def upt_rec[of _ 16])
  moreover have "perf_event example_event"
    unfolding perf_event_def len(1)
    by (simp add: example_event_def header_size_def rd64_def PERF_SAMPLE_MAX_SIZE_def)
  moreover have "er_ok example_reader"
    unfolding er_ok_def len(2)
    by (simp add: example_reader_def er_data_size_def PERF_SAMPLE_MAX_SIZE_def)
  ultimately show ?thesis
    using len by (simp add: er_holds_def) (simp add: example_reader_def)
qed

lemma perf_get_pop_witness:
  "\<exists>r1 r2. er_get example_reader = Inr (example_event, r1) \<and> er_holds r1 [example_event] \<and>
    er_pop r1 = Inr r2 \<and> er_holds r2 []"
  by (rule perf_get_pop[OF example_reader_holds])

text \<open>
  C14. \<open>read\<close> terminates on every buffer, with at most one iteration per record, and hands the records
  to the handlers in the order the kernel wrote them, until a handler stops: the final state and the
  counts of throttled and lost samples are those of processing the records one after the other, and
  the records that were not read stay in the buffer.
\<close>
theorem perf_read_in_order:
  assumes "er_holds r es" "length es \<le> fuel"
  shows "case deliver h es s r of Inl e \<Rightarrow> er_read fuel h r s = Some (Inl e)
    | Inr (s', thr, lost, rest) \<Rightarrow> \<exists>r'. er_read fuel h r s = Some (Inr (s', r')) \<and> er_holds r' rest \<and>
        er_throttle_samples r' = thr \<and> er_lost_samples r' = lost"
  using er_read_deliver[OF assms] .

theorem perf_read_in_order_witness:
  "case deliver (\<lambda>k ev n. Inr (False, n + 1)) [example_event] (0 :: nat) example_reader of
     Inl e \<Rightarrow> er_read 1 (\<lambda>k ev n. Inr (False, n + 1)) example_reader (0 :: nat) = Some (Inl e)
    | Inr (s', thr, lost, rest) \<Rightarrow> \<exists>r'. er_read 1 (\<lambda>k ev n. Inr (False, n + 1)) example_reader (0 :: nat) = Some (Inr (s', r')) \<and>
        er_holds r' rest \<and> er_throttle_samples r' = thr \<and> er_lost_samples r' = lost"
  by (rule perf_read_in_order[OF example_reader_holds]) simp

end
