(* ===== verification/Multi_Reader.thy ===== *)
theory Multi_Reader
  imports Lo2s_Prelude "HOL-Library.Product_Lexorder" "HOL-Library.Multiset"
begin

text \<open>
  \<^verbatim>\<open>MultiReader\<close> (\<^verbatim>\<open>include/lo2s/perf/multi_reader.hpp\<close>): merging the event streams of several perf
  buffers by timestamp. A reader is the queue of the events in its buffer; its identity is any value
  of a linear order, as \<^verbatim>\<open>IoReaderIdentity\<close> is ordered by CPU and tracepoint. The priority queue
  holds pairs of time and identity, which \<open>operator>\<close> compares in this order, smallest first.
\<close>

section \<open>Model\<close>

type_synonym 'a io_event = "u64 \<times> 'a"

type_synonym 'i reader_queue = "(u64 \<times> 'i) list"

type_synonym ('i, 'a) readers = "'i \<Rightarrow> 'a io_event list"

definition pq_push :: "u64 \<times> 'i :: linorder \<Rightarrow> 'i reader_queue \<Rightarrow> 'i reader_queue" where
  "pq_push st pq = insort st pq"

text \<open>The initial filling, in the order of the map of readers.\<close>

definition mr_fill :: "('i, 'a) readers \<Rightarrow> 'i :: linorder \<Rightarrow> 'i reader_queue \<Rightarrow> 'i reader_queue" where
  "mr_fill qs i pq = (if qs i \<noteq> [] then pq_push (fst (hd (qs i)), i) pq else pq)"

definition mr_start :: "'i :: linorder list \<Rightarrow> ('i, 'a) readers \<Rightarrow> 'i reader_queue" where
  "mr_start ids qs = fold (mr_fill qs) ids []"

text \<open>
  The inner loop for one reader: its queue, the priority queue, \<open>highest_written_\<close> and the events
  written so far.
\<close>

fun mr_inner :: "'i :: linorder \<Rightarrow> 'a io_event list \<Rightarrow> 'i reader_queue \<Rightarrow> u64 \<Rightarrow> ('i \<times> 'a io_event) list
    \<Rightarrow> 'a io_event list \<times> 'i reader_queue \<times> u64 \<times> ('i \<times> 'a io_event) list" where
  "mr_inner i [] pq highest out = ([], pq, highest, out)"
| "mr_inner i (e # q) pq highest out =
    (if pq \<noteq> [] \<and> fst e > fst (hd pq) then (e # q, pq_push (fst e, i) pq, highest, out)
     else if fst e < highest then mr_inner i q pq highest out
     else mr_inner i q pq (fst e) (out @ [(i, e)]))"

text \<open>The outer loop, with a bound on the number of iterations.\<close>

fun mr_loop :: "nat \<Rightarrow> 'i :: linorder reader_queue \<Rightarrow> ('i, 'a) readers \<Rightarrow> u64 \<Rightarrow> ('i \<times> 'a io_event) list
    \<Rightarrow> (('i, 'a) readers \<times> u64 \<times> ('i \<times> 'a io_event) list) option" where
  "mr_loop fuel [] qs highest out = Some (qs, highest, out)"
| "mr_loop 0 (st # pq) qs highest out = None"
| "mr_loop (Suc n) (st # pq) qs highest out =
    (case mr_inner (snd st) (qs (snd st)) pq highest out of (q, pq', highest', out') \<Rightarrow>
       mr_loop n pq' (qs(snd st := q)) highest' out')"

definition mr_read :: "nat \<Rightarrow> 'i :: linorder list \<Rightarrow> ('i, 'a) readers \<Rightarrow> u64
    \<Rightarrow> (('i, 'a) readers \<times> u64 \<times> ('i \<times> 'a io_event) list) option" where
  "mr_read fuel ids qs highest = mr_loop fuel (mr_start ids qs) qs highest []"

section \<open>The priority queue\<close>

definition pq_inv :: "'i :: linorder reader_queue \<Rightarrow> ('i, 'a) readers \<Rightarrow> bool" where
  "pq_inv pq qs \<longleftrightarrow> sorted pq \<and> distinct (map snd pq) \<and>
    (\<forall>st \<in> set pq. qs (snd st) \<noteq> [] \<and> fst st = fst (hd (qs (snd st)))) \<and>
    (\<forall>i. qs i \<noteq> [] \<longrightarrow> i \<in> snd ` set pq)"

lemma pq_push_simps [simp]:
  "set (pq_push x pq) = insert x (set pq)" "sorted pq \<Longrightarrow> sorted (pq_push x pq)"
  by (simp_all add: pq_push_def set_insort_key sorted_insort)

lemma distinct_pq_push [simp]:
  "distinct (map snd (pq_push x pq)) \<longleftrightarrow> snd x \<notin> snd ` set pq \<and> distinct (map snd pq)"
  unfolding pq_push_def by (induction pq) (auto simp: set_insort_key)

lemma pq_inv_tail:
  assumes "pq_inv (st # pq) qs"
  shows "sorted pq" "distinct (map snd pq)" "snd st \<notin> snd ` set pq" "qs (snd st) \<noteq> []"
    "fst st = fst (hd (qs (snd st)))" "\<forall>s \<in> set pq. fst st \<le> fst s"
    "\<forall>s \<in> set pq. qs (snd s) \<noteq> [] \<and> fst s = fst (hd (qs (snd s)))"
    "\<forall>i. qs i \<noteq> [] \<longrightarrow> i = snd st \<or> i \<in> snd ` set pq"
proof -
  show "\<forall>s \<in> set pq. fst st \<le> fst s"
  proof
    fix s assume "s \<in> set pq"
    then have "st \<le> s" using assms by (simp add: pq_inv_def)
    then show "fst st \<le> fst s" by (auto simp: less_eq_prod_def)
  qed
qed (use assms in \<open>auto simp: pq_inv_def\<close>)

lemma mr_fill_inv:
  "sorted pq \<Longrightarrow> distinct (map snd pq) \<Longrightarrow> distinct js \<Longrightarrow> set js \<inter> snd ` set pq = {} \<Longrightarrow>
    sorted (fold (mr_fill qs) js pq) \<and> distinct (map snd (fold (mr_fill qs) js pq)) \<and>
    set (fold (mr_fill qs) js pq) = set pq \<union> {(fst (hd (qs i)), i) | i. i \<in> set js \<and> qs i \<noteq> []}"
proof (induction js arbitrary: pq)
  case (Cons j js)
  have "set js \<inter> snd ` set (mr_fill qs j pq) = {}" "sorted (mr_fill qs j pq)" "distinct (map snd (mr_fill qs j pq))"
    using Cons.prems by (auto simp: mr_fill_def)
  from Cons.IH[OF this(2,3) _ this(1)] Cons.prems(3) show ?case
    by (auto simp: mr_fill_def)
qed auto

lemma mr_start_inv:
  assumes "distinct ids" "\<forall>i. qs i \<noteq> [] \<longrightarrow> i \<in> set ids"
  shows "pq_inv (mr_start ids qs) qs"
  using mr_fill_inv[of "[]" ids qs] assms by (force simp: mr_start_def pq_inv_def)

section \<open>The inner loop\<close>

text \<open>Without any assumption on the queues, what is written is in order.\<close>

definition out_ok :: "u64 \<Rightarrow> u64 \<Rightarrow> ('i \<times> 'a io_event) list \<Rightarrow> bool" where
  "out_ok low highest out \<longleftrightarrow> sorted (map (fst \<circ> snd) out) \<and> low \<le> highest \<and>
    (\<forall>e \<in> set out. low \<le> fst (snd e) \<and> fst (snd e) \<le> highest)"

lemma mr_inner_out_ok:
  "mr_inner i q pq highest out = (q', pq', highest', out') \<Longrightarrow> out_ok low highest out \<Longrightarrow>
    out_ok low highest' out' \<and> highest \<le> highest'"
proof (induction i q pq highest out rule: mr_inner.induct)
  case (2 i e q pq highest out)
  have "out_ok low (fst e) (out @ [(i, e)])" if "\<not> fst e < highest"
    using that "2.prems"(2) by (auto simp: out_ok_def sorted_append)
  with 2 show ?case by (auto split: if_splits)
qed auto

text \<open>The queue is consumed from the front, and the head is consumed unless the queue must wait.\<close>

lemma mr_inner_queue:
  "mr_inner i q pq highest out = (q', pq', highest', out') \<Longrightarrow>
    (\<exists>w. q = w @ q') \<and>
    (if q' = [] then pq' = pq else pq \<noteq> [] \<and> fst (hd pq) < fst (hd q') \<and> pq' = pq_push (fst (hd q'), i) pq) \<and>
    (\<forall>t. q \<noteq> [] \<and> t = fst (hd q) \<and> (\<forall>s \<in> set pq. t \<le> fst s) \<longrightarrow> length q' < length q)"
proof (induction i q pq highest out rule: mr_inner.induct)
  case (2 i e q pq highest out)
  show ?case
  proof (cases "pq \<noteq> [] \<and> fst e > fst (hd pq)")
    case True
    with "2.prems" show ?thesis by (auto simp: not_le)
  next
    case False
    then obtain w where w: "q = w @ q'"
      "if q' = [] then pq' = pq else pq \<noteq> [] \<and> fst (hd pq) < fst (hd q') \<and> pq' = pq_push (fst (hd q'), i) pq"
      using 2 by (auto split: if_splits)
    then have "e # q = (e # w) @ q'" by simp
    moreover have "length q' < length (e # q)" using w(1) by simp
    ultimately show ?thesis using w(2) by blast
  qed
qed simp

lemma mr_inner_sorted:
  "mr_inner i q pq highest out = (q', pq', highest', out') \<Longrightarrow> sorted (map fst q) \<Longrightarrow>
    \<forall>e \<in> set q. highest \<le> fst e \<Longrightarrow>
    \<exists>w. q = w @ q' \<and> out' = out @ map (Pair i) w \<and> (\<forall>e \<in> set w. pq \<noteq> [] \<longrightarrow> fst e \<le> fst (hd pq)) \<and>
      highest' = (if w = [] then highest else fst (last w))"
proof (induction i q pq highest out rule: mr_inner.induct)
  case (2 i e q pq highest out)
  show ?case
  proof (cases "pq \<noteq> [] \<and> fst e > fst (hd pq)")
    case True
    with "2.prems" show ?thesis by auto
  next
    case False
    have "mr_inner i q pq (fst e) (out @ [(i, e)]) = (q', pq', highest', out')"
      using "2.prems" False by (auto simp: not_less[symmetric])
    then obtain w where "q = w @ q'" "out' = out @ [(i, e)] @ map (Pair i) w"
      "\<forall>e \<in> set w. pq \<noteq> [] \<longrightarrow> fst e \<le> fst (hd pq)" "highest' = (if w = [] then fst e else fst (last w))"
      using "2.IH"(2) False "2.prems" by (auto simp: not_less[symmetric])
    with False show ?thesis by (intro exI[of _ "e # w"]) (auto simp: not_less)
  qed
qed simp

lemma pq_inv_step:
  assumes inv: "pq_inv (st # pq) qs" and run: "mr_inner (snd st) (qs (snd st)) pq highest out = (q', pq', highest', out')"
  shows "pq_inv pq' (qs(snd st := q'))" "length q' < length (qs (snd st))"
proof -
  note t = pq_inv_tail[OF inv] and q = mr_inner_queue[OF run]
  show "length q' < length (qs (snd st))" using q t(4-6) by blast
  have ne: "\<forall>s \<in> set pq. snd s \<noteq> snd st" using t(3) by (metis image_eqI)
  show "pq_inv pq' (qs(snd st := q'))"
  proof (cases "q' = []")
    case True
    with q t ne show ?thesis by (auto simp: pq_inv_def)
  next
    case False
    with q have "pq' = pq_push (fst (hd q'), snd st) pq" by simp
    with False t ne show ?thesis by (auto simp: pq_inv_def)
  qed
qed

section \<open>The outer loop\<close>

definition queued :: "'i list \<Rightarrow> ('i, 'a) readers \<Rightarrow> nat" where
  "queued ids qs = (\<Sum>i \<in> set ids. length (qs i))"

lemma queued_step:
  assumes "length q' < length (qs i)" "\<forall>i. qs i \<noteq> [] \<longrightarrow> i \<in> set ids"
  shows "queued ids (qs(i := q')) < queued ids qs"
proof -
  have "i \<in> set ids" using assms by (metis list.size(3) not_less_zero)
  then show ?thesis using assms(1) by (simp add: queued_def sum.remove[of "set ids" i])
qed

lemma mr_loop_ok:
  "pq_inv pq qs \<Longrightarrow> \<forall>i. qs i \<noteq> [] \<longrightarrow> i \<in> set ids \<Longrightarrow> queued ids qs \<le> fuel \<Longrightarrow> out_ok low highest out \<Longrightarrow>
    \<exists>qs' highest' out'. mr_loop fuel pq qs highest out = Some (qs', highest', out') \<and> (\<forall>i. qs' i = []) \<and>
      out_ok low highest' out' \<and> highest \<le> highest'"
proof (induction fuel pq qs highest out rule: mr_loop.induct)
  case (1 fuel qs highest out)
  then show ?case by (auto simp: pq_inv_def)
next
  case (2 st pq qs highest out)
  have "snd st \<in> set ids" using "2.prems"(2) pq_inv_tail(4)[OF "2.prems"(1)] by blast
  then have "length (qs (snd st)) \<le> queued ids qs"
    unfolding queued_def by (intro member_le_sum) auto
  then show ?case using "2.prems"(3) pq_inv_tail(4)[OF "2.prems"(1)] by simp
next
  case (3 n st pq qs highest out)
  obtain q' pq' h' out' where run: "mr_inner (snd st) (qs (snd st)) pq highest out = (q', pq', h', out')"
    by (metis prod_cases4)
  note step = pq_inv_step[OF "3.prems"(1) run]
  have "queued ids (qs(snd st := q')) \<le> n"
    using queued_step[OF step(2) "3.prems"(2)] "3.prems"(3) by linarith
  moreover have "\<forall>i. (qs(snd st := q')) i \<noteq> [] \<longrightarrow> i \<in> set ids"
    using "3.prems"(2) pq_inv_tail(4)[OF "3.prems"(1)] by auto
  ultimately show ?case
    using "3.IH"[OF run[symmetric] refl refl] run step(1) mr_inner_out_ok[OF run "3.prems"(4)]
    by (fastforce intro: order_trans)
qed

lemma remaining_after_inner:
  assumes inv: "pq_inv (st # pq) qs" and srt: "\<forall>i. sorted (map fst (qs i))"
    and low: "\<forall>i. \<forall>e \<in> set (qs i). highest \<le> fst e"
    and w: "qs (snd st) = w @ q'" "\<forall>e \<in> set w. pq \<noteq> [] \<longrightarrow> fst e \<le> fst (hd pq)"
      "h' = (if w = [] then highest else fst (last w))"
    and e: "e \<in> set ((qs(snd st := q')) i)"
  shows "h' \<le> fst e"
proof (cases "w = []")
  case True
  with w e low show ?thesis by (auto split: if_splits)
next
  case False
  note t = pq_inv_tail[OF inv]
  show ?thesis
  proof (cases "i = snd st")
    case True
    then have "sorted (map fst (w @ q'))" "e \<in> set q'" using srt w(1) e by (metis, simp)
    with False w(3) show ?thesis by (auto simp: sorted_append)
  next
    case other: False
    then have ei: "e \<in> set (qs i)" using e by simp
    then have "i \<in> snd ` set pq" using t(8) other by (metis empty_iff list.set(1))
    then obtain s where s: "s \<in> set pq" "snd s = i" by blast
    have "pq \<noteq> []" using s(1) by auto
    have "fst (last w) \<le> fst (hd pq)" using w(2) \<open>pq \<noteq> []\<close> False by simp
    also have "hd pq \<le> s" using t(1) s(1) by (cases pq) auto
    then have "fst (hd pq) \<le> fst s" by (auto simp: less_eq_prod_def)
    also have "fst s = fst (hd (qs i))" using t(7) s by blast
    also have "\<dots> \<le> fst e" using srt[rule_format, of i] ei by (cases "qs i") auto
    finally show ?thesis using False w(3) by simp
  qed
qed

lemma mr_loop_merge:
  "pq_inv pq qs \<Longrightarrow> \<forall>i. sorted (map fst (qs i)) \<Longrightarrow> \<forall>i. \<forall>e \<in> set (qs i). highest \<le> fst e \<Longrightarrow>
    mr_loop fuel pq qs highest out = Some (qs', highest', out') \<Longrightarrow>
    \<exists>w. out' = out @ w \<and> (\<forall>i. filter (\<lambda>x. fst x = i) w = map (Pair i) (qs i))"
proof (induction fuel pq qs highest out rule: mr_loop.induct)
  case (1 fuel qs highest out)
  then show ?case by (auto simp: pq_inv_def)
next
  case (2 st pq qs highest out)
  then show ?case by simp
next
  case (3 n st pq qs highest out)
  obtain q' pq' h' out1 where run: "mr_inner (snd st) (qs (snd st)) pq highest out = (q', pq', h', out1)"
    by (metis prod_cases4)
  obtain w where w: "qs (snd st) = w @ q'" "out1 = out @ map (Pair (snd st)) w"
    "\<forall>e \<in> set w. pq \<noteq> [] \<longrightarrow> fst e \<le> fst (hd pq)" "h' = (if w = [] then highest else fst (last w))"
    using mr_inner_sorted[OF run] "3.prems"(2,3) by blast
  let ?qs = "qs(snd st := q')"
  have "sorted (map fst (w @ q'))" using "3.prems"(2) w(1) by metis
  then have "\<forall>i. sorted (map fst (?qs i))" using "3.prems"(2) by (simp add: sorted_append)
  moreover have "\<forall>i. \<forall>e \<in> set (?qs i). h' \<le> fst e"
    using remaining_after_inner[OF "3.prems"(1-3) w(1,3,4)] by blast
  moreover have "mr_loop n pq' ?qs h' out1 = Some (qs', highest', out')" using "3.prems"(4) run by simp
  ultimately obtain v where v: "out' = out1 @ v" "\<forall>i. filter (\<lambda>x. fst x = i) v = map (Pair i) (?qs i)"
    using "3.IH"[OF run[symmetric] refl refl pq_inv_step(1)[OF "3.prems"(1) run]] by blast
  have "filter (\<lambda>x. fst x = i) (map (Pair (snd st)) w) = (if i = snd st then map (Pair i) w else [])" for i
    by (auto simp: filter_empty_conv intro!: filter_True)
  then have "filter (\<lambda>x. fst x = i) (map (Pair (snd st)) w @ v) = map (Pair i) (qs i)" for i
    using v(2) w(1) by auto
  with v(1) w(2) show ?case by auto
qed

section \<open>Properties\<close>

text \<open>
  C11. \<open>read\<close> terminates: one iteration of the outer loop per queued event is enough, whatever the
  timestamps are. Every queue is empty afterwards, and the timestamps handed to the writer are in
  ascending order and not below \<open>highest_written_\<close>, so the order also holds across calls.
\<close>
theorem multi_read_ordered:
  assumes "distinct ids" "\<forall>i. qs i \<noteq> [] \<longrightarrow> i \<in> set ids" "queued ids qs \<le> fuel"
  shows "\<exists>qs' highest' out. mr_read fuel ids qs highest = Some (qs', highest', out) \<and> (\<forall>i. qs' i = []) \<and>
    sorted (map (fst \<circ> snd) out) \<and> highest \<le> highest' \<and>
    (\<forall>e \<in> set out. highest \<le> fst (snd e) \<and> fst (snd e) \<le> highest')"
proof -
  have "out_ok highest highest []" by (simp add: out_ok_def)
  from mr_loop_ok[OF mr_start_inv[OF assms(1,2)] assms(2,3) this] show ?thesis
    unfolding mr_read_def by (auto simp: out_ok_def)
qed

definition example_queues :: "(nat, nat) readers" where
  "example_queues i = (if i = 0 then [(5, 1), (9, 2)] else if i = 1 then [(7, 3)] else [])"

theorem multi_read_ordered_witness:
  "\<exists>qs' highest' out. mr_read 3 [0, 1] example_queues 0 = Some (qs', highest', out) \<and> (\<forall>i. qs' i = []) \<and>
    sorted (map (fst \<circ> snd) out) \<and> 0 \<le> highest' \<and>
    (\<forall>e \<in> set out. 0 \<le> fst (snd e) \<and> fst (snd e) \<le> highest')"
  by (rule multi_read_ordered) (auto simp: example_queues_def queued_def)

text \<open>
  C12. When every buffer is in temporal order and holds no event older than \<open>highest_written_\<close>, no
  event is dropped: what \<open>read\<close> writes for a reader is exactly the content of its buffer, in order.
\<close>
theorem multi_read_lossless:
  assumes "distinct ids" "\<forall>i. qs i \<noteq> [] \<longrightarrow> i \<in> set ids"
    "\<forall>i. sorted (map fst (qs i))" "\<forall>i. \<forall>e \<in> set (qs i). highest \<le> fst e"
    "mr_read fuel ids qs highest = Some (qs', highest', out)"
  shows "filter (\<lambda>x. fst x = i) out = map (Pair i) (qs i)"
  using mr_loop_merge[OF mr_start_inv[OF assms(1,2)] assms(3,4), of fuel "[]"] assms(5)
  unfolding mr_read_def by auto

theorem multi_read_lossless_witness:
  "filter (\<lambda>x. fst x = (0 :: nat)) [(0, (5, 1)), (1, (7, 3)), (0, (9, 2))] = map (Pair 0) (example_queues 0)"
proof (rule multi_read_lossless)
  show "mr_read 3 [0, 1] example_queues 0 =
      Some (example_queues(0 := [], 1 := []), 9, [(0, (5, 1)), (1, (7, 3)), (0, (9, 2))])"
    by (simp add: mr_read_def mr_start_def mr_fill_def pq_push_def example_queues_def numeral_3_eq_3 fun_eq_iff)
qed (auto simp: example_queues_def)

end
