(* ===== verification/Counter_Buffer.thy ===== *)
theory Counter_Buffer
  imports Complex_Main Lo2s_Prelude
begin

text \<open>
  Metric counters (\<^verbatim>\<open>include/lo2s/perf/counter\<close>): \<^verbatim>\<open>CounterBuffer\<close> turns the absolute readings of perf
  counters into accumulated increments, corrected for multiplexing; \<^verbatim>\<open>GroupCounterBuffer\<close> and
  \<^verbatim>\<open>UserspaceCounterBuffer\<close> store the readings; the writers scale the result. Differences are taken
  with 64 bits; the \<^verbatim>\<open>double\<close> accumulators are rational numbers here, rounding is not modelled.
\<close>

section \<open>The common base class\<close>

text \<open>The contribution of one interval: time enabled, time running, counted events.\<close>

definition scaled :: "u64 \<Rightarrow> u64 \<Rightarrow> u64 \<Rightarrow> rat" where
  "scaled diff_enabled diff_running diff_value =
    (if diff_enabled = 0 \<or> diff_running = 0 \<or> diff_value = 0 then 0
     else if diff_enabled = diff_running then of_nat (unat diff_value)
     else of_nat (unat diff_enabled) / of_nat (unat diff_running) * of_nat (unat diff_value))"

definition update_buffers :: "(nat \<Rightarrow> u64) \<Rightarrow> (nat \<Rightarrow> u64) \<Rightarrow> (nat \<Rightarrow> u64) \<Rightarrow> rat list \<Rightarrow> rat list" where
  "update_buffers diff_enabled diff_running diff_value accumulated =
    map (\<lambda>i. accumulated ! i + scaled (diff_enabled i) (diff_running i) (diff_value i)) [0..<length accumulated]"

section \<open>Groups\<close>

record group_read_format =
  gr_nr :: nat
  gr_time_enabled :: u64
  gr_time_running :: u64
  gr_values :: "u64 list"

record group_counter_buffer =
  gc_accumulated :: "rat list"
  gc_current :: group_read_format
  gc_previous :: group_read_format

definition group_counter_buffer_new :: "nat \<Rightarrow> group_counter_buffer" where
  "group_counter_buffer_new n =
    (let zero = \<lparr>gr_nr = n, gr_time_enabled = 0, gr_time_running = 0, gr_values = replicate n 0\<rparr> in
     \<lparr>gc_accumulated = replicate n 0, gc_current = zero, gc_previous = zero\<rparr>)"

definition gc_diff_enabled :: "group_counter_buffer \<Rightarrow> nat \<Rightarrow> u64" where
  "gc_diff_enabled b i = gr_time_enabled (gc_current b) - gr_time_enabled (gc_previous b)"

definition gc_diff_running :: "group_counter_buffer \<Rightarrow> nat \<Rightarrow> u64" where
  "gc_diff_running b i = gr_time_running (gc_current b) - gr_time_running (gc_previous b)"

definition gc_diff_value :: "group_counter_buffer \<Rightarrow> nat \<Rightarrow> u64" where
  "gc_diff_value b i = gr_values (gc_current b) ! i - gr_values (gc_previous b) ! i"

definition gc_enabled :: "group_counter_buffer \<Rightarrow> u64" where
  "gc_enabled b = gr_time_enabled (gc_previous b)"

definition gc_running :: "group_counter_buffer \<Rightarrow> u64" where
  "gc_running b = gr_time_running (gc_previous b)"

definition gc_read :: "group_read_format \<Rightarrow> group_counter_buffer \<Rightarrow> group_counter_buffer result" where
  "gc_read inbuf b =
    sum_bind (cpp_assert (length (gc_accumulated b) = gr_nr inbuf)) (\<lambda>_.
    sum_bind (cpp_assert (gr_nr (gc_current b) = gr_nr (gc_previous b))) (\<lambda>_.
      let b1 = b\<lparr>gc_current := inbuf\<rparr>;
          b2 = b1\<lparr>gc_accumulated := update_buffers (gc_diff_enabled b1) (gc_diff_running b1) (gc_diff_value b1)
                    (gc_accumulated b1)\<rparr> in
      Inr (b2\<lparr>gc_current := gc_previous b2, gc_previous := gc_current b2\<rparr>)))"

section \<open>Userspace readout\<close>

record userspace_read_format =
  ur_value :: u64
  ur_time_enabled :: u64
  ur_time_running :: u64

record userspace_counter_buffer =
  uc_accumulated :: "rat list"
  uc_current :: "userspace_read_format list"
  uc_previous :: "userspace_read_format list"

definition userspace_counter_buffer_new :: "nat \<Rightarrow> userspace_counter_buffer" where
  "userspace_counter_buffer_new n =
    (let zero = replicate n \<lparr>ur_value = 0, ur_time_enabled = 0, ur_time_running = 0\<rparr> in
     \<lparr>uc_accumulated = replicate n 0, uc_current = zero, uc_previous = zero\<rparr>)"

definition uc_diff_enabled :: "userspace_counter_buffer \<Rightarrow> nat \<Rightarrow> u64" where
  "uc_diff_enabled b i = ur_time_enabled (uc_current b ! i) - ur_time_enabled (uc_previous b ! i)"

definition uc_diff_running :: "userspace_counter_buffer \<Rightarrow> nat \<Rightarrow> u64" where
  "uc_diff_running b i = ur_time_running (uc_current b ! i) - ur_time_running (uc_previous b ! i)"

definition uc_diff_value :: "userspace_counter_buffer \<Rightarrow> nat \<Rightarrow> u64" where
  "uc_diff_value b i = ur_value (uc_current b ! i) - ur_value (uc_previous b ! i)"

definition uc_read :: "userspace_read_format list \<Rightarrow> userspace_counter_buffer \<Rightarrow> userspace_counter_buffer result" where
  "uc_read inbuf b =
    (let b1 = b\<lparr>uc_current := inbuf\<rparr> in
     if length (uc_current b1) < length (uc_accumulated b1) \<or> length (uc_previous b1) < length (uc_accumulated b1)
     then Inl Memory_fault
     else
       let b2 = b1\<lparr>uc_accumulated := update_buffers (uc_diff_enabled b1) (uc_diff_running b1) (uc_diff_value b1)
                     (uc_accumulated b1)\<rparr> in
       Inr (b2\<lparr>uc_current := uc_previous b2, uc_previous := uc_current b2\<rparr>))"

section \<open>The writers\<close>

text \<open>\<^verbatim>\<open>CounterCollection::get_scale\<close>: the scales of the leader, if there is one, and of the counters.\<close>

record counter_scales =
  cs_leader :: "rat option"
  cs_counters :: "rat list"

definition get_scale :: "counter_scales \<Rightarrow> nat \<Rightarrow> rat result" where
  "get_scale c index =
    (if index = 0
     then case cs_leader c of
       None \<Rightarrow> Inl (Runtime_error ''Trying to get scale for non-existent leader!'') | Some s \<Rightarrow> Inr s
     else if index - 1 < length (cs_counters c) then Inr (cs_counters c ! (index - 1)) else Inl Memory_fault)"

text \<open>The loop that stores the scaled counters; \<open>k\<close> is the offset of the scale index.\<close>

fun store_scaled :: "nat \<Rightarrow> counter_scales \<Rightarrow> nat \<Rightarrow> rat list \<Rightarrow> rat list \<Rightarrow> rat list result" where
  "store_scaled k c i [] vals = Inr vals"
| "store_scaled k c i (a # as) vals =
    sum_bind (get_scale c (i + k)) (\<lambda>s. store_scaled k c (i + 1) as (vals[i := a * s]))"

text \<open>
  \<^verbatim>\<open>group::Writer::handle\<close> and \<^verbatim>\<open>userspace::Writer::handle\<close>: the buffer and the values of the metric
  event, which are written to the trace.
\<close>

definition group_handle ::
    "counter_scales \<Rightarrow> group_read_format \<Rightarrow> group_counter_buffer \<Rightarrow> rat list
      \<Rightarrow> (group_counter_buffer \<times> rat list) result" where
  "group_handle c v b vals =
    sum_bind (gc_read v b) (\<lambda>b1.
    sum_bind (cpp_assert (length (gc_accumulated b1) \<le> length vals)) (\<lambda>_.
    sum_bind (store_scaled 0 c 0 (gc_accumulated b1) vals) (\<lambda>vals1.
      let n = length (gc_accumulated b1) in
      if n + 1 < length vals1
      then Inr (b1, vals1[n := of_nat (unat (gc_enabled b1)), n + 1 := of_nat (unat (gc_running b1))])
      else Inl Memory_fault)))"

definition userspace_handle ::
    "counter_scales \<Rightarrow> userspace_read_format list \<Rightarrow> userspace_counter_buffer \<Rightarrow> rat list
      \<Rightarrow> (userspace_counter_buffer \<times> rat list) result" where
  "userspace_handle c data b vals =
    sum_bind (uc_read data b) (\<lambda>b1.
    sum_bind (cpp_assert (length (uc_accumulated b1) \<le> length vals)) (\<lambda>_.
    sum_bind (store_scaled 1 c 0 (uc_accumulated b1) vals) (\<lambda>vals1. Inr (b1, vals1))))"

section \<open>What the base class relies on\<close>

text \<open>
  The readings of one counter are triples of time enabled, time running and value. A buffer stores a
  reading, forms differences with the previous one and makes it the previous one.
\<close>

type_synonym counter_reading = "u64 \<times> u64 \<times> u64"

fun interval :: "counter_reading \<Rightarrow> counter_reading \<Rightarrow> rat" where
  "interval (e, r, v) (e', r', v') = scaled (e' - e) (r' - r) (v' - v)"

text \<open>The intervals of one counter between consecutive readings.\<close>

fun intervals :: "counter_reading \<Rightarrow> counter_reading list \<Rightarrow> rat" where
  "intervals p [] = 0"
| "intervals p (q # qs) = interval p q + intervals q qs"

text \<open>
  Readings of a counter that is never multiplexed: time enabled and time running agree, the value
  never decreases and stands still while the counter is not enabled.
\<close>

fun steady :: "counter_reading list \<Rightarrow> bool" where
  "steady ((e, r, v) # (e', r', v') # qs) \<longleftrightarrow>
    e' - e = r' - r \<and> v \<le> v' \<and> (e' = e \<longrightarrow> v' = v) \<and> steady ((e', r', v') # qs)"
| "steady _ \<longleftrightarrow> True"

lemma interval_steady:
  assumes "steady [(e, r, v), (e', r', v')]"
  shows "interval (e, r, v) (e', r', v') = of_nat (unat v') - of_nat (unat v)"
proof -
  have "unat (v' - v) = unat v' - unat v" "unat v \<le> unat v'"
    using assms by (auto simp: unat_sub word_le_nat_alt)
  then show ?thesis using assms by (auto simp: scaled_def of_nat_diff)
qed

lemma intervals_steady:
  "steady (p # qs) \<Longrightarrow>
    intervals p qs = of_nat (unat (snd (snd (last (p # qs))))) - of_nat (unat (snd (snd p)))"
proof (induction qs arbitrary: p)
  case (Cons q qs)
  obtain e r v e' r' v' where pq: "p = (e, r, v)" "q = (e', r', v')" by (metis prod_cases3)
  then have "steady [(e, r, v), (e', r', v')]" "steady (q # qs)" using Cons.prems by auto
  then have "interval p q = of_nat (unat v') - of_nat (unat v)"
    "intervals q qs = of_nat (unat (snd (snd (last (q # qs))))) - of_nat (unat (snd (snd q)))"
    using interval_steady Cons.IH unfolding pq(1,2) by blast+
  then show ?case using pq by (simp del: of_nat_unat interval.simps)
qed simp

lemma interval_nonneg: "0 \<le> interval p q"
  by (cases p; cases q) (simp add: scaled_def del: of_nat_unat)

lemma intervals_nonneg: "0 \<le> intervals p qs"
  by (induction qs arbitrary: p) (simp_all add: add_nonneg_nonneg interval_nonneg)

text \<open>A sequence of readings.\<close>

fun reads :: "('r \<Rightarrow> 'b \<Rightarrow> 'b result) \<Rightarrow> 'r list \<Rightarrow> 'b \<Rightarrow> 'b result" where
  "reads rd [] b = Inr b"
| "reads rd (r # rs) b = sum_bind (rd r b) (reads rd rs)"

locale counter_buffer =
  fixes rd :: "'r \<Rightarrow> 'b \<Rightarrow> 'b result"
    and acc :: "'b \<Rightarrow> rat list"
    and prev :: "'b \<Rightarrow> nat \<Rightarrow> counter_reading"
    and reading :: "'r \<Rightarrow> nat \<Rightarrow> counter_reading"
    and ok :: "nat \<Rightarrow> 'r \<Rightarrow> bool"
    and inv :: "nat \<Rightarrow> 'b \<Rightarrow> bool"
  assumes acc_length: "inv n b \<Longrightarrow> length (acc b) = n"
    and rd_step: "inv n b \<Longrightarrow> ok n r \<Longrightarrow> \<exists>b'. rd r b = Inr b' \<and> inv n b' \<and>
      (\<forall>i < n. acc b' ! i = acc b ! i + interval (prev b i) (reading r i) \<and> prev b' i = reading r i)"
begin

lemma reads_accumulate:
  "inv n b \<Longrightarrow> list_all (ok n) rs \<Longrightarrow> \<exists>b'. reads rd rs b = Inr b' \<and> inv n b' \<and>
    (\<forall>i < n. acc b' ! i = acc b ! i + intervals (prev b i) (map (\<lambda>r. reading r i) rs) \<and>
      prev b' i = last (prev b i # map (\<lambda>r. reading r i) rs))"
proof (induction rs arbitrary: b)
  case (Cons r rs)
  obtain b1 where b1: "rd r b = Inr b1" "inv n b1"
    "\<forall>i < n. acc b1 ! i = acc b ! i + interval (prev b i) (reading r i) \<and> prev b1 i = reading r i"
    using rd_step[OF Cons.prems(1)] Cons.prems(2) by auto
  obtain b' where "reads rd rs b1 = Inr b'" "inv n b'"
    "\<forall>i < n. acc b' ! i = acc b1 ! i + intervals (prev b1 i) (map (\<lambda>r. reading r i) rs) \<and>
      prev b' i = last (prev b1 i # map (\<lambda>r. reading r i) rs)"
    using Cons.IH[OF b1(2)] Cons.prems(2) by auto
  with b1 show ?case by auto
qed simp

end

section \<open>Both buffers satisfy it\<close>

definition gc_inv :: "nat \<Rightarrow> group_counter_buffer \<Rightarrow> bool" where
  "gc_inv n b \<longleftrightarrow> length (gc_accumulated b) = n \<and> gr_nr (gc_current b) = n \<and> gr_nr (gc_previous b) = n"

definition group_reading :: "group_read_format \<Rightarrow> nat \<Rightarrow> counter_reading" where
  "group_reading r i = (gr_time_enabled r, gr_time_running r, gr_values r ! i)"

definition uc_inv :: "nat \<Rightarrow> userspace_counter_buffer \<Rightarrow> bool" where
  "uc_inv n b \<longleftrightarrow> length (uc_accumulated b) = n \<and> length (uc_previous b) = n"

definition userspace_reading :: "userspace_read_format list \<Rightarrow> nat \<Rightarrow> counter_reading" where
  "userspace_reading r i = (ur_time_enabled (r ! i), ur_time_running (r ! i), ur_value (r ! i))"

interpretation group: counter_buffer gc_read gc_accumulated "\<lambda>b. group_reading (gc_previous b)" group_reading
    "\<lambda>n r. gr_nr r = n" gc_inv
  by unfold_locales
    (auto simp: gc_inv_def gc_read_def Let_def update_buffers_def group_reading_def
      gc_diff_enabled_def gc_diff_running_def gc_diff_value_def)

interpretation userspace: counter_buffer uc_read uc_accumulated "\<lambda>b. userspace_reading (uc_previous b)"
    userspace_reading "\<lambda>n r. length r = n" uc_inv
  by unfold_locales
    (auto simp: uc_inv_def uc_read_def Let_def update_buffers_def userspace_reading_def
      uc_diff_enabled_def uc_diff_running_def uc_diff_value_def)

section \<open>Properties\<close>

lemma gc_new_inv: "gc_inv n (group_counter_buffer_new n)"
  by (simp add: gc_inv_def group_counter_buffer_new_def Let_def)

lemma uc_new_inv: "uc_inv n (userspace_counter_buffer_new n)"
  by (simp add: uc_inv_def userspace_counter_buffer_new_def Let_def)


definition example_group :: "u64 \<Rightarrow> u64 \<Rightarrow> u64 \<Rightarrow> group_read_format" where
  "example_group e r v = \<lparr>gr_nr = 1, gr_time_enabled = e, gr_time_running = r, gr_values = [v]\<rparr>"


text \<open>
  Counters that are read from userspace and never multiplexed are reported exactly: after any
  sequence of readings the accumulated value is the value of the last reading.
\<close>
lemma userspace_counter_exact:
  assumes "list_all (\<lambda>r. length r = n) rs" "i < n" "rs \<noteq> []"
    "steady ((0, 0, 0) # map (\<lambda>r. userspace_reading r i) rs)"
  shows "\<exists>b. reads uc_read rs (userspace_counter_buffer_new n) = Inr b \<and>
    uc_accumulated b ! i = of_nat (unat (ur_value (last rs ! i)))"
proof -
  let ?b = "userspace_counter_buffer_new n"
  obtain b where b: "reads uc_read rs ?b = Inr b"
    "uc_accumulated b ! i = uc_accumulated ?b ! i +
      intervals (userspace_reading (uc_previous ?b) i) (map (\<lambda>r. userspace_reading r i) rs)"
    using userspace.reads_accumulate[OF uc_new_inv assms(1)] assms(2) by blast
  have "uc_accumulated ?b ! i = 0" "userspace_reading (uc_previous ?b) i = (0, 0, 0)"
    using assms(2) by (simp_all add: userspace_counter_buffer_new_def Let_def userspace_reading_def)
  with b intervals_steady[OF assms(4)] assms(3) show ?thesis
    by (auto simp: last_map userspace_reading_def)
qed

lemma userspace_counter_exact_witness:
  "\<exists>b. reads uc_read [[\<lparr>ur_value = 5, ur_time_enabled = 8, ur_time_running = 8\<rparr>],
      [\<lparr>ur_value = 6, ur_time_enabled = 9, ur_time_running = 9\<rparr>]] (userspace_counter_buffer_new 1) = Inr b \<and>
    uc_accumulated b ! 0 = of_nat (unat (ur_value (last [[\<lparr>ur_value = 5, ur_time_enabled = 8, ur_time_running = 8\<rparr>],
      [\<lparr>ur_value = 6, ur_time_enabled = 9, ur_time_running = 9\<rparr>]] ! 0)))"
  by (rule userspace_counter_exact) (simp_all add: userspace_reading_def)

lemma store_scaled_ok:
  "\<forall>j < length as. get_scale c (i + j + k) = Inr (sc j) \<Longrightarrow>
    store_scaled k c i as vals = Inr (fold (\<lambda>j vs. vs[i + j := as ! j * sc j]) [0..<length as] vals)"
proof (induction as arbitrary: i vals sc)
  case (Cons a as)
  have s0: "get_scale c (i + k) = Inr (sc 0)" using Cons.prems by force
  have "\<forall>j < length as. get_scale c (i + 1 + j + k) = Inr (sc (Suc j))"
    using Cons.prems by fastforce
  from Cons.IH[OF this, of "vals[i := a * sc 0]"] s0 show ?case
    by (simp add: upt_conv_Cons map_Suc_upt[symmetric] fold_map o_def del: upt_Suc)
qed simp

text \<open>
  Handling a group sample succeeds whenever the collection has a leader, a scale for every other
  counter and room for the two times in the metric event; the values that are written are the
  accumulated counters times their scales, followed by the times of the sample.
\<close>
lemma group_handle_values:
  assumes "gc_inv n b" "gr_nr v = n" "0 < n" "cs_leader c = Some s" "length (cs_counters c) = n - 1"
    "length vals = n + 2"
  shows "\<exists>b' vals'. group_handle c v b vals = Inr (b', vals') \<and> gc_read v b = Inr b' \<and> length vals' = n + 2 \<and>
    (\<forall>i < n. vals' ! i = gc_accumulated b' ! i * (if i = 0 then s else cs_counters c ! (i - 1))) \<and>
    vals' ! n = of_nat (unat (gr_time_enabled v)) \<and> vals' ! (n + 1) = of_nat (unat (gr_time_running v))"
proof -
  obtain b' where b': "gc_read v b = Inr b'" "gc_inv n b'"
    using group.rd_step[OF assms(1,2)] by blast
  have len: "length (gc_accumulated b') = n" using b'(2) by (simp add: gc_inv_def)
  have prev: "gc_previous b' = v"
    using b'(1) assms(1,2) by (auto simp: gc_read_def Let_def gc_inv_def)
  define sc where "sc j = (if j = 0 then s else cs_counters c ! (j - 1))" for j
  have "\<forall>j < length (gc_accumulated b'). get_scale c (0 + j + 0) = Inr (sc j)"
    using assms(3-5) len by (auto simp: get_scale_def sc_def)
  note st = store_scaled_ok[OF this, of vals]
  define vs where "vs = fold (\<lambda>j vs. vs[0 + j := gc_accumulated b' ! j * sc j]) [0..<length (gc_accumulated b')] vals"
  have fold: "length (fold (\<lambda>j vs. vs[0 + j := f j]) [0..<m] vals) = length vals \<and>
      (\<forall>i < m. fold (\<lambda>j vs. vs[0 + j := f j]) [0..<m] vals ! i = f i)" if "m \<le> length vals" for m f
    using that by (induction m) (auto simp: nth_list_update less_Suc_eq)
  have vs: "length vs = n + 2" "\<forall>i < n. vs ! i = gc_accumulated b' ! i * sc i"
    unfolding vs_def using fold[of "length (gc_accumulated b')" "\<lambda>j. gc_accumulated b' ! j * sc j"] len assms(6) by auto
  have st': "store_scaled 0 c 0 (gc_accumulated b') vals = Inr vs" using st by (simp only: vs_def)
  have "group_handle c v b vals = Inr (b', vs[n := of_nat (unat (gr_time_enabled v)), n + 1 := of_nat (unat (gr_time_running v))])"
    using b'(1) len assms(6) st' vs(1) by (simp add: group_handle_def Let_def gc_enabled_def gc_running_def prev)
  then show ?thesis
    using b'(1) vs by (auto simp: nth_list_update sc_def)
qed

lemma group_handle_values_witness:
  "\<exists>b' vals'. group_handle \<lparr>cs_leader = Some 2, cs_counters = []\<rparr> (example_group 10 10 7)
      (group_counter_buffer_new 1) [0, 0, 0] = Inr (b', vals') \<and>
    gc_read (example_group 10 10 7) (group_counter_buffer_new 1) = Inr b' \<and> length vals' = 1 + 2 \<and>
    (\<forall>i < 1. vals' ! i = gc_accumulated b' ! i * (if i = 0 then 2 else cs_counters \<lparr>cs_leader = Some 2, cs_counters = []\<rparr> ! (i - 1))) \<and>
    vals' ! 1 = of_nat (unat (gr_time_enabled (example_group 10 10 7))) \<and>
    vals' ! (1 + 1) = of_nat (unat (gr_time_running (example_group 10 10 7)))"
  by (rule group_handle_values[OF gc_new_inv]) (simp_all add: example_group_def)

end
