(* ===== verification/Process_Controller.thy ===== *)
theory Process_Controller
  imports Scopes
begin

text \<open>
  \<^verbatim>\<open>ProcessController\<close> (\<^verbatim>\<open>src/process_controller.cpp\<close>): the loop that waits for the traced threads,
  registers new processes and threads and resumes the tracees. The operating system is an argument:
  the results of \<^verbatim>\<open>ptrace\<close> and the names from the proc file system. Calls of the process monitor, of
  \<^verbatim>\<open>ptrace\<close> and \<^verbatim>\<open>kill\<close> and of the summary are recorded in the state.
\<close>

section \<open>Wait status words\<close>

definition WIFSTOPPED :: "u32 \<Rightarrow> bool" where
  "WIFSTOPPED status \<longleftrightarrow> status AND 255 = 127"

definition WSTOPSIG :: "u32 \<Rightarrow> u32" where
  "WSTOPSIG status = drop_bit 8 status AND 255"

definition WIFEXITED :: "u32 \<Rightarrow> bool" where
  "WIFEXITED status \<longleftrightarrow> status AND 127 = 0"

definition WEXITSTATUS :: "u32 \<Rightarrow> u32" where
  "WEXITSTATUS status = drop_bit 8 status AND 255"

text \<open>\<^verbatim>\<open>((signed char)((status & 0x7f) + 1) >> 1) > 0\<close>\<close>

definition WIFSIGNALED :: "u32 \<Rightarrow> bool" where
  "WIFSIGNALED status \<longleftrightarrow> status AND 127 \<noteq> 0 \<and> status AND 127 \<noteq> 127"

definition SIGSTOP :: u32 where
  "SIGSTOP = 19"

definition SIGTRAP :: u32 where
  "SIGTRAP = 5"

definition SIGINT :: u32 where
  "SIGINT = 2"

definition ESRCH :: int where
  "ESRCH = 3"

section \<open>State\<close>

datatype monitor_call =
    Insert_process Process Process string bool
  | Insert_thread Process Thread string
  | Update_process_name Process string
  | Exit_thread Thread

datatype ptrace_call =
    Ptrace_cont Thread u32
  | Ptrace_setoptions Thread
  | Ptrace_detach Thread
  | Kill int u32

record process_controller =
  pc_first_child :: Thread
  pc_attached_pid :: int
  pc_running :: bool
  pc_groups :: scope_groups
  pc_num_wakeups :: nat
  pc_threads :: nat
  pc_exit_code :: "u32 option"
  pc_monitor :: "monitor_call list"
  pc_ptrace :: "ptrace_call list"

text \<open>The operating system: results of \<^verbatim>\<open>ptrace\<close> requests (\<open>Inl\<close> an \<^verbatim>\<open>errno\<close>) and names.\<close>

record os =
  os_geteventmsg :: "Thread \<Rightarrow> int + int"
  os_cont :: "Thread \<Rightarrow> int option"
  os_setoptions :: "Thread \<Rightarrow> int option"
  os_process_comm :: "Process \<Rightarrow> string"
  os_task_comm :: "Process \<Rightarrow> Thread \<Rightarrow> string"

section \<open>Operations\<close>

definition pc_new :: "Process \<Rightarrow> string \<Rightarrow> bool \<Rightarrow> scope_groups \<Rightarrow> process_controller" where
  "pc_new child name spawn groups =
    \<lparr>pc_first_child = process_as_thread child,
     pc_attached_pid = (if spawn then - 1 else process_as_int child),
     pc_running = True,
     pc_groups = add_process child groups,
     pc_num_wakeups = 0, pc_threads = 1, pc_exit_code = None,
     pc_monitor = [Insert_process Process_no_parent child name spawn], pc_ptrace = []\<rparr>"

text \<open>The signal handler.\<close>

definition sig_handler :: "u32 \<Rightarrow> process_controller \<Rightarrow> process_controller" where
  "sig_handler signum s =
    (if signum = SIGINT \<and> pc_attached_pid s \<noteq> - 1
     then s\<lparr>pc_running := False, pc_ptrace := pc_ptrace s @ [Kill (pc_attached_pid s) SIGSTOP]\<rparr> else s)"

definition ptrace_cont :: "os \<Rightarrow> Thread \<Rightarrow> u32 \<Rightarrow> process_controller \<Rightarrow> process_controller result" where
  "ptrace_cont os thread signum s =
    (case os_cont os thread of
       Some errno \<Rightarrow> Inl (System_error errno)
     | None \<Rightarrow> Inr (s\<lparr>pc_ptrace := pc_ptrace s @ [Ptrace_cont thread signum]\<rparr>))"

definition ptrace_setoptions :: "os \<Rightarrow> Thread \<Rightarrow> process_controller \<Rightarrow> process_controller result" where
  "ptrace_setoptions os thread s =
    (case os_setoptions os thread of
       Some errno \<Rightarrow> Inl (System_error errno)
     | None \<Rightarrow> Inr (s\<lparr>pc_ptrace := pc_ptrace s @ [Ptrace_setoptions thread]\<rparr>))"

definition ptrace_geteventmsg :: "os \<Rightarrow> Thread \<Rightarrow> int result" where
  "ptrace_geteventmsg os thread =
    (case os_geteventmsg os thread of Inl errno \<Rightarrow> Inl (System_error errno) | Inr m \<Rightarrow> Inr m)"

text \<open>
  \<open>handle_ptrace_event\<close>. An \<^verbatim>\<open>std::out_of_range\<close> is caught in the clone and exit cases; \<open>get_process\<close>
  does not throw it, and whether \<open>exit_thread\<close> of the monitor does makes no difference to the state.
\<close>

definition handle_ptrace_event :: "os \<Rightarrow> Thread \<Rightarrow> u32 \<Rightarrow> process_controller \<Rightarrow> process_controller result" where
  "handle_ptrace_event os child event s =
    (if event = 1 \<or> event = 2 then
       sum_bind (ptrace_geteventmsg os child) (\<lambda>m.
         let new_process = Process m; command = os_process_comm os new_process;
             groups = add_process new_process (pc_groups s) in
         sum_bind (get_process groups child) (\<lambda>parent.
           Inr (s\<lparr>pc_groups := groups,
                  pc_monitor := pc_monitor s @ [Insert_process parent new_process command False],
                  pc_threads := pc_threads s + 1\<rparr>)))
     else if event = 3 then
       sum_bind (ptrace_geteventmsg os child) (\<lambda>m.
         let new_thread = Thread m in
         sum_bind (get_process (pc_groups s) child) (\<lambda>process.
           let command = os_task_comm os process new_thread in
           Inr (s\<lparr>pc_groups := add_thread new_thread process (pc_groups s),
                  pc_monitor := pc_monitor s @ [Insert_thread process new_thread command],
                  pc_threads := pc_threads s + 1\<rparr>)))
     else if event = 4 then
       let name = os_process_comm os (thread_as_process child) in
       Inr (s\<lparr>pc_monitor := pc_monitor s @ [Update_process_name (thread_as_process child) name]\<rparr>)
     else if event = 6 then Inr (s\<lparr>pc_monitor := pc_monitor s @ [Exit_thread child]\<rparr>)
     else Inr s)"

datatype signal_handling_state = KeepRunning | Stop

definition resume_stopped :: "os \<Rightarrow> Thread \<Rightarrow> u32 \<Rightarrow> process_controller \<Rightarrow> process_controller result" where
  "resume_stopped os child status s =
    (if WSTOPSIG status = SIGSTOP
     then sum_bind (ptrace_setoptions os child s) (ptrace_cont os child 0)
     else if WSTOPSIG status = SIGTRAP
     then let event = drop_bit 16 status in
       sum_bind (if event \<noteq> 0 then handle_ptrace_event os child event s else Inr s) (ptrace_cont os child 0)
     else case ptrace_cont os child (WSTOPSIG status) s of
       Inl (System_error e) \<Rightarrow> if e = ESRCH then Inr s else Inl (System_error e)
     | r \<Rightarrow> r)"

definition handle_stop_signal ::
    "os \<Rightarrow> Thread \<Rightarrow> u32 \<Rightarrow> process_controller \<Rightarrow> (signal_handling_state \<times> process_controller) result" where
  "handle_stop_signal os child status s =
    (if pc_attached_pid s = 0 \<and> \<not> pc_running s
     then
       let s1 = s\<lparr>pc_ptrace := pc_ptrace s @ [Ptrace_detach child]\<rparr> in
       if child = pc_first_child s1 then Inr (Stop, s1)
       else sum_bind (ptrace_cont os child 0 s1) (\<lambda>s2.
            sum_bind (resume_stopped os child status s2) (\<lambda>s3. Inr (KeepRunning, s3)))
     else sum_bind (resume_stopped os child status s) (\<lambda>s1. Inr (KeepRunning, s1)))"

definition handle_signal ::
    "os \<Rightarrow> Thread \<Rightarrow> u32 \<Rightarrow> process_controller \<Rightarrow> (signal_handling_state \<times> process_controller) result" where
  "handle_signal os child status s =
    (if WIFSTOPPED status then handle_stop_signal os child status s
     else if WIFEXITED status
     then if child = pc_first_child s then Inr (Stop, s\<lparr>pc_exit_code := Some (WEXITSTATUS status)\<rparr>)
          else Inr (KeepRunning, s)
     else if WIFSIGNALED status
     then if child = pc_first_child s then Inr (Stop, s) else Inr (KeepRunning, s)
     else sum_bind (ptrace_cont os child 0 s) (\<lambda>s1. Inr (KeepRunning, s1)))"

text \<open>
  \<open>run\<close> on the results of \<^verbatim>\<open>waitpid\<close> in the order they arrive; \<open>KeepRunning\<close> when the loop waits for the
  next one.
\<close>

fun pc_run :: "os \<Rightarrow> (Thread \<times> u32) list \<Rightarrow> process_controller \<Rightarrow> (signal_handling_state \<times> process_controller) result" where
  "pc_run os [] s = Inr (KeepRunning, s)"
| "pc_run os ((child, status) # ws) s =
    sum_bind (handle_signal os child status (s\<lparr>pc_num_wakeups := pc_num_wakeups s + 1\<rparr>)) (\<lambda>(st, s1).
      if st = KeepRunning then pc_run os ws s1 else Inr (Stop, s1))"

text \<open>The destructor: the number it passes to \<^verbatim>\<open>Summary::record_perf_wakeups\<close>.\<close>

definition pc_destroy :: "process_controller \<Rightarrow> nat" where
  "pc_destroy s = pc_num_wakeups s"

section \<open>Invariant\<close>

definition pc_inv :: "process_controller \<Rightarrow> bool" where
  "pc_inv s \<longleftrightarrow> groups_reachable (pc_groups s) \<and> pc_attached_pid s \<noteq> 0"

definition detaches :: "process_controller \<Rightarrow> bool" where
  "detaches s \<longleftrightarrow> (\<exists>t. Ptrace_detach t \<in> set (pc_ptrace s))"

text \<open>What an operation keeps.\<close>

definition pc_frame :: "process_controller \<Rightarrow> process_controller \<Rightarrow> bool" where
  "pc_frame s s' \<longleftrightarrow> pc_first_child s' = pc_first_child s \<and> pc_num_wakeups s' = pc_num_wakeups s \<and>
    pc_exit_code s' = pc_exit_code s \<and> (pc_inv s \<longrightarrow> pc_inv s') \<and> (detaches s' \<longrightarrow> detaches s)"

lemma pc_frame_refl [simp]: "pc_frame s s"
  by (simp add: pc_frame_def)

lemma pc_frame_trans: "pc_frame a b \<Longrightarrow> pc_frame b c \<Longrightarrow> pc_frame a c"
  by (auto simp: pc_frame_def)

lemma ptrace_frame:
  "ptrace_cont os t sig s = Inr s' \<Longrightarrow> pc_frame s s'"
  "ptrace_setoptions os t s = Inr s' \<Longrightarrow> pc_frame s s'"
  by (auto simp: ptrace_cont_def ptrace_setoptions_def pc_frame_def pc_inv_def detaches_def split: option.splits)

lemma handle_ptrace_event_frame:
  assumes "handle_ptrace_event os child event s = Inr s'"
  shows "pc_frame s s' \<and> pc_ptrace s' = pc_ptrace s"
  using assms
  by (auto simp: handle_ptrace_event_def sum_bind_Inr_iff Let_def pc_frame_def pc_inv_def detaches_def
      split: if_splits intro: groups_reachable.intros)

lemma resume_stopped_frame: "resume_stopped os child status s = Inr s' \<Longrightarrow> pc_frame s s'"
  by (auto simp: resume_stopped_def sum_bind_Inr_iff Let_def
      split: if_splits sum.splits cpp_error.splits
      intro: ptrace_frame pc_frame_trans dest!: handle_ptrace_event_frame)

text \<open>The operating system grants every request.\<close>

definition os_grants :: "os \<Rightarrow> bool" where
  "os_grants os \<longleftrightarrow> (\<forall>t. os_cont os t = None \<and> os_setoptions os t = None \<and> (\<exists>m. os_geteventmsg os t = Inr m))"

lemma handle_ptrace_event_total:
  assumes "groups_reachable (pc_groups s)" "os_grants os"
  shows "\<exists>s'. handle_ptrace_event os child event s = Inr s'"
proof -
  obtain m where "os_geteventmsg os child = Inr m" using assms(2) by (auto simp: os_grants_def)
  then have m: "ptrace_geteventmsg os child = Inr m" by (simp add: ptrace_geteventmsg_def)
  obtain q where q: "get_process (pc_groups s) child = Inr q"
    using get_process_total[OF assms(1)] .
  obtain q' where q': "get_process (add_process (Process m) (pc_groups s)) child = Inr q'"
    using get_process_total[OF groups_reachable.process[OF assms(1)]] .
  show ?thesis
    unfolding handle_ptrace_event_def Let_def m sum_bind_simps q q' by simp
qed

lemma ptrace_total:
  assumes "os_grants os"
  shows "\<exists>s'. ptrace_cont os t sig s = Inr s'" "\<exists>s'. ptrace_setoptions os t s = Inr s'"
  using assms by (simp_all add: os_grants_def ptrace_cont_def ptrace_setoptions_def)

lemma sum_bind_total: "\<exists>x. r = Inr x \<Longrightarrow> (\<And>x. \<exists>y. f x = Inr y) \<Longrightarrow> \<exists>y. sum_bind r f = Inr y"
  by auto

lemma resume_stopped_total:
  assumes "pc_inv s" "os_grants os"
  shows "\<exists>s'. resume_stopped os child status s = Inr s'"
proof -
  have ev: "\<exists>s1. handle_ptrace_event os child e s = Inr s1" for e
    using handle_ptrace_event_total[of s os child e] assms by (simp add: pc_inv_def)
  have fwd: "\<exists>s1. ptrace_cont os child (WSTOPSIG status) s = Inr s1" using ptrace_total[OF assms(2)] by blast
  show ?thesis
    unfolding resume_stopped_def Let_def
    using fwd by (auto intro!: sum_bind_total ptrace_total[OF assms(2)] ev)
qed

text \<open>The wakeups that end the measurement.\<close>

definition final_wakeup :: "Thread \<Rightarrow> Thread \<times> u32 \<Rightarrow> bool" where
  "final_wakeup first w \<longleftrightarrow> fst w = first \<and> \<not> WIFSTOPPED (snd w) \<and> (WIFEXITED (snd w) \<or> WIFSIGNALED (snd w))"

lemma handle_signal_frame:
  assumes "pc_inv s" "handle_signal os child status s = Inr (st, s')"
  shows "pc_inv s' \<and> pc_first_child s' = pc_first_child s \<and> pc_num_wakeups s' = pc_num_wakeups s \<and>
    (detaches s' \<longrightarrow> detaches s) \<and> (st = Stop \<longleftrightarrow> final_wakeup (pc_first_child s) (child, status))"
proof (cases "WIFSTOPPED status")
  case True
  then have "st = KeepRunning \<and> resume_stopped os child status s = Inr s'"
    using assms by (auto simp: handle_signal_def handle_stop_signal_def pc_inv_def sum_bind_Inr_iff)
  with True assms(1) resume_stopped_frame show ?thesis by (fastforce simp: pc_frame_def final_wakeup_def)
next
  case False
  with assms show ?thesis
    by (auto simp: handle_signal_def final_wakeup_def sum_bind_Inr_iff pc_inv_def detaches_def split: if_splits
        dest!: ptrace_frame(1) simp: pc_frame_def)
qed

lemma handle_signal_total:
  assumes "pc_inv s" "os_grants os"
  shows "\<exists>st s'. handle_signal os child status s = Inr (st, s')"
proof -
  obtain s1 s2 where "resume_stopped os child status s = Inr s1" "ptrace_cont os child 0 s = Inr s2"
    using resume_stopped_total[OF assms] ptrace_total[OF assms(2)] by blast
  then show ?thesis
    using assms(1) unfolding handle_signal_def handle_stop_signal_def Let_def by (simp add: pc_inv_def)
qed

lemma pc_run_safe:
  assumes "pc_inv s" "os_grants os" "\<not> detaches s"
  shows "\<exists>st s'. pc_run os ws s = Inr (st, s') \<and> pc_inv s' \<and> \<not> detaches s' \<and>
    (st = Stop \<longleftrightarrow> (\<exists>w \<in> set ws. final_wakeup (pc_first_child s) w)) \<and>
    pc_num_wakeups s' = pc_num_wakeups s + (let n = length (takeWhile (\<lambda>w. \<not> final_wakeup (pc_first_child s) w) ws) in
      if n < length ws then n + 1 else n)"
  using assms(1,3)
proof (induction ws arbitrary: s)
  case (Cons w ws)
  obtain child status where w: "w = (child, status)" by (cases w)
  let ?s = "s\<lparr>pc_num_wakeups := pc_num_wakeups s + 1\<rparr>"
  have inv: "pc_inv ?s" "\<not> detaches ?s" using Cons.prems by (simp_all add: pc_inv_def detaches_def)
  obtain st s1 where run: "handle_signal os child status ?s = Inr (st, s1)"
    using handle_signal_total[OF inv(1) assms(2)] by blast
  note f = handle_signal_frame[OF inv(1) run]
  show ?case
  proof (cases "final_wakeup (pc_first_child s) w")
    case True
    then have "st = Stop" using f w by simp
    with True f run w inv(2) show ?thesis by auto
  next
    case False
    then have "st = KeepRunning" using f w signal_handling_state.exhaust by auto
    moreover have "pc_inv s1" "\<not> detaches s1" "pc_first_child s1 = pc_first_child s"
      "pc_num_wakeups s1 = pc_num_wakeups s + 1" using f inv(2) by auto
    ultimately show ?thesis using Cons.IH[of s1] run w False by (auto simp: Let_def)
  qed
qed (simp_all add: assms)

section \<open>Properties\<close>

text \<open>
  When a traced thread clones, the new thread is registered in the process of the cloning
  thread, under which the monitor is told about it, and no other thread changes its process.
\<close>
lemma clone_registers_thread:
  assumes "groups_reachable (pc_groups s)" "os_geteventmsg os child = Inr tid"
    "std_count scope_less (pc_groups s) (scope_of_thread (Thread tid)) = 0"
  shows "\<exists>p s'. handle_ptrace_event os child 3 s = Inr s' \<and> get_process (pc_groups s) child = Inr p \<and>
    get_process (pc_groups s') (Thread tid) = Inr p \<and>
    (\<forall>t. t \<noteq> Thread tid \<longrightarrow> get_process (pc_groups s') t = get_process (pc_groups s) t) \<and>
    pc_monitor s' = pc_monitor s @ [Insert_thread p (Thread tid) (os_task_comm os p (Thread tid))] \<and>
    pc_threads s' = pc_threads s + 1"
proof -
  obtain p where "get_process (pc_groups s) child = Inr p" using get_process_total[OF assms(1)] .
  then show ?thesis
    using assms get_process_add_thread[OF assms(1)]
    by (simp add: handle_ptrace_event_def ptrace_geteventmsg_def Let_def)
qed

definition example_os :: os where
  "example_os = \<lparr>os_geteventmsg = (\<lambda>_. Inr 9), os_cont = (\<lambda>_. None), os_setoptions = (\<lambda>_. None),
    os_process_comm = (\<lambda>_. ''app''), os_task_comm = (\<lambda>_ _. ''worker'')\<rparr>"

lemma clone_registers_thread_witness:
  "\<exists>p s'. handle_ptrace_event example_os (Thread 7) 3 (pc_new (Process 7) ''app'' True []) = Inr s' \<and>
    get_process (pc_groups (pc_new (Process 7) ''app'' True [])) (Thread 7) = Inr p \<and>
    get_process (pc_groups s') (Thread 9) = Inr p \<and>
    (\<forall>t. t \<noteq> Thread 9 \<longrightarrow> get_process (pc_groups s') t = get_process (pc_groups (pc_new (Process 7) ''app'' True [])) t) \<and>
    pc_monitor s' = pc_monitor (pc_new (Process 7) ''app'' True []) @
      [Insert_thread p (Thread 9) (os_task_comm example_os p (Thread 9))] \<and>
    pc_threads s' = pc_threads (pc_new (Process 7) ''app'' True []) + 1"
proof (rule clone_registers_thread)
  show "groups_reachable (pc_groups (pc_new (Process 7) ''app'' True []))"
    by (simp add: pc_new_def groups_reachable.intros)
qed (simp_all add: example_os_def pc_new_def add_process_def std_count_def std_find_def scope_less_def process_as_thread_def)

fun is_cont :: "ptrace_call \<Rightarrow> bool" where
  "is_cont (Ptrace_cont _ _) = True"
| "is_cont _ = False"

text \<open>
  A stopped thread is resumed exactly once: signals other than SIGSTOP and SIGTRAP are forwarded
  with their number, the two others are suppressed. The only exception is a thread that has vanished
  (ESRCH) when a signal is forwarded. A stop never ends the measurement.
\<close>
lemma stopped_thread_resumed_once:
  assumes "pc_inv s" "WIFSTOPPED status" "handle_signal os child status s = Inr (st, s')"
  shows "st = KeepRunning \<and> (\<exists>cs. pc_ptrace s' = pc_ptrace s @ cs \<and>
    filter is_cont cs = (if WSTOPSIG status \<noteq> SIGSTOP \<and> WSTOPSIG status \<noteq> SIGTRAP \<and> os_cont os child = Some ESRCH
      then [] else [Ptrace_cont child (if WSTOPSIG status = SIGSTOP \<or> WSTOPSIG status = SIGTRAP then 0 else WSTOPSIG status)]))"
proof -
  have st: "st = KeepRunning" and run: "resume_stopped os child status s = Inr s'"
    using assms by (auto simp: handle_signal_def handle_stop_signal_def pc_inv_def sum_bind_Inr_iff)
  have ev: "pc_ptrace s1 = pc_ptrace s" if "handle_ptrace_event os child e s = Inr s1" for e s1
    using handle_ptrace_event_frame[OF that] by simp
  from run st show ?thesis
    by (auto simp: resume_stopped_def sum_bind_Inr_iff Let_def ptrace_cont_def ptrace_setoptions_def SIGSTOP_def SIGTRAP_def
        split: if_splits sum.splits cpp_error.splits option.splits dest!: ev)
qed

lemma stopped_thread_resumed_once_witness:
  "KeepRunning = KeepRunning \<and> (\<exists>cs.
    pc_ptrace ((pc_new (Process 7) ''app'' True [])\<lparr>pc_ptrace := [Ptrace_cont (Thread 7) 10]\<rparr>) =
      pc_ptrace (pc_new (Process 7) ''app'' True []) @ cs \<and>
    filter is_cont cs = (if WSTOPSIG 2687 \<noteq> SIGSTOP \<and> WSTOPSIG 2687 \<noteq> SIGTRAP \<and> os_cont example_os (Thread 7) = Some ESRCH
      then [] else [Ptrace_cont (Thread 7) (if WSTOPSIG 2687 = SIGSTOP \<or> WSTOPSIG 2687 = SIGTRAP then 0 else WSTOPSIG 2687)]))"
  by (rule stopped_thread_resumed_once)
    (simp_all add: pc_inv_def pc_new_def groups_reachable.intros WIFSTOPPED_def handle_signal_def handle_stop_signal_def
      resume_stopped_def WSTOPSIG_def SIGSTOP_def SIGTRAP_def ptrace_cont_def example_os_def drop_bit_eq_div)

text \<open>
  C21. When the operating system grants every request, the loop handles any sequence of wakeups
  without an exception and stops exactly at the first exit or fatal signal of the first child; it
  counts the wakeups it handled. It never detaches from a thread.
\<close>
theorem run_until_first_child_ends:
  assumes "pc_inv s" "os_grants os" "\<not> detaches s"
  shows "\<exists>st s'. pc_run os ws s = Inr (st, s') \<and> pc_inv s' \<and> \<not> detaches s' \<and>
    (st = Stop \<longleftrightarrow> (\<exists>w \<in> set ws. final_wakeup (pc_first_child s) w)) \<and>
    pc_num_wakeups s' = pc_num_wakeups s + (let n = length (takeWhile (\<lambda>w. \<not> final_wakeup (pc_first_child s) w) ws) in
      if n < length ws then n + 1 else n)"
  using pc_run_safe[OF assms] .

theorem run_until_first_child_ends_witness:
  "\<exists>st s'. pc_run example_os [(Thread 7, 4991), (Thread 7, 256)] (pc_new (Process 7) ''app'' True []) = Inr (st, s') \<and>
    pc_inv s' \<and> \<not> detaches s' \<and>
    (st = Stop \<longleftrightarrow> (\<exists>w \<in> set [(Thread 7, 4991), (Thread 7, 256)].
      final_wakeup (pc_first_child (pc_new (Process 7) ''app'' True [])) w)) \<and>
    pc_num_wakeups s' = pc_num_wakeups (pc_new (Process 7) ''app'' True []) +
      (let n = length (takeWhile (\<lambda>w. \<not> final_wakeup (pc_first_child (pc_new (Process 7) ''app'' True [])) w)
        [(Thread 7, 4991), (Thread 7, 256)]) in
      if n < length [(Thread 7, 4991 :: u32), (Thread 7, 256)] then n + 1 else n)"
  by (rule run_until_first_child_ends)
    (simp_all add: pc_inv_def pc_new_def groups_reachable.intros os_grants_def example_os_def detaches_def)

text \<open>
  A SIGINT never makes the controller detach from the process it is attached to: the test
  \<open>!attached_pid\<close> is false for every process number, so the branch for detaching is dead.
\<close>
lemma sigint_never_detaches:
  assumes "process_as_int child \<noteq> 0" "groups_reachable g" "os_grants os"
  shows "\<exists>st s'. pc_run os ws (sig_handler SIGINT (pc_new child name False g)) = Inr (st, s') \<and> \<not> detaches s' \<and>
    (st = Stop \<longleftrightarrow> (\<exists>w \<in> set ws. final_wakeup (process_as_thread child) w))"
proof -
  let ?s = "sig_handler SIGINT (pc_new child name False g)"
  have inv: "pc_inv ?s" "\<not> detaches ?s" "pc_first_child ?s = process_as_thread child"
    using assms(1,2) by (simp_all add: pc_inv_def sig_handler_def pc_new_def detaches_def groups_reachable.intros)
  show ?thesis
    using pc_run_safe[OF inv(1) assms(3) inv(2), of ws] inv(3) by auto
qed

lemma sigint_never_detaches_witness:
  "\<exists>st s'. pc_run example_os [(Thread 7, 4991)] (sig_handler SIGINT (pc_new (Process 7) ''app'' False [])) = Inr (st, s') \<and>
    \<not> detaches s' \<and> (st = Stop \<longleftrightarrow> (\<exists>w \<in> set [(Thread 7, 4991)]. final_wakeup (process_as_thread (Process 7)) w))"
  by (rule sigint_never_detaches) (simp_all add: groups_reachable.intros os_grants_def example_os_def)

text \<open>
  A failing \<^verbatim>\<open>waitpid\<close> is taken for the exit of thread -1: as long as it keeps failing, the loop
  spins without changing anything but the number of wakeups.
\<close>
lemma waitpid_failure_spins:
  assumes "pc_first_child s \<noteq> Thread (- 1)"
  shows "pc_run os (replicate n (Thread (- 1), 0)) s = Inr (KeepRunning, s\<lparr>pc_num_wakeups := pc_num_wakeups s + n\<rparr>)"
  using assms
  by (induction n arbitrary: s) (simp_all add: handle_signal_def WIFSTOPPED_def WIFEXITED_def)

lemma waitpid_failure_spins_witness:
  "pc_run example_os (replicate 5 (Thread (- 1), 0)) (pc_new (Process 7) ''app'' True []) =
    Inr (KeepRunning, (pc_new (Process 7) ''app'' True [])\<lparr>pc_num_wakeups := pc_num_wakeups (pc_new (Process 7) ''app'' True []) + 5\<rparr>)"
  by (rule waitpid_failure_spins) (simp add: pc_new_def process_as_thread_def)

end
