(* ===== verification/Bio_Writer.thy ===== *)
theory Bio_Writer
  imports Text_Format
begin

text \<open>
  The block I/O writer (\<^verbatim>\<open>src/perf/bio/writer.cpp\<close>, \<^verbatim>\<open>include/lo2s/perf/bio/writer.hpp\<close>) and the device
  numbers it derives from the kernel's (\<^verbatim>\<open>src/perf/bio/block_device.cpp\<close>). The table of the devices that
  sysfs lists and the time converter are arguments.
\<close>

section \<open>Device numbers\<close>

text \<open>
  The \<open>makedev\<close>, \<open>major\<close> and \<open>minor\<close> macros of \<^verbatim>\<open>sys/sysmacros.h\<close>. The constants of the C library are
  \<^verbatim>\<open>0xfff\<close>, \<^verbatim>\<open>0xfffff000\<close>, \<^verbatim>\<open>0xff\<close> and \<^verbatim>\<open>0xffffff00\<close> in the first and \<^verbatim>\<open>0xfff00\<close>, \<^verbatim>\<open>0xfffff00000000000\<close>, \<^verbatim>\<open>0xff\<close> and
  \<^verbatim>\<open>0xffffff00000\<close> in the two others.
\<close>

definition makedev :: "u32 \<Rightarrow> u32 \<Rightarrow> u64" where
  "makedev maj mnr =
    push_bit 8 (ucast (maj AND mask 12)) OR push_bit 32 (ucast (maj AND NOT (mask 12))) OR
    ucast (mnr AND mask 8) OR push_bit 12 (ucast (mnr AND NOT (mask 8)))"

definition dev_major :: "u64 \<Rightarrow> u32" where
  "dev_major dev =
    ucast (drop_bit 8 (dev AND push_bit 8 (mask 12))) OR ucast (drop_bit 32 (dev AND push_bit 44 (mask 20)))"

definition dev_minor :: "u64 \<Rightarrow> u32" where
  "dev_minor dev = ucast (dev AND mask 8) OR ucast (drop_bit 12 (dev AND push_bit 20 (mask 24)))"

datatype block_device_type = PARTITION | DISK

record block_device =
  bd_id :: u64
  bd_name :: string
  bd_type :: block_device_type
  bd_parent :: u64

definition bd_partition :: "u64 \<Rightarrow> string \<Rightarrow> u64 \<Rightarrow> block_device" where
  "bd_partition dev name parent = \<lparr>bd_id = dev, bd_name = name, bd_type = PARTITION, bd_parent = parent\<rparr>"

definition bd_disk :: "u64 \<Rightarrow> string \<Rightarrow> block_device" where
  "bd_disk dev name = \<lparr>bd_id = dev, bd_name = name, bd_type = DISK, bd_parent = 0\<rparr>"

text \<open>
  An entry of \<^verbatim>\<open>/sys/dev/block\<close>: the words of its \<^verbatim>\<open>uevent\<close> file and of the \<^verbatim>\<open>uevent\<close> file of its parent. A word
  that consists of a name, \<open>=\<close> and at least one more character matches the regular expression of the name.
\<close>

record sys_block =
  sb_uevent :: "string list"
  sb_parent_uevent :: "string list"

definition uevent_value :: "string \<Rightarrow> string \<Rightarrow> string option" where
  "uevent_value key word =
    (if take (length key) word = key \<and> length key < length word then Some (drop (length key) word) else None)"

record uevent =
  ue_devname :: string
  ue_devtype :: string
  ue_major :: u32
  ue_minor :: u32

definition uevent_numbers :: "string \<Rightarrow> uevent \<Rightarrow> uevent result" where
  "uevent_numbers word u =
    (case uevent_value ''MAJOR='' word of Some v \<Rightarrow> sum_bind (stoi v) (\<lambda>n. Inr (u\<lparr>ue_major := word_of_int n\<rparr>))
     | None \<Rightarrow>
       case uevent_value ''MINOR='' word of Some v \<Rightarrow> sum_bind (stoi v) (\<lambda>n. Inr (u\<lparr>ue_minor := word_of_int n\<rparr>))
       | None \<Rightarrow> Inr u)"

definition uevent_word :: "string \<Rightarrow> uevent \<Rightarrow> uevent result" where
  "uevent_word word u =
    (case uevent_value ''DEVNAME='' word of Some v \<Rightarrow> Inr (u\<lparr>ue_devname := ''/dev/'' @ v\<rparr>)
     | None \<Rightarrow>
       case uevent_value ''DEVTYPE='' word of Some v \<Rightarrow> Inr (u\<lparr>ue_devtype := v\<rparr>)
       | None \<Rightarrow> uevent_numbers word u)"

fun uevent_words :: "(string \<Rightarrow> uevent \<Rightarrow> uevent result) \<Rightarrow> string list \<Rightarrow> uevent \<Rightarrow> uevent result" where
  "uevent_words f [] u = Inr u"
| "uevent_words f (w # ws) u = sum_bind (f w u) (uevent_words f ws)"

definition read_block_device :: "sys_block \<Rightarrow> block_device result" where
  "read_block_device e =
    (let start = \<lparr>ue_devname = ''unknown device'', ue_devtype = ''partition'', ue_major = 0, ue_minor = 0\<rparr> in
     sum_bind (uevent_words uevent_word (sb_uevent e) start) (\<lambda>u.
       let dev = makedev (ue_major u) (ue_minor u) in
       if ue_devtype u = ''partition''
       then sum_bind (uevent_words uevent_numbers (sb_parent_uevent e) start) (\<lambda>p.
            Inr (bd_partition dev (ue_devname u) (makedev (ue_major p) (ue_minor p))))
       else Inr (bd_disk dev (ue_devname u))))"

text \<open>\<open>get_block_devices\<close> with the entries of the directory; \<^verbatim>\<open>emplace\<close> keeps the first device of a number.\<close>

fun add_block_devices :: "sys_block list \<Rightarrow> (u64 \<rightharpoonup> block_device) \<Rightarrow> (u64 \<rightharpoonup> block_device) result" where
  "add_block_devices [] m = Inr m"
| "add_block_devices (e # es) m =
    sum_bind (read_block_device e) (\<lambda>d.
      add_block_devices es (if m (bd_id d) = None then m(bd_id d \<mapsto> d) else m))"

definition get_block_devices :: "sys_block list \<Rightarrow> (u64 \<rightharpoonup> block_device) result" where
  "get_block_devices es = add_block_devices es Map.empty"

text \<open>\<open>BlockDevice::block_device_for\<close>; \<open>devices\<close> is the map \<open>get_block_devices\<close> builds from sysfs.\<close>

definition block_device_for :: "(u64 \<rightharpoonup> block_device) \<Rightarrow> u64 \<Rightarrow> block_device" where
  "block_device_for devices dev =
    (case devices dev of Some d \<Rightarrow> d
     | None \<Rightarrow> bd_disk dev (show_nat (unat (dev_major dev)) @ '':'' @ show_nat (unat (dev_minor dev))))"

text \<open>The device of a record, from the device number in the kernel's format.\<close>

definition event_device :: "(u64 \<rightharpoonup> block_device) \<Rightarrow> u32 \<Rightarrow> block_device" where
  "event_device devices dev = block_device_for devices (makedev (drop_bit 20 dev) (dev AND (push_bit 20 1 - 1)))"

section \<open>Records, events and state\<close>

record record_block =
  rb_time :: u64
  rb_dev :: u32
  rb_sector :: u64
  rb_nr_sector :: u32
  rb_rwbs :: string

datatype bio_tracepoint = Bio_queue | Bio_issue | Bio_complete | Other_tracepoint string

datatype io_mode = Io_read | Io_write

datatype bio_event =
    Io_begin int io_mode u32 u64
  | Io_issued int u64
  | Io_complete int u64 u64

text \<open>
  \<open>sector_cache_\<close> by the number of the device, the only field \<open>operator<\<close> compares, and the events per
  device in the order they are written.
\<close>

record bio_writer =
  sector_cache :: "u64 \<rightharpoonup> u64 \<rightharpoonup> u64"
  bio_events :: "(u64 \<times> bio_event) list"

definition bio_writer_new :: bio_writer where
  "bio_writer_new = \<lparr>sector_cache = Map.empty, bio_events = []\<rparr>"

definition SECTOR_SIZE :: u32 where
  "SECTOR_SIZE = 512"

record bio_env =
  bio_conv :: "u64 \<Rightarrow> int"
  bio_devices :: "u64 \<rightharpoonup> block_device"

text \<open>\<open>operator[]\<close> on the two maps: a missing entry is inserted with its default value.\<close>

definition dev_cache :: "bio_writer \<Rightarrow> u64 \<Rightarrow> u64 \<rightharpoonup> u64" where
  "dev_cache w d = (case sector_cache w d of Some m \<Rightarrow> m | None \<Rightarrow> Map.empty)"

definition cached :: "bio_writer \<Rightarrow> u64 \<Rightarrow> u64 \<Rightarrow> u64" where
  "cached w d sector = (case dev_cache w d sector of Some n \<Rightarrow> n | None \<Rightarrow> 0)"

definition set_cached :: "u64 \<Rightarrow> u64 \<Rightarrow> u64 \<Rightarrow> bio_writer \<Rightarrow> bio_writer" where
  "set_cached d sector n w = w\<lparr>sector_cache := (sector_cache w)(d \<mapsto> (dev_cache w d)(sector \<mapsto> n))\<rparr>"

definition touch_dev :: "u64 \<Rightarrow> bio_writer \<Rightarrow> bio_writer" where
  "touch_dev d w = w\<lparr>sector_cache := (sector_cache w)(d \<mapsto> dev_cache w d)\<rparr>"

definition bio_emit :: "u64 \<Rightarrow> bio_event \<Rightarrow> bio_writer \<Rightarrow> bio_writer" where
  "bio_emit d e w = w\<lparr>bio_events := bio_events w @ [(d, e)]\<rparr>"

definition io_mode_of :: "string \<Rightarrow> io_mode option" where
  "io_mode_of rwbs =
    (case rwbs of c # _ \<Rightarrow> if c = CHR ''R'' then Some Io_read else if c = CHR ''W'' then Some Io_write else None
     | [] \<Rightarrow> None)"

section \<open>The three tracepoints\<close>

definition write_queue :: "bio_env \<Rightarrow> record_block \<Rightarrow> bio_writer \<Rightarrow> bio_writer" where
  "write_queue env event w =
    (case io_mode_of (rb_rwbs event) of None \<Rightarrow> w
     | Some mode \<Rightarrow>
       let d = bd_id (event_device (bio_devices env) (rb_dev event));
           size = rb_nr_sector event * SECTOR_SIZE in
       bio_emit d (Io_begin (bio_conv env (rb_time event)) mode size (rb_sector event))
         (set_cached d (rb_sector event) (cached w d (rb_sector event) + ucast size) w))"

definition write_issue :: "bio_env \<Rightarrow> record_block \<Rightarrow> bio_writer \<Rightarrow> bio_writer" where
  "write_issue env event w =
    (let d = bd_id (event_device (bio_devices env) (rb_dev event)) in
     if sector_cache w d = None \<or> dev_cache w d (rb_sector event) = None then w
     else bio_emit d (Io_issued (bio_conv env (rb_time event)) (rb_sector event)) w)"

text \<open>
  The guard is written with \<^verbatim>\<open>&&\<close>, and its second operand is \<open>operator[]\<close>, which inserts the device. The
  second operand is evaluated only for a device that is missing, and is then true.
\<close>

definition write_complete :: "bio_env \<Rightarrow> record_block \<Rightarrow> bio_writer \<Rightarrow> bio_writer" where
  "write_complete env event w =
    (let d = bd_id (event_device (bio_devices env) (rb_dev event)) in
     if sector_cache w d = None \<and> dev_cache w d (rb_sector event) = None then touch_dev d w
     else
       let n = cached w d (rb_sector event) in
       bio_emit d (Io_complete (bio_conv env (rb_time event)) n (rb_sector event))
         (set_cached d (rb_sector event) 0 w))"

definition bio_write :: "bio_env \<Rightarrow> bio_tracepoint \<Rightarrow> record_block \<Rightarrow> bio_writer \<Rightarrow> bio_writer result" where
  "bio_write env tp event w =
    (case tp of
       Bio_queue \<Rightarrow> Inr (write_queue env event w)
     | Bio_issue \<Rightarrow> Inr (write_issue env event w)
     | Bio_complete \<Rightarrow> Inr (write_complete env event w)
     | Other_tracepoint name \<Rightarrow> Inl (Runtime_error (''tracepoint '' @ name @ '' not valid for block I/O'')))"

fun bio_run :: "bio_env \<Rightarrow> (bio_tracepoint \<times> record_block) list \<Rightarrow> bio_writer \<Rightarrow> bio_writer result" where
  "bio_run env [] w = Inr w"
| "bio_run env ((tp, event) # es) w = sum_bind (bio_write env tp event w) (bio_run env es)"

section \<open>Device numbers survive the conversion\<close>

lemma makedev_major: "dev_major (makedev maj mnr) = maj"
  by (rule bit_word_eqI) (auto simp: dev_major_def makedev_def bit_simps)

lemma makedev_minor: "dev_minor (makedev maj mnr) = mnr"
  by (rule bit_word_eqI) (auto simp: dev_minor_def makedev_def bit_simps)

lemma makedev_inject: "makedev a b = makedev c d \<longleftrightarrow> a = c \<and> b = d"
  by (metis makedev_major makedev_minor)

lemma kernel_dev_split: "drop_bit 20 (a :: u32) = drop_bit 20 b \<and> take_bit 20 a = take_bit 20 b \<longleftrightarrow> a = b"
  by (metis bits_ident)

lemma kernel_minor_mask: "dev AND (push_bit 20 1 - 1) = take_bit 20 (dev :: u32)"
  by (simp add: take_bit_eq_mask mask_eq_exp_minus_1)

lemma add_block_devices_ids:
  assumes "add_block_devices es m = Inr m'" "\<forall>dev d. m dev = Some d \<longrightarrow> bd_id d = dev"
  shows "\<forall>dev d. m' dev = Some d \<longrightarrow> bd_id d = dev"
  using assms
proof (induction es arbitrary: m)
  case (Cons e es)
  then obtain d where d: "add_block_devices es (if m (bd_id d) = None then m(bd_id d \<mapsto> d) else m) = Inr m'"
    by (auto simp: sum_bind_Inr_iff)
  show ?case by (rule Cons.IH[OF d]) (use Cons.prems(2) in auto)
qed simp

lemma block_device_for_id:
  assumes "get_block_devices entries = Inr devices"
  shows "bd_id (block_device_for devices dev) = dev"
  using add_block_devices_ids[OF assms[unfolded get_block_devices_def]]
  by (simp add: block_device_for_def bd_disk_def split: option.split)

section \<open>The bytes that are outstanding\<close>

text \<open>What the writer should account for: the bytes queued at a sector since its last completion.\<close>

definition event_id :: "bio_env \<Rightarrow> record_block \<Rightarrow> u64" where
  "event_id env event = bd_id (event_device (bio_devices env) (rb_dev event))"

fun outstanding_step :: "bio_env \<Rightarrow> u64 \<Rightarrow> u64 \<Rightarrow> bio_tracepoint \<times> record_block \<Rightarrow> u64 \<Rightarrow> u64" where
  "outstanding_step env d sector (tp, event) n =
    (if event_id env event \<noteq> d \<or> rb_sector event \<noteq> sector then n
     else if tp = Bio_complete then 0
     else if tp = Bio_queue \<and> io_mode_of (rb_rwbs event) \<noteq> None then n + ucast (rb_nr_sector event * SECTOR_SIZE)
     else n)"

definition outstanding :: "bio_env \<Rightarrow> u64 \<Rightarrow> u64 \<Rightarrow> (bio_tracepoint \<times> record_block) list \<Rightarrow> u64" where
  "outstanding env d sector es = fold (outstanding_step env d sector) es 0"

fun mentions :: "bio_env \<Rightarrow> u64 \<Rightarrow> bio_tracepoint \<times> record_block \<Rightarrow> bool" where
  "mentions env d (tp, event) \<longleftrightarrow> event_id env event = d \<and>
    (tp = Bio_complete \<or> tp = Bio_queue \<and> io_mode_of (rb_rwbs event) \<noteq> None)"

definition block_tracepoint :: "bio_tracepoint \<Rightarrow> bool" where
  "block_tracepoint tp \<longleftrightarrow> tp = Bio_queue \<or> tp = Bio_issue \<or> tp = Bio_complete"

lemma cached_simps [simp]:
  "cached (bio_emit d e w) d' s = cached w d' s"
  "cached (touch_dev d w) d' s = cached w d' s"
  "cached (set_cached d s n w) d' s' = (if d' = d \<and> s' = s then n else cached w d' s')"
  by (auto simp: cached_def dev_cache_def bio_emit_def touch_dev_def set_cached_def split: option.split)

lemma sector_cache_simps [simp]:
  "sector_cache (bio_emit d e w) = sector_cache w"
  "sector_cache (touch_dev d w) d' = None \<longleftrightarrow> d' \<noteq> d \<and> sector_cache w d' = None"
  "sector_cache (set_cached d s n w) d' = None \<longleftrightarrow> d' \<noteq> d \<and> sector_cache w d' = None"
  by (auto simp: bio_emit_def touch_dev_def set_cached_def)

lemma bio_events_simps [simp]:
  "bio_events (bio_emit d e w) = bio_events w @ [(d, e)]"
  "bio_events (touch_dev d w) = bio_events w"
  "bio_events (set_cached d s n w) = bio_events w"
  by (simp_all add: bio_emit_def touch_dev_def set_cached_def)

lemma missing_device: "sector_cache w d = None \<Longrightarrow> dev_cache w d s = None" "sector_cache w d = None \<Longrightarrow> cached w d s = 0"
  by (simp_all add: dev_cache_def cached_def)

lemma bio_write_step:
  assumes "bio_write env tp event w = Inr w'"
  shows "cached w' d s = outstanding_step env d s (tp, event) (cached w d s)"
    and "sector_cache w' d = None \<longleftrightarrow> sector_cache w d = None \<and> \<not> mentions env d (tp, event)"
  using assms
  by (auto simp: bio_write_def write_queue_def write_issue_def write_complete_def event_id_def Let_def missing_device
      split: bio_tracepoint.splits option.splits if_splits)

lemma bio_run_state:
  assumes "bio_run env es w = Inr w'"
  shows "cached w' d s = fold (outstanding_step env d s) es (cached w d s) \<and>
    (sector_cache w' d = None \<longleftrightarrow> sector_cache w d = None \<and> (\<forall>e \<in> set es. \<not> mentions env d e))"
  using assms
proof (induction es arbitrary: w)
  case Nil
  then show ?case by simp
next
  case (Cons e es)
  obtain tp event where e: "e = (tp, event)" by force
  with Cons.prems obtain w1 where w1: "bio_write env tp event w = Inr w1" "bio_run env es w1 = Inr w'"
    by (auto simp: sum_bind_Inr_iff)
  show ?case
    using Cons.IH[OF w1(2)] bio_write_step[OF w1(1)] by (auto simp: e simp del: outstanding_step.simps mentions.simps)
qed

lemma bio_run_total:
  assumes "\<forall>e \<in> set es. block_tracepoint (fst e)"
  shows "\<exists>w'. bio_run env es w = Inr w'"
  using assms
  by (induction env es w rule: bio_run.induct) (auto simp: bio_write_def block_tracepoint_def)

section \<open>Properties\<close>

text \<open>
  C22. On any sequence of block tracepoint records the writer accounts, for every device and sector,
  for exactly the bytes queued since the last completion there, and a completion is written with
  that number of bytes, provided that the device was seen before.
\<close>
theorem bio_bytes_accounted:
  assumes "\<forall>e \<in> set es. block_tracepoint (fst e)"
  shows "\<exists>w w'. bio_run env es bio_writer_new = Inr w \<and> (\<forall>d s. cached w d s = outstanding env d s es) \<and>
    bio_write env Bio_complete event w = Inr w' \<and>
    bio_events w' = bio_events w @ (if \<exists>e \<in> set es. mentions env (event_id env event) e
      then [(event_id env event, Io_complete (bio_conv env (rb_time event))
              (outstanding env (event_id env event) (rb_sector event) es) (rb_sector event))]
      else [])"
proof -
  obtain w where w: "bio_run env es bio_writer_new = Inr w" using bio_run_total[OF assms] by blast
  have new: "cached bio_writer_new d s = 0" "sector_cache bio_writer_new d = None" for d s
    by (simp_all add: bio_writer_new_def cached_def dev_cache_def)
  have c: "cached w d s = outstanding env d s es" "sector_cache w d = None \<longleftrightarrow> \<not> (\<exists>e \<in> set es. mentions env d e)" for d s
    using bio_run_state[OF w, of d s] by (simp_all add: new outstanding_def)
  obtain w' where w': "bio_write env Bio_complete event w = Inr w'" by (simp add: bio_write_def)
  then have "bio_events w' = bio_events w @ (if \<not> sector_cache w (event_id env event) = None
      then [(event_id env event, Io_complete (bio_conv env (rb_time event))
              (cached w (event_id env event) (rb_sector event)) (rb_sector event))] else [])"
    by (auto simp: bio_write_def write_complete_def event_id_def Let_def missing_device)
  then show ?thesis using w w' c(1) unfolding c(2) not_not by auto
qed

definition example_env :: bio_env where
  "example_env = \<lparr>bio_conv = uint, bio_devices = Map.empty\<rparr>"

definition example_request :: "u64 \<Rightarrow> record_block" where
  "example_request t = \<lparr>rb_time = t, rb_dev = 0x800010, rb_sector = 64, rb_nr_sector = 8, rb_rwbs = ''WS''\<rparr>"

theorem bio_bytes_accounted_witness:
  "\<exists>w w'. bio_run example_env [(Bio_queue, example_request 1), (Bio_issue, example_request 2)] bio_writer_new = Inr w \<and>
    (\<forall>d s. cached w d s = outstanding example_env d s [(Bio_queue, example_request 1), (Bio_issue, example_request 2)]) \<and>
    bio_write example_env Bio_complete (example_request 3) w = Inr w' \<and>
    bio_events w' = bio_events w @ (if \<exists>e \<in> set [(Bio_queue, example_request 1), (Bio_issue, example_request 2)].
        mentions example_env (event_id example_env (example_request 3)) e
      then [(event_id example_env (example_request 3), Io_complete (bio_conv example_env (rb_time (example_request 3)))
              (outstanding example_env (event_id example_env (example_request 3)) (rb_sector (example_request 3))
                [(Bio_queue, example_request 1), (Bio_issue, example_request 2)]) (rb_sector (example_request 3)))]
      else [])"
  by (rule bio_bytes_accounted) (simp add: block_tracepoint_def)

text \<open>
  The device number of a record survives the conversion through \<open>makedev\<close> and the table of the
  devices: the major and minor numbers are the upper 12 and lower 20 bits of the kernel's number,
  different numbers are different devices, and a device that sysfs does not list is named after them.
\<close>
lemma bio_device_number:
  assumes "get_block_devices entries = Inr devices"
  shows "dev_major (bd_id (event_device devices dev)) = drop_bit 20 dev \<and>
    dev_minor (bd_id (event_device devices dev)) = take_bit 20 dev \<and>
    (bd_id (event_device devices dev) = bd_id (event_device devices dev') \<longleftrightarrow> dev = dev') \<and>
    (devices (bd_id (event_device devices dev)) = None \<longrightarrow>
      bd_name (event_device devices dev) = show_nat (unat dev div 2 ^ 20) @ '':'' @ show_nat (unat dev mod 2 ^ 20))"
proof -
  have n: "unat (drop_bit 20 dev) = unat dev div 2 ^ 20" "unat (take_bit 20 dev) = unat dev mod 2 ^ 20"
    by (simp_all add: drop_bit_eq_div take_bit_eq_mod unat_div unat_mod)
  have i: "bd_id (event_device devices d) = makedev (drop_bit 20 d) (take_bit 20 d)" for d
    unfolding event_device_def kernel_minor_mask by (rule block_device_for_id[OF assms])
  show ?thesis
    unfolding i n[symmetric] unfolding event_device_def kernel_minor_mask
    by (simp add: block_device_for_def bd_disk_def makedev_major makedev_minor
        makedev_inject kernel_dev_split)
qed

definition example_sys_block :: sys_block where
  "example_sys_block = \<lparr>sb_uevent = [''MAJOR=8'', ''MINOR=0'', ''DEVNAME=sda'', ''DEVTYPE=disk''], sb_parent_uevent = []\<rparr>"

lemma example_sys_block_read:
  "get_block_devices [example_sys_block] = Inr [makedev 8 0 \<mapsto> bd_disk (makedev 8 0) ''/dev/sda'']"
  by (simp add: get_block_devices_def read_block_device_def example_sys_block_def uevent_word_def uevent_value_def
      uevent_numbers_def stoi_def is_space_def is_digit_def digits_value_def digit_value_def bd_disk_def)

lemma bio_device_number_witness:
  "dev_major (bd_id (event_device [makedev 8 0 \<mapsto> bd_disk (makedev 8 0) ''/dev/sda''] 0x800010)) = drop_bit 20 0x800010 \<and>
    dev_minor (bd_id (event_device [makedev 8 0 \<mapsto> bd_disk (makedev 8 0) ''/dev/sda''] 0x800010)) = take_bit 20 0x800010 \<and>
    (bd_id (event_device [makedev 8 0 \<mapsto> bd_disk (makedev 8 0) ''/dev/sda''] 0x800010) =
      bd_id (event_device [makedev 8 0 \<mapsto> bd_disk (makedev 8 0) ''/dev/sda''] 0x800000) \<longleftrightarrow> (0x800010 :: u32) = 0x800000) \<and>
    bd_name (event_device [makedev 8 0 \<mapsto> bd_disk (makedev 8 0) ''/dev/sda''] 0x800010) =
      show_nat (unat (0x800010 :: u32) div 2 ^ 20) @ '':'' @ show_nat (unat (0x800010 :: u32) mod 2 ^ 20)"
proof -
  have "[makedev 8 0 \<mapsto> bd_disk (makedev 8 0) ''/dev/sda'']
      (bd_id (event_device [makedev 8 0 \<mapsto> bd_disk (makedev 8 0) ''/dev/sda''] 0x800010)) = None"
    by (simp add: event_device_def block_device_for_def bd_disk_def makedev_inject)
  then show ?thesis
    using bio_device_number[OF example_sys_block_read, of "0x800010" "0x800000"] by blast
qed

text \<open>
  Completions of requests that were never queued are not filtered out: the first one on an unknown
  device is dropped but registers the device, and from the second one on an operation of 0 bytes is
  completed that was never begun.
\<close>
lemma bio_unqueued_completion_written:
  "\<exists>w. bio_run env [(Bio_complete, event), (Bio_complete, event)] bio_writer_new = Inr w \<and>
    bio_events w = [(event_id env event, Io_complete (bio_conv env (rb_time event)) 0 (rb_sector event))]"
  by (simp add: bio_write_def write_complete_def Let_def event_id_def bio_writer_new_def dev_cache_def cached_def
      touch_dev_def bio_emit_def set_cached_def)

end
