(* ===== verification/Openmp_Monitor.thy ===== *)
theory Openmp_Monitor
  imports Local_Cctx_Tree Ringbuf_System
begin

text \<open>
  \<^verbatim>\<open>OpenMPMonitor\<close> (\<^verbatim>\<open>src/monitor/openmp_monitor.cpp\<close>): the consumer of the ring buffer the OMPT library
  fills. It keeps one calling context tree per thread. The pointers into the trace are modelled by the
  trees themselves, as no other component writes to them.
\<close>

section \<open>State and operations\<close>

record openmp_monitor =
  om_rb :: shm_ringbuf
  om_process :: Process
  om_last_tp :: "(u64, int) std_map"
  om_trees :: "(u64, local_cctx_tree) std_map"

definition OM_LEVEL_PROCESS :: nat where
  "OM_LEVEL_PROCESS = 1"

definition openmp_monitor_new :: "shm_ringbuf \<Rightarrow> openmp_monitor" where
  "openmp_monitor_new rb = \<lparr>om_rb = rb, om_process = Process (rb_pid (rb_header rb)), om_last_tp = [], om_trees = []\<rparr>"

text \<open>A call through the pointer \<open>local_cctx_trees_.at(thread)\<close>.\<close>

definition on_tree ::
    "u64 \<Rightarrow> (local_cctx_tree \<Rightarrow> local_cctx_tree result) \<Rightarrow> openmp_monitor \<Rightarrow> openmp_monitor result" where
  "on_tree thread f m =
    sum_bind (std_at (<) (om_trees m) thread) (\<lambda>t.
    sum_bind (f t) (\<lambda>t'. Inr (m\<lparr>om_trees := std_update (<) thread (\<lambda>_. t') (om_trees m)\<rparr>)))"

definition create_thread_writer :: "storage \<Rightarrow> int \<Rightarrow> u64 \<Rightarrow> openmp_monitor \<Rightarrow> openmp_monitor result" where
  "create_thread_writer junk tp thread m =
    on_tree thread (cctx_enter_at junk tp OM_LEVEL_PROCESS [CC_PROCESS (om_process m)])
      (m\<lparr>om_trees := fst (std_emplace (<) thread local_cctx_tree_new (om_trees m))\<rparr>)"

definition ensure_thread_writer :: "storage \<Rightarrow> int \<Rightarrow> u64 \<Rightarrow> openmp_monitor \<Rightarrow> openmp_monitor result" where
  "ensure_thread_writer junk tp thread m =
    (if std_count (<) (om_trees m) thread = 0 then create_thread_writer junk tp thread m else Inr m)"

text \<open>The body of the loop between the decoding of an event and its removal.\<close>

definition om_event ::
    "storage \<Rightarrow> (u64 \<Rightarrow> int) \<Rightarrow> u64 \<times> u64 \<times> OMPTCctx \<Rightarrow> openmp_monitor \<Rightarrow> openmp_monitor result" where
  "om_event junk conv ev m =
    (case ev of (event_type, time, cctx) \<Rightarrow>
     let tp = conv time; tid = omp_tid cctx in
     if event_type = OmptEventType_code OMPT_ENTER
     then
       sum_bind (ensure_thread_writer junk tp tid m) (\<lambda>m1.
       sum_bind (on_tree tid (\<lambda>t. sum_bind (cctx_enter junk tp [CC_OPENMP cctx] t) (\<lambda>(_, t'). Inr t')) m1) (\<lambda>m2.
         Inr (m2\<lparr>om_last_tp := std_set (<) tid tp (om_last_tp m2)\<rparr>)))
     else if event_type = OmptEventType_code OMPT_EXIT
     then
       sum_bind (ensure_thread_writer junk tp tid m) (\<lambda>m1.
       sum_bind (on_tree tid (\<lambda>t. sum_bind (cur_level t) (\<lambda>l.
           if l \<noteq> OM_LEVEL_PROCESS then sum_bind (cctx_leave tp t) (\<lambda>(_, t'). Inr t') else Inr t)) m1) (\<lambda>m2.
         Inr (m2\<lparr>om_last_tp := std_set (<) tid tp (om_last_tp m2)\<rparr>)))
     else Inr m)"

text \<open>\<open>monitor\<close>; \<open>None\<close> when the bound on the number of iterations is reached.\<close>

fun om_monitor :: "nat \<Rightarrow> storage \<Rightarrow> (u64 \<Rightarrow> int) \<Rightarrow> openmp_monitor \<Rightarrow> openmp_monitor result option" where
  "om_monitor fuel junk conv m =
    (case ompt_top (om_rb m) of Inl e \<Rightarrow> Some (Inl e)
     | Inr None \<Rightarrow> Some (Inr m)
     | Inr (Some ev) \<Rightarrow>
       case fuel of 0 \<Rightarrow> None
       | Suc n \<Rightarrow>
         case om_event junk conv ev m of Inl e \<Rightarrow> Some (Inl e)
         | Inr m1 \<Rightarrow>
           case reader_pop (om_rb m1) of Inl e \<Rightarrow> Some (Inl e)
           | Inr rb \<Rightarrow> om_monitor n junk conv (m1\<lparr>om_rb := rb\<rparr>))"

declare om_monitor.simps [simp del]

text \<open>\<open>finalize_thread\<close>; \<open>last_tp_[]\<close> of a thread without an entry is the default time point.\<close>

fun finalize_trees :: "(u64, int) std_map \<Rightarrow> (u64, local_cctx_tree) std_map \<Rightarrow> (u64, local_cctx_tree) std_map result" where
  "finalize_trees last_tp [] = Inr []"
| "finalize_trees last_tp ((tid, t) # ts) =
    sum_bind (leave_level (case std_lookup (<) last_tp tid of Some tp \<Rightarrow> tp | None \<Rightarrow> 0) 1 t) (\<lambda>(_, t').
    sum_bind (finalize_trees last_tp ts) (\<lambda>ts'. Inr ((tid, lt_finalize t') # ts')))"

definition om_finalize_thread :: "openmp_monitor \<Rightarrow> openmp_monitor result" where
  "om_finalize_thread m =
    sum_bind (finalize_trees (om_last_tp m) (om_trees m)) (\<lambda>ts. Inr (m\<lparr>om_trees := ts\<rparr>))"

section \<open>What the threads did\<close>

text \<open>The OpenMP regions a thread has open after a sequence of messages, outermost first.\<close>

fun open_step :: "u64 \<Rightarrow> ompt_msg \<Rightarrow> OMPTCctx list \<Rightarrow> OMPTCctx list" where
  "open_step tid (Enter tp c) st = (if omp_tid c = tid then st @ [c] else st)"
| "open_step tid (Leave tp c) st = (if omp_tid c = tid then butlast st else st)"

definition open_regions :: "u64 \<Rightarrow> ompt_msg list \<Rightarrow> OMPTCctx list" where
  "open_regions tid ms = fold (open_step tid) ms []"

fun msg_tid :: "ompt_msg \<Rightarrow> u64" where
  "msg_tid (Enter tp c) = omp_tid c"
| "msg_tid (Leave tp c) = omp_tid c"

definition tree_shows :: "Process \<Rightarrow> OMPTCctx list \<Rightarrow> local_cctx_tree \<Rightarrow> bool" where
  "tree_shows p st t \<longleftrightarrow> lt_inv t \<and>
    list_all2 cctx_key.eqv (tl (lt_cur t)) (CC_PROCESS p # map CC_OPENMP st)"

definition thread_shows :: "Process \<Rightarrow> ompt_msg list \<Rightarrow> u64 \<Rightarrow> local_cctx_tree option \<Rightarrow> bool" where
  "thread_shows p ms tid r =
    (case r of None \<Rightarrow> tid \<notin> msg_tid ` set ms
     | Some t \<Rightarrow> tid \<in> msg_tid ` set ms \<and> tree_shows p (open_regions tid ms) t)"

definition om_shows :: "ompt_msg list \<Rightarrow> openmp_monitor \<Rightarrow> bool" where
  "om_shows ms m \<longleftrightarrow> u64_key.sorted_keys (om_trees m) \<and>
    (\<forall>tid. thread_shows (om_process m) ms tid (std_lookup (<) (om_trees m) tid))"

lemma om_showsD: "om_shows ms m \<Longrightarrow> thread_shows (om_process m) ms tid (std_lookup (<) (om_trees m) tid)"
  by (simp add: om_shows_def)

lemma tree_shows_enter:
  assumes "tree_shows p st t"
  obtains t' l where "cctx_enter junk tp [CC_OPENMP c] t = Inr (l, t')" "tree_shows p (st @ [c]) t'"
proof -
  have inv: "lt_inv t" and ne: "0 < length (lt_cur t)" using assms by (auto simp: tree_shows_def lt_inv_def)
  obtain t' ks where t': "cctx_enter_at junk tp (length (lt_cur t)) [CC_OPENMP c] t = Inr t'" "lt_inv t'"
    "lt_cur t' = lt_cur t @ ks" "list_all2 cctx_key.eqv ks [CC_OPENMP c]"
    using cctx_enter_at_ok[OF inv _ ne order_refl, of "[CC_OPENMP c]" junk tp] by auto
  have "list_all2 cctx_key.eqv (tl (lt_cur t) @ ks) ((CC_PROCESS p # map CC_OPENMP st) @ [CC_OPENMP c])"
    using assms t'(4) by (intro list_all2_appendI) (auto simp: tree_shows_def)
  then have "tree_shows p (st @ [c]) t'" using t' ne by (simp add: tree_shows_def)
  then show thesis
    by (rule that[rotated, of t' "length (lt_cur t)"]) (use t' ne in \<open>simp add: cctx_enter_def cur_level_ok[OF inv]\<close>)
qed

lemma tree_shows_length: "tree_shows p st t \<Longrightarrow> length (lt_cur t) = length st + 2"
  by (auto simp: tree_shows_def lt_inv_def dest!: list_all2_lengthD)

lemma tree_shows_leave:
  assumes "tree_shows p st t" "st \<noteq> []"
  obtains t' l where "cctx_leave tp t = Inr (l, t')" "tree_shows p (butlast st) t'"
proof -
  have inv: "lt_inv t" using assms by (simp add: tree_shows_def)
  note len = tree_shows_length[OF assms(1)]
  obtain t' where t': "leave_level tp (length (lt_cur t) - 1) t = Inr (length (lt_cur t') - 1, t')" "lt_inv t'"
    "lt_cur t' = butlast (lt_cur t)"
    using leave_level_ok[OF inv, of tp "length (lt_cur t) - 1"] len by (auto simp: butlast_conv_take)
  have "list_all2 cctx_key.eqv (butlast (tl (lt_cur t))) (butlast (CC_PROCESS p # map CC_OPENMP st))"
    using assms len by (auto simp: tree_shows_def butlast_conv_take intro!: list_all2_takeI)
  then have "tree_shows p (butlast st) t'"
    using t' assms(2) by (simp add: tree_shows_def butlast_tl map_butlast)
  then show thesis
    by (rule that[rotated]) (use t' in \<open>simp add: cctx_leave_def cur_level_ok[OF inv]\<close>)
qed

lemma new_tree_shows:
  obtains t where "cctx_enter_at junk tp OM_LEVEL_PROCESS [CC_PROCESS p] local_cctx_tree_new = Inr t" "tree_shows p [] t"
proof -
  have cur: "lt_cur local_cctx_tree_new = [CC_ROOT]" by (simp add: local_cctx_tree_new_def)
  obtain t ks where "cctx_enter_at junk tp 1 [CC_PROCESS p] local_cctx_tree_new = Inr t" "lt_inv t"
    "lt_cur t = [CC_ROOT] @ ks" "list_all2 cctx_key.eqv ks [CC_PROCESS p]"
    using cctx_enter_at_ok[OF local_cctx_tree_new_inv, of "[CC_PROCESS p]" 1 junk tp] by (auto simp: cur)
  then show thesis by (intro that[of t]) (simp_all add: OM_LEVEL_PROCESS_def tree_shows_def)
qed

section \<open>One event\<close>

lemma open_regions_absent: "tid \<notin> msg_tid ` set ms \<Longrightarrow> open_regions tid ms = []"
proof (induction ms rule: rev_induct)
  case (snoc x xs)
  then show ?case by (cases x) (auto simp: open_regions_def)
qed (simp add: open_regions_def)

lemma on_tree_ok:
  assumes "u64_key.sorted_keys (om_trees m)" "std_lookup (<) (om_trees m) tid = Some t" "f t = Inr t'"
  obtains m' where "on_tree tid f m = Inr m'" "u64_key.sorted_keys (om_trees m')" "om_process m' = om_process m"
    "om_rb m' = om_rb m" "om_last_tp m' = om_last_tp m"
    "std_lookup (<) (om_trees m') = (std_lookup (<) (om_trees m))(tid \<mapsto> t')"
proof -
  let ?m = "m\<lparr>om_trees := std_update (<) tid (\<lambda>_. t') (om_trees m)\<rparr>"
  have "std_lookup (<) (om_trees ?m) = (std_lookup (<) (om_trees m))(tid \<mapsto> t')"
    using assms(2) u64_key.std_lookup_update[OF assms(1), of tid "\<lambda>_. t'"] by (auto simp: fun_eq_iff)
  then show thesis
    using assms u64_key.std_update_sorted[OF assms(1)] by (intro that[of ?m]) (simp_all add: on_tree_def std_at_def)
qed

lemma ensure_thread_writer_ok:
  assumes "om_shows ms m"
  obtains m' t where "ensure_thread_writer junk tp tid m = Inr m'" "u64_key.sorted_keys (om_trees m')"
    "om_process m' = om_process m" "om_rb m' = om_rb m" "om_last_tp m' = om_last_tp m"
    "tree_shows (om_process m) (open_regions tid ms) t"
    "std_lookup (<) (om_trees m') = (std_lookup (<) (om_trees m))(tid \<mapsto> t)"
proof (cases "std_lookup (<) (om_trees m) tid")
  case (Some t)
  then have "ensure_thread_writer junk tp tid m = Inr m"
    by (auto simp: ensure_thread_writer_def std_count_def std_lookup_def)
  then show thesis
    using assms Some om_showsD[OF assms, of tid]
    by (intro that[of m t]) (auto simp: om_shows_def thread_shows_def fun_upd_idem)
next
  case None
  let ?m = "m\<lparr>om_trees := fst (std_emplace (<) tid local_cctx_tree_new (om_trees m))\<rparr>"
  have sorted: "u64_key.sorted_keys (om_trees m)" using assms by (simp add: om_shows_def)
  have l: "std_lookup (<) (om_trees ?m) = (std_lookup (<) (om_trees m))(tid \<mapsto> local_cctx_tree_new)"
    using None u64_key.std_lookup_emplace[OF sorted, of tid local_cctx_tree_new] by (auto simp: fun_eq_iff)
  obtain t where t: "cctx_enter_at junk tp OM_LEVEL_PROCESS [CC_PROCESS (om_process m)] local_cctx_tree_new = Inr t"
    "tree_shows (om_process m) [] t"
    using new_tree_shows .
  have absent: "tid \<notin> msg_tid ` set ms" using om_showsD[OF assms, of tid] None by (simp add: thread_shows_def)
  obtain m' where "on_tree tid (cctx_enter_at junk tp OM_LEVEL_PROCESS [CC_PROCESS (om_process m)]) ?m = Inr m'"
    "u64_key.sorted_keys (om_trees m')" "om_process m' = om_process ?m" "om_rb m' = om_rb ?m"
    "om_last_tp m' = om_last_tp ?m"
    "std_lookup (<) (om_trees m') = (std_lookup (<) (om_trees ?m))(tid \<mapsto> t)"
    using on_tree_ok[of ?m tid local_cctx_tree_new "cctx_enter_at junk tp OM_LEVEL_PROCESS [CC_PROCESS (om_process m)]" t]
      t(1) l u64_key.std_emplace_sorted[OF sorted] by auto
  with t(2) None l show thesis
    by (intro that[of m' t])
      (simp_all add: ensure_thread_writer_def create_thread_writer_def std_count_def std_lookup_def
        open_regions_absent[OF absent])
qed

lemma om_shows_step:
  assumes "om_shows ms m" "u64_key.sorted_keys (om_trees m')" "om_process m' = om_process m"
    "tree_shows (om_process m) (open_step (msg_tid msg) msg (open_regions (msg_tid msg) ms)) t"
    "std_lookup (<) (om_trees m') = (std_lookup (<) (om_trees m))(msg_tid msg \<mapsto> t)"
  shows "om_shows (ms @ [msg]) m'"
proof -
  have "open_regions tid (ms @ [msg]) = open_step tid msg (open_regions tid ms)" for tid
    by (simp add: open_regions_def)
  moreover have "open_step tid msg st = st" if "tid \<noteq> msg_tid msg" for tid st
    using that by (cases msg) auto
  ultimately have "thread_shows (om_process m) (ms @ [msg]) tid (std_lookup (<) (om_trees m') tid)" for tid
    using assms(4,5) om_showsD[OF assms(1), of tid]
    by (cases "tid = msg_tid msg") (auto simp: thread_shows_def split: option.splits)
  then show ?thesis using assms(2,3) by (simp add: om_shows_def)
qed

lemma om_event_ok:
  assumes om: "om_shows ms m" and ev: "fst ev = OmptEventType_code OMPT_ENTER \<or> fst ev = OmptEventType_code OMPT_EXIT"
  obtains m' where "om_event junk conv ev m = Inr m'" "om_shows (ms @ [ompt_msg_of ev]) m'" "om_rb m' = om_rb m"
    "om_process m' = om_process m"
proof -
  obtain ty time c where e: "ev = (ty, time, c)" by (cases ev)
  let ?tid = "omp_tid c" and ?tp = "conv time" and ?p = "om_process m"
  define f where "f = (if ty = OmptEventType_code OMPT_ENTER
    then (\<lambda>t. sum_bind (cctx_enter junk ?tp [CC_OPENMP c] t) (\<lambda>(_, t'). Inr t'))
    else (\<lambda>t. sum_bind (cur_level t) (\<lambda>l.
      if l \<noteq> OM_LEVEL_PROCESS then sum_bind (cctx_leave ?tp t) (\<lambda>(_, t'). Inr t') else Inr t)))"
  obtain m1 t where m1: "ensure_thread_writer junk ?tp ?tid m = Inr m1" "u64_key.sorted_keys (om_trees m1)"
    "om_process m1 = ?p" "om_rb m1 = om_rb m" "om_last_tp m1 = om_last_tp m"
    "tree_shows ?p (open_regions ?tid ms) t"
    "std_lookup (<) (om_trees m1) = (std_lookup (<) (om_trees m))(?tid \<mapsto> t)"
    using ensure_thread_writer_ok[OF om, of junk ?tp ?tid] by metis
  have "\<exists>t'. f t = Inr t' \<and> tree_shows ?p (open_step ?tid (ompt_msg_of ev) (open_regions ?tid ms)) t'"
  proof (cases "ty = OmptEventType_code OMPT_ENTER")
    case True
    obtain t' l where "cctx_enter junk ?tp [CC_OPENMP c] t = Inr (l, t')" "tree_shows ?p (open_regions ?tid ms @ [c]) t'"
      using tree_shows_enter[OF m1(6)] .
    with True show ?thesis by (simp add: f_def e ompt_msg_of_def)
  next
    case False
    have lvl: "cur_level t = Inr (length (open_regions ?tid ms) + 1)"
      using m1(6) tree_shows_length[OF m1(6)] by (simp add: tree_shows_def cur_level_ok)
    show ?thesis
    proof (cases "open_regions ?tid ms = []")
      case True
      with False m1(6) lvl show ?thesis by (simp add: f_def e ompt_msg_of_def OM_LEVEL_PROCESS_def)
    next
      case ne: False
      obtain t' l where "cctx_leave ?tp t = Inr (l, t')" "tree_shows ?p (butlast (open_regions ?tid ms)) t'"
        using tree_shows_leave[OF m1(6) ne] .
      with False lvl ne show ?thesis by (simp add: f_def e ompt_msg_of_def OM_LEVEL_PROCESS_def)
    qed
  qed
  then obtain t' where t': "f t = Inr t'" "tree_shows ?p (open_step ?tid (ompt_msg_of ev) (open_regions ?tid ms)) t'" by blast
  obtain m2 where m2: "on_tree ?tid f m1 = Inr m2" "u64_key.sorted_keys (om_trees m2)" "om_process m2 = om_process m1"
    "om_rb m2 = om_rb m1" "std_lookup (<) (om_trees m2) = (std_lookup (<) (om_trees m1))(?tid \<mapsto> t')"
    using on_tree_ok[of m1 ?tid t f t'] m1(2,7) t'(1) by (metis fun_upd_same)
  let ?m3 = "m2\<lparr>om_last_tp := std_set (<) ?tid ?tp (om_last_tp m2)\<rparr>"
  have tid: "msg_tid (ompt_msg_of ev) = ?tid" by (simp add: e ompt_msg_of_def)
  have "om_shows (ms @ [ompt_msg_of ev]) ?m3"
    by (rule om_shows_step[OF om, of _ _ t']) (use m1 m2 t' in \<open>simp_all add: tid\<close>)
  moreover have "om_event junk conv ev m = Inr ?m3"
    using ev m1(1) m2(1) by (auto simp: om_event_def e f_def)
  ultimately show thesis using m1 m2 by (intro that[of ?m3]) simp_all
qed

section \<open>The loop\<close>

text \<open>The events in the buffer are those the OMPT library writes.\<close>

definition ompt_known :: "ringbuf_writer \<Rightarrow> bool" where
  "ompt_known w \<longleftrightarrow> (\<forall>e \<in> set (ompt_content w). fst e = OmptEventType_code OMPT_ENTER \<or> fst e = OmptEventType_code OMPT_EXIT)"

lemma om_monitor_ok:
  assumes "om_shows ms m" "ompt_inv w" "ompt_known w" "om_rb m = rw_rb w" "length (ompt_content w) \<le> fuel"
  shows "\<exists>m' w'. om_monitor fuel junk conv m = Some (Inr m') \<and> om_shows (ms @ ompt_messages w) m' \<and>
    om_process m' = om_process m \<and> om_rb m' = rw_rb w' \<and> ompt_inv w' \<and> ompt_messages w' = []"
  using assms
proof (induction "ompt_content w" arbitrary: w m ms fuel)
  case Nil
  then have "om_monitor fuel junk conv m = Some (Inr m)"
    using ompt_top_eq[of w] by (subst om_monitor.simps) (simp add: Nil.hyps[symmetric])
  with Nil show ?case by (auto simp: ompt_messages_def Nil.hyps[symmetric])
next
  case (Cons ev evs)
  note content = Cons.hyps(2)[symmetric]
  obtain n where n: "fuel = Suc n" using Cons.prems(5) by (cases fuel) (simp_all add: content)
  have "fst ev = OmptEventType_code OMPT_ENTER \<or> fst ev = OmptEventType_code OMPT_EXIT"
    using Cons.prems(3) unfolding ompt_known_def content by simp
  then obtain m1 where m1: "om_event junk conv ev m = Inr m1" "om_shows (ms @ [ompt_msg_of ev]) m1" "om_rb m1 = om_rb m"
    "om_process m1 = om_process m"
    using om_event_ok[OF Cons.prems(1), of ev junk conv] by metis
  obtain rb where rb: "reader_pop (rw_rb w) = Inr rb" "ompt_inv (w\<lparr>rw_rb := rb\<rparr>)"
    "ompt_content (w\<lparr>rw_rb := rb\<rparr>) = evs"
    using ompt_pop[OF Cons.prems(2)] content by (metis list.discI list.sel(3))
  let ?m = "m1\<lparr>om_rb := rb\<rparr>" and ?w = "w\<lparr>rw_rb := rb\<rparr>"
  have "om_shows (ms @ [ompt_msg_of ev]) ?m" using m1(2) by (simp add: om_shows_def)
  moreover have "ompt_known ?w" using Cons.prems(3) rb(3) content by (simp add: ompt_known_def)
  ultimately obtain m' w' where "om_monitor n junk conv ?m = Some (Inr m')" "om_shows ((ms @ [ompt_msg_of ev]) @ ompt_messages ?w) m'"
    "om_process m' = om_process m" "om_rb m' = rw_rb w'" "ompt_inv w'" "ompt_messages w' = []"
    using Cons.hyps(1)[of ?w "ms @ [ompt_msg_of ev]" ?m n] rb m1(4) Cons.prems(5) content n by auto
  moreover have "om_monitor fuel junk conv m = om_monitor n junk conv ?m"
    using ompt_top_eq[OF Cons.prems(2)] content m1(1,3) rb(1) Cons.prems(4) n
    by (subst om_monitor.simps) simp
  moreover have "ompt_messages w = ompt_msg_of ev # ompt_messages ?w"
    by (simp add: ompt_messages_def content rb(3))
  ultimately show ?case by auto
qed

lemma finalize_trees_ok:
  assumes "\<forall>e \<in> set ts. lt_inv (snd e)"
  shows "\<exists>ts'. finalize_trees last_tp ts = Inr ts' \<and> map fst ts' = map fst ts \<and>
    (\<forall>e \<in> set ts'. lt_cur (snd e) = [CC_ROOT] \<and> replay (lt_written (snd e)) [] = Some [] \<and>
      num_cctx (snd e) = lt_next_cctx_ref (snd e))"
  using assms
proof (induction ts)
  case (Cons e ts)
  obtain tid t where e: "e = (tid, t)" by force
  let ?tp = "case std_lookup (<) last_tp tid of Some tp \<Rightarrow> tp | None \<Rightarrow> 0"
  have inv: "lt_inv t" using Cons.prems e by simp
  obtain t' where t': "leave_level ?tp 1 t = Inr (length (lt_cur t') - 1, t')" "lt_inv t'" "lt_cur t' = take 1 (lt_cur t)"
    using leave_level_ok[OF inv, of ?tp 1] by auto
  then have "lt_cur t' = [CC_ROOT]" using inv by (cases "lt_cur t") (auto simp: lt_inv_def)
  with t'(2) have "replay (lt_written t') [] = Some []" by (simp add: lt_inv_def)
  with Cons t' e \<open>lt_cur t' = [CC_ROOT]\<close> show ?case by (auto simp: lt_finalize_def num_cctx_def)
qed simp

section \<open>Producer and consumer together\<close>

text \<open>The events the OMPT library reports, as long as the buffer takes them.\<close>

fun ompt_puts :: "ompt_msg list \<Rightarrow> ringbuf_writer \<Rightarrow> ringbuf_writer option" where
  "ompt_puts [] w = Some w"
| "ompt_puts (msg # ms) w = Option.bind (ompt_put msg w) (ompt_puts ms)"

lemma ompt_put_known:
  assumes "ompt_inv w" "ompt_known w" "ompt_put msg w = Some w'"
  shows "ompt_known w'"
proof (cases msg)
  case (Enter tp c)
  obtain v where "ompt_enter w tp c = Inr (has_space (rw_rb w) 56, v)"
    "ompt_content v = ompt_content w @ (if has_space (rw_rb w) 56 then [(0, tp, c)] else [])"
    using ompt_enter_result[OF assms(1)] .
  with Enter assms(2,3) show ?thesis by (auto simp: ompt_known_def split: bool.splits)
next
  case (Leave tp c)
  obtain v where "ompt_leave w tp c = Inr (has_space (rw_rb w) 56, v)"
    "ompt_content v = ompt_content w @ (if has_space (rw_rb w) 56 then [(1, tp, c)] else [])"
    using ompt_leave_result[OF assms(1)] .
  with Leave assms(2,3) show ?thesis by (auto simp: ompt_known_def split: bool.splits)
qed

lemma ompt_puts_ok:
  assumes "ompt_inv w" "ompt_known w" "ompt_puts ms w = Some w'"
  shows "ompt_inv w' \<and> ompt_known w' \<and> ompt_messages w' = ompt_messages w @ ms"
  using assms
proof (induction ms arbitrary: w)
  case (Cons msg ms)
  then obtain w1 where w1: "ompt_put msg w = Some w1" "ompt_puts ms w1 = Some w'"
    by (auto simp: bind_eq_Some_conv)
  with Cons.IH[of w1] Cons.prems show ?case
    using ompt_put_messages[OF Cons.prems(1) w1(1)] ompt_put_known[OF Cons.prems(1,2) w1(1)] by simp
qed simp

lemma om_shows_new: "om_shows [] (openmp_monitor_new rb)"
  by (simp add: om_shows_def openmp_monitor_new_def thread_shows_def std_lookup_def)

lemma om_shows_inv: "om_shows ms m \<Longrightarrow> \<forall>e \<in> set (om_trees m). lt_inv (snd e)"
proof
  fix e
  assume om: "om_shows ms m" and e: "e \<in> set (om_trees m)"
  then have "std_lookup (<) (om_trees m) (fst e) = Some (snd e)"
    using u64_key.std_find_member[of "om_trees m" e] by (simp add: om_shows_def std_lookup_def)
  then show "lt_inv (snd e)" using om_showsD[OF om, of "fst e"] by (simp add: thread_shows_def tree_shows_def)
qed

section \<open>Properties\<close>

text \<open>
  C4. From the OMPT callbacks to the trace: when the library reports any sequence of enter and leave
  events through an empty buffer and the buffer takes them, the monitor drains the buffer and its
  tree of every thread that reported an event has exactly the regions on its call stack that the
  thread has open, below the process. Finishing closes every region of every thread.
\<close>
theorem openmp_monitor_call_stacks:
  assumes "ompt_inv w0" "ompt_messages w0 = []" "ompt_puts ms w0 = Some w" "length ms \<le> fuel"
  shows "\<exists>m m' w'. om_monitor fuel junk conv (openmp_monitor_new (rw_rb w)) = Some (Inr m) \<and>
    om_rb m = rw_rb w' \<and> ompt_inv w' \<and> ompt_messages w' = [] \<and>
    (\<forall>tid. case std_lookup (<) (om_trees m) tid of
       None \<Rightarrow> tid \<notin> msg_tid ` set ms
     | Some t \<Rightarrow> tid \<in> msg_tid ` set ms \<and>
         list_all2 cctx_key.eqv (lt_cur t)
           (CC_ROOT # CC_PROCESS (Process (rb_pid (rb_header (rw_rb w)))) # map CC_OPENMP (open_regions tid ms))) \<and>
    om_finalize_thread m = Inr m' \<and> map fst (om_trees m') = map fst (om_trees m) \<and>
    (\<forall>e \<in> set (om_trees m'). lt_cur (snd e) = [CC_ROOT] \<and> replay (lt_written (snd e)) [] = Some [])"
proof -
  let ?p = "Process (rb_pid (rb_header (rw_rb w)))"
  have "ompt_content w0 = []" using assms(2) by (simp add: ompt_messages_def)
  then have w: "ompt_inv w" "ompt_known w" "ompt_messages w = ms"
    using ompt_puts_ok[OF assms(1) _ assms(3)] assms(2) by (simp_all add: ompt_known_def)
  then have "length (ompt_content w) \<le> fuel" using assms(4) by (simp add: ompt_messages_def flip: w(3))
  then obtain m w' where m: "om_monitor fuel junk conv (openmp_monitor_new (rw_rb w)) = Some (Inr m)" "om_shows ms m"
    "om_process m = ?p" "om_rb m = rw_rb w'" "ompt_inv w'" "ompt_messages w' = []"
    using om_monitor_ok[OF om_shows_new w(1,2), of "rw_rb w" fuel junk conv] w(3) by (auto simp: openmp_monitor_new_def)
  have "\<forall>tid. case std_lookup (<) (om_trees m) tid of None \<Rightarrow> tid \<notin> msg_tid ` set ms
     | Some t \<Rightarrow> tid \<in> msg_tid ` set ms \<and>
         list_all2 cctx_key.eqv (lt_cur t) (CC_ROOT # CC_PROCESS ?p # map CC_OPENMP (open_regions tid ms))"
  proof
    fix tid
    have stack: "list_all2 cctx_key.eqv (lt_cur t) (CC_ROOT # CC_PROCESS ?p # map CC_OPENMP st)" if "tree_shows ?p st t" for st t
      using that by (cases "lt_cur t") (auto simp: tree_shows_def lt_inv_def)
    show "case std_lookup (<) (om_trees m) tid of None \<Rightarrow> tid \<notin> msg_tid ` set ms
     | Some t \<Rightarrow> tid \<in> msg_tid ` set ms \<and>
         list_all2 cctx_key.eqv (lt_cur t) (CC_ROOT # CC_PROCESS ?p # map CC_OPENMP (open_regions tid ms))"
      using om_showsD[OF m(2), of tid] stack by (auto simp: thread_shows_def m(3) split: option.splits)
  qed
  moreover obtain ts' where "finalize_trees (om_last_tp m) (om_trees m) = Inr ts'" "map fst ts' = map fst (om_trees m)"
    "\<forall>e \<in> set ts'. lt_cur (snd e) = [CC_ROOT] \<and> replay (lt_written (snd e)) [] = Some [] \<and>
      num_cctx (snd e) = lt_next_cctx_ref (snd e)"
    using finalize_trees_ok[OF om_shows_inv[OF m(2)], of "om_last_tp m"] by blast
  ultimately show ?thesis
    using m by (intro exI[of _ m] exI[of _ "m\<lparr>om_trees := ts'\<rparr>"] exI[of _ w']) (simp add: om_finalize_thread_def)
qed

lemma example_puts: "\<exists>w. ompt_puts [Enter 7 demo_cctx] fresh_writer = Some w"
proof -
  obtain w where "ompt_enter fresh_writer 7 demo_cctx = Inr (has_space (rw_rb fresh_writer) 56, w)"
    using ompt_enter_result[OF fresh_ompt_inv(1)] .
  then show ?thesis using fresh_space by (simp add: fresh_writer_def)
qed

theorem openmp_monitor_call_stacks_witness:
  "\<exists>w m m' w'. ompt_puts [Enter 7 demo_cctx] fresh_writer = Some w \<and>
    om_monitor 5 (0, 0, 0) uint (openmp_monitor_new (rw_rb w)) = Some (Inr m) \<and>
    om_rb m = rw_rb w' \<and> ompt_inv w' \<and> ompt_messages w' = [] \<and>
    (\<forall>tid. case std_lookup (<) (om_trees m) tid of
       None \<Rightarrow> tid \<notin> msg_tid ` set [Enter 7 demo_cctx]
     | Some t \<Rightarrow> tid \<in> msg_tid ` set [Enter 7 demo_cctx] \<and>
         list_all2 cctx_key.eqv (lt_cur t)
           (CC_ROOT # CC_PROCESS (Process (rb_pid (rb_header (rw_rb w)))) #
             map CC_OPENMP (open_regions tid [Enter 7 demo_cctx]))) \<and>
    om_finalize_thread m = Inr m' \<and> map fst (om_trees m') = map fst (om_trees m) \<and>
    (\<forall>e \<in> set (om_trees m'). lt_cur (snd e) = [CC_ROOT] \<and> replay (lt_written (snd e)) [] = Some [])"
proof -
  obtain w where w: "ompt_puts [Enter 7 demo_cctx] fresh_writer = Some w" using example_puts by blast
  show ?thesis
    using openmp_monitor_call_stacks[OF fresh_ompt_inv w, of 5 "(0, 0, 0)" uint] w by fastforce
qed

end
