(* ===== verification/Gpu_Monitor.thy ===== *)
theory Gpu_Monitor
  imports Local_Cctx_Tree Ringbuf_System
begin

text \<open>
  \<^verbatim>\<open>GPUMonitor\<close> (\<^verbatim>\<open>src/monitor/gpu_monitor.cpp\<close>): the consumer of the ring buffer that the CUDA and HIP
  libraries fill with kernel executions and with the names of the kernels.
\<close>

section \<open>State and operations\<close>

record gpu_monitor =
  gm_rb :: shm_ringbuf
  gm_process :: Process
  gm_last_tp :: int
  gm_tree :: local_cctx_tree
  gm_functions :: "(u64, byte list) std_map"
  gm_highest_func :: u64

definition GM_LEVEL_PROCESS :: nat where
  "GM_LEVEL_PROCESS = 1"

definition GM_LEVEL_KERNEL :: nat where
  "GM_LEVEL_KERNEL = 2"

definition gpu_monitor_new :: "shm_ringbuf \<Rightarrow> gpu_monitor" where
  "gpu_monitor_new rb =
    \<lparr>gm_rb = rb, gm_process = Process (rb_pid (rb_header rb)), gm_last_tp = 0, gm_tree = local_cctx_tree_new,
     gm_functions = [], gm_highest_func = 0\<rparr>"

definition gm_finalize_thread :: "gpu_monitor \<Rightarrow> gpu_monitor result" where
  "gm_finalize_thread m =
    sum_bind (leave_level (gm_last_tp m) GM_LEVEL_PROCESS (gm_tree m)) (\<lambda>(_, t). Inr (m\<lparr>gm_tree := lt_finalize t\<rparr>))"

fun gm_event :: "storage \<Rightarrow> (u64 \<Rightarrow> int) \<Rightarrow> gpu_event \<Rightarrow> gpu_monitor \<Rightarrow> gpu_monitor result" where
  "gm_event junk conv (Kernel start_tp end_tp kernel_id) m =
    sum_bind (cctx_enter_at junk (conv start_tp) GM_LEVEL_PROCESS
        [CC_PROCESS (gm_process m), CC_GPU_KERNEL kernel_id] (gm_tree m)) (\<lambda>t1.
    sum_bind (leave_level (conv end_tp) GM_LEVEL_KERNEL t1) (\<lambda>(_, t2).
      Inr (m\<lparr>gm_tree := t2, gm_last_tp := conv end_tp\<rparr>)))"
| "gm_event junk conv (Kernel_def kernel_id function_name) m =
    Inr (m\<lparr>gm_functions := fst (std_emplace (<) kernel_id function_name (gm_functions m)),
           gm_highest_func := max kernel_id (gm_highest_func m)\<rparr>)"
| "gm_event junk conv (Unknown_event ty) m = Inr m"

text \<open>\<open>monitor\<close>; \<open>None\<close> when the bound on the number of iterations is reached.\<close>

fun gm_monitor :: "nat \<Rightarrow> storage \<Rightarrow> (u64 \<Rightarrow> int) \<Rightarrow> gpu_monitor \<Rightarrow> gpu_monitor result option" where
  "gm_monitor fuel junk conv m =
    (case gpu_top (gm_rb m) of Inl e \<Rightarrow> Some (Inl e)
     | Inr None \<Rightarrow> Some (Inr m)
     | Inr (Some ev) \<Rightarrow>
       case fuel of 0 \<Rightarrow> None
       | Suc n \<Rightarrow>
         case gm_event junk conv ev m of Inl e \<Rightarrow> Some (Inl e)
         | Inr m1 \<Rightarrow>
           case reader_pop (gm_rb m1) of Inl e \<Rightarrow> Some (Inl e)
           | Inr rb \<Rightarrow> gm_monitor n junk conv (m1\<lparr>gm_rb := rb\<rparr>))"

declare gm_monitor.simps [simp del] path_refs.simps [simp del]

section \<open>What the events say\<close>

fun gpu_kernels :: "gpu_event list \<Rightarrow> (u64 \<times> u64 \<times> u64) list" where
  "gpu_kernels [] = []"
| "gpu_kernels (Kernel s e k # evs) = (s, e, k) # gpu_kernels evs"
| "gpu_kernels (_ # evs) = gpu_kernels evs"

fun gpu_defs :: "gpu_event list \<Rightarrow> (u64 \<times> byte list) list" where
  "gpu_defs [] = []"
| "gpu_defs (Kernel_def k f # evs) = (k, f) # gpu_defs evs"
| "gpu_defs (_ # evs) = gpu_defs evs"

definition kernel_ref :: "Process \<Rightarrow> cctx_node \<Rightarrow> u64 \<Rightarrow> nat" where
  "kernel_ref p n k = (case path_refs [CC_PROCESS p, CC_GPU_KERNEL k] n of Some rs \<Rightarrow> last rs | None \<Rightarrow> 0)"

text \<open>The trace that belongs to a list of kernels: the process once, then every kernel entered and left.\<close>

fun kernel_pair :: "(u64 \<Rightarrow> int) \<Rightarrow> Process \<Rightarrow> cctx_node \<Rightarrow> u64 \<times> u64 \<times> u64 \<Rightarrow> cctx_event list" where
  "kernel_pair conv p n (s, e, k) = [Cctx_enter (conv s) (kernel_ref p n k) 2, Cctx_leave (conv e) (kernel_ref p n k)]"

definition kernel_trace :: "(u64 \<Rightarrow> int) \<Rightarrow> Process \<Rightarrow> cctx_node \<Rightarrow> (u64 \<times> u64 \<times> u64) list \<Rightarrow> cctx_event list" where
  "kernel_trace conv p n ks =
    (case ks of [] \<Rightarrow> []
     | x # _ \<Rightarrow> Cctx_enter (conv (fst x)) (case path_refs [CC_PROCESS p] n of Some rs \<Rightarrow> last rs | None \<Rightarrow> 0) 2 #
         concat (map (kernel_pair conv p n) ks))"

definition kernel_known :: "Process \<Rightarrow> cctx_node \<Rightarrow> u64 \<times> u64 \<times> u64 \<Rightarrow> bool" where
  "kernel_known p n x \<longleftrightarrow> path_refs [CC_PROCESS p] n \<noteq> None \<and> path_refs [CC_PROCESS p, CC_GPU_KERNEL (snd (snd x))] n \<noteq> None"

lemma kernel_trace_ext:
  assumes "tree_ext n n'" "\<forall>x \<in> set ks. kernel_known p n x"
  shows "kernel_trace conv p n' ks = kernel_trace conv p n ks \<and> (\<forall>x \<in> set ks. kernel_known p n' x)"
proof -
  have r: "path_refs q n' = path_refs q n" if "path_refs q n \<noteq> None" for q
    using that path_refs_tree_ext[OF assms(1)] by force
  have k: "kernel_pair conv p n' x = kernel_pair conv p n x \<and> kernel_known p n' x" if "x \<in> set ks" for x
    using assms(2) that r by (cases x) (auto simp: kernel_ref_def kernel_known_def)
  then have "map (kernel_pair conv p n') ks = map (kernel_pair conv p n) ks" by simp
  moreover have "path_refs [CC_PROCESS p] n' = path_refs [CC_PROCESS p] n" if "ks \<noteq> []"
    using that assms(2) r by (cases ks) (auto simp: kernel_known_def)
  ultimately show ?thesis
    using k by (cases ks) (simp_all add: kernel_trace_def del: map_eq_conv)
qed

lemma kernel_trace_snoc:
  "ks \<noteq> [] \<Longrightarrow> kernel_trace conv p n (ks @ [x]) = kernel_trace conv p n ks @ kernel_pair conv p n x"
  by (cases ks) (auto simp: kernel_trace_def)

text \<open>Leaving exactly the context entered last.\<close>

lemma leave_last:
  assumes inv: "lt_inv t" and cur: "lt_cur t = xs @ [k]" "xs \<noteq> []" and w: "lt_written t = ws @ [Cctx_enter tp r n]"
  obtains t' where "leave_level tp' (length xs) t = Inr (length xs - 1, t')" "lt_inv t'" "lt_cur t' = xs"
    "lt_written t' = lt_written t @ [Cctx_leave tp' r]" "lt_tree t' = lt_tree t"
proof -
  have len: "1 < length (lt_cur t)" using cur by (cases xs) auto
  obtain r' where r': "ref_at (tl (lt_cur t)) t = Inr r'"
    "lt_inv ((lt_write (Cctx_leave tp' r') t)\<lparr>lt_cur := butlast (lt_cur t)\<rparr>)"
    using lt_inv_pop[OF inv len] .
  let ?t = "(lt_write (Cctx_leave tp' r') t)\<lparr>lt_cur := butlast (lt_cur t)\<rparr>"
  have "replay (lt_written ?t) [] \<noteq> None" using r'(2) by (auto simp: lt_inv_def)
  then have "r' = r" by (auto simp: lt_write_def w replay_append bind_eq_None_conv split: if_splits)
  have "\<not> length xs \<le> length xs - 1" using cur(2) by (cases xs) auto
  then have "leave_level tp' (length xs) ?t = Inr (length xs - 1, ?t)"
    using cur_level_ok[OF r'(2)] by (subst leave_level.simps) (simp add: cur(1))
  moreover have "leave_level tp' (length xs) t = leave_level tp' (length xs) ?t"
    using cur_level_ok[OF inv] cur r'(1) by (subst leave_level.simps) simp
  ultimately show thesis
    using r' \<open>r' = r\<close> by (intro that[of ?t]) (simp_all add: lt_write_def cur(1))
qed

section \<open>One event\<close>

definition gm_shows :: "(u64 \<Rightarrow> int) \<Rightarrow> gpu_event list \<Rightarrow> gpu_monitor \<Rightarrow> bool" where
  "gm_shows conv evs m \<longleftrightarrow> lt_inv (gm_tree m) \<and>
    lt_cur (gm_tree m) = (if gpu_kernels evs = [] then [CC_ROOT] else [CC_ROOT, CC_PROCESS (gm_process m)]) \<and>
    lt_written (gm_tree m) = kernel_trace conv (gm_process m) (lt_tree (gm_tree m)) (gpu_kernels evs) \<and>
    (\<forall>x \<in> set (gpu_kernels evs). kernel_known (gm_process m) (lt_tree (gm_tree m)) x) \<and>
    u64_key.sorted_keys (gm_functions m) \<and> std_lookup (<) (gm_functions m) = map_of (gpu_defs evs)"

lemma gpu_kernels_append: "gpu_kernels (xs @ ys) = gpu_kernels xs @ gpu_kernels ys"
  by (induction xs rule: gpu_kernels.induct) auto

lemma gpu_defs_append: "gpu_defs (xs @ ys) = gpu_defs xs @ gpu_defs ys"
  by (induction xs rule: gpu_defs.induct) auto

lemma push_kernel:
  assumes inv: "lt_inv t" and cur: "lt_cur t = [CC_ROOT, CC_PROCESS p]"
  obtains t' where "push_cctx tp (CC_GPU_KERNEL k) t = Inr t'" "lt_inv t'"
    "lt_cur t' = [CC_ROOT, CC_PROCESS p, CC_GPU_KERNEL k]"
    "lt_written t' = lt_written t @ [Cctx_enter tp (kernel_ref p (lt_tree t') k) 2]"
    "tree_ext (lt_tree t) (lt_tree t')" "kernel_known p (lt_tree t') (a, b, k)"
proof -
  obtain k' t' r where t': "push_cctx tp (CC_GPU_KERNEL k) t = Inr t'" "lt_inv t'" "lt_cur t' = lt_cur t @ [k']"
    "cctx_key.eqv k' (CC_GPU_KERNEL k)" "lt_written t' = lt_written t @ [Cctx_enter tp r 2]"
    "tree_ext (lt_tree t) (lt_tree t')"
    using push_cctx_ok[OF inv, of "CC_GPU_KERNEL k" tp] by blast
  have k': "k' = CC_GPU_KERNEL k"
    using eqv_eq_unless_openmp[of "CC_GPU_KERNEL k" k'] t'(4) cctx_key.eqv_sym by blast
  obtain st where "replay (lt_written t) [] = Some st" "path_refs [CC_PROCESS p] (lt_tree t) = Some st"
    using inv cur by (auto simp: lt_inv_def)
  then have "path_refs [CC_PROCESS p, CC_GPU_KERNEL k] (lt_tree t') = Some (st @ [r])"
    "path_refs [CC_PROCESS p] (lt_tree t') = Some st"
    using t'(2,3,5) cur k' path_refs_tree_ext[OF t'(6)] by (auto simp: lt_inv_def replay_append)
  then have "kernel_ref p (lt_tree t') k = r" "kernel_known p (lt_tree t') (a, b, k)"
    unfolding kernel_ref_def kernel_known_def by simp_all
  with t' k' cur show thesis by (intro that[of t']) simp_all
qed

lemma enter_process:
  assumes inv: "lt_inv t" and cur: "lt_cur t = [CC_ROOT]" and w: "lt_written t = []"
  obtains t' where "handle_enter_cctx_node junk tp 1 (CC_PROCESS p) t = Inr t'" "lt_inv t'"
    "lt_cur t' = [CC_ROOT, CC_PROCESS p]"
    "lt_written t' = [Cctx_enter tp (case path_refs [CC_PROCESS p] (lt_tree t') of Some rs \<Rightarrow> last rs | None \<Rightarrow> 0) 2]"
    "path_refs [CC_PROCESS p] (lt_tree t') \<noteq> None"
proof -
  obtain k t' r where t': "push_cctx tp (CC_PROCESS p) t = Inr t'" "lt_inv t'" "lt_cur t' = lt_cur t @ [k]"
    "cctx_key.eqv k (CC_PROCESS p)" "lt_written t' = lt_written t @ [Cctx_enter tp r 2]"
    using push_cctx_ok[OF inv, of "CC_PROCESS p" tp] by blast
  have k: "k = CC_PROCESS p"
    using eqv_eq_unless_openmp[of "CC_PROCESS p" k] t'(4) cctx_key.eqv_sym by blast
  then have "path_refs [CC_PROCESS p] (lt_tree t') = Some [r]"
    using t'(2,3,5) cur w by (auto simp: lt_inv_def)
  with t' k cur w show thesis
    by (intro that[of t']) (simp_all add: handle_enter_cctx_node_def cur_level_ok[OF inv])
qed

lemma gm_kernel_ok:
  assumes m: "gm_shows conv evs m"
  obtains m' where "gm_event junk conv (Kernel s e k) m = Inr m'" "gm_shows conv (evs @ [Kernel s e k]) m'"
    "gm_rb m' = gm_rb m" "gm_process m' = gm_process m"
proof -
  let ?p = "gm_process m" and ?t = "gm_tree m" and ?ks = "gpu_kernels evs"
  note inv = m[unfolded gm_shows_def, THEN conjunct1]
  define process_events where "process_events n =
    (if ?ks = [] then [Cctx_enter (conv s) (case path_refs [CC_PROCESS ?p] n of Some rs \<Rightarrow> last rs | None \<Rightarrow> 0) 2]
     else kernel_trace conv ?p n ?ks)" for n
  have "\<exists>t1. handle_enter_cctx_node junk (conv s) 1 (CC_PROCESS ?p) ?t = Inr t1 \<and> lt_inv t1 \<and>
      lt_cur t1 = [CC_ROOT, CC_PROCESS ?p] \<and> lt_written t1 = process_events (lt_tree t1) \<and>
      (\<forall>x \<in> set ?ks. kernel_known ?p (lt_tree t1) x) \<and> path_refs [CC_PROCESS ?p] (lt_tree t1) \<noteq> None"
  proof (cases "?ks = []")
    case True
    then have "lt_cur ?t = [CC_ROOT]" "lt_written ?t = []"
      using m by (simp_all add: gm_shows_def kernel_trace_def)
    from enter_process[OF inv this, of junk "conv s" ?p] True show ?thesis
      by (metis process_events_def empty_iff list.set(1))
  next
    case False
    then have "handle_enter_cctx_node junk (conv s) 1 (CC_PROCESS ?p) ?t = Inr ?t"
      using m by (simp add: gm_shows_def handle_enter_cctx_node_def cur_level_ok cctx_ne_same_type)
    moreover have "path_refs [CC_PROCESS ?p] (lt_tree ?t) \<noteq> None"
      using m False by (auto simp: gm_shows_def lt_inv_def)
    ultimately show ?thesis using m False by (simp add: gm_shows_def process_events_def)
  qed
  then obtain t1 where t1: "handle_enter_cctx_node junk (conv s) 1 (CC_PROCESS ?p) ?t = Inr t1" "lt_inv t1"
    "lt_cur t1 = [CC_ROOT, CC_PROCESS ?p]" "lt_written t1 = process_events (lt_tree t1)"
    "\<forall>x \<in> set ?ks. kernel_known ?p (lt_tree t1) x" "path_refs [CC_PROCESS ?p] (lt_tree t1) \<noteq> None" by blast
  obtain t2 where t2: "push_cctx (conv s) (CC_GPU_KERNEL k) t1 = Inr t2" "lt_inv t2"
    "lt_cur t2 = [CC_ROOT, CC_PROCESS ?p, CC_GPU_KERNEL k]"
    "lt_written t2 = lt_written t1 @ [Cctx_enter (conv s) (kernel_ref ?p (lt_tree t2) k) 2]"
    "tree_ext (lt_tree t1) (lt_tree t2)" "kernel_known ?p (lt_tree t2) (s, e, k)"
    using push_kernel[OF t1(2,3)] .
  obtain t3 where t3: "leave_level (conv e) 2 t2 = Inr (1, t3)" "lt_inv t3" "lt_cur t3 = [CC_ROOT, CC_PROCESS ?p]"
    "lt_written t3 = lt_written t2 @ [Cctx_leave (conv e) (kernel_ref ?p (lt_tree t2) k)]" "lt_tree t3 = lt_tree t2"
    using leave_last[OF t2(2) _ _ t2(4), of "[CC_ROOT, CC_PROCESS ?p]" "CC_GPU_KERNEL k" "conv e"] t2(3)
    by (auto simp: numeral_2_eq_2)
  have ext: "process_events (lt_tree t2) = process_events (lt_tree t1)" "\<forall>x \<in> set ?ks. kernel_known ?p (lt_tree t2) x"
    using kernel_trace_ext[OF t2(5) t1(5)] path_refs_tree_ext[OF t2(5)] t1(6) by (auto simp: process_events_def)
  let ?m = "m\<lparr>gm_tree := t3, gm_last_tp := conv e\<rparr>"
  have "gm_event junk conv (Kernel s e k) m = Inr ?m"
    using t1(1,3) t2(1) t3(1)
    by (simp add: GM_LEVEL_PROCESS_def GM_LEVEL_KERNEL_def handle_enter_cctx_node_def[of _ _ "Suc (Suc 0)"] cur_level_ok[OF t1(2)])
  moreover have "process_events n @ kernel_pair conv ?p n (s, e, k) = kernel_trace conv ?p n (?ks @ [(s, e, k)])" for n
    by (cases "?ks = []") (simp_all add: process_events_def kernel_trace_snoc, simp add: kernel_trace_def)
  then have "lt_written t3 = kernel_trace conv ?p (lt_tree t3) (?ks @ [(s, e, k)])"
    using t3(4,5) t2(4) t1(4) ext(1) by (metis append_assoc append_Cons append_Nil kernel_pair.simps)
  then have "gm_shows conv (evs @ [Kernel s e k]) ?m"
    using m t3 t2(6) ext(2) by (simp add: gm_shows_def gpu_kernels_append gpu_defs_append)
  ultimately show thesis by (intro that[of ?m]) simp_all
qed

lemma gm_def_ok:
  assumes "gm_shows conv evs m"
  shows "\<exists>m'. gm_event junk conv (Kernel_def k f) m = Inr m' \<and> gm_shows conv (evs @ [Kernel_def k f]) m' \<and>
    gm_rb m' = gm_rb m \<and> gm_process m' = gm_process m"
proof -
  have s: "u64_key.sorted_keys (gm_functions m)" "std_lookup (<) (gm_functions m) = map_of (gpu_defs evs)"
    using assms by (simp_all add: gm_shows_def)
  have "std_lookup (<) (fst (std_emplace (<) k f (gm_functions m))) = map_of (gpu_defs evs @ [(k, f)])"
    using u64_key.std_lookup_emplace[OF s(1), of k f] s(2)
    by (auto simp: fun_eq_iff map_add_def split: option.split)
  then show ?thesis
    using assms u64_key.std_emplace_sorted[OF s(1), of k f]
    by (simp add: gm_shows_def gpu_kernels_append gpu_defs_append)
qed

section \<open>The loop\<close>

text \<open>The bytes of the events in the buffer.\<close>

fun gpu_bytes :: "gpu_event \<Rightarrow> byte list" where
  "gpu_bytes (Kernel s e k) = kernel_event s e k"
| "gpu_bytes (Kernel_def k f) = kernel_def_event f k"
| "gpu_bytes (Unknown_event ty) = []"

fun gpu_reported :: "gpu_event \<Rightarrow> bool" where
  "gpu_reported (Kernel s e k) = True"
| "gpu_reported (Kernel_def k f) = (0 \<notin> set f)"
| "gpu_reported (Unknown_event ty) = False"

lemma gm_event_ok:
  assumes "gm_shows conv evs m" "gpu_reported ev"
  obtains m' where "gm_event junk conv ev m = Inr m'" "gm_shows conv (evs @ [ev]) m'" "gm_rb m' = gm_rb m"
    "gm_process m' = gm_process m"
proof (cases ev)
  case (Kernel s e k)
  then show thesis using gm_kernel_ok[OF assms(1), of junk s e k] that by metis
next
  case (Kernel_def k f)
  then show thesis using gm_def_ok[OF assms(1), of junk k f] that by metis
qed (use assms(2) in simp)

lemma gpu_top_bytes:
  assumes "rb_inv rb" "rb_events rb = gpu_bytes ev # es" "gpu_reported ev"
  shows "gpu_top rb = Inr (Some ev)"
  using assms by (cases ev) (auto simp: gpu_top_kernel gpu_top_kernel_def)

lemma gpu_top_empty: "rb_inv rb \<Longrightarrow> rb_events rb = [] \<Longrightarrow> gpu_top rb = Inr None"
  by (simp add: gpu_top_def reader_empty_eq)

lemma gm_monitor_ok:
  assumes "gm_shows conv evs m" "rb_inv (gm_rb m)" "rb_events (gm_rb m) = map gpu_bytes new"
    "list_all gpu_reported new" "length new \<le> fuel"
  shows "\<exists>m'. gm_monitor fuel junk conv m = Some (Inr m') \<and> gm_shows conv (evs @ new) m' \<and>
    gm_process m' = gm_process m \<and> rb_inv (gm_rb m') \<and> rb_events (gm_rb m') = []"
  using assms
proof (induction new arbitrary: m evs fuel)
  case Nil
  then show ?case by (subst gm_monitor.simps) (simp add: gpu_top_empty)
next
  case (Cons ev new)
  obtain n where n: "fuel = Suc n" using Cons.prems(5) by (cases fuel) auto
  have top: "gpu_top (gm_rb m) = Inr (Some ev)"
    using gpu_top_bytes[OF Cons.prems(2)] Cons.prems(3,4) by simp
  obtain m1 where m1: "gm_event junk conv ev m = Inr m1" "gm_shows conv (evs @ [ev]) m1" "gm_rb m1 = gm_rb m"
    "gm_process m1 = gm_process m"
    using gm_event_ok[OF Cons.prems(1), of ev junk] Cons.prems(4) by auto
  obtain rb where rb: "reader_pop (gm_rb m) = Inr rb" "rb_inv rb" "rb_events rb = map gpu_bytes new"
    using reader_pop_cons[OF Cons.prems(2), of "gpu_bytes ev" "map gpu_bytes new"] Cons.prems(3) by auto
  let ?m = "m1\<lparr>gm_rb := rb\<rparr>"
  have "gm_shows conv (evs @ [ev]) ?m" using m1(2) by (simp add: gm_shows_def)
  then obtain m' where "gm_monitor n junk conv ?m = Some (Inr m')" "gm_shows conv ((evs @ [ev]) @ new) m'"
    "gm_process m' = gm_process m" "rb_inv (gm_rb m')" "rb_events (gm_rb m') = []"
    using Cons.IH[of "evs @ [ev]" ?m n] rb m1(4) Cons.prems(4,5) n by auto
  moreover have "gm_monitor fuel junk conv m = gm_monitor n junk conv ?m"
    using top m1(1,3) rb(1) n by (subst gm_monitor.simps) simp
  ultimately show ?case by auto
qed

section \<open>Properties\<close>

text \<open>
  C10. From the ring buffer to the trace: the GPU monitor drains the buffer, enters the process at the
  first kernel and then writes every kernel as an enter and a leave event with the converted start and
  end times and the reference of the kernel's node, in the order of the buffer. The name of a kernel is
  that of its first definition. Finishing leaves no context open.
\<close>
theorem gpu_monitor_kernels:
  assumes "rb_inv rb" "rb_events rb = map gpu_bytes evs" "list_all gpu_reported evs" "length evs \<le> fuel"
  shows "\<exists>m m'. gm_monitor fuel junk conv (gpu_monitor_new rb) = Some (Inr m) \<and> rb_events (gm_rb m) = [] \<and>
    lt_written (gm_tree m) =
      kernel_trace conv (Process (rb_pid (rb_header rb))) (lt_tree (gm_tree m)) (gpu_kernels evs) \<and>
    (\<forall>k. std_lookup (<) (gm_functions m) k = map_of (gpu_defs evs) k) \<and>
    gm_finalize_thread m = Inr m' \<and> replay (lt_written (gm_tree m')) [] = Some []"
proof -
  have "gm_shows conv [] (gpu_monitor_new rb)"
    using local_cctx_tree_new_inv
    by (simp add: gm_shows_def gpu_monitor_new_def kernel_trace_def local_cctx_tree_new_def std_lookup_def fun_eq_iff)
  then obtain m where m: "gm_monitor fuel junk conv (gpu_monitor_new rb) = Some (Inr m)" "gm_shows conv evs m"
    "gm_process m = Process (rb_pid (rb_header rb))" "rb_events (gm_rb m) = []"
    using gm_monitor_ok[of conv "[]" "gpu_monitor_new rb" evs fuel junk] assms by (auto simp: gpu_monitor_new_def)
  have inv: "lt_inv (gm_tree m)" using m(2) by (simp add: gm_shows_def)
  obtain t' where t': "leave_level (gm_last_tp m) 1 (gm_tree m) = Inr (length (lt_cur t') - 1, t')" "lt_inv t'"
    "lt_cur t' = take 1 (lt_cur (gm_tree m))"
    using leave_level_ok[OF inv, of "gm_last_tp m" 1] by auto
  moreover from this have "replay (lt_written t') [] = Some []"
    using inv by (cases "lt_cur (gm_tree m)") (auto simp: lt_inv_def path_refs.simps)
  ultimately have "gm_finalize_thread m = Inr (m\<lparr>gm_tree := lt_finalize t'\<rparr>)"
    "replay (lt_written (lt_finalize t')) [] = Some []"
    by (simp_all add: gm_finalize_thread_def GM_LEVEL_PROCESS_def lt_finalize_def)
  then show ?thesis
    using m by (intro exI[of _ m] exI[of _ "m\<lparr>gm_tree := lt_finalize t'\<rparr>"]) (simp add: gm_shows_def)
qed

lemma example_kernel:
  "\<exists>w. gpu_kernel fresh_writer 5 9 3 = Inr (True, w) \<and> rb_inv (rw_rb w) \<and> rb_events (rw_rb w) = [gpu_bytes (Kernel 5 9 3)]"
proof -
  have u: "unat (40 :: u64) = 40" by simp
  have used: "used (rw_rb fresh_writer) = 0" "unat (hsize (rw_rb fresh_writer)) = 65536"
    using rb_invD(4)[OF fresh_inv(1)] fresh_inv(2) by (simp_all add: fresh_writer_def) (simp add: fresh_rb_def)
  have sp: "has_space (rw_rb fresh_writer) 40" "\<not> exact_fill (rw_rb fresh_writer) 40"
    using used by (auto simp: exact_fill_def up8_def intro: has_spaceI)
  have ok: "fields_ok 40 [(8, le64 0), (16, le64 5), (24, le64 9), (32, le64 3)]"
    by (simp add: fields_ok_def)
  have i: "rb_inv (rw_rb fresh_writer)" "reserved_size fresh_writer = 0" "rb_events (rw_rb fresh_writer) = []"
    by (simp_all add: fresh_writer_def fresh_inv)
  show ?thesis
    using send_result[OF _ i(1,2), of sizeof_kernel 0 40, unfolded u, OF _ _ _ ok] sp i(3)
    by (auto simp: gpu_kernel_def sizeof_kernel_def kernel_event_bytes)
qed

theorem gpu_monitor_kernels_witness:
  "\<exists>w m m'. gpu_kernel fresh_writer 5 9 3 = Inr (True, w) \<and>
    gm_monitor 4 (0, 0, 0) uint (gpu_monitor_new (rw_rb w)) = Some (Inr m) \<and> rb_events (gm_rb m) = [] \<and>
    lt_written (gm_tree m) =
      kernel_trace uint (Process (rb_pid (rb_header (rw_rb w)))) (lt_tree (gm_tree m)) (gpu_kernels [Kernel 5 9 3]) \<and>
    (\<forall>k. std_lookup (<) (gm_functions m) k = map_of (gpu_defs [Kernel 5 9 3]) k) \<and>
    gm_finalize_thread m = Inr m' \<and> replay (lt_written (gm_tree m')) [] = Some []"
proof -
  obtain w where w: "gpu_kernel fresh_writer 5 9 3 = Inr (True, w)" "rb_inv (rw_rb w)"
    "rb_events (rw_rb w) = map gpu_bytes [Kernel 5 9 3]"
    using example_kernel by auto
  show ?thesis
    using gpu_monitor_kernels[OF w(2,3), of 4 "(0, 0, 0)" uint] w(1) by auto
qed

end
