(* ===== verification/Regex.thy ===== *)
theory Regex
  imports Main
begin

text \<open>
  The part of \<^verbatim>\<open>std::regex\<close> (ECMAScript grammar) the parsers of lo2s use: character classes, their greedy
  repetition, optional parts, alternatives, sequences and capture groups. A match tries the choices in
  the order of the standard, the first complete one counts.
\<close>

datatype regex =
    Nothing
  | Cls "char \<Rightarrow> bool"
  | Star "char \<Rightarrow> bool"
  | Opt regex
  | Alt regex regex
  | Seq regex regex
  | Group regex

primrec group_count :: "regex \<Rightarrow> nat" where
  "group_count Nothing = 0"
| "group_count (Cls p) = 0"
| "group_count (Star p) = 0"
| "group_count (Opt r) = group_count r"
| "group_count (Alt r q) = group_count r + group_count q"
| "group_count (Seq r q) = group_count r + group_count q"
| "group_count (Group r) = Suc (group_count r)"

text \<open>
  The ways to match a prefix, in the order they are tried: the captured strings and the rest of the
  input. A group that takes no part in the match captures the empty string.
\<close>

primrec re_run :: "regex \<Rightarrow> string \<Rightarrow> (string list \<times> string) list" where
  "re_run Nothing s = [([], s)]"
| "re_run (Cls p) s = (case s of [] \<Rightarrow> [] | c # cs \<Rightarrow> if p c then [([], cs)] else [])"
| "re_run (Star p) s = map (\<lambda>k. ([], drop k s)) (rev [0..<Suc (length (takeWhile p s))])"
| "re_run (Opt r) s = re_run r s @ [(replicate (group_count r) [], s)]"
| "re_run (Alt r q) s =
    map (\<lambda>(g, t). (g @ replicate (group_count q) [], t)) (re_run r s) @
    map (\<lambda>(g, t). (replicate (group_count r) [] @ g, t)) (re_run q s)"
| "re_run (Seq r q) s = concat (map (\<lambda>(g, t). map (\<lambda>(h, u). (g @ h, u)) (re_run q t)) (re_run r s))"
| "re_run (Group r) s = map (\<lambda>(g, t). (take (length s - length t) s # g, t)) (re_run r s)"

definition regex_match :: "regex \<Rightarrow> string \<Rightarrow> string list option" where
  "regex_match r s = (case filter (\<lambda>(g, t). t = []) (re_run r s) of [] \<Rightarrow> None | (g, t) # _ \<Rightarrow> Some g)"

abbreviation Plus :: "(char \<Rightarrow> bool) \<Rightarrow> regex" where
  "Plus p \<equiv> Seq (Cls p) (Star p)"

text \<open>The dot: every character but the line terminators.\<close>

definition re_dot :: "char \<Rightarrow> bool" where
  "re_dot c \<longleftrightarrow> c \<noteq> CHR 0x0A \<and> c \<noteq> CHR 0x0D"

definition re_lit :: "string \<Rightarrow> regex" where
  "re_lit s = foldr (\<lambda>c. Seq (Cls ((=) c))) s Nothing"

definition re_seq :: "regex list \<Rightarrow> regex" where
  "re_seq rs = foldr Seq rs Nothing"

lemma re_seq_simps [simp]: "re_seq [] = Nothing" "re_seq (r # rs) = Seq r (re_seq rs)"
  by (simp_all add: re_seq_def)

text \<open>Every match splits the input, and every group captures a part of it.\<close>

lemma re_run_suffix: "(g, t) \<in> set (re_run r s) \<Longrightarrow> \<exists>u. s = u @ t"
proof (induction r arbitrary: s g t)
  case (Star p)
  then show ?case by (auto intro: append_take_drop_id[symmetric])
next
  case (Seq r q)
  then obtain g' t' h where "(g', t') \<in> set (re_run r s)" "(h, t) \<in> set (re_run q t')" by auto
  with Seq.IH show ?case by (metis append_assoc)
qed (auto split: list.splits if_splits)

lemma re_run_groups: "(g, t) \<in> set (re_run r s) \<Longrightarrow> length g = group_count r"
proof (induction r arbitrary: s g t)
  case (Seq r q)
  then show ?case by fastforce
qed (auto split: list.splits if_splits)

lemma regex_match_groups: "regex_match r s = Some g \<Longrightarrow> length g = group_count r"
  unfolding regex_match_def
  by (auto split: list.splits dest!: filter_eq_ConsD) (metis in_set_conv_decomp re_run_groups)

end
