(* ===== verification/Proc_Util.thy ===== *)
theory Proc_Util
  imports Address_Range Text_Format Scopes Regex "HOL-Library.Signed_Division"
begin

text \<open>
  The helpers of \<^verbatim>\<open>src/util.cpp\<close> that compute something: lists of numbers, names of threads and processes,
  file mappings from the proc file system, the cgroup mount point, timers. Contents of files are
  arguments, \<open>None\<close> when a file can not be opened.
\<close>

section \<open>Reading words and lines\<close>

definition first_word :: "string \<Rightarrow> string" where
  "first_word s = takeWhile (\<lambda>c. \<not> is_space c) (dropWhile is_space s)"

text \<open>\<^verbatim>\<open>std::getline\<close> until the end of the input; a delimiter at the end opens no further part.\<close>

function getline_parts :: "char \<Rightarrow> string \<Rightarrow> string list" where
  "getline_parts d s =
    (if s = [] then []
     else takeWhile (\<lambda>c. c \<noteq> d) s #
       (case dropWhile (\<lambda>c. c \<noteq> d) s of [] \<Rightarrow> [] | _ # r \<Rightarrow> getline_parts d r))"
  by auto
termination
  by (relation "measure (\<lambda>(d, s). length s)")
    (auto, metis dropWhile_eq_drop length_drop length_Cons Suc_le_lessD diff_le_self)

declare getline_parts.simps [simp del]

definition starts_with :: "string \<Rightarrow> string \<Rightarrow> bool" where
  "starts_with s prefix \<longleftrightarrow> take (length prefix) s = prefix"

fun find_sub :: "string \<Rightarrow> string \<Rightarrow> nat option" where
  "find_sub [] sub = (if sub = [] then Some 0 else None)"
| "find_sub (c # cs) sub = (if starts_with (c # cs) sub then Some 0 else map_option Suc (find_sub cs sub))"

text \<open>\<open>operator/\<close> of \<^verbatim>\<open>std::filesystem::path\<close>.\<close>

definition path_append :: "string \<Rightarrow> string \<Rightarrow> string" where
  "path_append a b =
    (if starts_with b ''/'' then b else if a = [] \<or> last a = CHR ''/'' then a @ b else a @ ''/'' @ b)"

section \<open>Lists of numbers\<close>

text \<open>
  The loop over a range. The comparison is always true for the largest number, so the loop may not
  end; then there is no result.
\<close>

partial_function (option) insert_range :: "u32 \<Rightarrow> u32 \<Rightarrow> u32 list \<Rightarrow> u32 list option" where
  "insert_range i to res = (if i \<le> to then insert_range (i + 1) to (insort_insert i res) else Some res)"

definition parse_part :: "string \<Rightarrow> u32 list \<Rightarrow> u32 list result option" where
  "parse_part part res =
    (if CHR ''-'' \<in> set part
     then
       let pos = length (takeWhile (\<lambda>c. c \<noteq> CHR ''-'') part) in
       case stoi (take pos part) of Inl e \<Rightarrow> Some (Inl e)
       | Inr from \<Rightarrow>
         case stoi (drop (pos + 1) part) of Inl e \<Rightarrow> Some (Inl e)
         | Inr to \<Rightarrow> map_option Inr (insert_range (word_of_int from) (word_of_int to) res)
     else
       case stoi part of Inl e \<Rightarrow> Some (Inl e) | Inr v \<Rightarrow> Some (Inr (insort_insert (word_of_int v) res)))"

fun parse_parts :: "string list \<Rightarrow> u32 list \<Rightarrow> u32 list result option" where
  "parse_parts [] res = Some (Inr res)"
| "parse_parts (part # ps) res =
    (case parse_part part res of None \<Rightarrow> None
     | Some (Inl e) \<Rightarrow> Some (Inl e)
     | Some (Inr res') \<Rightarrow> parse_parts ps res')"

definition parse_list :: "string \<Rightarrow> u32 list result option" where
  "parse_list list = parse_parts (getline_parts (CHR '','') list) []"

definition parse_list_from_file :: "string option \<Rightarrow> u32 list result option" where
  "parse_list_from_file file =
    (case file of None \<Rightarrow> Some (Inr [])
     | Some content \<Rightarrow> if first_word content = [] then Some (Inr []) else parse_list (first_word content))"

section \<open>Names\<close>

definition read_file :: "string option \<Rightarrow> string option" where
  "read_file file = (case file of None \<Rightarrow> None | Some s \<Rightarrow> if first_word s = [] then None else Some (first_word s))"

definition get_process_comm :: "(Process \<Rightarrow> string option) \<Rightarrow> Process \<Rightarrow> string" where
  "get_process_comm comm_file process =
    (case read_file (comm_file process) of Some name \<Rightarrow> name
     | None \<Rightarrow> ''[process '' @ show_int (process_as_int process) @ '']'')"

definition get_task_comm :: "(Process \<Rightarrow> Thread \<Rightarrow> string option) \<Rightarrow> Process \<Rightarrow> Thread \<Rightarrow> string" where
  "get_task_comm comm_file process thread =
    (case read_file (comm_file process thread) of Some name \<Rightarrow> name
     | None \<Rightarrow> ''[thread '' @ show_int (thread_as_int thread) @ '']'')"

text \<open>
  \<open>get_comms_for_running_threads\<close>: the names in \<^verbatim>\<open>/proc\<close> in the order they are listed, and for every process
  the names in its task directory, \<open>None\<close> when that can not be read.
\<close>

definition task_comms ::
    "(Process \<Rightarrow> Thread \<Rightarrow> string option) \<Rightarrow> Process \<Rightarrow> string list \<Rightarrow> (Thread, string) std_map \<Rightarrow> (Thread, string) std_map" where
  "task_comms comm_file process names m =
    fold (\<lambda>name m. case stoi name of Inl e \<Rightarrow> m
      | Inr tid \<Rightarrow> fst (std_emplace thread_less (Thread tid) (get_task_comm comm_file process (Thread tid)) m)) names m"

definition get_comms_for_running_threads ::
    "(Process \<Rightarrow> Thread \<Rightarrow> string option) \<Rightarrow> (string \<times> string list option) list \<Rightarrow>
      (Process, (Thread, string) std_map) std_map" where
  "get_comms_for_running_threads comm_file entries =
    fold (\<lambda>(name, tasks) ret. case stoi name of Inl e \<Rightarrow> ret
      | Inr pid \<Rightarrow>
        let ret1 = fst (std_emplace process_less (Process pid) [] ret) in
        case tasks of None \<Rightarrow> ret1
        | Some names \<Rightarrow> std_update process_less (Process pid) (task_comms comm_file (Process pid) names) ret1)
      entries []"

text \<open>The arguments in a \<^verbatim>\<open>cmdline\<close> file, which end with zero characters.\<close>

function split_nul :: "string \<Rightarrow> string list" where
  "split_nul s =
    (if s = [] then [] else
     let arg = takeWhile (\<lambda>c. c \<noteq> CHR 0x00) s in arg # split_nul (drop (length arg + 1) s))"
  by auto
termination by (relation "measure length") (auto simp: Let_def)

declare split_nul.simps [simp del]

definition get_thread_cmdline :: "string option \<Rightarrow> string list" where
  "get_thread_cmdline file = (case file of None \<Rightarrow> [] | Some s \<Rightarrow> split_nul (first_word s))"

fun nec_name :: "string list \<Rightarrow> string option" where
  "nec_name (a # b # rest) = (if a = ''--'' then Some b else nec_name (b # rest))"
| "nec_name _ = None"

definition get_nec_thread_comm :: "(Thread \<Rightarrow> string option) \<Rightarrow> Thread \<Rightarrow> string" where
  "get_nec_thread_comm cmdline thread =
    (let args = get_thread_cmdline (cmdline thread) in
     case nec_name args of Some name \<Rightarrow> name @ '' ('' @ show_int (thread_as_int thread) @ '')''
     | None \<Rightarrow> concat args)"

definition is_kernel_thread :: "string option \<Rightarrow> bool" where
  "is_kernel_thread cmdline = (case cmdline of None \<Rightarrow> False | Some s \<Rightarrow> first_word s = [])"

section \<open>Mappings of a process\<close>

definition is_hex :: "char \<Rightarrow> bool" where
  "is_hex c \<longleftrightarrow> is_digit c \<or> (97 \<le> (of_char c :: nat) \<and> (of_char c :: nat) \<le> 102)"

definition hex_value :: "string \<Rightarrow> nat" where
  "hex_value s = foldl (\<lambda>acc c. 16 * acc + (if is_digit c then digit_value c else of_char c - 87)) 0 s"

text \<open>
  \<open>Address(const std::string&)\<close> on a string without signs and capital letters: the hexadecimal number at
  its start, 0 when there is none, the largest number when it does not fit.
\<close>

definition address_of_string :: "string \<Rightarrow> u64" where
  "address_of_string s =
    (let t = (if starts_with s ''0x'' then drop 2 s else s); ds = takeWhile is_hex t in
     if 2 ^ 64 \<le> hex_value ds then UINT64_MAX else word_of_nat (hex_value ds))"

definition lower_or_digit :: "char \<Rightarrow> bool" where
  "lower_or_digit c \<longleftrightarrow> is_digit c \<or> (97 \<le> (of_char c :: nat) \<and> (of_char c :: nat) \<le> 122)"

definition maps_regex :: regex where
  "maps_regex = re_seq
    [Group (Plus is_hex), re_lit ''-'', Group (Plus is_hex), Plus is_space,
     Cls (\<lambda>c. c = CHR ''r'' \<or> c = CHR ''-''), Cls (\<lambda>c. c = CHR ''w'' \<or> c = CHR ''-''),
     Cls (\<lambda>c. c = CHR ''x'' \<or> c = CHR ''-''), Opt (Cls re_dot), Plus is_space, Group (Plus lower_or_digit),
     Plus is_space, Plus (\<lambda>c. \<not> is_space c), Plus is_space, Plus is_digit, Plus is_space, Group (Star re_dot)]"

fun read_maps_lines :: "string list \<Rightarrow> (Mapping, string) std_map \<Rightarrow> (Mapping, string) std_map result" where
  "read_maps_lines [] m = Inr m"
| "read_maps_lines (line # ls) m =
    (case regex_match maps_regex line of
       Some [s, e, off, name] \<Rightarrow>
         sum_bind (Mapping_new (address_of_string s) (address_of_string e) (address_of_string off)) (\<lambda>mp.
           read_maps_lines ls (fst (std_emplace mapping_less mp name m)))
     | _ \<Rightarrow> read_maps_lines ls m)"

definition read_maps :: "string list option \<Rightarrow> (Mapping, string) std_map result" where
  "read_maps file = (case file of None \<Rightarrow> Inr [] | Some lines \<Rightarrow> read_maps_lines lines [])"

definition known_non_executable :: "string \<Rightarrow> bool" where
  "known_non_executable filename \<longleftrightarrow>
    filename = [] \<or> filename = ''//anon'' \<or> filename = ''/dev/zero'' \<or> filename = ''/anon_hugepage'' \<or>
    starts_with filename ''/memfd'' \<or> starts_with filename ''/SYSV'' \<or> starts_with filename ''['' \<or>
    starts_with filename ''/dev''"

section \<open>The rest\<close>

text \<open>
  \<open>get_cgroup_mountpoint_fd\<close>; \<open>open_fd\<close> is \<^verbatim>\<open>open\<close> for reading. The result of \<^verbatim>\<open>find\<close> is used as a truth value: it
  is false only at position 0.
\<close>

definition mounts_regex :: regex where
  "mounts_regex =
    (let word = Group (Plus (\<lambda>c. \<not> is_space c)); gap = Plus is_space in
     re_seq [word, gap, word, gap, word, gap, word, gap, word, gap, word])"

fun get_cgroup_mountpoint_fd :: "(string \<Rightarrow> int) \<Rightarrow> string \<Rightarrow> string list \<Rightarrow> int" where
  "get_cgroup_mountpoint_fd open_fd cgroup [] = - 1"
| "get_cgroup_mountpoint_fd open_fd cgroup (line # ls) =
    (case regex_match mounts_regex line of
       Some [device, mountpoint, fs_type, options, freq, passno] \<Rightarrow>
         if fs_type = ''cgroup2'' \<or> (fs_type = ''cgroup'' \<and> find_sub options ''perf_event'' \<noteq> Some 0)
         then
           let fd = open_fd (path_append mountpoint cgroup) in
           if fd \<noteq> - 1 then fd else get_cgroup_mountpoint_fd open_fd cgroup ls
         else get_cgroup_mountpoint_fd open_fd cgroup ls
     | _ \<Rightarrow> get_cgroup_mountpoint_fd open_fd cgroup ls)"

record itimerspec =
  it_value_nsec :: int
  it_interval_sec :: int
  it_interval_nsec :: int

definition timer_spec :: "int \<Rightarrow> itimerspec" where
  "timer_spec duration =
    \<lparr>it_value_nsec = 1, it_interval_sec = duration sdiv 1000000000, it_interval_nsec = duration smod 1000000000\<rparr>"

text \<open>The results of the two system calls: \<open>Inl\<close> an error number.\<close>

definition timerfd_from_ns :: "int + int \<Rightarrow> (int \<Rightarrow> itimerspec \<Rightarrow> int option) \<Rightarrow> int \<Rightarrow> int result" where
  "timerfd_from_ns created settime duration =
    (case created of Inl errno \<Rightarrow> Inl (System_error errno)
     | Inr fd \<Rightarrow> case settime fd (timer_spec duration) of Some errno \<Rightarrow> Inl (System_error errno) | None \<Rightarrow> Inr fd)"

text \<open>\<^verbatim>\<open>timeradd\<close> and the CPU time of the process and its children.\<close>

type_synonym timeval = "int \<times> int"

definition timeradd :: "timeval \<Rightarrow> timeval \<Rightarrow> timeval" where
  "timeradd a b =
    (let s = fst a + fst b; u = snd a + snd b in if u \<ge> 1000000 then (s + 1, u - 1000000) else (s, u))"

definition get_cpu_time :: "(timeval \<times> timeval) option \<Rightarrow> (timeval \<times> timeval) option \<Rightarrow> int" where
  "get_cpu_time usage child_usage =
    (case (usage, child_usage) of
       (Some (ut, st), Some (cu, cs)) \<Rightarrow>
         let t = timeradd (timeradd (timeradd ut st) cu) cs in 1000000 * fst t + snd t
     | _ \<Rightarrow> 0)"

section \<open>Parsing lists\<close>

lemma insert_range_ok:
  assumes "to \<noteq> - 1"
  shows "\<exists>res'. insert_range i to res = Some res' \<and> set res' = set res \<union> {i..to} \<and>
    (sorted res \<longrightarrow> sorted res') \<and> (distinct res \<longrightarrow> distinct res')"
proof (induction "unat to + 1 - unat i" arbitrary: i res rule: less_induct)
  case less
  show ?case
  proof (cases "i \<le> to")
    case True
    have "i \<noteq> - 1" using True assms word_order.extremum_uniqueI by auto
    then have i: "unat (i + 1) = unat i + 1"
      using unatSuc[of i] by (simp add: add.commute[of 1] eq_neg_iff_add_eq_0[of i 1])
    have ivl: "{i..to} = insert i {i + 1..to}"
      using True i by (auto simp: word_le_nat_alt word_unat_eq_iff)
    have "unat to + 1 - unat (i + 1) < unat to + 1 - unat i" using True i by (simp add: word_le_nat_alt)
    then obtain res' where "insert_range (i + 1) to (insort_insert i res) = Some res'"
      "set res' = set (insort_insert i res) \<union> {i + 1..to}" "sorted (insort_insert i res) \<longrightarrow> sorted res'"
      "distinct (insort_insert i res) \<longrightarrow> distinct res'"
      using less.hyps by metis
    with True ivl show ?thesis
      by (subst insert_range.simps) (auto simp: set_insort_insert sorted_insort_insert distinct_insort_insert)
  next
    case False
    then show ?thesis by (subst insert_range.simps) auto
  qed
qed

lemma insert_range_diverges: "insert_range i (- 1) res = None"
proof (rule ccontr)
  assume "insert_range i (- 1) res \<noteq> None"
  then obtain y where "insert_range i (- 1) res = Some y" by blast
  then have "\<not> (- 1 :: u32) = - 1"
    by (induction rule: insert_range.raw_induct[of "\<lambda>i to res y. to \<noteq> - 1" i "- 1" res y, rotated, consumes 1])
      (auto split: if_splits)
  then show False by simp
qed

text \<open>What the kernel writes: numbers and ranges, separated by commas.\<close>

datatype list_item = One nat | Span nat nat

fun item_bound :: "list_item \<Rightarrow> nat" where
  "item_bound (One n) = n"
| "item_bound (Span a b) = max a b"

fun show_item :: "list_item \<Rightarrow> string" where
  "show_item (One n) = show_nat n"
| "show_item (Span a b) = show_nat a @ ''-'' @ show_nat b"

fun item_set :: "list_item \<Rightarrow> u32 set" where
  "item_set (One n) = {word_of_nat n}"
| "item_set (Span a b) = {w. a \<le> unat w \<and> unat w \<le> b}"

fun join :: "char \<Rightarrow> string list \<Rightarrow> string" where
  "join d [] = []"
| "join d [p] = p"
| "join d (p # ps) = p @ d # join d ps"

lemma getline_parts_join:
  assumes "\<forall>p \<in> set ps. p \<noteq> [] \<and> d \<notin> set p"
  shows "getline_parts d (join d ps) = ps"
  using assms
proof (induction d ps rule: join.induct)
  case (1 d)
  then show ?case by (simp add: getline_parts.simps)
next
  case (2 d p)
  then have "takeWhile (\<lambda>c. c \<noteq> d) p = p" "dropWhile (\<lambda>c. c \<noteq> d) p = []" by (auto simp: takeWhile_eq_all_conv)
  with 2 show ?case by (subst getline_parts.simps) (simp del: dropWhile_eq_Nil_conv)
next
  case (3 d p q ps)
  then have "takeWhile (\<lambda>c. c \<noteq> d) (p @ d # join d (q # ps)) = p"
    "dropWhile (\<lambda>c. c \<noteq> d) (p @ d # join d (q # ps)) = d # join d (q # ps)"
    by (simp_all add: takeWhile_append dropWhile_append)
  with 3 show ?case by (simp add: getline_parts.simps[of d "p @ d # join d (q # ps)"])
qed

lemma digits_no_sep: "\<not> is_digit d \<Longrightarrow> d \<notin> set (show_nat n)"
  using show_nat_digits by blast

lemma parse_part_item:
  assumes "item_bound it < 2 ^ 31" "sorted res" "distinct res"
  shows "\<exists>res'. parse_part (show_item it) res = Some (Inr res') \<and> set res' = set res \<union> item_set it \<and>
    sorted res' \<and> distinct res'"
proof (cases it)
  case (One n)
  have "CHR ''-'' \<notin> set (show_nat n)" by (rule digits_no_sep) (simp add: is_digit_def)
  then show ?thesis
    using One assms stoi_show_nat[of n]
    by (simp add: parse_part_def sorted_insort_insert distinct_insort_insert set_insort_insert)
next
  case (Span a b)
  let ?part = "show_nat a @ ''-'' @ show_nat b"
  have ab: "a < 2 ^ 31" "b < 2 ^ 31" using assms(1) Span by simp_all
  have "CHR ''-'' \<notin> set (show_nat a)" by (rule digits_no_sep) (simp add: is_digit_def)
  then have pos: "takeWhile (\<lambda>c. c \<noteq> CHR ''-'') ?part = show_nat a" by (simp add: takeWhile_append)
  have "word_of_nat b \<noteq> (- 1 :: u32)"
  proof
    assume "word_of_nat b = (- 1 :: u32)"
    then have "unat (word_of_nat b :: u32) = unat (- 1 :: u32)" by simp
    with ab show False by (simp add: unat_of_nat unsigned_minus_1_eq_mask mask_eq_exp_minus_1)
  qed
  then obtain res' where r: "insert_range (word_of_nat a) (word_of_nat b) res = Some res'"
    "set res' = set res \<union> {word_of_nat a..word_of_nat b}" "sorted res'" "distinct res'"
    using insert_range_ok[of "word_of_nat b" "word_of_nat a" res] assms(2,3) by auto
  moreover have "parse_part ?part res = Some (Inr res')"
    using r(1) pos stoi_show_nat[OF ab(1)] stoi_show_nat[OF ab(2)] by (simp add: parse_part_def Let_def)
  moreover have "{word_of_nat a..word_of_nat b} = item_set it"
    using ab Span by (auto simp: word_le_nat_alt unat_of_nat)
  ultimately show ?thesis using Span by simp
qed

lemma parse_parts_items:
  assumes "\<forall>it \<in> set items. item_bound it < 2 ^ 31" "sorted res" "distinct res"
  shows "\<exists>res'. parse_parts (map show_item items) res = Some (Inr res') \<and>
    set res' = set res \<union> \<Union> (item_set ` set items) \<and> sorted res' \<and> distinct res'"
  using assms
proof (induction items arbitrary: res)
  case (Cons it items)
  obtain res1 where r: "parse_part (show_item it) res = Some (Inr res1)" "set res1 = set res \<union> item_set it"
    "sorted res1" "distinct res1"
    using parse_part_item[of it res] Cons.prems by auto
  then show ?case using Cons.IH[of res1] Cons.prems(1) by (auto simp: Un_assoc)
qed simp

section \<open>Properties\<close>

text \<open>
  C33. The CPU lists of the kernel are read completely: on any list of numbers and ranges below
  \<open>2 ^ 31\<close>, printed with commas, \<open>parse_list\<close> returns exactly the numbers they denote, in ascending order
  and without repetition.
\<close>
theorem parse_list_roundtrip:
  assumes "\<forall>it \<in> set items. item_bound it < 2 ^ 31"
  shows "parse_list (join (CHR '','') (map show_item items)) =
    Some (Inr (sorted_list_of_set (\<Union> (item_set ` set items))))"
proof -
  have "show_item it \<noteq> [] \<and> CHR '','' \<notin> set (show_item it)" for it
    by (cases it) (auto simp: digits_no_sep is_digit_def)
  then have "getline_parts (CHR '','') (join (CHR '','') (map show_item items)) = map show_item items"
    by (intro getline_parts_join) auto
  then obtain res where "parse_list (join (CHR '','') (map show_item items)) = Some (Inr res)"
    "set res = \<Union> (item_set ` set items)" "sorted res" "distinct res"
    using parse_parts_items[OF assms, of "[]"] by (auto simp: parse_list_def)
  then show ?thesis
    using sorted_list_of_set.idem_if_sorted_distinct[of res] by simp
qed

theorem parse_list_roundtrip_witness:
  "parse_list (join (CHR '','') (map show_item [Span 0 3, One 7])) =
    Some (Inr (sorted_list_of_set (\<Union> (item_set ` set [Span 0 3, One 7]))))"
  by (rule parse_list_roundtrip) simp

text \<open>A range that ends with -1, which \<^verbatim>\<open>std::stoi\<close> accepts.\<close>

definition endless :: "string \<Rightarrow> bool" where
  "endless part \<longleftrightarrow> CHR ''-'' \<in> set part \<and>
    (\<exists>v. stoi (takeWhile (\<lambda>c. c \<noteq> CHR ''-'') part) = Inr v) \<and>
    stoi (tl (dropWhile (\<lambda>c. c \<noteq> CHR ''-'') part)) = Inr (- 1)"

lemma stoi_range: "stoi s = Inr v \<Longrightarrow> - (2 ^ 31) \<le> v \<and> v < 2 ^ 31"
  by (auto simp: stoi_def Let_def split: if_splits)

lemma stoi_minus_one: "stoi s = Inr v \<Longrightarrow> word_of_int v = (- 1 :: u32) \<longleftrightarrow> v = - 1"
proof
  assume v: "stoi s = Inr v" "word_of_int v = (- 1 :: u32)"
  have "signed (word_of_int v :: u32) = v"
    using stoi_range[OF v(1)] by (simp add: signed_of_int signed_take_bit_int_eq_self)
  with v(2) show "v = - 1" by (metis signed_minus_1)
qed simp

lemma parse_part_endless: "parse_part part res = None \<longleftrightarrow> endless part"
proof -
  let ?a = "takeWhile (\<lambda>c. c \<noteq> CHR ''-'') part" and ?b = "tl (dropWhile (\<lambda>c. c \<noteq> CHR ''-'') part)"
  have "take (length ?a) part = ?a" "drop (length ?a + 1) part = ?b"
    by (simp add: takeWhile_eq_take[symmetric]) (simp add: dropWhile_eq_drop drop_Suc tl_drop)
  moreover have "insert_range i (word_of_int v) res = None \<longleftrightarrow> v = - 1" if "stoi ?b = Inr v" for i v
    using insert_range_ok[of "word_of_int v" i res] insert_range_diverges[of i res] stoi_minus_one[OF that] by fastforce
  ultimately show ?thesis
    by (auto simp: parse_part_def endless_def Let_def split: sum.splits)
qed

definition stuck :: "string list \<Rightarrow> u32 list \<Rightarrow> bool" where
  "stuck parts res \<longleftrightarrow> (\<exists>ps p qs res'. parts = ps @ p # qs \<and> parse_parts ps res = Some (Inr res') \<and> endless p)"

lemma stuck_Cons:
  "stuck (part # parts) res \<longleftrightarrow> endless part \<or> (\<exists>r. parse_part part res = Some (Inr r) \<and> stuck parts r)"
proof
  assume "stuck (part # parts) res"
  then obtain ps p qs res' where s: "part # parts = ps @ p # qs" "parse_parts ps res = Some (Inr res')" "endless p"
    by (auto simp: stuck_def)
  show "endless part \<or> (\<exists>r. parse_part part res = Some (Inr r) \<and> stuck parts r)"
  proof (cases ps)
    case (Cons _ ps')
    then obtain r where "parse_part part res = Some (Inr r)" "parse_parts ps' r = Some (Inr res')"
      using s(1,2) by (auto split: option.splits sum.splits)
    with Cons s show ?thesis by (auto simp: stuck_def)
  qed (use s in simp)
next
  assume "endless part \<or> (\<exists>r. parse_part part res = Some (Inr r) \<and> stuck parts r)"
  then show "stuck (part # parts) res"
  proof
    assume "endless part"
    then have "part # parts = [] @ part # parts \<and> parse_parts [] res = Some (Inr res) \<and> endless part" by simp
    then show ?thesis unfolding stuck_def by blast
  next
    assume "\<exists>r. parse_part part res = Some (Inr r) \<and> stuck parts r"
    then obtain r ps p qs res' where "parse_part part res = Some (Inr r)" "parts = ps @ p # qs"
      "parse_parts ps r = Some (Inr res')" "endless p" by (auto simp: stuck_def)
    then have "part # parts = (part # ps) @ p # qs \<and> parse_parts (part # ps) res = Some (Inr res') \<and> endless p" by simp
    then show ?thesis unfolding stuck_def by blast
  qed
qed

lemma parse_parts_stuck: "parse_parts parts res = None \<longleftrightarrow> stuck parts res"
proof (induction parts arbitrary: res)
  case (Cons part parts)
  show ?case
    using Cons.IH parse_part_endless[of part res] by (auto simp: stuck_Cons split: option.splits sum.splits)
qed (simp add: stuck_def)

text \<open>
  C34. Termination of \<open>parse_list\<close>: it returns, with a result or an exception, unless the parts before some
  part are fine and that part is a range that ends with -1. Then the upper bound becomes the largest
  32 bit number and the loop over the range never ends.
\<close>
theorem parse_list_termination:
  "parse_list s = None \<longleftrightarrow>
    (\<exists>ps p qs res. getline_parts (CHR '','') s = ps @ p # qs \<and> parse_parts ps [] = Some (Inr res) \<and> endless p)"
  using parse_parts_stuck[of "getline_parts (CHR '','') s" "[]"] by (simp add: parse_list_def stuck_def)

section \<open>Times\<close>

lemma timeradd_total: "1000000 * fst (timeradd a b) + snd (timeradd a b) = 1000000 * fst a + snd a + (1000000 * fst b + snd b)"
  by (simp add: timeradd_def Let_def)

lemma get_cpu_time_total:
  "get_cpu_time (Some (ut, st)) (Some (cu, cs)) =
    1000000 * (fst ut + fst st + fst cu + fst cs) + (snd ut + snd st + snd cu + snd cs)"
  by (simp add: get_cpu_time_def Let_def timeradd_total)

lemma timer_spec_interval:
  "0 \<le> d \<Longrightarrow> 1000000000 * it_interval_sec (timer_spec d) + it_interval_nsec (timer_spec d) = d \<and>
    0 \<le> it_interval_nsec (timer_spec d) \<and> it_interval_nsec (timer_spec d) < 1000000000"
  by (cases "d = 0") (simp_all add: timer_spec_def signed_divide_int_def signed_modulo_int_def sgn_if)

end
