(* ===== verification/Topology.thy ===== *)
theory Topology
  imports Proc_Util
begin

text \<open>
  \<^verbatim>\<open>Topology\<close> (\<^verbatim>\<open>src/topology.cpp\<close>, \<^verbatim>\<open>include/lo2s/topology.hpp\<close>): the online CPUs, their cores and packages, read from
  sysfs. The files are arguments, \<open>None\<close> when they can not be opened.
\<close>

section \<open>State and operations\<close>

record topology =
  tp_cpus :: "(Cpu, unit) std_map"
  tp_packages :: "(Package, unit) std_map"
  tp_cpu_to_core :: "(Cpu, Core) std_map"
  tp_cpu_to_package :: "(Cpu, Package) std_map"
  tp_hypervised :: bool

text \<open>
  \<open>operator>>\<close> of a stream for an \<^verbatim>\<open>uint32_t\<close>: 0 when there is no number, the largest number when it does not
  fit, and the negated value of a number with a minus sign.
\<close>

definition stream_u32 :: "string option \<Rightarrow> u32" where
  "stream_u32 file =
    (case file of None \<Rightarrow> 0
     | Some content \<Rightarrow>
       let t = dropWhile is_space content;
           u = (if t \<noteq> [] \<and> (hd t = CHR ''-'' \<or> hd t = CHR ''+'') then tl t else t);
           v = digits_value (takeWhile is_digit u) in
       if 2 ^ 32 \<le> v then - 1
       else if t \<noteq> [] \<and> hd t = CHR ''-'' then - word_of_nat v
       else word_of_nat v)"

record topology_files =
  tf_online :: "string option"
  tf_package_id :: "u32 \<Rightarrow> string option"
  tf_core_id :: "u32 \<Rightarrow> string option"
  tf_cpuinfo :: "string list"

definition cpu_of_id :: "u32 \<Rightarrow> Cpu" where
  "cpu_of_id i = Cpu (uint i)"

definition read_cpu :: "topology_files \<Rightarrow> u32 \<Rightarrow> topology \<Rightarrow> topology" where
  "read_cpu f cpu_id t =
    (let package_id = uint (stream_u32 (tf_package_id f cpu_id)); core_id = uint (stream_u32 (tf_core_id f cpu_id)) in
     t\<lparr>tp_cpus := fst (std_emplace cpu_less (cpu_of_id cpu_id) () (tp_cpus t)),
       tp_packages := fst (std_emplace package_less (Package package_id) () (tp_packages t)),
       tp_cpu_to_core := fst (std_emplace cpu_less (cpu_of_id cpu_id) (Core core_id package_id) (tp_cpu_to_core t)),
       tp_cpu_to_package := fst (std_emplace cpu_less (cpu_of_id cpu_id) (Package package_id) (tp_cpu_to_package t))\<rparr>)"

definition hypervisor_line :: "string \<Rightarrow> bool" where
  "hypervisor_line line \<longleftrightarrow> find_sub line ''flags'' = Some 0 \<and> find_sub line ''hypervisor'' \<noteq> None"

definition topology_empty :: topology where
  "topology_empty = \<lparr>tp_cpus = [], tp_packages = [], tp_cpu_to_core = [], tp_cpu_to_package = [], tp_hypervised = False\<rparr>"

definition read_proc :: "topology_files \<Rightarrow> topology result option" where
  "read_proc f =
    (case parse_list_from_file (tf_online f) of None \<Rightarrow> None
     | Some (Inl e) \<Rightarrow> Some (Inl e)
     | Some (Inr online) \<Rightarrow>
       let t = fold (read_cpu f) online topology_empty in
       Some (Inr (if \<exists>line \<in> set (tf_cpuinfo f). hypervisor_line line then t\<lparr>tp_hypervised := True\<rparr> else t)))"

definition core_of :: "topology \<Rightarrow> Cpu \<Rightarrow> Core result" where
  "core_of t cpu = std_at cpu_less (tp_cpu_to_core t) cpu"

definition package_of :: "topology \<Rightarrow> Cpu \<Rightarrow> Package result" where
  "package_of t cpu = std_at cpu_less (tp_cpu_to_package t) cpu"

definition measuring_cpu_for_package :: "topology \<Rightarrow> Package \<Rightarrow> Cpu" where
  "measuring_cpu_for_package t package =
    (case List.find (\<lambda>e. snd e = package) (tp_cpu_to_package t) of Some e \<Rightarrow> fst e | None \<Rightarrow> Cpu (- 1))"

section \<open>What is read\<close>

definition package_for :: "topology_files \<Rightarrow> u32 \<Rightarrow> Package" where
  "package_for f i = Package (uint (stream_u32 (tf_package_id f i)))"

definition core_for :: "topology_files \<Rightarrow> u32 \<Rightarrow> Core" where
  "core_for f i = Core (uint (stream_u32 (tf_core_id f i))) (uint (stream_u32 (tf_package_id f i)))"

definition id_of_cpu :: "Cpu \<Rightarrow> u32" where
  "id_of_cpu c = word_of_int (cpu_as_int c)"

lemma id_of_cpu_of_id [simp]: "id_of_cpu (cpu_of_id i) = i"
  by (simp add: id_of_cpu_def cpu_of_id_def)

definition topology_shows :: "topology_files \<Rightarrow> u32 set \<Rightarrow> topology \<Rightarrow> bool" where
  "topology_shows f ids t \<longleftrightarrow>
    cpu_key.sorted_keys (tp_cpu_to_core t) \<and> cpu_key.sorted_keys (tp_cpu_to_package t) \<and> cpu_key.sorted_keys (tp_cpus t) \<and>
    package_key.sorted_keys (tp_packages t) \<and>
    (\<forall>c. std_lookup cpu_less (tp_cpus t) c = (if c \<in> cpu_of_id ` ids then Some () else None)) \<and>
    (\<forall>p. std_lookup package_less (tp_packages t) p = (if p \<in> package_for f ` ids then Some () else None)) \<and>
    (\<forall>c. std_lookup cpu_less (tp_cpu_to_core t) c = (if c \<in> cpu_of_id ` ids then Some (core_for f (id_of_cpu c)) else None)) \<and>
    (\<forall>c. std_lookup cpu_less (tp_cpu_to_package t) c = (if c \<in> cpu_of_id ` ids then Some (package_for f (id_of_cpu c)) else None))"

lemma read_cpu_shows:
  assumes "topology_shows f ids t"
  shows "topology_shows f (insert i ids) (read_cpu f i t)"
proof -
  have "package_key.eqv p q \<longleftrightarrow> p = q" for p q
    by (cases p; cases q) (auto simp: package_key.eqv_def package_less_def)
  with assms show ?thesis
    unfolding topology_shows_def read_cpu_def Let_def
    by (simp add: cpu_key.std_emplace_sorted package_key.std_emplace_sorted cpu_key.std_lookup_emplace
        package_key.std_lookup_emplace)
      (auto simp: package_for_def core_for_def split: option.splits if_splits)
qed

lemma fold_read_cpu_shows:
  "topology_shows f ids t \<Longrightarrow> topology_shows f (ids \<union> set is) (fold (read_cpu f) is t)"
proof (induction "is" arbitrary: ids t)
  case (Cons i "is")
  then show ?case using Cons.IH[OF read_cpu_shows[OF Cons.prems, of i]] by simp
qed simp

section \<open>Properties\<close>

text \<open>
  C30. The topology describes the online CPUs: exactly they are known, every one has the package and the
  core that its files name, the packages are those of the CPUs, and the CPU that measures a package is
  the one with the smallest number in it; a package without CPUs has none.
\<close>
theorem topology_describes_cpus:
  assumes "parse_list_from_file (tf_online f) = Some (Inr online)"
  shows "\<exists>t. read_proc f = Some (Inr t) \<and>
    (\<forall>c. std_lookup cpu_less (tp_cpus t) c \<noteq> None \<longleftrightarrow> c \<in> cpu_of_id ` set online) \<and>
    (\<forall>i \<in> set online. package_of t (cpu_of_id i) = Inr (package_for f i) \<and> core_of t (cpu_of_id i) = Inr (core_for f i)) \<and>
    (\<forall>p. std_lookup package_less (tp_packages t) p \<noteq> None \<longleftrightarrow> p \<in> package_for f ` set online) \<and>
    (\<forall>p. if p \<in> package_for f ` set online
      then \<exists>i \<in> set online. measuring_cpu_for_package t p = cpu_of_id i \<and> package_for f i = p \<and>
        (\<forall>j \<in> set online. package_for f j = p \<longrightarrow> i \<le> j)
      else measuring_cpu_for_package t p = Cpu (- 1)) \<and>
    tp_hypervised t = (\<exists>line \<in> set (tf_cpuinfo f). hypervisor_line line)"
proof -
  let ?t = "fold (read_cpu f) online topology_empty"
  have "topology_shows f {} topology_empty"
    by (simp add: topology_shows_def topology_empty_def std_lookup_def)
  then have sh: "topology_shows f (set online) ?t" using fold_read_cpu_shows[of f "{}" topology_empty online] by simp
  have hyp: "tp_hypervised (fold (read_cpu f) is t) = tp_hypervised t" for "is" t
    by (induction "is" arbitrary: t) (simp_all add: read_cpu_def Let_def)
  define t where "t = (if \<exists>line \<in> set (tf_cpuinfo f). hypervisor_line line then ?t\<lparr>tp_hypervised := True\<rparr> else ?t)"
  have run: "read_proc f = Some (Inr t)" using assms by (simp add: read_proc_def t_def Let_def)
  have t: "topology_shows f (set online) t" "tp_hypervised t = (\<exists>line \<in> set (tf_cpuinfo f). hypervisor_line line)"
    using sh hyp[of online topology_empty] by (auto simp: t_def topology_shows_def topology_empty_def)
  have sorted: "cpu_key.sorted_keys (tp_cpu_to_package t)" using t(1) by (simp add: topology_shows_def)
  have entry: "(c, p) \<in> set (tp_cpu_to_package t) \<longleftrightarrow> (\<exists>i \<in> set online. c = cpu_of_id i \<and> p = package_for f i)" for c p
  proof -
    have "(c, p) \<in> set (tp_cpu_to_package t) \<longleftrightarrow> std_lookup cpu_less (tp_cpu_to_package t) c = Some p"
      using cpu_key.std_find_member[OF sorted, of "(c, p)"] cpu_key.std_find_Some[OF sorted, of c]
      by (auto simp: std_lookup_def)
    then show ?thesis using t(1) by (auto simp: topology_shows_def)
  qed
  have cpu: "measuring_cpu_for_package t p = cpu_of_id i \<and> (\<forall>j \<in> set online. package_for f j = p \<longrightarrow> i \<le> j)"
    if found: "List.find (\<lambda>e. snd e = p) (tp_cpu_to_package t) = Some (cpu_of_id i, q)" for i p q
  proof -
    have "i \<le> j" if "j \<in> set online" "package_for f j = p" for j
    proof -
      have "(cpu_of_id j, p) \<in> set (tp_cpu_to_package t)" using that entry by auto
      then have "cpu_of_id j = cpu_of_id i \<or> cpu_less (cpu_of_id i) (cpu_of_id j)"
        using cpu_key.find_smallest[OF sorted found] by force
      then show ?thesis by (auto simp: cpu_of_id_def cpu_less_def word_le_def)
    qed
    with found show ?thesis by (simp add: measuring_cpu_for_package_def)
  qed
  have "if p \<in> package_for f ` set online
      then \<exists>i \<in> set online. measuring_cpu_for_package t p = cpu_of_id i \<and> package_for f i = p \<and>
        (\<forall>j \<in> set online. package_for f j = p \<longrightarrow> i \<le> j)
      else measuring_cpu_for_package t p = Cpu (- 1)" for p
  proof (cases "List.find (\<lambda>e. snd e = p) (tp_cpu_to_package t)")
    case None
    then have "p \<notin> package_for f ` set online" using entry by (auto simp: find_None_iff)
    with None show ?thesis by (simp add: measuring_cpu_for_package_def)
  next
    case (Some e)
    then obtain i where i: "i \<in> set online" "e = (cpu_of_id i, package_for f i)" "package_for f i = p"
      using cpu_key.find_smallest[OF sorted Some] entry by (cases e) auto
    then show ?thesis using cpu[of p i "package_for f i"] Some by (auto intro: bexI[of _ i])
  qed
  then show ?thesis
    using run t by (auto simp: topology_shows_def package_of_def core_of_def std_at_def)
qed

definition example_files :: topology_files where
  "example_files = \<lparr>tf_online = Some ''0-1'', tf_package_id = (\<lambda>_. Some ''0''),
    tf_core_id = (\<lambda>i. Some (show_nat (unat i))), tf_cpuinfo = []\<rparr>"

lemma example_range: "insert_range 0 1 [] = Some [0, 1]"
  by (simp add: insert_range.simps[of 0] insert_range.simps[of 1] insert_range.simps[of 2] word_le_nat_alt insort_insert_key_def)

lemma example_online: "parse_list_from_file (tf_online example_files) = Some (Inr [0, 1])"
  by (simp add: parse_list_from_file_def example_files_def first_word_def is_space_def parse_list_def getline_parts.simps
      parse_part_def stoi_def is_digit_def digits_value_def digit_value_def example_range)

theorem topology_describes_cpus_witness:
  "\<exists>t. read_proc example_files = Some (Inr t) \<and>
    (\<forall>c. std_lookup cpu_less (tp_cpus t) c \<noteq> None \<longleftrightarrow> c \<in> cpu_of_id ` set [0, 1]) \<and>
    (\<forall>i \<in> set [0, 1]. package_of t (cpu_of_id i) = Inr (package_for example_files i) \<and>
      core_of t (cpu_of_id i) = Inr (core_for example_files i)) \<and>
    (\<forall>p. std_lookup package_less (tp_packages t) p \<noteq> None \<longleftrightarrow> p \<in> package_for example_files ` set [0, 1]) \<and>
    (\<forall>p. if p \<in> package_for example_files ` set [0, 1]
      then \<exists>i \<in> set [0, 1]. measuring_cpu_for_package t p = cpu_of_id i \<and> package_for example_files i = p \<and>
        (\<forall>j \<in> set [0, 1]. package_for example_files j = p \<longrightarrow> i \<le> j)
      else measuring_cpu_for_package t p = Cpu (- 1)) \<and>
    tp_hypervised t = (\<exists>line \<in> set (tf_cpuinfo example_files). hypervisor_line line)"
  by (rule topology_describes_cpus[OF example_online])

end
