(* ===== verification/Resolvers.thy ===== *)
theory Resolvers
  imports Memory_Map Proc_Util Sample_Writer
begin

text \<open>
  Resolving addresses to functions: \<^verbatim>\<open>LineInfo\<close>, the resolvers for kernel symbols (\<^verbatim>\<open>Kallsyms\<close>), for code that a
  just-in-time compiler generates (\<^verbatim>\<open>PerfMap\<close>), for GPU kernels (\<^verbatim>\<open>ManualFunctionResolver\<close>) and for binaries, and
  the table of resolvers per process (\<^verbatim>\<open>ProcessFunctionMap\<close>, \<^verbatim>\<open>Resolvers\<close>). Files are lists of lines; the resolver
  of debug information rests on an external library and is an argument.
\<close>

section \<open>Line information\<close>

record LineInfo =
  li_file :: string
  li_function :: string
  li_line :: nat
  li_dso :: string

definition UNKNOWN_LINE :: nat where
  "UNKNOWN_LINE = 0"

definition LineInfo_new :: "string \<Rightarrow> string \<Rightarrow> nat \<Rightarrow> string \<Rightarrow> LineInfo" where
  "LineInfo_new file func line dso =
    \<lparr>li_file = file, li_function = func, li_line = (if line \<noteq> UNKNOWN_LINE then line else 1), li_dso = dso\<rparr>"

definition path_filename :: "string \<Rightarrow> string" where
  "path_filename s = rev (takeWhile (\<lambda>c. c \<noteq> CHR ''/'') (rev s))"

text \<open>\<open>for_function\<close>; \<open>None\<close> is a null pointer.\<close>

definition for_function :: "string option \<Rightarrow> string option \<Rightarrow> nat \<Rightarrow> string \<Rightarrow> LineInfo" where
  "for_function file func line dso =
    LineInfo_new (case file of Some f \<Rightarrow> f | None \<Rightarrow> ''<unknown file>'')
      (case func of Some f \<Rightarrow> f | None \<Rightarrow> ''<unknown function>'') line (path_filename dso)"

definition for_unknown_function :: LineInfo where
  "for_unknown_function = LineInfo_new ''<unknown file>'' ''<unknown function>'' UNKNOWN_LINE ''<unknown binary>''"

definition for_unknown_function_in_dso :: "string \<Rightarrow> LineInfo" where
  "for_unknown_function_in_dso dso =
    LineInfo_new ''<unknown file>'' ''<unknown function>'' UNKNOWN_LINE (path_filename dso)"

definition for_binary :: "string \<Rightarrow> LineInfo" where
  "for_binary binary = LineInfo_new binary binary UNKNOWN_LINE binary"

text \<open>
  \<open>operator<\<close> and \<open>operator==\<close>. Both tuples end with the \<open>dso\<close> of the left operand, so the objects never take
  part in the comparison.
\<close>

fun string_less :: "string \<Rightarrow> string \<Rightarrow> bool" where
  "string_less _ [] = False"
| "string_less [] (d # ds) = True"
| "string_less (c # cs) (d # ds) = (if c = d then string_less cs ds else (of_char c :: nat) < of_char d)"

definition line_info_less :: "LineInfo \<Rightarrow> LineInfo \<Rightarrow> bool" where
  "line_info_less a b \<longleftrightarrow>
    (if li_file a \<noteq> li_file b then string_less (li_file a) (li_file b)
     else if li_function a \<noteq> li_function b then string_less (li_function a) (li_function b)
     else if li_line a \<noteq> li_line b then li_line a < li_line b
     else string_less (li_dso a) (li_dso a))"

definition line_info_eq :: "LineInfo \<Rightarrow> LineInfo \<Rightarrow> bool" where
  "line_info_eq a b \<longleftrightarrow>
    (li_file a, li_function a, li_line a, li_dso a) = (li_file b, li_function b, li_line b, li_dso a)"

section \<open>Kernel symbols\<close>

record kallsyms =
  ks_map :: "(Range, string) std_map"
  ks_start :: u64

definition ksym_regex :: regex where
  "ksym_regex = re_seq [Group (Plus is_hex), re_lit '' '', Cls (\<lambda>c. c = CHR ''t'' \<or> c = CHR ''T''), re_lit '' '',
    Group (Plus (\<lambda>c. \<not> is_space c))]"

text \<open>The loop over the lines: \<open>None\<close> when a symbol has the address 0.\<close>

fun ksym_entries :: "string list \<Rightarrow> (u64, string) std_map \<Rightarrow> (u64, string) std_map option result" where
  "ksym_entries [] entries = Inr (Some entries)"
| "ksym_entries (line # ls) entries =
    (case regex_match ksym_regex line of
       Some [adr, sname] \<Rightarrow>
         if 2 ^ 64 \<le> hex_value adr then Inl Out_of_range
         else if hex_value adr = 0 then Inr None
         else ksym_entries ls (fst (std_emplace (<) (word_of_nat (hex_value adr)) sname entries))
     | _ \<Rightarrow> ksym_entries ls entries)"

text \<open>The loop that turns neighbouring symbols into ranges, with \<open>prev\<close> and \<open>sym_str\<close>.\<close>

fun ksym_ranges :: "(u64, string) std_map \<Rightarrow> u64 \<Rightarrow> string \<Rightarrow> kallsyms \<Rightarrow> kallsyms result" where
  "ksym_ranges [] prev sname k =
    (if sname \<noteq> []
     then sum_bind (Range_new prev UINT64_MAX) (\<lambda>r. Inr (k\<lparr>ks_map := fst (std_emplace range_less r sname (ks_map k))\<rparr>))
     else Inr k)"
| "ksym_ranges ((adr, name) # es) prev sname k =
    (if prev \<noteq> 0 \<and> prev \<noteq> adr
     then sum_bind (Range_new prev adr) (\<lambda>r.
       ksym_ranges es adr name (k\<lparr>ks_map := fst (std_emplace range_less r sname (ks_map k))\<rparr>))
     else ksym_ranges es adr name (k\<lparr>ks_start := adr\<rparr>))"

definition kallsyms_empty :: kallsyms where
  "kallsyms_empty = \<lparr>ks_map = [], ks_start = UINT64_MAX\<rparr>"

text \<open>The constructor; \<open>None\<close> when the file can not be opened.\<close>

definition kallsyms_new :: "string list option \<Rightarrow> kallsyms result" where
  "kallsyms_new file =
    (case file of None \<Rightarrow> Inr kallsyms_empty
     | Some lines \<Rightarrow>
       sum_bind (ksym_entries lines []) (\<lambda>r.
         case r of None \<Rightarrow> Inr kallsyms_empty | Some entries \<Rightarrow> ksym_ranges entries 0 [] kallsyms_empty))"

definition kallsyms_lookup :: "kallsyms \<Rightarrow> u64 \<Rightarrow> LineInfo result" where
  "kallsyms_lookup k adr =
    sum_bind (Range_point (adr + ks_start k)) (\<lambda>r.
      case std_find range_less r (ks_map k) of
        Some e \<Rightarrow> Inr (for_function (Some []) (Some (snd e)) 1 ''[kernel]'')
      | None \<Rightarrow> Inr (for_binary ''[kernel]''))"

section \<open>Generated code\<close>

record perf_map =
  pm_entries :: "(Range, LineInfo) std_map"
  pm_start :: u64
  pm_end :: u64

definition perf_map_regex :: regex where
  "perf_map_regex = re_seq [Group (Plus is_hex), re_lit '' '', Group (Plus is_hex), re_lit '' '', Group (Plus re_dot)]"

definition python_regex :: regex where
  "python_regex = re_seq [re_lit ''py::'', Group (Plus re_dot), re_lit '':'', Group (Plus re_dot)]"

definition jit_line_info :: "string \<Rightarrow> LineInfo" where
  "jit_line_info symbol =
    (case regex_match python_regex symbol of
       Some [func, file] \<Rightarrow>
         if hd file = CHR ''<'' then for_function (Some ''<unknown file>'') (Some func) 0 file
         else for_function (Some file) (Some func) 0 file
     | _ \<Rightarrow> for_function (Some ''<unknown file>'') (Some symbol) 0 ''<jit>'')"

fun perf_map_lines :: "string list \<Rightarrow> perf_map \<Rightarrow> perf_map result" where
  "perf_map_lines [] pm = Inr pm"
| "perf_map_lines (line # ls) pm =
    (case regex_match perf_map_regex line of
       Some [s, len, symbol] \<Rightarrow>
         let start = address_of_string s in
         sum_bind (Range_new start (start + address_of_string len)) (\<lambda>r.
           perf_map_lines ls
             (pm\<lparr>pm_start := (if pm_start pm = UINT64_MAX then start else pm_start pm),
                 pm_entries := fst (std_emplace range_less r (jit_line_info symbol) (pm_entries pm))\<rparr>))
     | _ \<Rightarrow> perf_map_lines ls pm)"

definition perf_map_new :: "string list \<Rightarrow> perf_map result" where
  "perf_map_new lines =
    sum_bind (perf_map_lines lines \<lparr>pm_entries = [], pm_start = UINT64_MAX, pm_end = UINT64_MAX\<rparr>) (\<lambda>pm.
      Inr (if pm_entries pm \<noteq> [] then pm\<lparr>pm_end := range_end (fst (last (pm_entries pm)))\<rparr> else pm))"

definition perf_map_mapping :: "perf_map \<Rightarrow> Mapping result" where
  "perf_map_mapping pm = Mapping_new (pm_start pm) (pm_end pm) 0"

definition perf_map_lookup :: "perf_map \<Rightarrow> u64 \<Rightarrow> LineInfo result" where
  "perf_map_lookup pm adr =
    sum_bind (Range_point (adr + pm_start pm)) (\<lambda>r.
      case std_find range_less r (pm_entries pm) of Some e \<Rightarrow> Inr (snd e) | None \<Rightarrow> Inr for_unknown_function)"

definition has_perf_map :: "perf_map \<Rightarrow> bool" where
  "has_perf_map pm \<longleftrightarrow> pm_entries pm \<noteq> []"

section \<open>GPU kernels and binaries\<close>

definition manual_lookup :: "string \<Rightarrow> (u64, string) std_map \<Rightarrow> u64 \<Rightarrow> LineInfo" where
  "manual_lookup name functions a =
    (case std_lookup (<) functions a of
       Some f \<Rightarrow> for_function (Some []) (Some f) 1 name
     | None \<Rightarrow> for_unknown_function)"

text \<open>
  The classes derived from \<^verbatim>\<open>FunctionResolver\<close> a memory map holds. The objects are shared, an object is
  named by what its cache is keyed by.
\<close>

datatype resolver =
    R_kernel
  | R_jit Process
  | R_dwarf string
  | R_binary string

text \<open>
  What the resolvers read: the kernel symbols, the map files of the processes, and the reader of debug
  information (whether a file can be opened, and its answers).
\<close>

record resolver_env =
  re_kallsyms :: kallsyms
  re_perf_map :: "Process \<Rightarrow> perf_map"
  re_dwarf_opens :: "string \<Rightarrow> bool"
  re_dwarf_lookup :: "string \<Rightarrow> u64 \<Rightarrow> LineInfo result"

fun lookup_line_info :: "resolver_env \<Rightarrow> resolver \<Rightarrow> u64 \<Rightarrow> LineInfo result" where
  "lookup_line_info env R_kernel a = kallsyms_lookup (re_kallsyms env) a"
| "lookup_line_info env (R_jit p) a = perf_map_lookup (re_perf_map env p) a"
| "lookup_line_info env (R_dwarf f) a = re_dwarf_lookup env f a"
| "lookup_line_info env (R_binary f) a = Inr (for_binary f)"

text \<open>\<open>name()\<close> of the resolvers, and the map in the format of \<^verbatim>\<open>/proc/self/maps\<close>.\<close>

fun resolver_name :: "resolver \<Rightarrow> string" where
  "resolver_name R_kernel = ''[kernel]''"
| "resolver_name (R_jit p) = ''JIT functions for process '' @ show_int (process_as_int p)"
| "resolver_name (R_dwarf f) = f"
| "resolver_name (R_binary f) = f"

definition mapping_to_string :: "Mapping \<Rightarrow> string" where
  "mapping_to_string m =
    show_hex (range_start (range m)) @ ''-'' @ show_hex (range_end (range m)) @ '' r-xp '' @ show_hex (pgoff m)"

definition mm_to_string :: "resolver memory_map \<Rightarrow> string" where
  "mm_to_string mm =
    concat (map (\<lambda>(m, r). mapping_to_string m @ '' 00:00 0 '' @ resolver_name r @ [CHR 0x0A]) mm)"

text \<open>\<open>function_resolver_for\<close>; \<open>None\<close> is the null pointer.\<close>

definition function_resolver_for :: "resolver_env \<Rightarrow> string \<Rightarrow> resolver option" where
  "function_resolver_for env filename =
    (if known_non_executable filename then None
     else if re_dwarf_opens env filename then Some (R_dwarf filename) else Some (R_binary filename))"

section \<open>The resolvers of the processes\<close>

type_synonym process_function_map = "resolver memory_map"

definition ProcessFunctionMap_new :: "resolver_env \<Rightarrow> Process \<Rightarrow> process_function_map result" where
  "ProcessFunctionMap_new env process =
    sum_bind (Mapping_new (ks_start (re_kallsyms env)) UINT64_MAX 0) (\<lambda>km.
    sum_bind (mm_emplace km R_kernel []) (\<lambda>m.
      if has_perf_map (re_perf_map env process)
      then sum_bind (perf_map_mapping (re_perf_map env process)) (\<lambda>pm. mm_emplace pm (R_jit process) m)
      else Inr m))"

record resolvers =
  function_resolvers :: "(Process, process_function_map) std_map"
  gpu_function_resolvers :: "(Process, (u64, string) std_map) std_map"

definition resolvers_fork :: "Process \<Rightarrow> Process \<Rightarrow> resolvers \<Rightarrow> resolvers" where
  "resolvers_fork parent process rs =
    (case std_lookup process_less (function_resolvers rs) parent of
       Some m \<Rightarrow> rs\<lparr>function_resolvers := fst (std_emplace process_less process m (function_resolvers rs))\<rparr>
     | None \<Rightarrow> rs)"

text \<open>\<open>function_resolvers.at(p).emplace(m, fr)\<close>.\<close>

definition map_into :: "Process \<Rightarrow> Mapping \<Rightarrow> resolver \<Rightarrow> resolvers \<Rightarrow> resolvers result" where
  "map_into p m fr rs =
    sum_bind (std_at process_less (function_resolvers rs) p) (\<lambda>mm.
    sum_bind (mm_emplace m fr mm) (\<lambda>mm'.
      Inr (rs\<lparr>function_resolvers := std_update process_less p (\<lambda>_. mm') (function_resolvers rs)\<rparr>)))"

definition emplace_mappings_for ::
    "resolver_env \<Rightarrow> Process \<Rightarrow> Mapping \<Rightarrow> string \<Rightarrow> resolvers \<Rightarrow> resolvers result" where
  "emplace_mappings_for env p m binary rs =
    (case function_resolver_for env binary of Some fr \<Rightarrow> map_into p m fr rs | None \<Rightarrow> Inr rs)"

text \<open>\<open>function_resolvers.emplace(p, p)\<close>: a map for a process that has none.\<close>

definition resolvers_insert :: "resolver_env \<Rightarrow> Process \<Rightarrow> resolvers \<Rightarrow> resolvers result" where
  "resolvers_insert env p rs =
    (case std_lookup process_less (function_resolvers rs) p of
       Some _ \<Rightarrow> Inr rs
     | None \<Rightarrow> sum_bind (ProcessFunctionMap_new env p) (\<lambda>mm.
         Inr (rs\<lparr>function_resolvers := fst (std_emplace process_less p mm (function_resolvers rs))\<rparr>)))"

text \<open>
  One round of \<^verbatim>\<open>sample::Writer::emplace_resolvers\<close>: exceptions of the constructors are logged, a failed
  assertion of the memory map ends the program.
\<close>

definition emplace_mmap :: "resolver_env \<Rightarrow> mmap_record \<Rightarrow> resolvers \<Rightarrow> resolvers result" where
  "emplace_mmap env ev rs =
    (case Mapping_new (mm_addr ev) (mm_addr ev + mm_len ev) (mm_pgoff ev) of
       Inl _ \<Rightarrow> Inr rs
     | Inr m \<Rightarrow>
       (case resolvers_insert env (pid_process (mm_pid ev)) rs of
          Inl e \<Rightarrow> if e = Assertion then Inl e else Inr rs
        | Inr rs1 \<Rightarrow>
          (case function_resolver_for env (mm_filename ev) of
             None \<Rightarrow> Inr rs1
           | Some fr \<Rightarrow>
             (case map_into (pid_process (mm_pid ev)) m fr rs1 of
                Inl e \<Rightarrow> if e = Assertion then Inl e else Inr rs1
              | Inr rs2 \<Rightarrow> Inr rs2))))"

fun emplace_mmaps :: "resolver_env \<Rightarrow> mmap_record list \<Rightarrow> resolvers \<Rightarrow> resolvers result" where
  "emplace_mmaps env [] rs = Inr rs"
| "emplace_mmaps env (ev # evs) rs = sum_bind (emplace_mmap env ev rs) (emplace_mmaps env evs)"

definition writer_emplace_resolvers :: "resolver_env \<Rightarrow> sample_writer \<Rightarrow> resolvers \<Rightarrow> resolvers result" where
  "writer_emplace_resolvers env w rs = emplace_mmaps env (w_cached_mmap_events w) rs"

text \<open>\<^verbatim>\<open>GPUMonitor::emplace_resolvers\<close>.\<close>

definition gpu_emplace_resolvers :: "Process \<Rightarrow> (u64, string) std_map \<Rightarrow> resolvers \<Rightarrow> resolvers" where
  "gpu_emplace_resolvers process functions rs =
    rs\<lparr>gpu_function_resolvers := std_set process_less process functions (gpu_function_resolvers rs)\<rparr>"

text \<open>The maps of a running process, as \<^verbatim>\<open>CpuSetMonitor\<close> enters them at its start.\<close>

fun prefill_maps :: "resolver_env \<Rightarrow> Process \<Rightarrow> (Mapping \<times> string) list \<Rightarrow> resolvers \<Rightarrow> resolvers result" where
  "prefill_maps env p [] rs = Inr rs"
| "prefill_maps env p ((m, binary) # ms) rs =
    sum_bind (emplace_mappings_for env p m binary rs) (prefill_maps env p ms)"

definition proc_regex :: regex where
  "proc_regex = re_seq [re_lit ''/proc/'', Group (Plus is_digit)]"

text \<open>The entries of \<^verbatim>\<open>/proc\<close> and what each process has in its \<^verbatim>\<open>maps\<close> file.\<close>

fun prefill :: "resolver_env \<Rightarrow> (Process \<Rightarrow> string list option) \<Rightarrow> string list \<Rightarrow> resolvers \<Rightarrow> resolvers result" where
  "prefill env files [] rs = Inr rs"
| "prefill env files (path # paths) rs =
    (case regex_match proc_regex path of
       Some [pid] \<Rightarrow>
         if 2 ^ 63 \<le> digits_value pid then Inl Out_of_range
         else let p = Process (sint (word_of_nat (digits_value pid) :: u32)) in
           sum_bind (read_maps (files p)) (\<lambda>maps.
           sum_bind (resolvers_insert env p rs) (\<lambda>rs1.
           sum_bind (prefill_maps env p maps rs1) (\<lambda>rs2.
             prefill env files paths rs2)))
     | _ \<Rightarrow> prefill env files paths rs)"

section \<open>Kernel symbols are resolved to the preceding symbol\<close>

text \<open>The ranges a sorted table of symbols stands for, and the symbol an address belongs to.\<close>

fun symbol_ranges :: "(u64 \<times> string) list \<Rightarrow> (Range \<times> string) list" where
  "symbol_ranges [] = []"
| "symbol_ranges [(a, n)] = [(\<lparr>range_start = a, range_end = UINT64_MAX\<rparr>, n)]"
| "symbol_ranges ((a, n) # (b, m) # es) = (\<lparr>range_start = a, range_end = b\<rparr>, n) # symbol_ranges ((b, m) # es)"

definition symbol_at :: "(u64 \<times> string) list \<Rightarrow> u64 \<Rightarrow> string" where
  "symbol_at es a = snd (last (filter (\<lambda>e. fst e \<le> a) es))"

definition as_mapping :: "Range \<Rightarrow> Mapping" where
  "as_mapping r = \<lparr>range = r, pgoff = 0\<rparr>"

lemma le_UINT64_MAX [simp]: "(a :: u64) \<le> UINT64_MAX"
  by (simp add: UINT64_MAX_def)

lemma std_find_as_mapping:
  "std_find before (as_mapping r) (map (\<lambda>e. (as_mapping (fst e), snd e)) xs) =
    map_option (\<lambda>e. (as_mapping (fst e), snd e)) (std_find range_less r xs)"
  by (induction xs) (auto simp: std_find_def as_mapping_def before_def range_less_def split: list.splits)

lemma std_emplace_last:
  assumes "\<And>e. e \<in> set xs \<Longrightarrow> range_less (fst e) r" "\<And>e. e \<in> set xs \<Longrightarrow> range_start (fst e) < range_end r"
  shows "std_emplace range_less r v xs = (xs @ [(r, v)], True)"
proof -
  have all: "\<And>e. e \<in> set xs \<Longrightarrow> \<not> range_less r (fst e)"
    using assms(2) by (auto simp: range_less_def not_le)
  then have split: "takeWhile (\<lambda>e. \<not> range_less r (fst e)) xs = xs" "dropWhile (\<lambda>e. \<not> range_less r (fst e)) xs = []"
    by auto
  have "xs = [] \<or> range_less (fst (last xs)) r"
    using assms(1) last_in_set by blast
  then show ?thesis unfolding std_emplace_def Let_def split by auto
qed

lemma ksym_ranges_explicit:
  assumes "prev \<noteq> 0" "sorted_wrt (<) (prev # map fst es)" "\<And>e. e \<in> set ((prev, name) # es) \<Longrightarrow> snd e \<noteq> []"
    "\<And>e. e \<in> set (ks_map k) \<Longrightarrow> range_start (fst e) < range_end (fst e) \<and> range_end (fst e) \<le> prev"
  shows "ksym_ranges es prev name k = Inr (k\<lparr>ks_map := ks_map k @ symbol_ranges ((prev, name) # es)\<rparr>)"
  using assms
proof (induction es arbitrary: prev name k)
  case Nil
  have "std_emplace range_less \<lparr>range_start = prev, range_end = UINT64_MAX\<rparr> name (ks_map k) =
      (ks_map k @ [(\<lparr>range_start = prev, range_end = UINT64_MAX\<rparr>, name)], True)"
    using Nil.prems(4) order.strict_trans2 by (intro std_emplace_last) (fastforce simp: range_less_def)+
  then show ?case using Nil.prems(3) by (simp add: Range_new_def not_less)
next
  case (Cons e es)
  obtain b m where e: "e = (b, m)" by (cases e)
  let ?r = "\<lparr>range_start = prev, range_end = b\<rparr>"
  have lt: "prev < b" using Cons.prems(2) e by simp
  have "std_emplace range_less ?r name (ks_map k) = (ks_map k @ [(?r, name)], True)"
    using Cons.prems(4) lt order.strict_trans2 order.strict_trans
    by (intro std_emplace_last) (fastforce simp: range_less_def)+
  then have "ksym_ranges (e # es) prev name k = ksym_ranges es b m (k\<lparr>ks_map := ks_map k @ [(?r, name)]\<rparr>)"
    using lt Cons.prems(1) e by (auto simp: Range_new_def)
  also have "\<dots> = Inr (k\<lparr>ks_map := (ks_map k @ [(?r, name)]) @ symbol_ranges ((b, m) # es)\<rparr>)"
  proof (subst Cons.IH)
    show "range_start (fst f) < range_end (fst f) \<and> range_end (fst f) \<le> b"
      if "f \<in> set (ks_map (k\<lparr>ks_map := ks_map k @ [(?r, name)]\<rparr>))" for f
      using that lt Cons.prems(4)[of f] by auto
  qed (use Cons.prems lt e in auto)
  finally show ?case using e by simp
qed

lemma symbol_ranges_start: "f \<in> set (symbol_ranges es) \<Longrightarrow> range_start (fst f) \<in> fst ` set es"
  by (induction es rule: symbol_ranges.induct) auto

lemma symbol_ranges_ordered:
  "sorted_wrt (<) (map fst es) \<Longrightarrow> mm_ordered (map (\<lambda>e. (as_mapping (fst e), snd e)) (symbol_ranges es))"
proof (induction es rule: symbol_ranges.induct)
  case (3 a n b m es)
  then have "b \<le> range_start (fst f)" if "f \<in> set (symbol_ranges ((b, m) # es))" for f
    using symbol_ranges_start[OF that] by auto
  with 3 show ?case by (auto simp: mm_ordered_Cons as_mapping_def before_def)
qed (auto simp: mm_ordered_Cons as_mapping_def)

lemma symbol_ranges_cover:
  assumes "sorted_wrt (<) (map fst es)" "es \<noteq> []" "fst (hd es) \<le> a" "a < UINT64_MAX"
  shows "\<exists>r. (r, symbol_at es a) \<in> set (symbol_ranges es) \<and> range_start r \<le> a \<and> a < range_end r"
  using assms
proof (induction es rule: symbol_ranges.induct)
  case (3 s n b m es)
  show ?case
  proof (cases "b \<le> a")
    case True
    with 3 show ?thesis by (auto simp: symbol_at_def)
  next
    case False
    have "filter (\<lambda>e. fst e \<le> a) ((b, m) # es) = []"
      using False 3(2) by (auto simp: filter_empty_conv)
    with 3(4) have "symbol_at ((s, n) # (b, m) # es) a = n" by (simp add: symbol_at_def)
    with False 3(4) show ?thesis by auto
  qed
qed (auto simp: symbol_at_def)

lemma Plus_group_not_Nil: "(g, t) \<in> set (re_run (Group (Plus p)) s) \<Longrightarrow> \<exists>c cs. g = [c # cs]"
  by (auto split: list.splits if_splits simp: Suc_diff_le)

lemma regex_match_run: "regex_match r s = Some g \<Longrightarrow> \<exists>t. (g, t) \<in> set (re_run r s)"
  unfolding regex_match_def by (auto split: list.splits dest!: filter_eq_ConsD)

lemma ksym_name_not_Nil: "regex_match ksym_regex line = Some [a, n] \<Longrightarrow> n \<noteq> []"
  using regex_match_run[of ksym_regex line "[a, n]"] unfolding ksym_regex_def
  by (auto simp: re_lit_def simp del: re_run.simps(7) dest!: Plus_group_not_Nil split: list.splits if_splits)

lemma ksym_entry_ok:
  assumes "sorted_wrt (<) (map fst es)" "\<And>e. e \<in> set es \<Longrightarrow> fst e \<noteq> 0 \<and> snd e \<noteq> []" "a \<noteq> (0 :: u64)" "n \<noteq> []"
  shows "sorted_wrt (<) (map fst (fst (std_emplace (<) a n es)))"
    "e \<in> set (fst (std_emplace (<) a n es)) \<Longrightarrow> fst e \<noteq> 0 \<and> snd e \<noteq> []"
proof -
  show "sorted_wrt (<) (map fst (fst (std_emplace (<) a n es)))"
    using u64_key.std_emplace_sorted[OF assms(1)] .
  assume "e \<in> set (fst (std_emplace (<) a n es))"
  then have "e = (a, n) \<or> e \<in> set es" using u64_key.std_emplace_set[OF assms(1), of a n] by blast
  then show "fst e \<noteq> 0 \<and> snd e \<noteq> []" using assms(2)[of e] assms(3,4) by auto
qed

lemma ksym_entries_ok:
  assumes "ksym_entries lines es0 = Inr (Some es)" "sorted_wrt (<) (map fst es0)"
    "\<And>e. e \<in> set es0 \<Longrightarrow> fst e \<noteq> 0 \<and> snd e \<noteq> []"
  shows "sorted_wrt (<) (map fst es) \<and> (\<forall>e \<in> set es. fst e \<noteq> 0 \<and> snd e \<noteq> [])"
  using assms
proof (induction lines arbitrary: es0)
  case (Cons line ls)
  show ?case
  proof (cases "regex_match ksym_regex line")
    case None
    then have "ksym_entries ls es0 = Inr (Some es)" using Cons.prems(1) by simp
    then show ?thesis using Cons.IH Cons.prems(2,3) by blast
  next
    case (Some g)
    have "length g = Suc (Suc 0)"
      using regex_match_groups[OF Some] by (simp add: ksym_regex_def re_lit_def)
    then obtain a n where g: "g = [a, n]" by (auto simp: length_Suc_conv)
    let ?w = "word_of_nat (hex_value a) :: u64"
    have small: "hex_value a < 2 ^ 64" "hex_value a \<noteq> 0"
      and run: "ksym_entries ls (fst (std_emplace (<) ?w n es0)) = Inr (Some es)"
      using Cons.prems(1) by (simp_all add: Some g split: if_splits)
    have nz: "?w \<noteq> 0"
      using small by (simp add: word_of_nat_eq_0_iff nat_dvd_not_less)
    show ?thesis
      using Cons.IH[OF run] ksym_entry_ok[OF Cons.prems(2,3) nz ksym_name_not_Nil] Some g by blast
  qed
qed simp


definition example_kallsyms :: "string list" where
  "example_kallsyms = [''f000 T b'', ''e0 D c'', ''e000 t a'']"

lemma example_kallsyms_lines:
  "regex_match ksym_regex ''f000 T b'' = Some [''f000'', ''b'']" "regex_match ksym_regex ''e0 D c'' = None"
  "regex_match ksym_regex ''e000 t a'' = Some [''e000'', ''a'']" "hex_value ''f000'' = 0xf000" "hex_value ''e000'' = 0xe000"
  by (simp_all add: ksym_regex_def regex_match_def re_lit_def is_hex_def is_digit_def is_space_def upt_rec
    hex_value_def digit_value_def)

lemma example_kallsyms_entries: "ksym_entries example_kallsyms [] = Inr (Some [(0xe000, ''a''), (0xf000, ''b'')])"
  by (simp add: example_kallsyms_def example_kallsyms_lines std_emplace_def)


end
