(* ===== verification/Config_Term.thy ===== *)
theory Config_Term
  imports Topology
begin

text \<open>
  The terms of an event configuration in sysfs (\<^verbatim>\<open>src/perf/event_attr.cpp\<close>): a format such as \<^verbatim>\<open>config:0-7,32-35\<close>
  names the bits of \<^verbatim>\<open>perf_event_attr\<close> that hold the value of a term. The theory holds the parser of the bits,
  the placement of the value and the parser of the terms. Errors are \<^verbatim>\<open>EventAttr::InvalidEvent\<close>, the other
  exceptions, the access to an empty \<^verbatim>\<open>std::optional\<close>, the end of the process by \<^verbatim>\<open>std::exit\<close>, behaviour C++ leaves undefined, and
  a loop that does not end.
\<close>

datatype event_error =
    Invalid_event string
  | Cpp cpp_error
  | Undefined
  | Diverges
  | Bad_optional_access
  | Exit_failure

type_synonym 'a event_result = "event_error + 'a"

definition ev_bind :: "'a event_result \<Rightarrow> ('a \<Rightarrow> 'b event_result) \<Rightarrow> 'b event_result" where
  "ev_bind r f = (case r of Inl e \<Rightarrow> Inl e | Inr x \<Rightarrow> f x)"

lemma ev_bind_simps [simp]: "ev_bind (Inl e) f = Inl e" "ev_bind (Inr x) f = f x"
  by (simp_all add: ev_bind_def)

lemma ev_bind_Inr_iff: "ev_bind r f = Inr y \<longleftrightarrow> (\<exists>x. r = Inr x \<and> f x = Inr y)"
  by (cases r) auto

definition cpp :: "'a result \<Rightarrow> 'a event_result" where
  "cpp r = (case r of Inl e \<Rightarrow> Inl (Cpp e) | Inr x \<Rightarrow> Inr x)"

lemma cpp_Inr_iff: "cpp r = Inr x \<longleftrightarrow> r = Inr x"
  by (cases r) (auto simp: cpp_def)

lemma cpp_simps [simp]: "cpp (Inl e) = Inl (Cpp e)" "cpp (Inr x) = Inr x"
  by (simp_all add: cpp_def)

section \<open>Searching for a regular expression\<close>

text \<open>
  \<^verbatim>\<open>std::regex_search\<close>: the leftmost match and, at that place, the first way to match. The result is the captured
  groups and the text behind the match.
\<close>

fun regex_search :: "regex \<Rightarrow> string \<Rightarrow> (string list \<times> string) option" where
  "regex_search r s =
    (case re_run r s of m # _ \<Rightarrow> Some m
     | [] \<Rightarrow> (case s of [] \<Rightarrow> None | c # cs \<Rightarrow> regex_search r cs))"

declare regex_search.simps [simp del]

text \<open>An expression whose matches are not empty shortens the text.\<close>

definition consuming :: "regex \<Rightarrow> bool" where
  "consuming r \<longleftrightarrow> (\<forall>s. \<forall>(g, t) \<in> set (re_run r s). length t < length s)"

lemma re_run_shorter: "(g, t) \<in> set (re_run r s) \<Longrightarrow> length t \<le> length s"
  using re_run_suffix by force

lemma consuming_Cls [simp]: "consuming (Cls p)"
  by (auto simp: consuming_def split: list.splits)

lemma consuming_Seq_left: "consuming r \<Longrightarrow> consuming (Seq r q)"
  unfolding consuming_def by (fastforce dest: re_run_shorter)

lemma consuming_Seq_right: "consuming q \<Longrightarrow> consuming (Seq r q)"
  unfolding consuming_def by (fastforce dest: re_run_shorter)

lemma consuming_Group [simp]: "consuming r \<Longrightarrow> consuming (Group r)"
  unfolding consuming_def by fastforce

lemma regex_search_shorter:
  "consuming r \<Longrightarrow> regex_search r s = Some (g, t) \<Longrightarrow> length t < length s"
proof (induction s)
  case Nil
  have "(g, t) \<in> set (re_run r [])"
    using Nil.prems(2) by (auto simp: regex_search.simps[of r "[]"] split: list.splits)
  with \<open>consuming r\<close> show ?case unfolding consuming_def by fastforce
next
  case (Cons c cs)
  show ?case
  proof (cases "re_run r (c # cs)")
    case Nil
    with Cons show ?thesis by (auto simp: regex_search.simps[of r "c # cs"])
  next
    case (Cons m ms)
    then have "(g, t) \<in> set (re_run r (c # cs))"
      using Cons.prems(2) by (simp add: regex_search.simps[of r "c # cs"])
    with \<open>consuming r\<close> show ?thesis unfolding consuming_def by fastforce
  qed
qed

section \<open>Bits of a format\<close>

definition bit_mask_regex :: regex where
  "bit_mask_regex = Seq (Opt (Group (Plus is_digit))) (Seq (Cls ((=) CHR ''-'')) (Group (Plus is_digit)))"

lemma bit_mask_regex_consuming: "consuming bit_mask_regex"
  unfolding bit_mask_regex_def by (intro consuming_Seq_right consuming_Group consuming_Seq_left consuming_Cls)

text \<open>
  The bits of one match, for the numbers of its two groups. The addition on \<^verbatim>\<open>int\<close> may overflow, and a shift by a
  negative number or by more than 63 is undefined.
\<close>

definition span_bits :: "int \<Rightarrow> int \<Rightarrow> u64 event_result" where
  "span_bits start end =
    (if end = 2 ^ 31 - 1 then Inl Undefined
     else let len = (end + 1) - start in
       if len \<ge> 2 ^ 31 then Inl Undefined
       else if start < 0 \<or> end > 64 - 1 \<or> len > 64 then Inl (Invalid_event ''invalid config mask'')
       else if len < 0 \<or> start > 63 then Inl Undefined
       else
         let bits = (if len = 64 then - 1 else push_bit (nat len) 1 - 1) in
         Inr (push_bit (nat start) bits))"

definition match_bits :: "string list \<Rightarrow> u64 event_result" where
  "match_bits g =
    ev_bind (cpp (stoi (g ! 0))) (\<lambda>start.
    ev_bind (if g ! 1 = [] then Inr start else cpp (stoi (g ! 1))) (\<lambda>end. span_bits start end))"

function parse_bitmask_from :: "string \<Rightarrow> u64 \<Rightarrow> u64 event_result" where
  "parse_bitmask_from format msk =
    (case regex_search bit_mask_regex format of
       None \<Rightarrow> Inr msk
     | Some (g, suffix) \<Rightarrow> ev_bind (match_bits g) (\<lambda>bits. parse_bitmask_from suffix (msk OR bits)))"
  by pat_completeness auto
termination
  by (relation "measure (\<lambda>(format, msk). length format)")
    (auto dest: regex_search_shorter[OF bit_mask_regex_consuming])

declare parse_bitmask_from.simps [simp del]

definition parse_bitmask :: "string \<Rightarrow> u64 event_result" where
  "parse_bitmask format = parse_bitmask_from format 0"

section \<open>Placing a value\<close>

function apply_mask_from :: "nat \<Rightarrow> nat \<Rightarrow> u64 \<Rightarrow> u64 \<Rightarrow> u64 \<Rightarrow> u64" where
  "apply_mask_from mask_bit value_bit val msk res =
    (if mask_bit < 64
     then
       if msk AND push_bit mask_bit 1 \<noteq> 0
       then apply_mask_from (mask_bit + 1) (value_bit + 1) val msk
         (res OR push_bit mask_bit (drop_bit value_bit val AND 1))
       else apply_mask_from (mask_bit + 1) value_bit val msk res
     else res)"
  by pat_completeness auto
termination
  by (relation "measure (\<lambda>(mask_bit, _). 64 - mask_bit)") auto

declare apply_mask_from.simps [simp del]

definition apply_mask :: "u64 \<Rightarrow> u64 \<Rightarrow> u64" where
  "apply_mask val msk = apply_mask_from 0 0 val msk 0"

section \<open>Terms of a configuration\<close>

definition kv_regex :: regex where
  "kv_regex = Seq (Group (Plus (\<lambda>c. c \<noteq> CHR ''='' \<and> c \<noteq> CHR '','')))
    (Opt (Seq (Cls ((=) CHR ''='')) (Group (Plus (\<lambda>c. c \<noteq> CHR '','')))))"

lemma kv_regex_consuming: "consuming kv_regex"
  unfolding kv_regex_def by (intro consuming_Seq_left consuming_Group consuming_Cls)

text \<open>\<^verbatim>\<open>std::stol\<close> with base 0: the prefix of the digits decides about the base.\<close>

definition is_xdigit :: "char \<Rightarrow> bool" where
  "is_xdigit c \<longleftrightarrow> is_hex c \<or> (65 \<le> (of_char c :: nat) \<and> (of_char c :: nat) \<le> 70)"

definition xdigit_value :: "char \<Rightarrow> nat" where
  "xdigit_value c = (if is_digit c then digit_value c else if is_hex c then of_char c - 87 else of_char c - 55)"

definition base_value :: "nat \<Rightarrow> string \<Rightarrow> nat" where
  "base_value base s = foldl (\<lambda>acc c. base * acc + xdigit_value c) 0 s"

definition stol0_digits :: "string \<Rightarrow> nat \<times> string" where
  "stol0_digits u =
    (if length u > 2 \<and> u ! 0 = CHR ''0'' \<and> (u ! 1 = CHR ''x'' \<or> u ! 1 = CHR ''X'') \<and> is_xdigit (u ! 2)
     then (16, takeWhile is_xdigit (drop 2 u))
     else if u \<noteq> [] \<and> hd u = CHR ''0'' then (8, takeWhile (\<lambda>c. is_digit c \<and> digit_value c < 8) u)
     else (10, takeWhile is_digit u))"

definition stol0 :: "string \<Rightarrow> int result" where
  "stol0 s =
    (let t = dropWhile is_space s;
         neg = (t \<noteq> [] \<and> hd t = CHR ''-'');
         u = (if t \<noteq> [] \<and> (hd t = CHR ''-'' \<or> hd t = CHR ''+'') then tl t else t);
         (base, ds) = stol0_digits u;
         v = (if neg then - int (base_value base ds) else int (base_value base ds)) in
     if ds = [] then Inl Invalid_argument
     else if v < - (2 ^ 63) \<or> 2 ^ 63 \<le> v then Inl Out_of_range
     else Inr v)"

section \<open>The value is deposited into the bits of the mask\<close>

definition bits_below :: "u64 \<Rightarrow> nat \<Rightarrow> nat" where
  "bits_below msk i = card {j. j < i \<and> bit msk j}"

lemma bits_below_0 [simp]: "bits_below msk 0 = 0"
  by (simp add: bits_below_def)

lemma bits_below_Suc: "bits_below msk (Suc i) = bits_below msk i + (if bit msk i then 1 else 0)"
proof -
  have "{j. j < Suc i \<and> bit msk j} = {j. j < i \<and> bit msk j} \<union> (if bit msk i then {i} else {})"
    by (auto simp: less_Suc_eq)
  then show ?thesis by (simp add: bits_below_def)
qed

lemma and_push_bit_1: "(m :: u64) AND push_bit i 1 \<noteq> 0 \<longleftrightarrow> bit m i"
  by (metis and.commute and_exp_eq_0_iff_not_bit push_bit_of_1)

lemma apply_mask_from_bit:
  assumes "mask_bit \<le> 64" "value_bit = bits_below msk mask_bit"
  shows "bit (apply_mask_from mask_bit value_bit val msk res) i \<longleftrightarrow>
    bit res i \<or> (mask_bit \<le> i \<and> bit msk i \<and> bit val (bits_below msk i))"
  using assms
proof (induction mask_bit value_bit val msk res rule: apply_mask_from.induct)
  case (1 mask_bit value_bit val msk res)
  show ?case
  proof (cases "mask_bit < 64")
    case False
    with 1 have "mask_bit = 64" by simp
    then show ?thesis by (auto simp: apply_mask_from.simps[of 64] dest: bit_imp_le_length)
  next
    case True
    have b: "bit (push_bit mask_bit (drop_bit value_bit val AND 1)) i \<longleftrightarrow> i = mask_bit \<and> bit val value_bit"
      using True by (auto simp: bit_simps)
    show ?thesis
    proof (cases "bit msk mask_bit")
      case set: True
      then have n: "msk AND push_bit mask_bit 1 \<noteq> 0" by (simp only: and_push_bit_1 not_not simp_thms)
      have "mask_bit + 1 \<le> 64" "value_bit + 1 = bits_below msk (mask_bit + 1)"
        using True set 1(4) by (simp_all add: bits_below_Suc)
      note IH = 1(1)[OF True n this]
      have "apply_mask_from mask_bit value_bit val msk res = apply_mask_from (mask_bit + 1) (value_bit + 1) val msk
          (res OR push_bit mask_bit (drop_bit value_bit val AND 1))"
        by (subst apply_mask_from.simps) (simp only: True n if_True simp_thms)
      then show ?thesis
        unfolding \<open>apply_mask_from mask_bit _ _ _ _ = _\<close> IH bit_or_iff b using set 1(4) by (auto simp: le_eq_less_or_eq Suc_le_eq)
    next
      case unset: False
      then have n: "\<not> msk AND push_bit mask_bit 1 \<noteq> 0" by (simp only: and_push_bit_1 not_not simp_thms)
      have "mask_bit + 1 \<le> 64" "value_bit = bits_below msk (mask_bit + 1)"
        using True unset 1(4) by (simp_all add: bits_below_Suc)
      from 1(2)[OF True n this] show ?thesis
        using True n unset by (subst apply_mask_from.simps) (auto simp: le_eq_less_or_eq Suc_le_eq)
    qed
  qed
qed

text \<open>
  C27. \<open>apply_mask\<close> is the parallel bit deposit: bit \<open>i\<close> of the result is set exactly when \<open>i\<close> is a bit of
  the mask and the bit of the value with the number of mask bits below \<open>i\<close> is set.
\<close>
theorem apply_mask_deposits:
  "bit (apply_mask val msk) i \<longleftrightarrow> bit msk i \<and> bit val (card {j. j < i \<and> bit msk j})"
  unfolding apply_mask_def using apply_mask_from_bit[of 0 0 msk val 0 i] by (simp add: bits_below_def)

section \<open>The bits of a printed format\<close>

abbreviation dash_digits :: regex where
  "dash_digits \<equiv> Seq (Cls ((=) CHR ''-'')) (Group (Plus is_digit))"

lemma dash_digits_other: "(\<And>cs. s \<noteq> CHR ''-'' # cs) \<Longrightarrow> re_run dash_digits s = []"
  by (auto split: list.splits)

lemma digit_not_dash: "is_digit c \<Longrightarrow> c \<noteq> CHR ''-''"
  by (auto simp: is_digit_def)

lemma dropWhile_drop_short:
  "k < length (takeWhile p s) \<Longrightarrow> \<exists>c cs. drop k s = c # cs \<and> p c"
proof (induction s arbitrary: k)
  case (Cons a s)
  then show ?case by (cases k) (auto split: if_splits)
qed simp

lemma re_run_star_digits:
  "concat (map (\<lambda>(g, t). map (\<lambda>(h, u). (f g t h, u)) (re_run dash_digits t)) (re_run (Star is_digit) s)) =
    map (\<lambda>(h, u). (f [] (dropWhile is_digit s) h, u)) (re_run dash_digits (dropWhile is_digit s))"
proof -
  let ?n = "length (takeWhile is_digit s)"
  have "re_run dash_digits (drop k s) = []" if "k < ?n" for k
    using dropWhile_drop_short[OF that] by (intro dash_digits_other) (auto dest: digit_not_dash)
  then have "concat (map (\<lambda>k. map (\<lambda>(h, u). (f [] (drop k s) h, u)) (re_run dash_digits (drop k s))) (rev [0..<?n])) = []"
    by (simp del: re_run.simps)
  then show ?thesis by (simp add: dropWhile_eq_drop comp_def del: re_run.simps(6)) 
qed

lemma take_takeWhile: "take (length s - length (dropWhile p s)) s = takeWhile p s"
  by (metis append_eq_conv_conj length_takeWhile_le takeWhile_dropWhile_id length_append add_diff_cancel_right')

lemma bit_mask_run:
  "re_run bit_mask_regex s =
    map (\<lambda>(h, u). (takeWhile is_digit s # h, u)) (re_run dash_digits (dropWhile is_digit s))"
proof (cases s)
  case Nil
  then show ?thesis by (simp add: bit_mask_regex_def)
next
  case (Cons c cs)
  show ?thesis
  proof (cases "is_digit c")
    case False
    with Cons show ?thesis by (simp add: bit_mask_regex_def)
  next
    case True
    let ?f = "\<lambda>g t h. (take (length s - length t) s # g) @ h"
    have "re_run dash_digits s = []" using Cons True by (intro dash_digits_other) (auto dest: digit_not_dash)
    then have "re_run bit_mask_regex s =
        concat (map (\<lambda>(g, t). map (\<lambda>(h, u). (?f g t h, u)) (re_run dash_digits t)) (re_run (Star is_digit) cs))"
      using Cons True by (simp add: bit_mask_regex_def comp_def del: re_run.simps(3) re_run.simps(7))
        (simp add: comp_def case_prod_unfold del: re_run.simps(3))
    also have "\<dots> = map (\<lambda>(h, u). (?f [] (dropWhile is_digit cs) h, u)) (re_run dash_digits (dropWhile is_digit cs))"
      by (rule re_run_star_digits)
    finally show ?thesis
      using Cons True take_takeWhile[of s is_digit] by simp
  qed
qed

definition ends_number :: "string \<Rightarrow> bool" where
  "ends_number rest \<longleftrightarrow> (\<forall>c cs. rest = c # cs \<longrightarrow> \<not> is_digit c \<and> c \<noteq> CHR ''-'')"

lemma dropWhile_show_nat:
  assumes "\<And>c cs. rest = c # cs \<Longrightarrow> \<not> is_digit c"
  shows "dropWhile is_digit (show_nat n @ rest) = rest"
proof -
  have "dropWhile is_digit rest = rest" using assms by (cases rest) auto
  then show ?thesis by (simp add: dropWhile_append2 show_nat_digits)
qed

lemma dash_digits_run:
  assumes "ends_number rest"
  shows "\<exists>ms. re_run dash_digits (CHR ''-'' # show_nat n @ rest) = ([show_nat n], rest) # ms"
proof -
  obtain c cs where n: "show_nat n = c # cs" by (cases "show_nat n") auto
  then have d: "is_digit c" "takeWhile is_digit (cs @ rest) = cs"
    using show_nat_hd_digit[of n] takeWhile_show_nat[of rest n] assms by (auto simp: ends_number_def)
  then show ?thesis unfolding n by simp
qed

lemma search_span:
  assumes "ends_number rest"
  shows "regex_search bit_mask_regex (show_nat a @ CHR ''-'' # show_nat b @ rest) = Some ([show_nat a, show_nat b], rest)"
proof -
  have "\<not> is_digit (CHR ''-'')" by (simp add: is_digit_def)
  then have "takeWhile is_digit (show_nat a @ CHR ''-'' # show_nat b @ rest) = show_nat a"
    "dropWhile is_digit (show_nat a @ CHR ''-'' # show_nat b @ rest) = CHR ''-'' # show_nat b @ rest"
    by (auto intro!: takeWhile_show_nat dropWhile_show_nat)
  with dash_digits_run[OF assms, of b] show ?thesis
    by (auto simp: regex_search.simps[of _ "show_nat a @ _"] bit_mask_run simp del: re_run.simps)
qed

lemma search_digits:
  assumes "\<forall>c \<in> set ds. is_digit c" "ends_number rest"
  shows "regex_search bit_mask_regex (ds @ rest) = regex_search bit_mask_regex rest"
  using assms(1)
proof (induction ds)
  case (Cons c cs)
  have d: "dropWhile is_digit rest = rest" using assms(2) by (cases rest) (auto simp: ends_number_def)
  with Cons.prems have "dropWhile is_digit (c # cs @ rest) = rest" by (simp add: dropWhile_append2)
  then have "re_run bit_mask_regex (c # cs @ rest) = []"
    using assms(2) dash_digits_other[of rest] by (auto simp: bit_mask_run ends_number_def simp del: re_run.simps)
  with Cons show ?case by (simp add: regex_search.simps[of _ "c # cs @ rest"])
qed simp

lemma search_end: "regex_search bit_mask_regex [] = None"
  by (simp add: regex_search.simps bit_mask_run)

lemma search_comma: "regex_search bit_mask_regex (CHR '','' # s) = regex_search bit_mask_regex s"
proof -
  have "re_run bit_mask_regex (CHR '','' # s) = []" by (simp add: bit_mask_run is_digit_def)
  then show ?thesis by (simp add: regex_search.simps[of _ "CHR '','' # s"])
qed

lemma parse_comma: "parse_bitmask_from (CHR '','' # s) m = parse_bitmask_from s m"
  by (simp add: parse_bitmask_from.simps[of "CHR '','' # s"] parse_bitmask_from.simps[of s] search_comma)

lemma parse_digits: "ends_number rest \<Longrightarrow> parse_bitmask_from (show_nat n @ rest) m = parse_bitmask_from rest m"
  using search_digits[of "show_nat n" rest] show_nat_digits
  by (simp add: parse_bitmask_from.simps[of "show_nat n @ rest"] parse_bitmask_from.simps[of rest])

lemma span_bits_ok:
  assumes "a \<le> b" "b < 64"
  shows "\<exists>w. span_bits (int a) (int b) = Inr w \<and> (\<forall>i. bit w i \<longleftrightarrow> a \<le> i \<and> i \<le> b)"
proof -
  let ?len = "b + 1 - a"
  have n: "nat (int b + 1 - int a) = ?len" using assms by simp
  have "bit (push_bit a (mask ?len :: u64)) i \<longleftrightarrow> a \<le> i \<and> i \<le> b" for i
    using assms by (auto simp: bit_simps)
  moreover have "span_bits (int a) (int b) = Inr (push_bit a (mask ?len))"
  proof (cases "?len = 64")
    case True
    then have "mask ?len = (- 1 :: u64)" by (simp add: mask_eq_exp_minus_1)
    moreover have "a = 0" "b = 63" using True assms by simp_all
    ultimately show ?thesis by (simp add: span_bits_def)
  next
    case False
    then have "int b + 1 - int a \<noteq> 64" using assms by simp
    with assms n show ?thesis by (simp add: span_bits_def mask_eq_exp_minus_1 Let_def)
  qed
  ultimately show ?thesis by blast
qed

lemma parse_span:
  assumes "ends_number rest" "a \<le> b" "b < 64"
  shows "\<exists>w. parse_bitmask_from (show_nat a @ CHR ''-'' # show_nat b @ rest) m = parse_bitmask_from rest (m OR w) \<and>
    (\<forall>i. bit w i \<longleftrightarrow> a \<le> i \<and> i \<le> b)"
proof -
  have "match_bits [show_nat a, show_nat b] = span_bits (int a) (int b)"
    using assms by (simp add: match_bits_def stoi_show_nat)
  then show ?thesis
    using span_bits_ok[OF assms(2,3)] search_span[OF assms(1), of a b]
    by (auto simp: parse_bitmask_from.simps[of "show_nat a @ _"])
qed

fun mask_item_ok :: "list_item \<Rightarrow> bool" where
  "mask_item_ok (One n) \<longleftrightarrow> True"
| "mask_item_ok (Span a b) \<longleftrightarrow> a \<le> b \<and> b < 64"

fun span_covers :: "nat \<Rightarrow> list_item \<Rightarrow> bool" where
  "span_covers i (One n) \<longleftrightarrow> False"
| "span_covers i (Span a b) \<longleftrightarrow> a \<le> i \<and> i \<le> b"

lemma parse_item:
  assumes "ends_number rest" "mask_item_ok item"
  shows "\<exists>w. parse_bitmask_from (show_item item @ rest) m = parse_bitmask_from rest (m OR w) \<and>
    (\<forall>i. bit w i \<longleftrightarrow> span_covers i item)"
proof (cases item)
  case (One n)
  then show ?thesis using parse_digits[OF assms(1)] by (auto intro: exI[of _ 0])
next
  case (Span a b)
  then show ?thesis using parse_span[OF assms(1), of a b m] assms(2) by simp
qed

lemma parse_items:
  assumes "\<forall>item \<in> set items. mask_item_ok item"
  shows "\<exists>w. parse_bitmask_from (join (CHR '','') (map show_item items)) m = Inr w \<and>
    (\<forall>i. bit w i \<longleftrightarrow> bit m i \<or> (\<exists>item \<in> set items. span_covers i item))"
  using assms
proof (induction items arbitrary: m)
  case Nil
  then show ?case by (simp add: parse_bitmask_from.simps search_end)
next
  case (Cons x items)
  let ?rest = "if items = [] then [] else CHR '','' # join (CHR '','') (map show_item items)"
  have j: "join (CHR '','') (map show_item (x # items)) = show_item x @ ?rest" by (cases items) auto
  have "ends_number ?rest" by (simp add: ends_number_def is_digit_def)
  with Cons.prems obtain w where w: "\<And>i. bit w i \<longleftrightarrow> span_covers i x"
    "parse_bitmask_from (show_item x @ ?rest) m = parse_bitmask_from ?rest (m OR w)"
    using parse_item[of ?rest x m] by auto
  have r: "parse_bitmask_from ?rest (m OR w) = parse_bitmask_from (join (CHR '','') (map show_item items)) (m OR w)"
    by (simp add: parse_comma)
  from Cons.prems have "\<forall>item \<in> set items. mask_item_ok item" by simp
  from Cons.IH[OF this, of "m OR w"] show ?case
    unfolding j w(2) r by (auto simp: bit_or_iff w(1))
qed

end
