(* ===== verification/Event_Attr.thy ===== *)
theory Event_Attr
  imports Complex_Main Config_Term
begin

text \<open>
  The attributes of perf events: \<^verbatim>\<open>include/lo2s/perf/event_attr.hpp\<close>, \<^verbatim>\<open>src/perf/event_attr.cpp\<close> and the system call
  in \<^verbatim>\<open>src/perf/util.cpp\<close>. The kernel is an argument: the system call maps the attributes, the process and CPU
  numbers, the group leader and the flags to an error number or a file descriptor.
\<close>

section \<open>Attributes\<close>

text \<open>
  The members of \<^verbatim>\<open>perf_event_attr\<close> that lo2s uses. \<^verbatim>\<open>sample_freq\<close> is the union member of \<^verbatim>\<open>sample_period\<close>,
  \<^verbatim>\<open>bp_addr\<close> the one of \<^verbatim>\<open>config1\<close> and \<^verbatim>\<open>bp_len\<close> the one of \<^verbatim>\<open>config2\<close>. The member \<^verbatim>\<open>size\<close> never changes and is left out.
\<close>

record perf_event_attr =
  pa_type :: u32
  pa_config :: u64
  pa_config1 :: u64
  pa_config2 :: u64
  pa_sample_period :: u64
  pa_freq :: bool
  pa_sample_type :: u64
  pa_read_format :: u64
  pa_disabled :: bool
  pa_exclude_kernel :: bool
  pa_mmap :: bool
  pa_comm :: bool
  pa_task :: bool
  pa_context_switch :: bool
  pa_sample_id_all :: bool
  pa_enable_on_exec :: bool
  pa_precise_ip :: u64
  pa_watermark :: bool
  pa_wakeup_watermark :: u32
  pa_use_clockid :: bool
  pa_clockid :: int
  pa_bp_type :: u64

definition zero_attr :: perf_event_attr where
  "zero_attr = \<lparr>pa_type = 0, pa_config = 0, pa_config1 = 0, pa_config2 = 0, pa_sample_period = 0, pa_freq = False,
    pa_sample_type = 0, pa_read_format = 0, pa_disabled = False, pa_exclude_kernel = False, pa_mmap = False,
    pa_comm = False, pa_task = False, pa_context_switch = False, pa_sample_id_all = False, pa_enable_on_exec = False,
    pa_precise_ip = 0, pa_watermark = False, pa_wakeup_watermark = 0, pa_use_clockid = False, pa_clockid = 0,
    pa_bp_type = 0\<rparr>"

definition PERF_TYPE_HARDWARE :: u32 where "PERF_TYPE_HARDWARE = 0"
definition PERF_TYPE_SOFTWARE :: u32 where "PERF_TYPE_SOFTWARE = 1"
definition PERF_TYPE_HW_CACHE :: u32 where "PERF_TYPE_HW_CACHE = 3"
definition PERF_TYPE_RAW :: u32 where "PERF_TYPE_RAW = 4"
definition PERF_TYPE_BREAKPOINT :: u32 where "PERF_TYPE_BREAKPOINT = 5"

definition PERF_SAMPLE_IP :: u64 where "PERF_SAMPLE_IP = 1"
definition PERF_SAMPLE_TID :: u64 where "PERF_SAMPLE_TID = 2"
definition PERF_SAMPLE_TIME :: u64 where "PERF_SAMPLE_TIME = 4"
definition PERF_SAMPLE_READ :: u64 where "PERF_SAMPLE_READ = 16"
definition PERF_SAMPLE_CALLCHAIN :: u64 where "PERF_SAMPLE_CALLCHAIN = 32"
definition PERF_SAMPLE_CPU :: u64 where "PERF_SAMPLE_CPU = 128"
definition PERF_SAMPLE_RAW :: u64 where "PERF_SAMPLE_RAW = 1024"

definition PERF_FORMAT_TOTAL_TIME_ENABLED :: u64 where "PERF_FORMAT_TOTAL_TIME_ENABLED = 1"
definition PERF_FORMAT_TOTAL_TIME_RUNNING :: u64 where "PERF_FORMAT_TOTAL_TIME_RUNNING = 2"
definition PERF_FORMAT_GROUP :: u64 where "PERF_FORMAT_GROUP = 8"

definition PERF_FLAG_PID_CGROUP :: u64 where "PERF_FLAG_PID_CGROUP = 4"

datatype Availability = UNAVAILABLE | SYSTEM_MODE | PROCESS_MODE | UNIVERSAL

record event_attr =
  ea_attr :: perf_event_attr
  ea_scale :: rat
  ea_unit :: string
  ea_name :: string
  ea_cpus :: "(Cpu, unit) std_map"
  ea_availability :: Availability

definition event_attr_new :: "string \<Rightarrow> u32 \<Rightarrow> u64 \<Rightarrow> u64 \<Rightarrow> event_attr" where
  "event_attr_new name type config config1 =
    \<lparr>ea_attr = zero_attr\<lparr>pa_type := type, pa_config := config, pa_config1 := config1\<rparr>, ea_scale = 1, ea_unit = ''#'',
     ea_name = name, ea_cpus = [], ea_availability = UNAVAILABLE\<rparr>"

definition attr_upd :: "(perf_event_attr \<Rightarrow> perf_event_attr) \<Rightarrow> event_attr \<Rightarrow> event_attr" where
  "attr_upd f ev = ev\<lparr>ea_attr := f (ea_attr ev)\<rparr>"

lemma attr_upd_simps [simp]:
  "ea_attr (attr_upd f ev) = f (ea_attr ev)"
  "ea_name (attr_upd f ev) = ea_name ev"
  "ea_cpus (attr_upd f ev) = ea_cpus ev"
  "ea_scale (attr_upd f ev) = ea_scale ev"
  "ea_availability (attr_upd f ev) = ea_availability ev"
  by (simp_all add: attr_upd_def)

section \<open>Setting attributes\<close>

definition set_clockid :: "int option \<Rightarrow> event_attr \<Rightarrow> event_attr" where
  "set_clockid clockid =
    attr_upd (\<lambda>a. case clockid of None \<Rightarrow> a\<lparr>pa_use_clockid := False\<rparr>
      | Some c \<Rightarrow> a\<lparr>pa_use_clockid := True, pa_clockid := c\<rparr>)"

definition set_read_format :: "u64 \<Rightarrow> event_attr \<Rightarrow> event_attr" where
  "set_read_format f = attr_upd (\<lambda>a. a\<lparr>pa_read_format := f\<rparr>)"

definition set_disabled :: "event_attr \<Rightarrow> event_attr" where
  "set_disabled = attr_upd (\<lambda>a. a\<lparr>pa_disabled := True\<rparr>)"

definition set_comm :: "event_attr \<Rightarrow> event_attr" where
  "set_comm = attr_upd (\<lambda>a. a\<lparr>pa_comm := True\<rparr>)"

definition set_enable_on_exec :: "event_attr \<Rightarrow> event_attr" where
  "set_enable_on_exec = attr_upd (\<lambda>a. a\<lparr>pa_enable_on_exec := True\<rparr>)"

definition set_task :: "event_attr \<Rightarrow> event_attr" where
  "set_task = attr_upd (\<lambda>a. a\<lparr>pa_task := True\<rparr>)"

definition set_exclude_kernel :: "event_attr \<Rightarrow> event_attr" where
  "set_exclude_kernel = attr_upd (\<lambda>a. a\<lparr>pa_exclude_kernel := True\<rparr>)"

definition set_mmap :: "event_attr \<Rightarrow> event_attr" where
  "set_mmap = attr_upd (\<lambda>a. a\<lparr>pa_mmap := True\<rparr>)"

definition set_context_switch :: "event_attr \<Rightarrow> event_attr" where
  "set_context_switch = attr_upd (\<lambda>a. a\<lparr>pa_context_switch := True\<rparr>)"

definition set_sample_id_all :: "event_attr \<Rightarrow> event_attr" where
  "set_sample_id_all = attr_upd (\<lambda>a. a\<lparr>pa_sample_id_all := True\<rparr>)"

definition set_precise_ip :: "u64 \<Rightarrow> event_attr \<Rightarrow> event_attr event_result" where
  "set_precise_ip p ev =
    (if p > 3 then Inl (Cpp (Runtime_error ''precise_ip set to > 3!''))
     else Inr (attr_upd (\<lambda>a. a\<lparr>pa_precise_ip := p\<rparr>) ev))"

definition set_sample_type :: "u64 \<Rightarrow> event_attr \<Rightarrow> event_attr" where
  "set_sample_type f = attr_upd (\<lambda>a. a\<lparr>pa_sample_type := pa_sample_type a OR f\<rparr>)"

definition set_watermark :: "u64 \<Rightarrow> event_attr \<Rightarrow> event_attr" where
  "set_watermark n = attr_upd (\<lambda>a. a\<lparr>pa_watermark := True, pa_wakeup_watermark := ucast n\<rparr>)"

definition sample_period :: "int \<Rightarrow> event_attr \<Rightarrow> event_attr" where
  "sample_period period = attr_upd (\<lambda>a. a\<lparr>pa_freq := False, pa_sample_period := word_of_int period\<rparr>)"

definition sample_freq :: "u64 \<Rightarrow> event_attr \<Rightarrow> event_attr" where
  "sample_freq freq = attr_upd (\<lambda>a. a\<lparr>pa_freq := True, pa_sample_period := freq\<rparr>)"

definition event_attr_update :: "u64 \<Rightarrow> string \<Rightarrow> event_attr \<Rightarrow> event_attr event_result" where
  "event_attr_update val format ev =
    (if CHR '':'' \<notin> set format then Inl (Invalid_event ''invalid format description: missing colon'')
     else
       let target_config = takeWhile (\<lambda>c. c \<noteq> CHR '':'') format in
       ev_bind (parse_bitmask (drop (length target_config + 1) format)) (\<lambda>msk.
         let ev1 = (if target_config = ''config''
               then attr_upd (\<lambda>a. a\<lparr>pa_config := pa_config a OR apply_mask val msk\<rparr>) ev else ev) in
         Inr (if target_config = ''config1''
           then attr_upd (\<lambda>a. a\<lparr>pa_config1 := pa_config1 a OR apply_mask val msk\<rparr>) ev1 else ev1)))"

section \<open>Opening\<close>

type_synonym perf_syscall = "perf_event_attr \<Rightarrow> int \<Rightarrow> int \<Rightarrow> int \<Rightarrow> u64 \<Rightarrow> int + int"

definition to_int32 :: "int \<Rightarrow> int" where
  "to_int32 i = sint (word_of_int i :: 32 word)"

definition perf_event_open ::
    "perf_syscall \<Rightarrow> perf_event_attr \<Rightarrow> ExecutionScope \<Rightarrow> int \<Rightarrow> u64 \<Rightarrow> int \<Rightarrow> (int + int) result" where
  "perf_event_open sys a scope group_fd flags cgroup_fd =
    (if scope_is_cpu scope
     then sum_bind (scope_as_cpu scope) (\<lambda>c.
       Inr (if cgroup_fd \<noteq> - 1
         then sys a cgroup_fd (to_int32 (cpu_as_int c)) group_fd (flags OR PERF_FLAG_PID_CGROUP)
         else sys a (- 1) (to_int32 (cpu_as_int c)) group_fd flags))
     else sum_bind (scope_as_thread scope) (\<lambda>t. Inr (sys a (to_int32 (thread_as_int t)) (- 1) group_fd flags)))"

definition can_open :: "perf_syscall \<Rightarrow> event_attr \<Rightarrow> ExecutionScope \<Rightarrow> bool event_result" where
  "can_open sys ev scope =
    ev_bind (cpp (perf_event_open sys (ea_attr ev) scope (- 1) 0 (- 1)))
      (\<lambda>fd. case fd of Inl _ \<Rightarrow> Inr False | Inr _ \<Rightarrow> Inr True)"

text \<open>\<open>EventGuard\<close>: the file descriptor of an opened event, which is switched to non-blocking mode.\<close>

datatype event_location = At_cpu Cpu | At_thread Thread

fun location_scope :: "event_location \<Rightarrow> ExecutionScope" where
  "location_scope (At_cpu c) = scope_of_cpu c"
| "location_scope (At_thread t) = scope_of_thread t"

definition event_guard_new ::
    "perf_syscall \<Rightarrow> (int \<Rightarrow> int option) \<Rightarrow> event_attr \<Rightarrow> event_location \<Rightarrow> int \<Rightarrow> int \<Rightarrow> int result" where
  "event_guard_new sys set_nonblock ev location group_fd cgroup_fd =
    sum_bind (perf_event_open sys (ea_attr ev) (location_scope location) group_fd 0 cgroup_fd)
      (\<lambda>r. case r of Inl errno \<Rightarrow> Inl (System_error errno)
       | Inr fd \<Rightarrow> (case set_nonblock fd of Some errno \<Rightarrow> Inl (System_error errno) | None \<Rightarrow> Inr fd))"

definition scope_location :: "ExecutionScope \<Rightarrow> event_location result" where
  "scope_location scope =
    (if scope_is_cpu scope then sum_bind (scope_as_cpu scope) (\<lambda>c. Inr (At_cpu c))
     else sum_bind (scope_as_thread scope) (\<lambda>t. Inr (At_thread t)))"

definition open_at :: "perf_syscall \<Rightarrow> (int \<Rightarrow> int option) \<Rightarrow> event_attr \<Rightarrow> ExecutionScope \<Rightarrow> int \<Rightarrow> int result" where
  "open_at sys nb ev scope cgroup_fd =
    sum_bind (scope_location scope) (\<lambda>l. event_guard_new sys nb ev l (- 1) cgroup_fd)"

definition open_as_group_leader ::
    "perf_syscall \<Rightarrow> (int \<Rightarrow> int option) \<Rightarrow> event_attr \<Rightarrow> ExecutionScope \<Rightarrow> int \<Rightarrow> event_attr \<times> int result" where
  "open_as_group_leader sys nb ev scope cgroup_fd =
    (let ev' = attr_upd (\<lambda>a. a\<lparr>pa_read_format := pa_read_format a OR PERF_FORMAT_GROUP,
           pa_sample_type := pa_sample_type a OR PERF_SAMPLE_READ\<rparr>) ev in
     (ev', open_at sys nb ev' scope cgroup_fd))"

definition open_child ::
    "perf_syscall \<Rightarrow> (int \<Rightarrow> int option) \<Rightarrow> int \<Rightarrow> event_attr \<Rightarrow> ExecutionScope \<Rightarrow> int \<Rightarrow> int result" where
  "open_child sys nb leader_fd child scope cgroup_fd =
    sum_bind (scope_location scope) (\<lambda>l. event_guard_new sys nb child l leader_fd cgroup_fd)"

definition bars_join :: "string list \<Rightarrow> string" where
  "bars_join names = (case names of [] \<Rightarrow> [] | n # ns \<Rightarrow> n @ concat (map (\<lambda>m. ''||'' @ m) ns))"

definition syscall_filter :: "int list \<Rightarrow> string" where
  "syscall_filter ids = bars_join (map (\<lambda>i. ''id == '' @ show_int i) ids)"

definition set_syscall_filter :: "(string \<Rightarrow> int option) \<Rightarrow> int list \<Rightarrow> unit result" where
  "set_syscall_filter ioctl ids =
    (if ids = [] then Inr ()
     else case ioctl (syscall_filter ids) of None \<Rightarrow> Inr () | Some errno \<Rightarrow> Inl (System_error errno))"

section \<open>Availability\<close>

text \<open>An empty set of CPUs has no first element; the code reads it all the same.\<close>

definition update_availability :: "perf_syscall \<Rightarrow> event_attr \<Rightarrow> event_attr event_result" where
  "update_availability sys ev =
    ev_bind (can_open sys ev (scope_of_thread (Thread 0))) (\<lambda>proc.
      case ea_cpus ev of [] \<Rightarrow> Inl Undefined
      | (cpu, _) # _ \<Rightarrow>
        ev_bind (can_open sys ev (scope_of_cpu cpu)) (\<lambda>system.
          Inr (ev\<lparr>ea_availability :=
            (if \<not> proc \<and> \<not> system then UNAVAILABLE
             else if proc \<and> \<not> system then PROCESS_MODE
             else if \<not> proc \<and> system then SYSTEM_MODE
             else UNIVERSAL)\<rparr>)))"

definition event_is_openable :: "perf_syscall \<Rightarrow> event_attr \<Rightarrow> (bool \<times> event_attr) event_result" where
  "event_is_openable sys ev =
    ev_bind (update_availability sys ev) (\<lambda>ev.
      if ea_availability ev = UNAVAILABLE
      then ev_bind (update_availability sys (set_exclude_kernel ev)) (\<lambda>ev. Inr (ea_availability ev \<noteq> UNAVAILABLE, ev))
      else Inr (True, ev))"

definition is_available_in :: "event_attr \<Rightarrow> ExecutionScope \<Rightarrow> bool result" where
  "is_available_in ev scope =
    (if ea_availability ev = UNAVAILABLE then Inr False
     else if scope_is_thread scope \<or> scope_is_process scope then Inr (ea_availability ev \<noteq> SYSTEM_MODE)
     else if ea_availability ev = PROCESS_MODE then Inr False
     else if ea_cpus ev = [] then Inr True
     else sum_bind (scope_as_cpu scope) (\<lambda>c. Inr (std_count cpu_less (ea_cpus ev) c \<noteq> 0)))"

fun cpu_set_from :: "perf_syscall \<Rightarrow> event_attr \<Rightarrow> Cpu list \<Rightarrow> (Cpu, unit) std_map \<Rightarrow> (Cpu, unit) std_map event_result" where
  "cpu_set_from sys ev [] cpus = Inr cpus"
| "cpu_set_from sys ev (c # cs) cpus =
    ev_bind (can_open sys ev (scope_of_cpu c)) (\<lambda>ok.
      cpu_set_from sys ev cs (if ok then fst (std_emplace cpu_less c () cpus) else cpus))"

definition get_cpu_set_for :: "perf_syscall \<Rightarrow> topology \<Rightarrow> event_attr \<Rightarrow> (Cpu, unit) std_map event_result" where
  "get_cpu_set_for sys t ev = cpu_set_from sys ev (map fst (tp_cpus t)) []"

section \<open>Kinds of events\<close>

definition predefined_event_attr ::
    "perf_syscall \<Rightarrow> topology \<Rightarrow> string \<Rightarrow> u32 \<Rightarrow> u64 \<Rightarrow> u64 \<Rightarrow> (Cpu, unit) std_map \<Rightarrow> event_attr event_result" where
  "predefined_event_attr sys t name type config config1 cpus =
    (let ev = event_attr_new name type config config1 in
     ev_bind (if cpus = [] then get_cpu_set_for sys t ev else Inr cpus) (\<lambda>cs.
     ev_bind (event_is_openable sys (ev\<lparr>ea_cpus := cs\<rparr>)) (\<lambda>(_, ev). Inr ev)))"

text \<open>\<^verbatim>\<open>std::stoull\<close> with base 16.\<close>

definition stoull16 :: "string \<Rightarrow> u64 result" where
  "stoull16 s =
    (let t = dropWhile is_space s;
         neg = (t \<noteq> [] \<and> hd t = CHR ''-'');
         u = (if t \<noteq> [] \<and> (hd t = CHR ''-'' \<or> hd t = CHR ''+'') then tl t else t);
         w = (if length u > 2 \<and> u ! 0 = CHR ''0'' \<and> (u ! 1 = CHR ''x'' \<or> u ! 1 = CHR ''X'') \<and> is_xdigit (u ! 2)
              then drop 2 u else u);
         ds = takeWhile is_xdigit w;
         v = base_value 16 ds in
     if ds = [] then Inl Invalid_argument
     else if 2 ^ 64 \<le> v then Inl Out_of_range
     else Inr (if neg then - word_of_nat v else word_of_nat v))"

definition raw_event_attr :: "perf_syscall \<Rightarrow> topology \<Rightarrow> string \<Rightarrow> event_attr event_result" where
  "raw_event_attr sys t name =
    (if name = [] then Inl (Cpp Out_of_range)
     else ev_bind (cpp (stoull16 (tl name))) (\<lambda>config.
       let ev = event_attr_new name PERF_TYPE_RAW config 0 in
       ev_bind (get_cpu_set_for sys t ev) (\<lambda>cs.
       ev_bind (event_is_openable sys (ev\<lparr>ea_cpus := cs\<rparr>)) (\<lambda>(_, ev). Inr ev))))"

definition breakpoint_event_attr :: "u64 \<Rightarrow> u64 \<Rightarrow> event_attr" where
  "breakpoint_event_attr addr bp_type =
    attr_upd (\<lambda>a. a\<lparr>pa_bp_type := bp_type, pa_config1 := addr, pa_config2 := 8\<rparr>)
      (event_attr_new (show_u64 addr) PERF_TYPE_BREAKPOINT 0 0)"

text \<open>The files of the PMUs below \<^verbatim>\<open>/sys/bus/event_source/devices\<close>: contents, \<open>None\<close> when a file cannot be read.\<close>

record pmu_files =
  pf_type :: "string \<Rightarrow> string option"
  pf_event :: "string \<Rightarrow> string \<Rightarrow> string option"
  pf_format :: "string \<Rightarrow> string \<Rightarrow> string option"
  pf_cpus :: "string \<Rightarrow> string option"
  pf_cpumask :: "string \<Rightarrow> string option"
  pf_scale :: "string \<Rightarrow> string \<Rightarrow> rat option"
  pf_unit :: "string \<Rightarrow> string \<Rightarrow> string option"

definition try_read_string :: "string option \<Rightarrow> string option" where
  "try_read_string file =
    (case file of None \<Rightarrow> None | Some content \<Rightarrow> (let w = first_word content in if w = [] then None else Some w))"

definition try_read_u32 :: "string option \<Rightarrow> u32 option" where
  "try_read_u32 file =
    (case file of None \<Rightarrow> None
     | Some content \<Rightarrow>
       let t = dropWhile is_space content;
           u = (if t \<noteq> [] \<and> (hd t = CHR ''-'' \<or> hd t = CHR ''+'') then tl t else t);
           ds = takeWhile is_digit u in
       if ds = [] \<or> 2 ^ 32 \<le> digits_value ds then None else Some (stream_u32 (Some content)))"

definition pmu_char :: "char \<Rightarrow> bool" where
  "pmu_char c \<longleftrightarrow> lower_or_digit c \<or> c = CHR ''-'' \<or> c = CHR ''_''"

definition ev_name_regex :: regex where
  "ev_name_regex = re_seq [Group (Plus pmu_char), Cls (\<lambda>c. c = CHR ''/'' \<or> c = CHR '':''), Group (Plus pmu_char),
    Opt (Cls ((=) CHR ''/''))]"

function apply_terms :: "pmu_files \<Rightarrow> string \<Rightarrow> string \<Rightarrow> event_attr \<Rightarrow> event_attr event_result" where
  "apply_terms f pmu cfg ev =
    (case regex_search kv_regex cfg of
       None \<Rightarrow> Inr ev
     | Some (g, suffix) \<Rightarrow>
       let val = (if g ! 1 \<noteq> [] then g ! 1 else ''0x1'') in
       case try_read_string (pf_format f pmu (g ! 0)) of
         None \<Rightarrow> Inl (Invalid_event ''cannot read event format'')
       | Some format \<Rightarrow>
         ev_bind (cpp (stol0 val)) (\<lambda>v.
         ev_bind (event_attr_update (word_of_int v) format ev) (\<lambda>ev. apply_terms f pmu suffix ev)))"
  by pat_completeness auto
termination
  by (relation "measure (\<lambda>(f, pmu, cfg, ev). length cfg)")
    (auto dest: regex_search_shorter[OF kv_regex_consuming])

declare apply_terms.simps [simp del]

definition read_cpu_ids :: "string option \<Rightarrow> u32 list event_result" where
  "read_cpu_ids file = (case parse_list_from_file file of None \<Rightarrow> Inl Diverges | Some r \<Rightarrow> cpp r)"

definition sysfs_cpus :: "perf_syscall \<Rightarrow> topology \<Rightarrow> pmu_files \<Rightarrow> string \<Rightarrow> event_attr \<Rightarrow> (Cpu, unit) std_map event_result" where
  "sysfs_cpus sys t f pmu ev =
    ev_bind (read_cpu_ids (pf_cpus f pmu)) (\<lambda>ids.
    ev_bind (if ids = [] then read_cpu_ids (pf_cpumask f pmu) else Inr ids) (\<lambda>ids.
      if ids = [] then get_cpu_set_for sys t ev
      else Inr (fold (\<lambda>i cpus. fst (std_emplace cpu_less (cpu_of_id i) () cpus)) ids [])))"

definition sysfs_event_attr :: "perf_syscall \<Rightarrow> topology \<Rightarrow> pmu_files \<Rightarrow> string \<Rightarrow> event_attr event_result" where
  "sysfs_event_attr sys t f ev_name =
    (let g = (case regex_match ev_name_regex ev_name of Some g \<Rightarrow> g | None \<Rightarrow> [[], []]);
         pmu = g ! 0; name = g ! 1 in
     case try_read_u32 (pf_type f pmu) of
       None \<Rightarrow> Inl (Invalid_event (''unknown PMU '' @ [CHR 0x27] @ pmu @ [CHR 0x27]))
     | Some type \<Rightarrow>
       (case try_read_string (pf_event f pmu name) of
          None \<Rightarrow> Inl (Invalid_event (''unknown event '' @ [CHR 0x27] @ name @ [CHR 0x27] @ '' for PMU '' @
            [CHR 0x27] @ pmu @ [CHR 0x27]))
        | Some cfg \<Rightarrow>
          let ev = event_attr_new ev_name type 0 0 in
          ev_bind (sysfs_cpus sys t f pmu ev) (\<lambda>cs.
          ev_bind (apply_terms f pmu cfg (ev\<lparr>ea_cpus := cs\<rparr>)) (\<lambda>ev.
          let ev = ev\<lparr>ea_scale := (case pf_scale f pmu name of Some x \<Rightarrow> x | None \<Rightarrow> 1),
                ea_unit := (case try_read_string (pf_unit f pmu name) of Some u \<Rightarrow> u | None \<Rightarrow> ''#'')\<rparr> in
          ev_bind (event_is_openable sys ev) (\<lambda>(ok, ev).
            if ok then Inr ev
            else Inl (Invalid_event ''Event can not be opened in process- or system-monitoring-mode''))))))"

section \<open>Terms write their bits\<close>

definition item_covers :: "list_item list \<Rightarrow> nat \<Rightarrow> bool" where
  "item_covers items i \<longleftrightarrow> (\<exists>item \<in> set items. span_covers i item)"

lemma event_attr_update_format:
  assumes "CHR '':'' \<notin> set target" "parse_bitmask bits = Inr msk"
  shows "event_attr_update val (target @ '':'' @ bits) ev = Inr
    (if target = ''config'' then attr_upd (\<lambda>a. a\<lparr>pa_config := pa_config a OR apply_mask val msk\<rparr>) ev
     else if target = ''config1'' then attr_upd (\<lambda>a. a\<lparr>pa_config1 := pa_config1 a OR apply_mask val msk\<rparr>) ev
     else ev)"
proof -
  have "takeWhile (\<lambda>c. c \<noteq> CHR '':'') (target @ '':'' @ bits) = target"
    using assms(1) by (simp add: takeWhile_append)
  then show ?thesis using assms(2) by (simp add: event_attr_update_def Let_def)
qed

lemma deposit_spans:
  assumes "\<And>j. bit msk j \<longleftrightarrow> item_covers items j"
  shows "bit (old OR apply_mask val msk) i \<longleftrightarrow>
    bit old i \<or> item_covers items i \<and> bit val (card {j. j < i \<and> item_covers items j})"
  using apply_mask_from_bit[of 0 0 msk val 0 i] assms by (simp add: bit_or_iff apply_mask_def bits_below_def)

text \<open>
  C15. A term of a format that lists bit ranges is written into \<^verbatim>\<open>config\<close> or \<^verbatim>\<open>config1\<close>: bit \<open>i\<close> of the member is set
  when it was set before, or when \<open>i\<close> lies in one of the ranges and the bit of the value is set that has as
  many range bits below it. Every other member keeps its value. A number that stands alone in the format
  covers no bit.
\<close>
theorem config_term_deposits:
  assumes "\<forall>item \<in> set items. mask_item_ok item"
  shows "\<exists>ev' ev1'.
    event_attr_update val (''config:'' @ join (CHR '','') (map show_item items)) ev = Inr ev' \<and>
    event_attr_update val (''config1:'' @ join (CHR '','') (map show_item items)) ev = Inr ev1' \<and>
    ev' = attr_upd (\<lambda>a. a\<lparr>pa_config := pa_config (ea_attr ev')\<rparr>) ev \<and>
    ev1' = attr_upd (\<lambda>a. a\<lparr>pa_config1 := pa_config1 (ea_attr ev1')\<rparr>) ev \<and>
    (\<forall>i. bit (pa_config (ea_attr ev')) i \<longleftrightarrow> bit (pa_config (ea_attr ev)) i \<or>
      item_covers items i \<and> bit val (card {j. j < i \<and> item_covers items j})) \<and>
    (\<forall>i. bit (pa_config1 (ea_attr ev1')) i \<longleftrightarrow> bit (pa_config1 (ea_attr ev)) i \<or>
      item_covers items i \<and> bit val (card {j. j < i \<and> item_covers items j}))"
proof -
  obtain msk where m: "parse_bitmask (join (CHR '','') (map show_item items)) = Inr msk"
    and b: "\<And>i. bit msk i \<longleftrightarrow> item_covers items i"
    using parse_items[OF assms, of 0] by (auto simp: parse_bitmask_def item_covers_def)
  note d = deposit_spans[OF b]
  show ?thesis
    using event_attr_update_format[OF _ m, of "''config''"] event_attr_update_format[OF _ m, of "''config1''"] d
    by (auto simp: attr_upd_def)
qed

theorem config_term_deposits_witness:
  "\<exists>ev' ev1'.
    event_attr_update 5 (''config:'' @ join (CHR '','') (map show_item [Span 0 7, Span 32 35])) (event_attr_new ''x'' 4 0 0) = Inr ev' \<and>
    event_attr_update 5 (''config1:'' @ join (CHR '','') (map show_item [Span 0 7, Span 32 35])) (event_attr_new ''x'' 4 0 0) = Inr ev1' \<and>
    ev' = attr_upd (\<lambda>a. a\<lparr>pa_config := pa_config (ea_attr ev')\<rparr>) (event_attr_new ''x'' 4 0 0) \<and>
    ev1' = attr_upd (\<lambda>a. a\<lparr>pa_config1 := pa_config1 (ea_attr ev1')\<rparr>) (event_attr_new ''x'' 4 0 0) \<and>
    (\<forall>i. bit (pa_config (ea_attr ev')) i \<longleftrightarrow> bit (pa_config (ea_attr (event_attr_new ''x'' 4 0 0))) i \<or>
      item_covers [Span 0 7, Span 32 35] i \<and> bit (5 :: u64) (card {j. j < i \<and> item_covers [Span 0 7, Span 32 35] j})) \<and>
    (\<forall>i. bit (pa_config1 (ea_attr ev1')) i \<longleftrightarrow> bit (pa_config1 (ea_attr (event_attr_new ''x'' 4 0 0))) i \<or>
      item_covers [Span 0 7, Span 32 35] i \<and> bit (5 :: u64) (card {j. j < i \<and> item_covers [Span 0 7, Span 32 35] j}))"
  by (rule config_term_deposits) simp

text \<open>
  A format of a single bit, such as the \<^verbatim>\<open>config:23\<close> of the terms \<^verbatim>\<open>inv\<close> and \<^verbatim>\<open>edge\<close> of many PMUs, has the empty
  mask: the regular expression requires the dash and the end. The term is ignored without an error.
\<close>

lemma single_bit_term_ignored:
  assumes "CHR '':'' \<notin> set target"
  shows "event_attr_update val (target @ '':'' @ show_nat n) ev = Inr ev"
proof -
  have "parse_bitmask (show_nat n) = Inr 0"
    using parse_digits[of "[]" n 0]
    by (simp add: parse_bitmask_def ends_number_def parse_bitmask_from.simps[of "[]"] search_end)
  moreover have "apply_mask val 0 = 0"
    by (rule bit_word_eqI) (use apply_mask_from_bit[of 0 0 0 val 0] in \<open>simp add: apply_mask_def bits_below_def\<close>)
  ultimately show ?thesis
    using event_attr_update_format[OF assms, of "show_nat n" 0] by (simp add: attr_upd_def)
qed

section \<open>Where an event is available\<close>

definition opens :: "perf_syscall \<Rightarrow> perf_event_attr \<Rightarrow> ExecutionScope \<Rightarrow> bool" where
  "opens sys a scope \<longleftrightarrow> (\<exists>fd. perf_event_open sys a scope (- 1) 0 (- 1) = Inr (Inr fd))"

definition thread_opens :: "perf_syscall \<Rightarrow> perf_event_attr \<Rightarrow> bool" where
  "thread_opens sys a \<longleftrightarrow> opens sys a (scope_of_thread (Thread 0))"

definition cpu_opens :: "perf_syscall \<Rightarrow> perf_event_attr \<Rightarrow> Cpu \<Rightarrow> bool" where
  "cpu_opens sys a c \<longleftrightarrow> opens sys a (scope_of_cpu c)"

lemma can_open_cpu [simp]: "can_open sys ev (scope_of_cpu c) = Inr (cpu_opens sys (ea_attr ev) c)"
  by (auto simp: can_open_def cpu_opens_def opens_def perf_event_open_def scope_is_cpu_def scope_of_cpu_def
      scope_as_cpu_def split: sum.split)

lemma can_open_thread [simp]: "can_open sys ev (scope_of_thread t) = Inr (opens sys (ea_attr ev) (scope_of_thread t))"
  by (auto simp: can_open_def opens_def perf_event_open_def scope_is_cpu_def scope_of_thread_def
      scope_as_thread_def split: sum.split)

definition availability_of :: "bool \<Rightarrow> bool \<Rightarrow> Availability" where
  "availability_of proc system =
    (if proc then if system then UNIVERSAL else PROCESS_MODE else if system then SYSTEM_MODE else UNAVAILABLE)"

lemma availability_of_UNAVAILABLE [simp]: "availability_of p s = UNAVAILABLE \<longleftrightarrow> \<not> p \<and> \<not> s"
  by (simp add: availability_of_def)

lemma update_availability_ok:
  "ea_cpus ev = (c, u) # cs \<Longrightarrow> update_availability sys ev =
    Inr (ev\<lparr>ea_availability := availability_of (thread_opens sys (ea_attr ev)) (cpu_opens sys (ea_attr ev) c)\<rparr>)"
  by (simp add: update_availability_def availability_of_def thread_opens_def)

text \<open>The second attempt without the kernel is made only when the first one fails for both.\<close>

lemma event_is_openable_ok:
  assumes "ea_cpus ev = (c, u) # cs"
    "a = (if thread_opens sys (ea_attr ev) \<or> cpu_opens sys (ea_attr ev) c then ea_attr ev
          else ea_attr ev\<lparr>pa_exclude_kernel := True\<rparr>)"
  shows "event_is_openable sys ev = Inr (thread_opens sys a \<or> cpu_opens sys a c,
    ev\<lparr>ea_attr := a, ea_availability := availability_of (thread_opens sys a) (cpu_opens sys a c)\<rparr>)"
  using assms by (auto simp: event_is_openable_def update_availability_ok set_exclude_kernel_def attr_upd_def)

lemma cpu_set_from_ok:
  assumes "cpu_key.sorted_keys cpus"
  shows "\<exists>cpus'. cpu_set_from sys ev cs cpus = Inr cpus' \<and> cpu_key.sorted_keys cpus' \<and>
    (\<forall>d. std_lookup cpu_less cpus' d \<noteq> None \<longleftrightarrow>
      std_lookup cpu_less cpus d \<noteq> None \<or> d \<in> set cs \<and> cpu_opens sys (ea_attr ev) d)"
  using assms
proof (induction cs arbitrary: cpus)
  case (Cons c cs)
  let ?cpus = "if cpu_opens sys (ea_attr ev) c then fst (std_emplace cpu_less c () cpus) else cpus"
  have s: "cpu_key.sorted_keys ?cpus" using Cons.prems by (simp add: cpu_key.std_emplace_sorted)
  have l: "std_lookup cpu_less ?cpus d \<noteq> None \<longleftrightarrow>
      std_lookup cpu_less cpus d \<noteq> None \<or> d = c \<and> cpu_opens sys (ea_attr ev) c" for d
    using Cons.prems by (auto simp: cpu_key.std_lookup_emplace split: option.splits)
  from Cons.IH[OF s] show ?case unfolding l by (simp only: cpu_set_from.simps can_open_cpu ev_bind_simps) auto
qed simp

text \<open>The CPUs an event has when it was opened on some of them.\<close>

lemma get_cpu_set_for_ok:
  "\<exists>cpus. get_cpu_set_for sys t ev = Inr cpus \<and> cpu_key.sorted_keys cpus \<and>
    (\<forall>d. std_find cpu_less d cpus \<noteq> None \<longleftrightarrow> d \<in> fst ` set (tp_cpus t) \<and> cpu_opens sys (ea_attr ev) d)"
  using cpu_set_from_ok[of "[]" sys ev "map fst (tp_cpus t)"]
  by (auto simp: get_cpu_set_for_def std_lookup_def)

lemma available_on_cpu:
  assumes "ea_availability ev = availability_of p s" "ea_cpus ev \<noteq> []"
  shows "is_available_in ev (scope_of_cpu d) = Inr (s \<and> std_find cpu_less d (ea_cpus ev) \<noteq> None)"
    "is_available_in ev (scope_of_thread th) = Inr p"
    "is_available_in ev (scope_of_process pr) = Inr p"
  using assms by (auto simp: is_available_in_def availability_of_def scope_is_thread_def scope_is_process_def
      scope_of_cpu_def scope_of_thread_def scope_of_process_def scope_as_cpu_def std_count_def)

text \<open>
  C26. A predefined event that the kernel opens on at least one CPU keeps its attributes and is available exactly
  on the CPUs that open it, and for threads and processes exactly when the kernel opens it for the own
  thread. When no CPU opens it, which is the rule for an unprivileged user, the constructor reads the first
  element of an empty set.
\<close>
theorem predefined_event_availability:
  assumes "ev = event_attr_new name type config config1"
  shows "if \<exists>c \<in> fst ` set (tp_cpus t). cpu_opens sys (ea_attr ev) c
    then \<exists>ev'. predefined_event_attr sys t name type config config1 [] = Inr ev' \<and> ea_attr ev' = ea_attr ev \<and>
      ea_name ev' = name \<and> ea_scale ev' = 1 \<and>
      (\<forall>d. is_available_in ev' (scope_of_cpu d) = Inr (d \<in> fst ` set (tp_cpus t) \<and> cpu_opens sys (ea_attr ev) d)) \<and>
      (\<forall>th. is_available_in ev' (scope_of_thread th) = Inr (thread_opens sys (ea_attr ev))) \<and>
      (\<forall>p. is_available_in ev' (scope_of_process p) = Inr (thread_opens sys (ea_attr ev)))
    else predefined_event_attr sys t name type config config1 [] = Inl Undefined"
proof -
  obtain cpus where cpus: "get_cpu_set_for sys t ev = Inr cpus" "cpu_key.sorted_keys cpus"
    and found: "\<And>d. std_find cpu_less d cpus \<noteq> None \<longleftrightarrow> d \<in> fst ` set (tp_cpus t) \<and> cpu_opens sys (ea_attr ev) d"
    using get_cpu_set_for_ok[of sys t ev] by blast
  have new: "predefined_event_attr sys t name type config config1 [] =
      ev_bind (event_is_openable sys (ev\<lparr>ea_cpus := cpus\<rparr>)) (\<lambda>(_, ev). Inr ev)"
    using cpus(1) by (simp add: predefined_event_attr_def assms Let_def)
  show ?thesis
  proof (cases cpus)
    case Nil
    then have "event_is_openable sys (ev\<lparr>ea_cpus := cpus\<rparr>) = Inl Undefined"
      by (simp add: event_is_openable_def update_availability_def)
    moreover have "\<not> (d \<in> fst ` set (tp_cpus t) \<and> cpu_opens sys (ea_attr ev) d)" for d
      using found[of d] Nil by simp
    ultimately show ?thesis unfolding new by auto
  next
    case (Cons e es)
    then obtain c u where e: "cpus = (c, u) # es" by (cases e) auto
    have "std_find cpu_less c cpus \<noteq> None"
      using cpu_key.std_find_member[OF cpus(2), of "(c, u)"] e by auto
    with found have c: "c \<in> fst ` set (tp_cpus t)" "cpu_opens sys (ea_attr ev) c" by blast+
    define ev' where "ev' = ev\<lparr>ea_cpus := cpus, ea_availability := availability_of (thread_opens sys (ea_attr ev)) True\<rparr>"
    have "event_is_openable sys (ev\<lparr>ea_cpus := cpus\<rparr>) = Inr (True, ev')"
      using event_is_openable_ok[of "ev\<lparr>ea_cpus := cpus\<rparr>" c u es _ sys] c(2) e by (simp add: ev'_def)
    moreover have "ea_cpus ev' \<noteq> []" "ea_availability ev' = availability_of (thread_opens sys (ea_attr ev)) True"
      using e by (simp_all add: ev'_def)
    note av = available_on_cpu[OF this(2) this(1)]
    moreover have "ea_attr ev' = ea_attr ev" "ea_name ev' = name" "ea_scale ev' = 1" "ea_cpus ev' = cpus"
      by (simp_all add: ev'_def assms event_attr_new_def)
    ultimately show ?thesis unfolding new using c found by (auto simp del: not_None_eq)
  qed
qed

definition example_sys :: perf_syscall where
  "example_sys a pid cpu group_fd flags = (if cpu = 0 \<or> pid = 0 then Inr 3 else Inl 13)"

definition two_cpus :: topology where
  "two_cpus = \<lparr>tp_cpus = [(Cpu 0, ()), (Cpu 1, ())], tp_packages = [], tp_cpu_to_core = [], tp_cpu_to_package = [],
    tp_hypervised = False\<rparr>"

theorem predefined_event_availability_witness:
  "\<exists>ev'. predefined_event_attr example_sys two_cpus ''cpu-cycles'' 0 0 0 [] = Inr ev' \<and>
    is_available_in ev' (scope_of_cpu (Cpu 0)) = Inr True \<and> is_available_in ev' (scope_of_cpu (Cpu 1)) = Inr False \<and>
    is_available_in ev' (scope_of_thread (Thread 7)) = Inr True"
proof -
  have o: "cpu_opens example_sys a (Cpu 0)" "\<not> cpu_opens example_sys a (Cpu 1)" "thread_opens example_sys a" for a
    by (simp_all add: cpu_opens_def thread_opens_def opens_def perf_event_open_def scope_is_cpu_def scope_of_cpu_def
        scope_of_thread_def scope_as_cpu_def scope_as_thread_def example_sys_def to_int32_def)
  then show ?thesis
    using predefined_event_availability[OF refl, of two_cpus example_sys "''cpu-cycles''" 0 0 0]
    by (auto simp: two_cpus_def)
qed

end
