(* ===== verification/Event_Resolver.thy ===== *)
theory Event_Resolver
  imports Event_Attr
begin

text \<open>
  The table of events by name: \<^verbatim>\<open>include/lo2s/perf/event_resolver.hpp\<close>, \<^verbatim>\<open>src/perf/event_resolver.cpp\<close>. The events of
  libpfm and of the pmu-events library come from outside and are arguments, as are the kernel and the
  files of the PMUs. The table is an association list; a name that could not be resolved is kept with no
  event. An operation returns its outcome and the table, which it may have changed before it failed.
\<close>

type_synonym event_map = "(string \<times> event_attr option) list"

record event_sources =
  sc_sys :: perf_syscall
  sc_topology :: topology
  sc_files :: pmu_files
  sc_pfm :: "(string \<Rightarrow> event_attr event_result) option"
  sc_pmu_events :: "string \<Rightarrow> event_attr event_result"

text \<open>\<open>emplace\<close> of \<^verbatim>\<open>std::unordered_map\<close>, with the value that is in the table afterwards.\<close>

definition event_emplace :: "string \<Rightarrow> event_attr option \<Rightarrow> event_map \<Rightarrow> event_attr option \<times> event_map" where
  "event_emplace name v m =
    (case map_of m name of Some w \<Rightarrow> (w, m) | None \<Rightarrow> (v, m @ [(name, v)]))"

section \<open>Predefined events\<close>

definition predef_events :: "(string \<times> u32 \<times> u64) list" where
  "predef_events =
    [(''cpu-cycles'', PERF_TYPE_HARDWARE, 0), (''instructions'', PERF_TYPE_HARDWARE, 1),
     (''cache-references'', PERF_TYPE_HARDWARE, 2), (''cache-misses'', PERF_TYPE_HARDWARE, 3),
     (''branch-instructions'', PERF_TYPE_HARDWARE, 4), (''branch-misses'', PERF_TYPE_HARDWARE, 5),
     (''bus-cycles'', PERF_TYPE_HARDWARE, 6), (''stalled-cycles-frontend'', PERF_TYPE_HARDWARE, 7),
     (''stalled-cycles-backend'', PERF_TYPE_HARDWARE, 8), (''ref-cycles'', PERF_TYPE_HARDWARE, 9),
     (''cpu-clock'', PERF_TYPE_SOFTWARE, 0), (''task-clock'', PERF_TYPE_SOFTWARE, 1),
     (''page-faults'', PERF_TYPE_SOFTWARE, 2), (''context-switches'', PERF_TYPE_SOFTWARE, 3),
     (''cpu-migrations'', PERF_TYPE_SOFTWARE, 4), (''minor-faults'', PERF_TYPE_SOFTWARE, 5),
     (''major-faults'', PERF_TYPE_SOFTWARE, 6), (''alignment-faults'', PERF_TYPE_SOFTWARE, 7),
     (''emulation-faults'', PERF_TYPE_SOFTWARE, 8), (''dummy'', PERF_TYPE_SOFTWARE, 9),
     (''bpf-output'', PERF_TYPE_SOFTWARE, 10), (''cgroup-switches'', PERF_TYPE_SOFTWARE, 11)]"

definition CACHE_NAME_TABLE :: "(string \<times> u64) list" where
  "CACHE_NAME_TABLE = [(''L1-dcache'', 0), (''L1-icache'', 1), (''LLC'', 2), (''dTLB'', 3), (''iTLB'', 4),
    (''branch'', 5), (''node'', 6)]"

definition CACHE_OPERATION_TABLE :: "(string \<times> u64 \<times> u64) list" where
  "CACHE_OPERATION_TABLE = [(''loads'', 0, 0), (''stores'', 1, 0), (''prefetches'', 2, 0), (''load-misses'', 0, 1),
    (''store-misses'', 1, 1), (''prefetch-misses'', 2, 1)]"

definition make_cache_config :: "u64 \<Rightarrow> u64 \<Rightarrow> u64 \<Rightarrow> u64" where
  "make_cache_config cache op op_result = cache OR push_bit 8 op OR push_bit 16 op_result"

definition cache_events :: "(string \<times> u32 \<times> u64) list" where
  "cache_events =
    concat (map (\<lambda>(cache, i). map (\<lambda>(operation, op, res).
      (cache @ ''-'' @ operation, PERF_TYPE_HW_CACHE, make_cache_config i op res)) CACHE_OPERATION_TABLE) CACHE_NAME_TABLE)"

fun add_predefined :: "event_sources \<Rightarrow> (string \<times> u32 \<times> u64) list \<Rightarrow> event_map \<Rightarrow> event_map event_result" where
  "add_predefined src [] m = Inr m"
| "add_predefined src ((name, type, config) # es) m =
    (case predefined_event_attr (sc_sys src) (sc_topology src) name type config 0 [] of
       Inr ev \<Rightarrow> add_predefined src es (snd (event_emplace name (Some ev) m))
     | Inl (Invalid_event _) \<Rightarrow> add_predefined src es m
     | Inl e \<Rightarrow> Inl e)"

definition event_resolver_new :: "event_sources \<Rightarrow> event_map event_result" where
  "event_resolver_new src = add_predefined src (predef_events @ cache_events) []"

section \<open>Lookup\<close>

definition is_raw_name :: "string \<Rightarrow> bool" where
  "is_raw_name name \<longleftrightarrow> (case name of [] \<Rightarrow> False
     | c # cs \<Rightarrow> c = CHR ''r'' \<and> 1 \<le> length cs \<and> length cs \<le> 8 \<and> (\<forall>x \<in> set cs. is_xdigit x))"

definition cache_raw :: "event_sources \<Rightarrow> string \<Rightarrow> event_map \<Rightarrow> event_attr option event_result \<times> event_map" where
  "cache_raw src name m =
    (if is_raw_name name
     then case raw_event_attr (sc_sys src) (sc_topology src) name of
         Inl e \<Rightarrow> (Inl e, m)
       | Inr ev \<Rightarrow> (let (v, m') = event_emplace name (Some ev) m in (Inr v, m'))
     else (Inr None, m))"

definition cache_pfm ::
    "event_sources \<Rightarrow> string \<Rightarrow> event_attr option \<Rightarrow> event_map \<Rightarrow> event_attr option event_result \<times> event_map" where
  "cache_pfm src name res m =
    (case sc_pfm src of None \<Rightarrow> (Inr res, m)
     | Some read \<Rightarrow>
       (case read name of
          Inr ev \<Rightarrow> (let (v, m') = event_emplace name (Some ev) m in (Inr v, m'))
        | Inl (Invalid_event _) \<Rightarrow> (Inr res, m)
        | Inl e \<Rightarrow> (Inl e, m)))"

definition cache_pmu_event ::
    "event_sources \<Rightarrow> string \<Rightarrow> event_attr option \<Rightarrow> event_map \<Rightarrow> event_attr option event_result \<times> event_map" where
  "cache_pmu_event src name res m =
    (if res \<noteq> None then (Inr res, m)
     else case sc_pmu_events src name of
         Inr ev \<Rightarrow> (let (v, m') = event_emplace name (Some ev) m in (Inr v, m'))
       | Inl (Invalid_event _) \<Rightarrow> (Inr None, m)
       | Inl e \<Rightarrow> (Inl e, m))"

definition cache_sysfs ::
    "event_sources \<Rightarrow> string \<Rightarrow> event_attr option \<Rightarrow> event_map \<Rightarrow> event_attr option event_result \<times> event_map" where
  "cache_sysfs src name res m =
    (if res \<noteq> None then (Inr res, m)
     else case sysfs_event_attr (sc_sys src) (sc_topology src) (sc_files src) name of
         Inr ev \<Rightarrow> (let (v, m') = event_emplace name (Some ev) m in (Inr v, m'))
       | Inl (Invalid_event what) \<Rightarrow>
           (Inl (Cpp (Runtime_error (''Could not parse '' @ [CHR 0x27] @ name @ [CHR 0x27] @ '' as a perf event: Invalid event: '' @ what))),
            snd (event_emplace name None m))
       | Inl e \<Rightarrow> (Inl e, m))"

definition then_do ::
    "'a event_result \<times> 's \<Rightarrow> ('a \<Rightarrow> 's \<Rightarrow> 'b event_result \<times> 's) \<Rightarrow> 'b event_result \<times> 's" where
  "then_do r f = (case fst r of Inl e \<Rightarrow> (Inl e, snd r) | Inr x \<Rightarrow> f x (snd r))"

lemma then_do_simps [simp]: "then_do (Inl e, s) f = (Inl e, s)" "then_do (Inr x, s) f = f x s"
  by (simp_all add: then_do_def)

definition cache_event :: "event_sources \<Rightarrow> string \<Rightarrow> event_map \<Rightarrow> event_attr event_result \<times> event_map" where
  "cache_event src name m =
    then_do (then_do (then_do (cache_raw src name m) (cache_pfm src name)) (cache_pmu_event src name))
      (\<lambda>res m. then_do (cache_sysfs src name res m) (\<lambda>res m.
        case res of None \<Rightarrow> (Inl (Cpp (Runtime_error ''event already exists in the event map'')), m)
        | Some ev \<Rightarrow> (Inr ev, m)))"

definition get_event_by_name :: "event_sources \<Rightarrow> string \<Rightarrow> event_map \<Rightarrow> event_attr event_result \<times> event_map" where
  "get_event_by_name src name m =
    (case map_of m name of
       Some (Some ev) \<Rightarrow> (Inr ev, m)
     | Some None \<Rightarrow> (Inl (Invalid_event (''The event '' @ [CHR 0x27] @ name @ [CHR 0x27] @ '' is not available'')), m)
     | None \<Rightarrow> cache_event src name m)"

definition has_event :: "event_sources \<Rightarrow> string \<Rightarrow> event_map \<Rightarrow> bool event_result \<times> event_map" where
  "has_event src name m =
    (case map_of m name of
       Some v \<Rightarrow> (Inr (v \<noteq> None), m)
     | None \<Rightarrow>
       (case cache_event src name m of
          (Inr _, m') \<Rightarrow> (Inr True, m')
        | (Inl (Invalid_event _), m') \<Rightarrow> (Inr False, m')
        | (Inl e, m') \<Rightarrow> (Inl e, m')))"

fun fallback_from :: "event_sources \<Rightarrow> string list \<Rightarrow> event_map \<Rightarrow> event_attr event_result \<times> event_map" where
  "fallback_from src [] m = (Inl (Invalid_event ''no suitable metric leader event found''), m)"
| "fallback_from src (candidate # cs) m =
    (case get_event_by_name src candidate m of
       (Inl (Invalid_event _), m') \<Rightarrow> fallback_from src cs m'
     | r \<Rightarrow> r)"

definition fallback_metric_leader_event :: "event_sources \<Rightarrow> event_map \<Rightarrow> event_attr event_result \<times> event_map" where
  "fallback_metric_leader_event src = fallback_from src [''ref-cycles'', ''cpu-cycles'', ''bus-cycles'']"

definition no_leader :: "event_attr event_result \<times> event_map \<Rightarrow> event_attr event_result \<times> event_map" where
  "no_leader r = (case r of (Inl (Invalid_event _), m) \<Rightarrow> (Inl Bad_optional_access, m) | _ \<Rightarrow> r)"

definition get_metric_leader :: "event_sources \<Rightarrow> string \<Rightarrow> event_map \<Rightarrow> event_attr event_result \<times> event_map" where
  "get_metric_leader src metric_leader m =
    (if metric_leader = []
     then case get_event_by_name src ''cpu-clock'' m of
         (Inl (Invalid_event _), m') \<Rightarrow> no_leader (fallback_metric_leader_event src m')
       | r \<Rightarrow> r
     else no_leader (get_event_by_name src metric_leader m))"

definition get_predefined_events :: "event_map \<Rightarrow> event_attr list" where
  "get_predefined_events m = concat (map (\<lambda>(_, v). case v of None \<Rightarrow> [] | Some ev \<Rightarrow> [ev]) m)"

section \<open>The table only grows, and remembers\<close>

lemma event_emplace_ok:
  "event_emplace name v m = (w, m') \<Longrightarrow> map_of m' name = Some w \<and> map_of m \<subseteq>\<^sub>m map_of m' \<and> dom (map_of m') = insert name (dom (map_of m))"
  by (auto simp: event_emplace_def map_le_def map_add_def split: option.splits if_splits)

lemma event_emplace_snd:
  "map_of m \<subseteq>\<^sub>m map_of (snd (event_emplace name v m))"
  "dom (map_of (snd (event_emplace name v m))) = insert name (dom (map_of m))"
  using event_emplace_ok[of name v m] by (cases "event_emplace name v m"; simp)+

text \<open>How one of the ways to resolve a name may change the table.\<close>

definition resolves :: "string \<Rightarrow> event_map \<Rightarrow> event_attr option event_result \<times> event_map \<Rightarrow> bool" where
  "resolves name m r \<longleftrightarrow> map_of m \<subseteq>\<^sub>m map_of (snd r) \<and> dom (map_of (snd r)) \<subseteq> insert name (dom (map_of m)) \<and>
    (\<forall>ev. fst r = Inr (Some ev) \<longrightarrow> map_of (snd r) name = Some (Some ev))"

lemma resolves_cache:
  assumes "\<And>ev. res = Some ev \<Longrightarrow> map_of m name = Some (Some ev)"
  shows "resolves name m (cache_raw src name m)" "resolves name m (cache_pfm src name res m)"
    "resolves name m (cache_pmu_event src name res m)" "resolves name m (cache_sysfs src name res m)"
  using assms
  by (auto simp: resolves_def cache_raw_def cache_pfm_def cache_pmu_event_def cache_sysfs_def event_emplace_snd
      split: sum.split option.split event_error.split prod.splits dest!: event_emplace_ok dest: sym)

lemma resolves_trans:
  assumes "resolves name m r" "\<And>res m'. r = (Inr res, m') \<Longrightarrow> resolves name m' (f res m')"
  shows "resolves name m (then_do r f)"
proof (cases "fst r")
  case (Inl e)
  then show ?thesis using assms(1) by (simp add: then_do_def resolves_def)
next
  case (Inr res)
  then have f: "resolves name (snd r) (f res (snd r))" using assms(2) by (cases r) simp
  then have "dom (map_of (snd (f res (snd r)))) \<subseteq> insert name (dom (map_of m))"
    using assms(1) unfolding resolves_def by blast
  moreover have "map_of m \<subseteq>\<^sub>m map_of (snd (f res (snd r)))"
    using assms(1) f unfolding resolves_def by (blast intro: map_le_trans)
  ultimately show ?thesis
    using f Inr unfolding resolves_def then_do_def by simp
qed

text \<open>The ways to resolve a name, one after the other.\<close>

definition cache_steps :: "event_sources \<Rightarrow> string \<Rightarrow> event_map \<Rightarrow> event_attr option event_result \<times> event_map" where
  "cache_steps src name m =
    then_do (then_do (then_do (cache_raw src name m) (cache_pfm src name)) (cache_pmu_event src name)) (cache_sysfs src name)"

lemma then_do_assoc: "then_do (then_do r f) g = then_do r (\<lambda>x m. then_do (f x m) g)"
  by (simp add: then_do_def split: sum.split)

lemma cache_event_steps:
  "cache_event src name m = then_do (cache_steps src name m) (\<lambda>res m.
    case res of None \<Rightarrow> (Inl (Cpp (Runtime_error ''event already exists in the event map'')), m) | Some ev \<Rightarrow> (Inr ev, m))"
  by (simp add: cache_event_def cache_steps_def then_do_assoc)

lemma resolves_res: "resolves name m (Inr res, m') \<Longrightarrow> res = Some ev \<Longrightarrow> map_of m' name = Some (Some ev)"
  by (simp add: resolves_def)

lemma cache_steps_resolves: "resolves name m (cache_steps src name m)"
proof -
  have 1: "resolves name m (cache_raw src name m)" by (rule resolves_cache(1)[of None]) simp
  have 2: "resolves name m (then_do (cache_raw src name m) (cache_pfm src name))"
    by (rule resolves_trans[OF 1]) (metis 1 resolves_cache(2) resolves_res)
  have 3: "resolves name m (then_do (then_do (cache_raw src name m) (cache_pfm src name)) (cache_pmu_event src name))"
    by (rule resolves_trans[OF 2]) (metis 2 resolves_cache(3) resolves_res)
  show ?thesis
    unfolding cache_steps_def by (rule resolves_trans[OF 3]) (metis 3 resolves_cache(4) resolves_res)
qed

lemma cache_event_ok:
  assumes "cache_event src name m = (r, m')"
  shows "map_of m \<subseteq>\<^sub>m map_of m' \<and> dom (map_of m') \<subseteq> insert name (dom (map_of m))"
    "r = Inr ev \<Longrightarrow> map_of m' name = Some (Some ev)"
  using assms cache_steps_resolves[of name m src]
  by (auto simp: cache_event_steps then_do_def resolves_def split: sum.splits option.splits)

text \<open>
  C0. A lookup only ever adds the name it was asked for, a name that was resolved once has the same event in
  every later lookup, whatever the kernel and the files say by then, and a lookup of a name that is in the table
  has the same outcome with every kernel and files and leaves the table as it is.
\<close>
theorem resolved_event_remembered:
  assumes "get_event_by_name src name m = (r, m')"
  shows "map_of m \<subseteq>\<^sub>m map_of m' \<and> dom (map_of m') \<subseteq> insert name (dom (map_of m)) \<and>
    (\<forall>ev src'. r = Inr ev \<longrightarrow>
      get_event_by_name src' name m' = (Inr ev, m') \<and> has_event src' name m' = (Inr True, m')) \<and>
    (\<forall>src'. map_of m name \<noteq> None \<longrightarrow> get_event_by_name src' name m = (r, m))"
proof (cases "map_of m name")
  case None
  with assms have c: "cache_event src name m = (r, m')" by (simp add: get_event_by_name_def)
  then show ?thesis
    using None cache_event_ok(1)[OF c] cache_event_ok(2)[OF c] by (auto simp: get_event_by_name_def has_event_def)
next
  case (Some v)
  with assms show ?thesis by (cases v) (auto simp: get_event_by_name_def has_event_def)
qed

definition bare_sources :: event_sources where
  "bare_sources = \<lparr>sc_sys = (\<lambda>a pid cpu group_fd flags. Inr 3), sc_topology = two_cpus,
    sc_files = \<lparr>pf_type = (\<lambda>_. None), pf_event = (\<lambda>_ _. None), pf_format = (\<lambda>_ _. None), pf_cpus = (\<lambda>_. None),
      pf_cpumask = (\<lambda>_. None), pf_scale = (\<lambda>_ _. None), pf_unit = (\<lambda>_ _. None)\<rparr>,
    sc_pfm = None, sc_pmu_events = (\<lambda>_. Inl (Invalid_event ''no such event''))\<rparr>"

definition example_raw :: event_attr where
  "example_raw = (event_attr_new ''r1a8'' PERF_TYPE_RAW 0x1a8 0)
    \<lparr>ea_cpus := [(Cpu 0, ()), (Cpu 1, ())], ea_availability := UNIVERSAL\<rparr>"

lemma example_raw_found: "get_event_by_name bare_sources ''r1a8'' [] = (Inr example_raw, [(''r1a8'', Some example_raw)])"
proof -
  let ?ev = "event_attr_new ''r1a8'' PERF_TYPE_RAW 0x1a8 0"
  have o: "cpu_opens (sc_sys bare_sources) a c" "thread_opens (sc_sys bare_sources) a" for a c
    by (simp_all add: cpu_opens_def thread_opens_def opens_def perf_event_open_def scope_is_cpu_def scope_of_cpu_def
        scope_of_thread_def scope_as_cpu_def scope_as_thread_def bare_sources_def)
  have n: "is_raw_name ''r1a8''" "stoull16 ''1a8'' = Inr 0x1a8"
    by (simp_all add: is_raw_name_def stoull16_def is_xdigit_def is_hex_def is_digit_def is_space_def base_value_def
        xdigit_value_def digit_value_def)
  have "get_cpu_set_for (sc_sys bare_sources) two_cpus ev = Inr [(Cpu 0, ()), (Cpu 1, ())]" for ev
    by (simp add: get_cpu_set_for_def two_cpus_def o cpu_key.std_emplace_Cons cpu_less_def)
  then have "raw_event_attr (sc_sys bare_sources) two_cpus ''r1a8'' = Inr example_raw"
    using event_is_openable_ok[of "?ev\<lparr>ea_cpus := [(Cpu 0, ()), (Cpu 1, ())]\<rparr>" "Cpu 0" "()" "[(Cpu 1, ())]" _ "sc_sys bare_sources"]
    by (simp add: raw_event_attr_def n o example_raw_def availability_of_def)
  moreover have "sc_topology bare_sources = two_cpus" "sc_pfm bare_sources = None" by (simp_all add: bare_sources_def)
  ultimately show ?thesis
    by (simp add: get_event_by_name_def cache_event_steps cache_steps_def cache_raw_def n then_do_def cache_pfm_def
        cache_pmu_event_def cache_sysfs_def event_emplace_def)
qed

theorem resolved_event_remembered_witness:
  "get_event_by_name (bare_sources\<lparr>sc_topology := topology_empty\<rparr>) ''r1a8'' [(''r1a8'', Some example_raw)] =
    (Inr example_raw, [(''r1a8'', Some example_raw)])"
  using resolved_event_remembered[OF example_raw_found] by blast

section \<open>Unknown names\<close>

definition not_invalid :: "'a event_result \<Rightarrow> bool" where
  "not_invalid r \<longleftrightarrow> (\<forall>what. r \<noteq> Inl (Invalid_event what))"

lemma not_invalid_bind: "not_invalid r \<Longrightarrow> (\<And>x. not_invalid (f x)) \<Longrightarrow> not_invalid (ev_bind r f)"
  by (auto simp: not_invalid_def ev_bind_def split: sum.splits)

lemma not_invalid_cpp: "not_invalid (cpp r)" "not_invalid (Inr x)" "not_invalid (Inl (Cpp e))" "not_invalid (Inl Undefined)"
  by (auto simp: not_invalid_def cpp_def split: sum.splits)

lemma not_invalid_availability: "not_invalid (event_is_openable sys ev)"
proof -
  have "not_invalid (update_availability sys ev)" for ev
    unfolding update_availability_def
    by (cases "ea_cpus ev") (auto simp: not_invalid_cpp intro!: not_invalid_bind)
  then show ?thesis unfolding event_is_openable_def by (auto simp: not_invalid_cpp intro!: not_invalid_bind)
qed

lemma not_invalid_raw: "not_invalid (raw_event_attr sys t name)"
proof -
  have "not_invalid (get_cpu_set_for sys t ev)" for ev
    using get_cpu_set_for_ok[of sys t ev] by (auto simp: not_invalid_def)
  then show ?thesis
    unfolding raw_event_attr_def Let_def
    by (auto simp: not_invalid_cpp not_invalid_availability intro!: not_invalid_bind)
qed

lemma not_invalid_then_do:
  "not_invalid (fst r) \<Longrightarrow> (\<And>x m. not_invalid (fst (f x m))) \<Longrightarrow> not_invalid (fst (then_do r f))"
  by (auto simp: then_do_def not_invalid_def split: sum.splits)

lemma not_invalid_cache: "not_invalid (fst (cache_event src name m))"
proof -
  have "not_invalid (fst (cache_raw src name m))"
    using not_invalid_raw[of "sc_sys src" "sc_topology src" name]
    by (auto simp: cache_raw_def not_invalid_def split: sum.split prod.split)
  moreover have "not_invalid (fst (cache_pfm src name res m'))" "not_invalid (fst (cache_pmu_event src name res m'))"
    "not_invalid (fst (cache_sysfs src name res m'))" for res m'
    by (auto simp: cache_pfm_def cache_pmu_event_def cache_sysfs_def not_invalid_def
        split: option.split sum.split prod.split event_error.split)
  moreover have "not_invalid (fst (case res of
      None \<Rightarrow> (Inl (Cpp (Runtime_error ''event already exists in the event map'')), m) | Some ev \<Rightarrow> (Inr ev, m)))"
    for res :: "event_attr option" and m :: event_map
    by (simp add: not_invalid_def split: option.split)
  ultimately show ?thesis
    unfolding cache_event_steps cache_steps_def by (intro not_invalid_then_do)
qed

text \<open>
  C25. A name the table does not have is never reported as \<^verbatim>\<open>InvalidEvent\<close>, and \<open>has_event\<close> never answers that it
  does not exist. When no source knows the name, both raise \<^verbatim>\<open>std::runtime_error\<close>, which the callers that skip
  unknown events do not catch; only from the second lookup on the answers are \<^verbatim>\<open>InvalidEvent\<close> and false.
\<close>
theorem unknown_event_escapes:
  assumes "map_of m name = None"
  shows "(\<forall>what. fst (get_event_by_name src name m) \<noteq> Inl (Invalid_event what)) \<and>
    fst (has_event src name m) \<noteq> Inr False \<and>
    (\<not> is_raw_name name \<longrightarrow> sc_pfm src = None \<longrightarrow> sc_pmu_events src name = Inl (Invalid_event w1) \<longrightarrow>
     sysfs_event_attr (sc_sys src) (sc_topology src) (sc_files src) name = Inl (Invalid_event w2) \<longrightarrow>
     (\<exists>what m'. get_event_by_name src name m = (Inl (Cpp (Runtime_error what)), m') \<and>
       has_event src name m = (Inl (Cpp (Runtime_error what)), m') \<and>
       (\<exists>what'. get_event_by_name src name m' = (Inl (Invalid_event what'), m')) \<and>
       has_event src name m' = (Inr False, m')))"
proof (intro conjI impI)
  show "\<forall>what. fst (get_event_by_name src name m) \<noteq> Inl (Invalid_event what)"
    using not_invalid_cache[of src name m] assms by (simp add: get_event_by_name_def not_invalid_def)
  show "fst (has_event src name m) \<noteq> Inr False"
    using not_invalid_cache[of src name m] assms
    by (auto simp: has_event_def not_invalid_def split: prod.split sum.split event_error.split)
next
  assume "\<not> is_raw_name name" "sc_pfm src = None" "sc_pmu_events src name = Inl (Invalid_event w1)"
    "sysfs_event_attr (sc_sys src) (sc_topology src) (sc_files src) name = Inl (Invalid_event w2)"
  then have c: "\<exists>what. cache_event src name m = (Inl (Cpp (Runtime_error what)), m @ [(name, None)])"
    using assms by (simp add: cache_event_steps cache_steps_def then_do_def cache_raw_def cache_pfm_def
        cache_pmu_event_def cache_sysfs_def event_emplace_def)
  moreover have "map_of (m @ [(name, None)]) name = Some None" using assms by (simp add: map_add_def)
  ultimately show "\<exists>what m'. get_event_by_name src name m = (Inl (Cpp (Runtime_error what)), m') \<and>
       has_event src name m = (Inl (Cpp (Runtime_error what)), m') \<and>
       (\<exists>what'. get_event_by_name src name m' = (Inl (Invalid_event what'), m')) \<and>
       has_event src name m' = (Inr False, m')"
    using assms by (auto simp: get_event_by_name_def has_event_def simp del: map_of_append)
qed

theorem unknown_event_escapes_witness:
  "\<exists>what m'. get_event_by_name bare_sources ''foo/bar/'' [] = (Inl (Cpp (Runtime_error what)), m') \<and>
     has_event bare_sources ''foo/bar/'' [] = (Inl (Cpp (Runtime_error what)), m') \<and>
     (\<exists>what'. get_event_by_name bare_sources ''foo/bar/'' m' = (Inl (Invalid_event what'), m')) \<and>
     has_event bare_sources ''foo/bar/'' m' = (Inr False, m')"
proof -
  have "\<not> is_raw_name ''foo/bar/''" by (simp add: is_raw_name_def)
  moreover have "\<exists>w. sysfs_event_attr (sc_sys bare_sources) (sc_topology bare_sources) (sc_files bare_sources) ''foo/bar/'' =
      Inl (Invalid_event w)"
    by (simp add: sysfs_event_attr_def bare_sources_def try_read_u32_def Let_def)
  ultimately show ?thesis
    using unknown_event_escapes[of "[]" "''foo/bar/''" bare_sources "''no such event''"]
    by (auto simp: bare_sources_def)
qed

end
