(* ===== verification/Event_Composer.thy ===== *)
theory Event_Composer
  imports Event_Resolver
begin

text \<open>
  The events of a measurement: the configuration of sampling and of grouped counters
  (\<^verbatim>\<open>src/config/perf/sampling_config.cpp\<close>, \<^verbatim>\<open>src/config/perf/group_config.cpp\<close>) and the composer that turns it into
  event attributes (\<^verbatim>\<open>src/perf/event_composer.cpp\<close>, \<^verbatim>\<open>include/lo2s/perf/event_composer.hpp\<close>). The state holds the
  table of the event resolver, which is a singleton as well.
\<close>

section \<open>Configuration\<close>

text \<open>The parsed command line, as the option parser answers.\<close>

record arguments =
  arg_provided :: "string \<Rightarrow> bool"
  arg_given :: "string \<Rightarrow> bool"
  arg_get :: "string \<Rightarrow> string"
  arg_all :: "string \<Rightarrow> string list"
  arg_u64 :: "string \<Rightarrow> u64"

record group_config =
  grp_enabled :: bool
  grp_use_frequency :: bool
  grp_count :: u64
  grp_frequency :: u64
  grp_leader :: string
  grp_counters :: "string list"

definition group_config_new :: "arguments \<Rightarrow> group_config event_result" where
  "group_config_new a =
    (let leader = arg_get a ''metric-leader'';
         counters = arg_all a ''metric-event'' @
           (if arg_given a ''standard-metrics'' then [''instructions'', ''cpu-cycles''] else []);
         enabled = (leader \<noteq> [] \<or> counters \<noteq> []) in
     if \<not> arg_provided a ''metric-leader''
     then Inr \<lparr>grp_enabled = enabled, grp_use_frequency = True, grp_count = 0, grp_frequency = arg_u64 a ''metric-frequency'',
       grp_leader = leader, grp_counters = counters\<rparr>
     else if \<not> arg_provided a ''metric-count'' then Inl Exit_failure
     else Inr \<lparr>grp_enabled = enabled, grp_use_frequency = False, grp_count = arg_u64 a ''metric-count'', grp_frequency = 0,
       grp_leader = leader, grp_counters = counters\<rparr>)"

definition group_config_check :: "group_config \<Rightarrow> unit event_result" where
  "group_config_check g =
    (if \<not> grp_use_frequency g \<and> grp_leader g = [] then Inl Exit_failure
     else if grp_use_frequency g \<and> grp_leader g \<noteq> [] then Inl Exit_failure
     else if grp_leader g = [] \<and> grp_frequency g = 0 then Inl Exit_failure
     else if grp_leader g \<noteq> [] \<and> grp_count g = 0 then Inl Exit_failure
     else Inr ())"

record sampling_config =
  smp_enabled :: bool
  smp_process_recording :: bool
  smp_period :: u64
  smp_event :: string
  smp_exclude_kernel :: bool
  smp_enable_callgraph :: bool
  smp_use_pebs :: bool

definition sampling_config_new :: "arguments \<Rightarrow> sampling_config" where
  "sampling_config_new a =
    \<lparr>smp_enabled =
       (if \<not> arg_provided a ''instruction-sampling'' then arg_given a ''all-cpus-sampling'' \<or> \<not> arg_given a ''all-cpus''
        else arg_given a ''instruction-sampling''),
     smp_process_recording =
       (if \<not> arg_provided a ''process-recording'' then arg_given a ''all-cpus'' \<or> arg_given a ''all-cpus-sampling''
        else arg_given a ''process-recording''),
     smp_period = arg_u64 a ''count'', smp_event = arg_get a ''event'',
     smp_exclude_kernel = (\<not> arg_given a ''kernel''), smp_enable_callgraph = arg_given a ''call-graph'',
     smp_use_pebs = False\<rparr>"

text \<open>\<open>check\<close>, for the user id and the value of \<open>perf_event_paranoid()\<close>.\<close>

definition sampling_config_check ::
    "event_sources \<Rightarrow> nat \<Rightarrow> int \<Rightarrow> sampling_config \<Rightarrow> event_map \<Rightarrow> sampling_config event_result \<times> event_map" where
  "sampling_config_check src uid paranoid s m =
    (let s = (if uid \<noteq> 0 \<and> paranoid > 1 \<and> smp_exclude_kernel s then s\<lparr>smp_exclude_kernel := True\<rparr> else s) in
     if \<not> smp_enabled s then (Inr s, m)
     else then_do (has_event src (smp_event s) m) (\<lambda>ok m. (if ok then Inr s else Inl Exit_failure, m)))"

record perf_config =
  cfg_sampling :: sampling_config
  cfg_group :: group_config
  cfg_userspace_counters :: "string list"
  cfg_clockid :: "int option"
  cfg_mmap_pages :: nat

section \<open>The composer\<close>

record counter_collection =
  cc_leader :: "event_attr option"
  cc_counters :: "event_attr list"

definition no_counters :: counter_collection where
  "no_counters = \<lparr>cc_leader = None, cc_counters = []\<rparr>"

definition cc_empty :: "counter_collection \<Rightarrow> bool" where
  "cc_empty cc \<longleftrightarrow> cc_leader cc = None \<and> cc_counters cc = []"

text \<open>The member \<open>exclude_kernel_\<close> is never assigned: a new composer may have any value there.\<close>

record composer =
  cp_sampling_event :: "event_attr option"
  cp_group_counters :: "counter_collection option"
  cp_userspace_counters :: "counter_collection option"
  cp_exclude_kernel :: bool
  cp_events :: event_map

record composer_env =
  ce_config :: perf_config
  ce_sources :: event_sources
  ce_nonblock :: "int \<Rightarrow> int option"
  ce_page_size :: nat

type_synonym 'a composing = "composer \<Rightarrow> 'a event_result \<times> composer"

definition with_events :: "(event_map \<Rightarrow> 'a event_result \<times> event_map) \<Rightarrow> 'a composing" where
  "with_events f c = (let (r, m) = f (cp_events c) in (r, c\<lparr>cp_events := m\<rparr>))"

definition lookup_event :: "composer_env \<Rightarrow> string \<Rightarrow> event_attr composing" where
  "lookup_event env name = with_events (get_event_by_name (ce_sources env) name)"

text \<open>The buffer is read when it is filled to 80 percent.\<close>

definition watermark :: "composer_env \<Rightarrow> event_attr \<Rightarrow> event_attr" where
  "watermark env = set_watermark (word_of_nat (4 * cfg_mmap_pages (ce_config env) * ce_page_size env div 5))"

text \<open>\<open>sample_period\<close> takes an \<^verbatim>\<open>int\<close>.\<close>

definition period_arg :: "u64 \<Rightarrow> int" where
  "period_arg p = to_int32 (uint p)"

fun set_precision_from :: "composer_env \<Rightarrow> nat \<Rightarrow> event_attr \<Rightarrow> event_attr event_result" where
  "set_precision_from env 0 ev =
    ev_bind (cpp (event_guard_new (sc_sys (ce_sources env)) (ce_nonblock env) ev (At_thread (Thread 0)) (- 1) (- 1)))
      (\<lambda>_. Inr ev)"
| "set_precision_from env (Suc precise_ip) ev =
    ev_bind (can_open (sc_sys (ce_sources env)) ev (scope_of_thread (Thread 0))) (\<lambda>ok.
      if ok then Inr ev
      else ev_bind (set_precise_ip (word_of_nat precise_ip) ev) (set_precision_from env precise_ip))"

definition set_precision :: "composer_env \<Rightarrow> event_attr \<Rightarrow> event_attr event_result" where
  "set_precision env ev = set_precision_from env 3 ev"

definition sampling_source :: "composer_env \<Rightarrow> event_attr composing" where
  "sampling_source env c =
    then_do (lookup_event env ''dummy'' c) (\<lambda>res c.
      let s = cfg_sampling (ce_config env) in
      if smp_enabled s
      then then_do (lookup_event env (smp_event s) c) (\<lambda>res c.
        (set_precise_ip 3 (set_mmap
          (set_clockid (if smp_use_pebs s then None else cfg_clockid (ce_config env))
            (sample_period (period_arg (smp_period s)) res))), c))
      else (Inr res, c))"

definition sampling_attributes :: "composer_env \<Rightarrow> bool \<Rightarrow> event_attr \<Rightarrow> event_attr" where
  "sampling_attributes env exclude_kernel res =
    (let res = set_context_switch (set_task (set_comm (set_sample_id_all res)));
         res = (if exclude_kernel then set_exclude_kernel res else res);
         res = set_sample_type (PERF_SAMPLE_TIME OR PERF_SAMPLE_IP OR PERF_SAMPLE_TID OR PERF_SAMPLE_CPU) (watermark env res) in
     if smp_enable_callgraph (cfg_sampling (ce_config env)) then set_sample_type PERF_SAMPLE_CALLCHAIN res else res)"

definition create_sampling_event :: "composer_env \<Rightarrow> event_attr composing" where
  "create_sampling_event env c =
    (case cp_sampling_event c of Some ev \<Rightarrow> (Inr ev, c)
     | None \<Rightarrow>
       then_do (sampling_source env c) (\<lambda>res c.
         let res = sampling_attributes env (cp_exclude_kernel c) res in
         then_do (if smp_enabled (cfg_sampling (ce_config env)) then set_precision env res else Inr res, c)
           (\<lambda>res c. (Inr res, c\<lparr>cp_sampling_event := Some res\<rparr>))))"

definition create_time_event :: "composer_env \<Rightarrow> u64 \<Rightarrow> event_attr" where
  "create_time_event env local_time =
    set_disabled (set_exclude_kernel (set_sample_type PERF_SAMPLE_TIME (set_clockid (cfg_clockid (ce_config env))
      (set_watermark 1 (sample_period 1 (breakpoint_event_attr local_time 2))))))"

text \<open>\<open>TracepointEventAttr\<close> asks for its availability before it has a set of CPUs.\<close>

definition tracepoint_event_attr :: "perf_syscall \<Rightarrow> string \<Rightarrow> u64 event_result \<Rightarrow> event_attr event_result" where
  "tracepoint_event_attr sys name format_id =
    ev_bind format_id (\<lambda>i. update_availability sys
      (attr_upd (\<lambda>a. a\<lparr>pa_config := i\<rparr>) (event_attr_new name 2 0 0)))"

definition create_tracepoint_event :: "composer_env \<Rightarrow> string \<Rightarrow> u64 event_result \<Rightarrow> event_attr event_result" where
  "create_tracepoint_event env name format_id =
    ev_bind (tracepoint_event_attr (sc_sys (ce_sources env)) name format_id) (\<lambda>ev.
      Inr (set_disabled (set_sample_type (PERF_SAMPLE_RAW OR PERF_SAMPLE_TIME)
        (set_clockid (cfg_clockid (ce_config env)) (sample_period 1 (watermark env ev))))))"

section \<open>Counters\<close>

fun add_counters :: "composer_env \<Rightarrow> (string \<Rightarrow> bool) \<Rightarrow> (event_attr \<Rightarrow> event_attr) \<Rightarrow> string list \<Rightarrow> event_attr list \<Rightarrow> event_attr list composing" where
  "add_counters env skip f [] counters c = (Inr counters, c)"
| "add_counters env skip f (name # names) counters c =
    (if skip name then add_counters env skip f names counters c
     else case lookup_event env name c of
         (Inr ev, c) \<Rightarrow> add_counters env skip f names (counters @ [f ev]) c
       | (Inl (Invalid_event _), c) \<Rightarrow> add_counters env skip f names counters c
       | (Inl e, c) \<Rightarrow> (Inl e, c))"

definition emplace_userspace_counters :: "composer_env \<Rightarrow> unit composing" where
  "emplace_userspace_counters env c =
    (if cp_userspace_counters c \<noteq> None then (Inr (), c)
     else then_do (add_counters env (\<lambda>_. False) id (cfg_userspace_counters (ce_config env)) [] c) (\<lambda>counters c.
       (Inr (), c\<lparr>cp_userspace_counters := Some \<lparr>cc_leader = None, cc_counters = counters\<rparr>\<rparr>)))"

definition leader_attributes :: "composer_env \<Rightarrow> event_attr \<Rightarrow> event_attr" where
  "leader_attributes env leader =
    (let g = cfg_group (ce_config env);
         leader = set_sample_type (PERF_SAMPLE_TIME OR PERF_SAMPLE_READ) leader;
         leader = (if grp_use_frequency g then sample_freq (grp_frequency g) leader
                   else sample_period (period_arg (grp_count g)) leader) in
     watermark env (set_read_format
       (PERF_FORMAT_TOTAL_TIME_ENABLED OR PERF_FORMAT_TOTAL_TIME_RUNNING OR PERF_FORMAT_GROUP)
       (set_clockid (cfg_clockid (ce_config env)) leader)))"

definition counter_attributes :: "composer_env \<Rightarrow> event_attr \<Rightarrow> event_attr" where
  "counter_attributes env ev =
    set_read_format (PERF_FORMAT_TOTAL_TIME_ENABLED OR PERF_FORMAT_TOTAL_TIME_RUNNING)
      (set_clockid (cfg_clockid (ce_config env)) ev)"

definition emplace_group_counters :: "composer_env \<Rightarrow> unit composing" where
  "emplace_group_counters env c =
    (let g = cfg_group (ce_config env) in
     if cp_group_counters c \<noteq> None then (Inr (), c)
     else if \<not> grp_enabled g then (Inr (), c\<lparr>cp_group_counters := Some no_counters\<rparr>)
     else
       then_do (with_events (get_metric_leader (ce_sources env) (grp_leader g)) c) (\<lambda>leader c.
         let leader = leader_attributes env leader in
         then_do (add_counters env (\<lambda>name. name = ea_name leader) (counter_attributes env) (grp_counters g) [] c)
           (\<lambda>counters c. (Inr (), c\<lparr>cp_group_counters := Some \<lparr>cc_leader = Some leader, cc_counters = counters\<rparr>\<rparr>))))"

fun filter_available :: "ExecutionScope \<Rightarrow> event_attr list \<Rightarrow> event_attr list result" where
  "filter_available scope [] = Inr []"
| "filter_available scope (ev # evs) =
    sum_bind (is_available_in ev scope) (\<lambda>ok. sum_bind (filter_available scope evs) (\<lambda>r. Inr (if ok then ev # r else r)))"

definition available_group :: "ExecutionScope \<Rightarrow> counter_collection \<Rightarrow> counter_collection result" where
  "available_group scope g =
    (case cc_leader g of None \<Rightarrow> Inr no_counters
     | Some leader \<Rightarrow>
       sum_bind (is_available_in leader scope) (\<lambda>ok.
         if ok then sum_bind (filter_available scope (cc_counters g)) (\<lambda>cs. Inr \<lparr>cc_leader = Some leader, cc_counters = cs\<rparr>)
         else Inr no_counters))"

definition group_counters_for :: "composer_env \<Rightarrow> ExecutionScope \<Rightarrow> counter_collection composing" where
  "group_counters_for env scope c =
    then_do (emplace_group_counters env c) (\<lambda>_ c.
      case cp_group_counters c of None \<Rightarrow> (Inr no_counters, c)
      | Some g \<Rightarrow> (if cc_empty g then Inr no_counters else cpp (available_group scope g), c))"

definition userspace_counters_for :: "composer_env \<Rightarrow> ExecutionScope \<Rightarrow> counter_collection composing" where
  "userspace_counters_for env scope c =
    then_do (emplace_userspace_counters env c) (\<lambda>_ c.
      case cp_userspace_counters c of None \<Rightarrow> (Inr no_counters, c)
      | Some g \<Rightarrow> (cpp (sum_bind (filter_available scope (cc_counters g)) (\<lambda>cs. Inr \<lparr>cc_leader = None, cc_counters = cs\<rparr>)), c))"

definition counters_for :: "composer_env \<Rightarrow> MeasurementScope \<Rightarrow> counter_collection composing" where
  "counters_for env scope c =
    (if ms_type scope = GROUP_METRIC then group_counters_for env (ms_scope scope) c
     else if ms_type scope = USERSPACE_METRIC then userspace_counters_for env (ms_scope scope) c
     else (Inl (Cpp Assertion), c))"

definition has_counters_for :: "composer_env \<Rightarrow> MeasurementScope \<Rightarrow> bool composing" where
  "has_counters_for env scope c = then_do (counters_for env scope c) (\<lambda>cc c. (Inr (cc_counters cc \<noteq> []), c))"

section \<open>The sampling event\<close>

definition with_precision :: "nat \<Rightarrow> event_attr \<Rightarrow> event_attr" where
  "with_precision p = attr_upd (\<lambda>a. a\<lparr>pa_precise_ip := word_of_nat p\<rparr>)"

lemma with_precision_twice [simp]: "with_precision p (with_precision q ev) = with_precision p ev"
  by (simp add: with_precision_def attr_upd_def)

lemma with_precision_same: "pa_precise_ip (ea_attr ev) = word_of_nat p \<Longrightarrow> with_precision p ev = ev"
  by (simp add: with_precision_def attr_upd_def)

lemma set_precise_ip_ok: "p \<le> 3 \<Longrightarrow> set_precise_ip (word_of_nat p) ev = Inr (with_precision p ev)"
proof -
  assume "p \<le> 3"
  then have "p = 0 \<or> p = 1 \<or> p = 2 \<or> p = 3" by auto
  then show ?thesis by (auto simp: set_precise_ip_def with_precision_def)
qed

abbreviation precision_opens :: "composer_env \<Rightarrow> event_attr \<Rightarrow> nat \<Rightarrow> bool" where
  "precision_opens env ev p \<equiv> thread_opens (sc_sys (ce_sources env)) (ea_attr (with_precision p ev))"

lemma event_guard_own_thread:
  assumes "\<And>fd. nb fd = None"
  shows "if thread_opens sys (ea_attr ev) then \<exists>fd. event_guard_new sys nb ev (At_thread (Thread 0)) (- 1) (- 1) = Inr fd
    else \<exists>n. event_guard_new sys nb ev (At_thread (Thread 0)) (- 1) (- 1) = Inl (System_error n)"
  by (auto simp: event_guard_new_def thread_opens_def opens_def perf_event_open_def scope_is_cpu_def scope_of_thread_def
      scope_as_thread_def assms split: sum.split)

lemma set_precision_from_ok:
  assumes "\<And>fd. ce_nonblock env fd = None" "k \<le> 3"
  shows "if \<exists>p \<le> k. precision_opens env ev p
    then \<exists>p \<le> k. set_precision_from env k (with_precision k ev) = Inr (with_precision p ev) \<and> precision_opens env ev p \<and>
      (\<forall>q. p < q \<and> q \<le> k \<longrightarrow> \<not> precision_opens env ev q)
    else \<exists>n. set_precision_from env k (with_precision k ev) = Inl (Cpp (System_error n))"
  using assms(2)
proof (induction k)
  case 0
  show ?case
    using event_guard_own_thread[where nb = "ce_nonblock env", OF assms(1), of "sc_sys (ce_sources env)" "with_precision 0 ev"] by (auto split: if_splits)
next
  case (Suc k)
  show ?case
  proof (cases "precision_opens env ev (Suc k)")
    case True
    then show ?thesis by (auto simp: thread_opens_def)
  next
    case False
    then have s: "set_precision_from env (Suc k) (with_precision (Suc k) ev) = set_precision_from env k (with_precision k ev)"
      using Suc.prems by (simp add: thread_opens_def set_precise_ip_ok)
    have e: "(\<exists>p \<le> Suc k. precision_opens env ev p) \<longleftrightarrow> (\<exists>p \<le> k. precision_opens env ev p)"
      using False by (metis le_Suc_eq)
    show ?thesis
      unfolding s e using Suc False by (auto split: if_splits) (metis le_SucE le_SucI)+
  qed
qed

lemma sampling_source_precision:
  "sampling_source env c = (Inr res, c1) \<Longrightarrow> smp_enabled (cfg_sampling (ce_config env)) \<Longrightarrow> pa_precise_ip (ea_attr res) = 3"
  by (auto simp: sampling_source_def then_do_def Let_def set_precise_ip_def split: sum.splits)

lemma sampling_attributes_precision: "pa_precise_ip (ea_attr (sampling_attributes env k res)) = pa_precise_ip (ea_attr res)"
  by (simp add: sampling_attributes_def Let_def set_sample_type_def watermark_def set_watermark_def set_exclude_kernel_def
      set_context_switch_def set_task_def set_comm_def set_sample_id_all_def)

text \<open>
  C28. When the sampling event can be resolved, the composer tries the precision levels from 3 down to 0 and returns
  the event with the highest level the kernel opens, which is then the event of every later request; when no level
  opens, the error of the kernel is reported.
\<close>
theorem sampling_event_most_precise:
  assumes "cp_sampling_event c = None" "smp_enabled (cfg_sampling (ce_config env))" "\<And>fd. ce_nonblock env fd = None"
    "sampling_source env c = (Inr res, c1)" "base = sampling_attributes env (cp_exclude_kernel c1) res"
  shows "if \<exists>p \<le> 3. precision_opens env base p
    then \<exists>p c'. p \<le> 3 \<and> create_sampling_event env c = (Inr (with_precision p base), c') \<and> precision_opens env base p \<and>
      (\<forall>q. p < q \<and> q \<le> 3 \<longrightarrow> \<not> precision_opens env base q) \<and>
      (\<forall>env'. create_sampling_event env' c' = (Inr (with_precision p base), c'))
    else \<exists>n. fst (create_sampling_event env c) = Inl (Cpp (System_error n))"
proof -
  have "with_precision 3 base = base"
    using sampling_source_precision[OF assms(4,2)] unfolding assms(5)
    by (intro with_precision_same) (simp add: sampling_attributes_precision)
  then have s: "set_precision env base = set_precision_from env 3 (with_precision 3 base)" by (simp add: set_precision_def)
  have c: "create_sampling_event env c =
      then_do (set_precision env base, c1) (\<lambda>res c. (Inr res, c\<lparr>cp_sampling_event := Some res\<rparr>))"
    using assms(1,2,4,5) by (simp add: create_sampling_event_def Let_def)
  show ?thesis
    using set_precision_from_ok[OF assms(3), of 3 base] unfolding c s
    by (auto simp: then_do_def create_sampling_event_def split: if_splits)
qed

text \<open>The option that excludes the kernel has no influence on the sampling event.\<close>

lemma kernel_option_ignored:
  "create_sampling_event (env\<lparr>ce_config := (ce_config env)\<lparr>cfg_sampling := (cfg_sampling (ce_config env))\<lparr>smp_exclude_kernel := b\<rparr>\<rparr>\<rparr>) c =
    create_sampling_event env c"
  (is "create_sampling_event ?env c = _")
proof -
  have l: "lookup_event ?env = lookup_event env" by (simp add: fun_eq_iff lookup_event_def)
  have p: "set_precision_from ?env k ev = set_precision_from env k ev" for k ev
    by (induction k arbitrary: ev) (simp_all add: ev_bind_def split: sum.split)
  have "sampling_source ?env = sampling_source env" "set_precision ?env = set_precision env"
    "sampling_attributes ?env = sampling_attributes env"
    unfolding sampling_source_def l sampling_attributes_def
    by (simp_all add: fun_eq_iff set_precision_def p watermark_def Let_def cong: if_cong)
  then show ?thesis by (simp add: create_sampling_event_def cong: if_cong option.case_cong)
qed

text \<open>A tracepoint event has no set of CPUs when its availability is determined.\<close>

lemma tracepoint_event_undefined: "tracepoint_event_attr sys name (Inr i) = Inl Undefined"
  by (simp add: tracepoint_event_attr_def update_availability_def event_attr_new_def)

text \<open>A period that does not fit into an \<^verbatim>\<open>int\<close> is not the period the kernel gets.\<close>

lemma period_narrowed:
  "uint p < 2 ^ 31 \<Longrightarrow> pa_sample_period (ea_attr (sample_period (period_arg p) ev)) = p"
  "pa_sample_period (ea_attr (sample_period (period_arg 3000000000) ev)) = 18446744072414584320"
proof -
  assume "uint p < 2 ^ 31"
  then have "signed_take_bit 31 (uint p) = uint p"
    by (intro signed_take_bit_int_eq_self) (simp_all add: order_trans[OF _ uint_ge_0])
  then have "to_int32 (uint p) = uint p" unfolding to_int32_def signed_of_int by simp
  then show "pa_sample_period (ea_attr (sample_period (period_arg p) ev)) = p"
    by (simp add: sample_period_def period_arg_def)
next
  show "pa_sample_period (ea_attr (sample_period (period_arg 3000000000) ev)) = 18446744072414584320"
    by (simp add: sample_period_def period_arg_def to_int32_def)
qed

definition example_config :: perf_config where
  "example_config = \<lparr>cfg_sampling = \<lparr>smp_enabled = True, smp_process_recording = False, smp_period = 11010113,
      smp_event = ''instructions'', smp_exclude_kernel = False, smp_enable_callgraph = True, smp_use_pebs = False\<rparr>,
    cfg_group = \<lparr>grp_enabled = True, grp_use_frequency = True, grp_count = 0, grp_frequency = 10, grp_leader = [],
      grp_counters = [''instructions'', ''no-event'']\<rparr>,
    cfg_userspace_counters = [], cfg_clockid = Some 1, cfg_mmap_pages = 16\<rparr>"

text \<open>A kernel that supports precision levels up to 2.\<close>

definition composing_env :: composer_env where
  "composing_env = \<lparr>ce_config = example_config,
    ce_sources = bare_sources\<lparr>sc_sys := (\<lambda>a pid cpu group_fd flags. if pa_precise_ip a \<le> 2 then Inr 3 else Inl 95)\<rparr>,
    ce_nonblock = (\<lambda>_. None), ce_page_size = 4096\<rparr>"

definition known_event :: "string \<Rightarrow> u32 \<Rightarrow> u64 \<Rightarrow> event_attr" where
  "known_event name type config = (event_attr_new name type config 0)\<lparr>ea_cpus := [(Cpu 0, ())], ea_availability := UNIVERSAL\<rparr>"

definition example_composer :: composer where
  "example_composer = \<lparr>cp_sampling_event = None, cp_group_counters = None, cp_userspace_counters = None,
    cp_exclude_kernel = False,
    cp_events = [(''dummy'', Some (known_event ''dummy'' 1 9)), (''instructions'', Some (known_event ''instructions'' 0 1)),
      (''cpu-clock'', Some (known_event ''cpu-clock'' 1 0)), (''no-event'', None)]\<rparr>"

lemma example_lookup:
  "lookup_event composing_env ''dummy'' example_composer = (Inr (known_event ''dummy'' 1 9), example_composer)"
  "lookup_event composing_env ''instructions'' example_composer = (Inr (known_event ''instructions'' 0 1), example_composer)"
  by (simp_all add: lookup_event_def with_events_def get_event_by_name_def example_composer_def)

lemma example_precision: "precision_opens composing_env ev p \<longleftrightarrow> (word_of_nat p :: u64) \<le> 2"
  by (simp add: thread_opens_def opens_def perf_event_open_def scope_is_cpu_def scope_of_thread_def scope_as_thread_def
      composing_env_def with_precision_def)

theorem sampling_event_most_precise_witness:
  "\<exists>ev c'. create_sampling_event composing_env example_composer = (Inr ev, c') \<and> pa_precise_ip (ea_attr ev) = 2 \<and>
    (\<forall>env'. create_sampling_event env' c' = (Inr ev, c'))"
proof -
  obtain res where res: "sampling_source composing_env example_composer = (Inr res, example_composer)"
    by (auto simp: sampling_source_def example_lookup set_precise_ip_def composing_env_def[THEN arg_cong, of ce_config] example_config_def)
  have s: "cp_sampling_event example_composer = None" "smp_enabled (cfg_sampling (ce_config composing_env))"
    "\<And>fd. ce_nonblock composing_env fd = None"
    by (simp_all add: example_composer_def composing_env_def example_config_def)
  let ?base = "sampling_attributes composing_env (cp_exclude_kernel example_composer) res"
  have "\<exists>p \<le> 3. precision_opens composing_env ?base p" unfolding example_precision by (auto intro: exI[of _ 2])
  then obtain p c' where p: "p \<le> 3" "create_sampling_event composing_env example_composer = (Inr (with_precision p ?base), c')"
    "precision_opens composing_env ?base p" "\<And>q. p < q \<and> q \<le> 3 \<Longrightarrow> \<not> precision_opens composing_env ?base q"
    "\<And>env'. create_sampling_event env' c' = (Inr (with_precision p ?base), c')"
    using sampling_event_most_precise[OF s res refl] by auto
  have "p \<in> {0, 1, 2, 3}" using p(1) by auto
  then have "p = 2" using p(3) p(4)[of 2] unfolding example_precision by auto
  with p show ?thesis by (auto simp: with_precision_def)
qed

section \<open>The counters of a scope\<close>

definition available :: "ExecutionScope \<Rightarrow> event_attr \<Rightarrow> bool" where
  "available scope ev \<longleftrightarrow> is_available_in ev scope = Inr True"

lemma is_available_in_known: "es_type scope \<noteq> UNKNOWN \<Longrightarrow> is_available_in ev scope = Inr (available scope ev)"
  by (cases "es_type scope") (auto simp: available_def is_available_in_def scope_is_thread_def scope_is_process_def scope_as_cpu_def)

lemma filter_available_known: "es_type scope \<noteq> UNKNOWN \<Longrightarrow> filter_available scope evs = Inr (filter (available scope) evs)"
  by (induction evs) (simp_all add: is_available_in_known)

lemma available_attributes [simp]:
  "available scope (counter_attributes env ev) = available scope ev"
  "available scope (leader_attributes env ev) = available scope ev"
  by (simp_all add: available_def is_available_in_def counter_attributes_def leader_attributes_def Let_def watermark_def
      set_watermark_def set_read_format_def set_clockid_def sample_freq_def sample_period_def set_sample_type_def)

text \<open>The events of a list of names that are in the table, without the skipped and the unknown ones.\<close>

definition known_events :: "event_map \<Rightarrow> (string \<Rightarrow> bool) \<Rightarrow> string list \<Rightarrow> event_attr list" where
  "known_events m skip names = List.map_filter (\<lambda>n. if skip n then None else the (map_of m n)) names"

lemma add_counters_known:
  "\<forall>n \<in> set names. map_of (cp_events c) n \<noteq> None \<Longrightarrow>
    add_counters env skip f names counters c = (Inr (counters @ map f (known_events (cp_events c) skip names)), c)"
proof (induction names arbitrary: counters)
  case Nil
  then show ?case by (simp add: known_events_def List.map_filter_def)
next
  case (Cons n names)
  then obtain v where v: "map_of (cp_events c) n = Some v" by auto
  from Cons.prems have p: "\<forall>n \<in> set names. map_of (cp_events c) n \<noteq> None" by simp
  show ?case
    using v by (cases v)
      (simp_all add: Cons.IH[OF p] known_events_def List.map_filter_def lookup_event_def with_events_def get_event_by_name_def)
qed

lemma metric_leader_known:
  assumes "map_of m (if metric_leader = [] then ''cpu-clock'' else metric_leader) = Some (Some l)"
  shows "get_metric_leader src metric_leader m = (Inr l, m)"
  using assms by (auto simp: get_metric_leader_def get_event_by_name_def no_leader_def split: if_splits)

text \<open>
  C23. When the leader and the counters of the configuration are in the event table, the counters of a scope are the
  leader and, in the configured order, the known counters other than the leader that are available in the scope,
  and none when the leader is not. The leader reads all counters with the enabled and running times and is sampled
  with them; the composition does not change when other scopes ask.
\<close>
theorem group_counters_composed:
  assumes "grp_enabled (cfg_group (ce_config env))" "cp_group_counters c = None"
    "map_of (cp_events c) (if grp_leader (cfg_group (ce_config env)) = [] then ''cpu-clock''
      else grp_leader (cfg_group (ce_config env))) = Some (Some l)"
    "\<forall>n \<in> set (grp_counters (cfg_group (ce_config env))). map_of (cp_events c) n \<noteq> None"
    "es_type scope \<noteq> UNKNOWN"
    "expected = (\<lambda>scope. if available scope l
      then \<lparr>cc_leader = Some (leader_attributes env l), cc_counters = map (counter_attributes env) (filter (available scope)
        (known_events (cp_events c) (\<lambda>n. n = ea_name l) (grp_counters (cfg_group (ce_config env)))))\<rparr>
      else no_counters)"
  shows "\<exists>c'. group_counters_for env scope c = (Inr (expected scope), c') \<and>
    (\<forall>env' scope'. es_type scope' \<noteq> UNKNOWN \<longrightarrow> group_counters_for env' scope' c' = (Inr (expected scope'), c')) \<and>
    pa_read_format (ea_attr (leader_attributes env l)) = 11 \<and>
    pa_sample_type (ea_attr (leader_attributes env l)) = pa_sample_type (ea_attr l) OR 20"
proof -
  let ?leader = "leader_attributes env l"
  let ?g = "\<lparr>cc_leader = Some ?leader, cc_counters = map (counter_attributes env)
    (known_events (cp_events c) (\<lambda>n. n = ea_name l) (grp_counters (cfg_group (ce_config env))))\<rparr>"
  let ?c = "c\<lparr>cp_group_counters := Some ?g\<rparr>"
  have n: "ea_name ?leader = ea_name l"
    by (simp add: leader_attributes_def Let_def watermark_def set_watermark_def set_read_format_def set_clockid_def
        sample_freq_def sample_period_def set_sample_type_def)
  have w: "with_events (get_metric_leader (ce_sources env) (grp_leader (cfg_group (ce_config env)))) c = (Inr l, c)"
    by (simp add: with_events_def metric_leader_known[OF assms(3)])
  have e: "emplace_group_counters env c = (Inr (), ?c)"
    using assms(1,2) by (simp add: emplace_group_counters_def w n add_counters_known[OF assms(4)] Let_def)
  have e': "emplace_group_counters env' ?c = (Inr (), ?c)" for env'
    by (simp add: emplace_group_counters_def)
  have a: "available_group scope' ?g = Inr (expected scope')" if "es_type scope' \<noteq> UNKNOWN" for scope'
    unfolding assms(6)
    by (simp add: available_group_def is_available_in_known[OF that] filter_available_known[OF that] filter_map comp_def)
  have ne: "\<not> cc_empty ?g" by (simp add: cc_empty_def)
  have "group_counters_for env scope c = (Inr (expected scope), ?c)"
    using e a[OF assms(5)] ne by (simp add: group_counters_for_def)
  moreover have "group_counters_for env' scope' ?c = (Inr (expected scope'), ?c)" if "es_type scope' \<noteq> UNKNOWN" for env' scope'
    using e' a[OF that] ne by (simp add: group_counters_for_def)
  moreover have "pa_read_format (ea_attr ?leader) = 11"
    by (simp add: leader_attributes_def Let_def watermark_def set_watermark_def set_read_format_def
        PERF_FORMAT_TOTAL_TIME_ENABLED_def PERF_FORMAT_TOTAL_TIME_RUNNING_def PERF_FORMAT_GROUP_def)
  moreover have "pa_sample_type (ea_attr ?leader) = pa_sample_type (ea_attr l) OR 20"
    by (simp add: leader_attributes_def Let_def watermark_def set_watermark_def set_read_format_def set_clockid_def
        sample_freq_def sample_period_def set_sample_type_def PERF_SAMPLE_TIME_def PERF_SAMPLE_READ_def split: option.split)
  ultimately show ?thesis by blast
qed

theorem group_counters_composed_witness:
  "\<exists>c'. group_counters_for composing_env (scope_of_thread (Thread 7)) example_composer =
    (Inr \<lparr>cc_leader = Some (leader_attributes composing_env (known_event ''cpu-clock'' 1 0)),
      cc_counters = [counter_attributes composing_env (known_event ''instructions'' 0 1)]\<rparr>, c')"
proof -
  have g: "grp_enabled (cfg_group (ce_config composing_env))" "cp_group_counters example_composer = None"
    "map_of (cp_events example_composer) (if grp_leader (cfg_group (ce_config composing_env)) = [] then ''cpu-clock''
      else grp_leader (cfg_group (ce_config composing_env))) = Some (Some (known_event ''cpu-clock'' 1 0))"
    "\<forall>n \<in> set (grp_counters (cfg_group (ce_config composing_env))). map_of (cp_events example_composer) n \<noteq> None"
    "es_type (scope_of_thread (Thread 7)) \<noteq> UNKNOWN"
    by (simp_all add: composing_env_def example_config_def example_composer_def scope_of_thread_def)
  have "available (scope_of_thread (Thread 7)) (known_event n t k)" for n t k
    by (simp add: available_def is_available_in_def known_event_def scope_is_thread_def scope_of_thread_def)
  moreover have "known_events (cp_events example_composer) (\<lambda>n. n = ea_name (known_event ''cpu-clock'' 1 0))
      (grp_counters (cfg_group (ce_config composing_env))) = [known_event ''instructions'' 0 1]"
    by (simp add: known_events_def List.map_filter_def composing_env_def example_config_def example_composer_def
        known_event_def event_attr_new_def)
  ultimately show ?thesis using group_counters_composed[OF g refl] by auto
qed

text \<open>A configuration that passes its checks has an interval: a frequency for the default leader, a count for another.\<close>

lemma group_config_checked:
  assumes "group_config_new a = Inr g" "group_config_check g = Inr ()"
  shows "if arg_provided a ''metric-leader'' then \<not> grp_use_frequency g \<and> grp_leader g \<noteq> [] \<and> grp_count g > 0
    else grp_use_frequency g \<and> grp_leader g = [] \<and> grp_frequency g > 0"
  using assms by (auto simp: group_config_new_def group_config_check_def Let_def word_neq_0_conv split: if_splits)

text \<open>The check of the sampling configuration never changes it, whatever was requested.\<close>

lemma sampling_check_no_change: "fst (sampling_config_check src uid paranoid s m) = Inr s' \<Longrightarrow> s' = s"
  by (auto simp: sampling_config_check_def then_do_def Let_def split: sum.splits if_splits)

end
