(* ===== verification/Posix_Monitor.thy ===== *)
theory Posix_Monitor
  imports Scopes
begin

text \<open>
  The monitor of POSIX I/O (\<^verbatim>\<open>src/monitor/posix_monitor.cpp\<close>) on the events of the BPF programs
  (\<^verbatim>\<open>include/lo2s/perf/posix_io/common.h\<close>), with the handles of \<^verbatim>\<open>Trace::posix_io_handle\<close>: one per thread, file
  descriptor and number of times the descriptor was opened (\<^verbatim>\<open>include/lo2s/thread_fd_instance.hpp\<close>). A
  \<^verbatim>\<open>std::map\<close> that is only accessed with \<open>operator[]\<close> is a function, with the value 0 for the keys it does not
  have. The kernel side and the conversion of timestamps are outside; the time conversion is an argument.
\<close>

section \<open>Events\<close>

datatype posix_event_type = OPEN | CLOSE | READ_ENTER | READ_EXIT | WRITE_ENTER | WRITE_EXIT

text \<open>The header and the members that depend on the type: the file name of an open, the buffer and size of a transfer.\<close>

record posix_event =
  pe_type :: posix_event_type
  pe_time :: u64
  pe_pid :: int
  pe_fd :: int
  pe_filename :: string
  pe_buf :: int
  pe_count :: int

datatype thread_fd_instance = ThreadFdInstance Thread int int

datatype posix_mode = Posix_read | Posix_write

datatype posix_io =
    Io_create_handle int thread_fd_instance
  | Io_destroy_handle int thread_fd_instance
  | Io_operation_begin int thread_fd_instance posix_mode int int
  | Io_operation_complete int thread_fd_instance int int

section \<open>State and handler\<close>

record posix_monitor =
  pm_pids :: "int set"
  pm_last_fd :: "Thread \<Rightarrow> int"
  pm_last_count :: "Thread \<Rightarrow> int"
  pm_last_buf :: "Thread \<Rightarrow> int"
  pm_instance :: "int \<times> Thread \<Rightarrow> int option"
  pm_handles :: "thread_fd_instance \<Rightarrow> string option"
  pm_written :: "(Thread \<times> posix_io) list"

definition posix_monitor_new :: posix_monitor where
  "posix_monitor_new = \<lparr>pm_pids = {}, pm_last_fd = (\<lambda>_. 0), pm_last_count = (\<lambda>_. 0), pm_last_buf = (\<lambda>_. 0),
    pm_instance = (\<lambda>_. None), pm_handles = (\<lambda>_. None), pm_written = []\<rparr>"

definition pm_insert_thread :: "Thread \<Rightarrow> posix_monitor \<Rightarrow> posix_monitor" where
  "pm_insert_thread t s =
    s\<lparr>pm_pids := insert (thread_as_int t) (pm_pids s), pm_last_fd := (pm_last_fd s)(t := - 1)\<rparr>"

definition pm_exit_thread :: "Thread \<Rightarrow> posix_monitor \<Rightarrow> posix_monitor" where
  "pm_exit_thread t s = s\<lparr>pm_pids := pm_pids s - {thread_as_int t}\<rparr>"

definition standard_name :: "int \<Rightarrow> string" where
  "standard_name fd = (if fd = 0 then ''stdin'' else if fd = 1 then ''stdout'' else if fd = 2 then ''stderr'' else [])"

text \<open>\<open>instance_[thread_fd]\<close>: an access creates the entry.\<close>

definition instance_at :: "int \<times> Thread \<Rightarrow> posix_monitor \<Rightarrow> int \<times> posix_monitor" where
  "instance_at k s =
    (case pm_instance s k of Some i \<Rightarrow> (i, s) | None \<Rightarrow> (0, s\<lparr>pm_instance := (pm_instance s)(k \<mapsto> 0)\<rparr>))"

definition posix_io_handle :: "Thread \<Rightarrow> int \<Rightarrow> int \<Rightarrow> string \<Rightarrow> posix_monitor \<Rightarrow> thread_fd_instance \<times> posix_monitor" where
  "posix_io_handle t fd i name s =
    (let h = ThreadFdInstance t fd i in
     (h, if pm_handles s h \<noteq> None then s else s\<lparr>pm_handles := (pm_handles s)(h \<mapsto> name)\<rparr>))"

definition pm_write :: "Thread \<Rightarrow> posix_io \<Rightarrow> posix_monitor \<Rightarrow> posix_monitor" where
  "pm_write t e s = s\<lparr>pm_written := pm_written s @ [(t, e)]\<rparr>"

definition handle_open :: "(u64 \<Rightarrow> int) \<Rightarrow> posix_event \<Rightarrow> posix_monitor \<Rightarrow> posix_monitor" where
  "handle_open conv e s =
    (let t = Thread (pe_pid e); k = (pe_fd e, t);
         filename = (if pe_fd e \<ge> 3 then pe_filename e else standard_name (pe_fd e));
         i = (case pm_instance s k of None \<Rightarrow> 0 | Some i \<Rightarrow> i + 1);
         (h, s) = posix_io_handle t (pe_fd e) i filename (s\<lparr>pm_instance := (pm_instance s)(k \<mapsto> i)\<rparr>) in
     pm_write t (Io_create_handle (conv (pe_time e)) h) s)"

definition handle_close :: "(u64 \<Rightarrow> int) \<Rightarrow> posix_event \<Rightarrow> posix_monitor \<Rightarrow> posix_monitor" where
  "handle_close conv e s =
    (let t = Thread (pe_pid e); (i, s) = instance_at (pe_fd e, t) s;
         (h, s) = posix_io_handle t (pe_fd e) i (standard_name (pe_fd e)) s in
     pm_write t (Io_destroy_handle (conv (pe_time e)) h) s)"

definition handle_enter :: "(u64 \<Rightarrow> int) \<Rightarrow> posix_mode \<Rightarrow> posix_event \<Rightarrow> posix_monitor \<Rightarrow> posix_monitor" where
  "handle_enter conv mode e s =
    (let t = Thread (pe_pid e);
         s = s\<lparr>pm_last_fd := (pm_last_fd s)(t := pe_fd e), pm_last_buf := (pm_last_buf s)(t := pe_buf e),
           pm_last_count := (pm_last_count s)(t := pe_count e)\<rparr>;
         (i, s) = instance_at (pe_fd e, t) s;
         (h, s) = posix_io_handle t (pe_fd e) i (standard_name (pe_fd e)) s in
     pm_write t (Io_operation_begin (conv (pe_time e)) h mode (pe_count e) (pe_buf e)) s)"

definition handle_exit :: "(u64 \<Rightarrow> int) \<Rightarrow> posix_event \<Rightarrow> posix_monitor \<Rightarrow> posix_monitor" where
  "handle_exit conv e s =
    (let t = Thread (pe_pid e); fd = pm_last_fd s t in
     if fd = - 1 then s
     else
       let (i, s) = instance_at (fd, t) s;
           (h, s) = posix_io_handle t fd i (standard_name (pe_fd e)) s;
           s = pm_write t (Io_operation_complete (conv (pe_time e)) h (pm_last_count s t) (pm_last_buf s t)) s in
       s\<lparr>pm_last_fd := (pm_last_fd s)(t := - 1)\<rparr>)"

definition pm_handle_event :: "(u64 \<Rightarrow> int) \<Rightarrow> posix_event \<Rightarrow> posix_monitor \<Rightarrow> posix_monitor" where
  "pm_handle_event conv e s =
    (case pe_type e of
       OPEN \<Rightarrow> handle_open conv e s
     | CLOSE \<Rightarrow> handle_close conv e s
     | READ_ENTER \<Rightarrow> handle_enter conv Posix_read e s
     | WRITE_ENTER \<Rightarrow> handle_enter conv Posix_write e s
     | READ_EXIT \<Rightarrow> handle_exit conv e s
     | WRITE_EXIT \<Rightarrow> handle_exit conv e s)"

section \<open>What a thread does\<close>

text \<open>
  The reference: the events of one thread are interpreted on their own. The state has the number of times every
  descriptor was opened and the transfer the thread is in.
\<close>

record thread_io =
  ti_opened :: "int \<Rightarrow> int option"
  ti_pending :: "(int \<times> int \<times> int) option"

definition io_handle :: "Thread \<Rightarrow> thread_io \<Rightarrow> int \<Rightarrow> thread_fd_instance" where
  "io_handle t ti fd = ThreadFdInstance t fd (case ti_opened ti fd of Some i \<Rightarrow> i | None \<Rightarrow> 0)"

definition touch :: "int \<Rightarrow> thread_io \<Rightarrow> thread_io" where
  "touch fd ti = ti\<lparr>ti_opened := (ti_opened ti)(fd \<mapsto> (case ti_opened ti fd of Some i \<Rightarrow> i | None \<Rightarrow> 0))\<rparr>"

fun io_step :: "(u64 \<Rightarrow> int) \<Rightarrow> Thread \<Rightarrow> posix_event \<Rightarrow> thread_io \<Rightarrow> thread_io \<times> posix_io list" where
  "io_step conv t e ti =
    (case pe_type e of
       OPEN \<Rightarrow>
         let i = (case ti_opened ti (pe_fd e) of Some i \<Rightarrow> i + 1 | None \<Rightarrow> 0) in
         (ti\<lparr>ti_opened := (ti_opened ti)(pe_fd e \<mapsto> i)\<rparr>,
          [Io_create_handle (conv (pe_time e)) (ThreadFdInstance t (pe_fd e) i)])
     | CLOSE \<Rightarrow> (touch (pe_fd e) ti, [Io_destroy_handle (conv (pe_time e)) (io_handle t ti (pe_fd e))])
     | READ_ENTER \<Rightarrow>
         ((touch (pe_fd e) ti)\<lparr>ti_pending := Some (pe_fd e, pe_count e, pe_buf e)\<rparr>,
          [Io_operation_begin (conv (pe_time e)) (io_handle t ti (pe_fd e)) Posix_read (pe_count e) (pe_buf e)])
     | WRITE_ENTER \<Rightarrow>
         ((touch (pe_fd e) ti)\<lparr>ti_pending := Some (pe_fd e, pe_count e, pe_buf e)\<rparr>,
          [Io_operation_begin (conv (pe_time e)) (io_handle t ti (pe_fd e)) Posix_write (pe_count e) (pe_buf e)])
     | _ \<Rightarrow>
         (case ti_pending ti of None \<Rightarrow> (ti, [])
          | Some (fd, n, b) \<Rightarrow>
            ((touch fd ti)\<lparr>ti_pending := None\<rparr>, [Io_operation_complete (conv (pe_time e)) (io_handle t ti fd) n b])))"

declare io_step.simps [simp del]

fun io_run :: "(u64 \<Rightarrow> int) \<Rightarrow> Thread \<Rightarrow> posix_event list \<Rightarrow> thread_io \<Rightarrow> thread_io \<times> posix_io list" where
  "io_run conv t [] ti = (ti, [])"
| "io_run conv t (e # es) ti =
    (let (ti, out) = io_step conv t e ti; (ti, out') = io_run conv t es ti in (ti, out @ out'))"

definition thread_view :: "Thread \<Rightarrow> posix_monitor \<Rightarrow> thread_io" where
  "thread_view t s = \<lparr>ti_opened = (\<lambda>fd. pm_instance s (fd, t)),
    ti_pending = (if pm_last_fd s t = - 1 then None else Some (pm_last_fd s t, pm_last_count s t, pm_last_buf s t))\<rparr>"

definition thread_output :: "Thread \<Rightarrow> posix_monitor \<Rightarrow> posix_io list" where
  "thread_output t s = map snd (filter (\<lambda>w. fst w = t) (pm_written s))"

lemmas pm_defs = pm_handle_event_def handle_open_def handle_close_def handle_enter_def handle_exit_def instance_at_def
  posix_io_handle_def pm_write_def Let_def

text \<open>A call on a descriptor, which the kernel numbers from 0.\<close>

definition fd_ok :: "posix_event \<Rightarrow> bool" where
  "fd_ok e \<longleftrightarrow> pe_type e \<in> {READ_ENTER, WRITE_ENTER} \<longrightarrow> pe_fd e \<noteq> - 1"

lemma handle_other_thread:
  assumes "Thread (pe_pid e) \<noteq> t"
  shows "thread_view t (pm_handle_event conv e s) = thread_view t s"
    "thread_output t (pm_handle_event conv e s) = thread_output t s"
  using assms
  by (cases "pe_type e"; auto simp: pm_defs thread_view_def thread_output_def fun_eq_iff split: option.split)+

lemma handle_own_thread:
  assumes "Thread (pe_pid e) = t" "fd_ok e"
  shows "io_step conv t e (thread_view t s) =
    (thread_view t (pm_handle_event conv e s), drop (length (thread_output t s)) (thread_output t (pm_handle_event conv e s)))"
    "thread_output t (pm_handle_event conv e s) =
      thread_output t s @ snd (io_step conv t e (thread_view t s))"
  using assms
  by (cases "pe_type e"; auto simp: pm_defs thread_view_def thread_output_def io_step.simps io_handle_def touch_def fd_ok_def fun_eq_iff
      split: option.split)+

definition pm_run :: "(u64 \<Rightarrow> int) \<Rightarrow> posix_event list \<Rightarrow> posix_monitor \<Rightarrow> posix_monitor" where
  "pm_run conv es s = fold (pm_handle_event conv) es s"

definition own_events :: "Thread \<Rightarrow> posix_event list \<Rightarrow> posix_event list" where
  "own_events t es = filter (\<lambda>e. Thread (pe_pid e) = t) es"

lemma pm_run_thread:
  assumes "\<forall>e \<in> set es. fd_ok e"
  shows "thread_output t (pm_run conv es s) = thread_output t s @ snd (io_run conv t (own_events t es) (thread_view t s))"
  using assms
proof (induction es arbitrary: s)
  case (Cons e es)
  show ?case
  proof (cases "Thread (pe_pid e) = t")
    case True
    have "fst (io_step conv t e (thread_view t s)) = thread_view t (pm_handle_event conv e s)"
      using handle_own_thread(1)[OF True, of conv s] Cons.prems by simp
    then show ?thesis
      using Cons handle_own_thread(2)[OF True, of conv s] True
      by (cases "io_step conv t e (thread_view t s)") (simp add: pm_run_def own_events_def Let_def split_def)
  next
    case False
    then show ?thesis using Cons handle_other_thread[OF False] by (simp add: pm_run_def own_events_def)
  qed
qed (simp add: pm_run_def own_events_def)

section \<open>Matching\<close>

fun is_exit :: "posix_event \<Rightarrow> bool" where
  "is_exit e \<longleftrightarrow> pe_type e = READ_EXIT \<or> pe_type e = WRITE_EXIT"

fun is_enter :: "posix_event \<Rightarrow> bool" where
  "is_enter e \<longleftrightarrow> pe_type e = READ_ENTER \<or> pe_type e = WRITE_ENTER"

text \<open>The assumption of the code: a thread is in one transfer at a time.\<close>

fun serial :: "posix_event list \<Rightarrow> bool" where
  "serial [] \<longleftrightarrow> True"
| "serial [e] \<longleftrightarrow> True"
| "serial (e # e' # es) \<longleftrightarrow> (if is_enter e then is_exit e' \<and> serial es else serial (e' # es))"

text \<open>Every completed operation follows its begin and has its handle, size and matching id.\<close>

fun matched :: "posix_io list \<Rightarrow> bool" where
  "matched [] \<longleftrightarrow> True"
| "matched [Io_operation_begin ts h m n b] \<longleftrightarrow> True"
| "matched (Io_operation_begin ts h m n b # Io_operation_complete ts' h' n' b' # os) \<longleftrightarrow>
    h' = h \<and> n' = n \<and> b' = b \<and> matched os"
| "matched (Io_create_handle ts h # os) \<longleftrightarrow> matched os"
| "matched (Io_destroy_handle ts h # os) \<longleftrightarrow> matched os"
| "matched _ \<longleftrightarrow> False"

lemma io_handle_touch [simp]:
  "io_handle t (touch fd ti) fd = io_handle t ti fd" "ti_pending (touch fd ti) = ti_pending ti"
  "touch fd (touch fd ti) = touch fd ti" "io_handle t (ti\<lparr>ti_pending := p\<rparr>) fd = io_handle t ti fd"
  by (simp_all add: io_handle_def touch_def)

lemma io_step_enter:
  "is_enter e \<Longrightarrow> \<exists>m. io_step conv t e ti =
    ((touch (pe_fd e) ti)\<lparr>ti_pending := Some (pe_fd e, pe_count e, pe_buf e)\<rparr>,
     [Io_operation_begin (conv (pe_time e)) (io_handle t ti (pe_fd e)) m (pe_count e) (pe_buf e)])"
  by (auto simp: io_step.simps)

lemma io_step_exit:
  "is_exit e \<Longrightarrow> ti_pending ti = Some (fd, n, b) \<Longrightarrow> io_step conv t e ti =
    ((touch fd ti)\<lparr>ti_pending := None\<rparr>, [Io_operation_complete (conv (pe_time e)) (io_handle t ti fd) n b])"
  by (auto simp: io_step.simps)

lemma io_step_idle:
  "\<not> is_enter e \<Longrightarrow> ti_pending ti = None \<Longrightarrow> \<exists>ti' out. io_step conv t e ti = (ti', out) \<and> ti_pending ti' = None \<and>
    (\<forall>os. matched (out @ os) = matched os)"
  by (cases "pe_type e") (auto simp: io_step.simps Let_def)

lemma io_run_matched: "serial es \<Longrightarrow> ti_pending ti = None \<Longrightarrow> matched (snd (io_run conv t es ti))"
proof (induction es arbitrary: ti rule: serial.induct)
  case (2 e)
  then show ?case by (cases "pe_type e") (simp_all add: io_step.simps Let_def)
next
  case (3 e e' es)
  show ?case
  proof (cases "is_enter e")
    case True
    then obtain m where e: "io_step conv t e ti = ((touch (pe_fd e) ti)\<lparr>ti_pending := Some (pe_fd e, pe_count e, pe_buf e)\<rparr>,
       [Io_operation_begin (conv (pe_time e)) (io_handle t ti (pe_fd e)) m (pe_count e) (pe_buf e)])"
      using io_step_enter by blast
    from True 3 have "is_exit e'" "serial es" by simp_all
    with True e show ?thesis using 3(1)[OF True \<open>serial es\<close>, of "(touch (pe_fd e) ((touch (pe_fd e) ti)\<lparr>ti_pending := Some (pe_fd e, pe_count e, pe_buf e)\<rparr>))\<lparr>ti_pending := None\<rparr>"]
      by (simp add: Let_def split_def io_step_exit)
  next
    case False
    then obtain ti' out where e: "io_step conv t e ti = (ti', out)" "ti_pending ti' = None"
      "\<And>os. matched (out @ os) = matched os"
      using io_step_idle 3(4) by blast
    from False 3 have "serial (e' # es)" by simp
    then have "matched (snd (io_run conv t (e' # es) ti'))" using 3(2)[OF False _ e(2)] by simp
    moreover have "snd (io_run conv t (e # e' # es) ti) = out @ snd (io_run conv t (e' # es) ti')"
      unfolding io_run.simps(2)[of conv t e "e' # es"] e(1) by (simp add: split_def Let_def)
    ultimately show ?thesis using e(3) by simp
  qed
qed simp

section \<open>Handles are not reused\<close>

fun created :: "posix_io list \<Rightarrow> thread_fd_instance list" where
  "created [] = []"
| "created (Io_create_handle ts h # os) = h # created os"
| "created (_ # os) = created os"

definition newer :: "thread_io \<Rightarrow> thread_fd_instance \<Rightarrow> bool" where
  "newer ti h \<longleftrightarrow> (case h of ThreadFdInstance t fd i \<Rightarrow> (case ti_opened ti fd of Some j \<Rightarrow> j < i | None \<Rightarrow> 0 \<le> i))"

lemma created_append [simp]: "created (a @ b) = created a @ created b"
  by (induction a rule: created.induct) auto

lemma io_step_newer:
  assumes "io_step conv t e ti = (ti', out)"
  shows "newer ti' h \<Longrightarrow> newer ti h" "h \<in> set (created out) \<Longrightarrow> newer ti h \<and> \<not> newer ti' h" "distinct (created out)"
  using assms
  by (cases "pe_type e"; auto simp: io_step.simps Let_def newer_def touch_def
      split: thread_fd_instance.splits option.splits if_splits)+

lemma io_run_newer:
  "(\<forall>h \<in> set (created (snd (io_run conv t es ti))). newer ti h) \<and> distinct (created (snd (io_run conv t es ti)))"
proof (induction es arbitrary: ti)
  case (Cons e es)
  obtain ti' out where s: "io_step conv t e ti = (ti', out)" by (cases "io_step conv t e ti") auto
  have "h \<in> set (created (snd (io_run conv t es ti'))) \<Longrightarrow> newer ti' h" for h using Cons.IH[of ti'] by blast
  then show ?case
    using Cons.IH[of ti'] io_step_newer[OF s] s by (auto simp: Let_def split_def)
qed simp

section \<open>Property\<close>

lemma inserted_view:
  "t \<in> set ts \<Longrightarrow> thread_view t (fold pm_insert_thread ts posix_monitor_new) = \<lparr>ti_opened = (\<lambda>_. None), ti_pending = None\<rparr>"
  "thread_output t (fold pm_insert_thread ts posix_monitor_new) = []"
proof -
  let ?keep = "\<lambda>s. pm_instance s = (\<lambda>_. None) \<and> pm_written s = []"
  have k: "?keep s \<Longrightarrow> ?keep (fold pm_insert_thread ts s)" for s
    by (induction ts arbitrary: s) (simp_all add: pm_insert_thread_def)
  have m: "pm_last_fd s t = - 1 \<Longrightarrow> pm_last_fd (fold pm_insert_thread ts s) t = - 1" for s ts
    by (induction ts arbitrary: s) (simp_all add: pm_insert_thread_def)
  have l: "t \<in> set ts \<Longrightarrow> pm_last_fd (fold pm_insert_thread ts s) t = - 1" for s
  proof (induction ts arbitrary: s)
    case (Cons u ts)
    have "u = t \<Longrightarrow> pm_last_fd (pm_insert_thread u s) t = - 1" by (simp add: pm_insert_thread_def)
    with Cons m[of "pm_insert_thread u s" ts] show ?case by auto
  qed simp
  show "t \<in> set ts \<Longrightarrow> thread_view t (fold pm_insert_thread ts posix_monitor_new) = \<lparr>ti_opened = (\<lambda>_. None), ti_pending = None\<rparr>"
    using k[of posix_monitor_new] l by (simp add: thread_view_def posix_monitor_new_def)
  show "thread_output t (fold pm_insert_thread ts posix_monitor_new) = []"
    using k[of posix_monitor_new] by (simp add: thread_output_def posix_monitor_new_def)
qed

text \<open>
  C6. However the events of the threads are interleaved, the operations written for a recorded thread are those its
  own events give. When the thread is in one transfer at a time, every completed operation follows its begin and has
  its handle, size and matching id, and no handle is created twice, however often a descriptor is reused.
\<close>
theorem posix_io_matched:
  assumes "\<forall>e \<in> set es. fd_ok e" "t \<in> set ts" "serial (own_events t es)"
  shows "thread_output t (pm_run conv es (fold pm_insert_thread ts posix_monitor_new)) =
      snd (io_run conv t (own_events t es) \<lparr>ti_opened = (\<lambda>_. None), ti_pending = None\<rparr>) \<and>
    matched (thread_output t (pm_run conv es (fold pm_insert_thread ts posix_monitor_new))) \<and>
    distinct (created (thread_output t (pm_run conv es (fold pm_insert_thread ts posix_monitor_new))))"
  using pm_run_thread[OF assms(1), of t conv "fold pm_insert_thread ts posix_monitor_new"] inserted_view(1)[OF assms(2)]
    inserted_view(2)[of t ts] io_run_matched[OF assms(3)] io_run_newer
  by simp

definition example_io :: "posix_event_type \<Rightarrow> int \<Rightarrow> int \<Rightarrow> posix_event" where
  "example_io ty pid fd = \<lparr>pe_type = ty, pe_time = 5, pe_pid = pid, pe_fd = fd, pe_filename = ''f'', pe_buf = 64, pe_count = 8\<rparr>"

theorem posix_io_matched_witness:
  "thread_output (Thread 7) (pm_run uint
      [example_io OPEN 7 3, example_io WRITE_ENTER 7 3, example_io OPEN 8 3, example_io WRITE_EXIT 7 0, example_io CLOSE 7 3]
      (fold pm_insert_thread [Thread 7, Thread 8] posix_monitor_new)) =
    [Io_create_handle 5 (ThreadFdInstance (Thread 7) 3 0),
     Io_operation_begin 5 (ThreadFdInstance (Thread 7) 3 0) Posix_write 8 64,
     Io_operation_complete 5 (ThreadFdInstance (Thread 7) 3 0) 8 64,
     Io_destroy_handle 5 (ThreadFdInstance (Thread 7) 3 0)]"
  using posix_io_matched[of "[example_io OPEN 7 3, example_io WRITE_ENTER 7 3, example_io OPEN 8 3, example_io WRITE_EXIT 7 0,
      example_io CLOSE 7 3]" "Thread 7" "[Thread 7, Thread 8]" uint]
  by (simp add: example_io_def fd_ok_def own_events_def io_step.simps touch_def io_handle_def)

text \<open>
  The exit of a call of a thread that was not inserted completes an operation on descriptor 0 that was never
  begun: the entry that \<open>operator[]\<close> creates is 0, not -1.
\<close>

lemma unknown_thread_exit:
  "pm_written (pm_handle_event conv (example_io READ_EXIT 7 0) posix_monitor_new) =
    [(Thread 7, Io_operation_complete (conv 5) (ThreadFdInstance (Thread 7) 0 0) 0 0)]"
  by (simp add: pm_defs posix_monitor_new_def example_io_def)

end
