(* ===== verification/Trace.thy ===== *)
theory Trace
  imports Resolvers Topology Event_Composer Bio_Writer Posix_Monitor
begin

text \<open>
  The global trace (\<^verbatim>\<open>src/trace/trace.cpp\<close>, \<^verbatim>\<open>include/lo2s/trace/trace.hpp\<close>): the definitions of processes, threads,
  regions and calling contexts, and the merge of the local calling context trees into the global one.
  The registry of definitions is a class of the otf2xx library and an argument of the operations; a
  definition is named by its reference.
\<close>

section \<open>The registry\<close>

text \<open>
  The keys of \<^verbatim>\<open>include/lo2s/trace/reg_keys.hpp\<close> a definition can be looked up by. Events and counter
  collections are compared by the bytes of their attributes, block devices by their number.
\<close>

datatype reg_key =
    ByCore Core
  | ByPackage Package
  | ByCpu Cpu
  | ByThread Thread
  | ByProcess Process
  | ByString string
  | BySyscall int
  | ByLineInfo LineInfo
  | ByExecutionScope ExecutionScope
  | ByMeasurementScope MeasurementScope
  | ByMeasurementScopeType MeasurementScopeType
  | BySamplingEvent perf_event_attr
  | ByCounterCollection "perf_event_attr option" "perf_event_attr list"
  | ByBlockDevice u64
  | ByThreadFdInstance thread_fd_instance

datatype def_kind =
    K_string
  | K_system_tree_node
  | K_system_tree_node_domain
  | K_location_group
  | K_location
  | K_comm_group
  | K_comm
  | K_region
  | K_regions_group
  | K_source_code_location
  | K_calling_context
  | K_calling_context_property
  | K_comm_locations_group
  | K_system_tree_node_property
  | K_interrupt_generator
  | K_metric_member
  | K_metric_class
  | K_metric_instance
  | K_io_paradigm
  | K_io_regular_file
  | K_io_handle
  | K_io_pre_created_handle_state

datatype paradigm = Pthread | User | Sampling | Compiler | Hardware

datatype metric_mode = Accumulated_start | Absolute_point | Absolute_next

datatype value_type = Int64 | Uint64 | Double

datatype access_mode = Read_only | Write_only | Read_write

datatype location_type = Cpu_thread | Metric

datatype tree_domain = Shared_memory | Socket | Core_domain | Pu

text \<open>
  The definitions with the arguments the code passes; references are numbers, \<open>None\<close> is the undefined
  reference. Arguments that are the same in all calls (the role of a region, the flags of a group, the
  type of a location group, the base and occurrence of metrics) are left out. A metric instance has its
  class, its recorder and the kind and reference of its scope; an I/O handle its name, file, paradigm,
  whether it is created before the measurement, and its communicator.
\<close>

datatype otf2_def =
    D_string string
  | D_system_tree_node nat nat "nat option"
  | D_system_tree_node_domain nat tree_domain
  | D_location_group nat nat
  | D_location nat nat location_type
  | D_comm_group nat paradigm
  | D_comm nat nat
  | D_region nat nat nat paradigm nat nat nat
  | D_regions_group nat paradigm
  | D_source_code_location nat nat
  | D_calling_context nat "nat option" "nat option"
  | D_calling_context_property nat nat nat
  | D_comm_locations_group nat paradigm
  | D_system_tree_node_property nat nat nat
  | D_interrupt_generator nat u64
  | D_metric_member nat nat metric_mode value_type int nat
  | D_metric_class
  | D_metric_instance nat nat def_kind nat
  | D_io_paradigm nat nat
  | D_io_regular_file nat nat
  | D_io_handle nat nat nat bool nat
  | D_io_pre_created_handle_state nat access_mode

fun kind_of :: "otf2_def \<Rightarrow> def_kind" where
  "kind_of (D_string _) = K_string"
| "kind_of (D_system_tree_node _ _ _) = K_system_tree_node"
| "kind_of (D_system_tree_node_domain _ _) = K_system_tree_node_domain"
| "kind_of (D_location_group _ _) = K_location_group"
| "kind_of (D_location _ _ _) = K_location"
| "kind_of (D_comm_group _ _) = K_comm_group"
| "kind_of (D_comm _ _) = K_comm"
| "kind_of (D_region _ _ _ _ _ _ _) = K_region"
| "kind_of (D_regions_group _ _) = K_regions_group"
| "kind_of (D_source_code_location _ _) = K_source_code_location"
| "kind_of (D_calling_context _ _ _) = K_calling_context"
| "kind_of (D_calling_context_property _ _ _) = K_calling_context_property"
| "kind_of (D_comm_locations_group _ _) = K_comm_locations_group"
| "kind_of (D_system_tree_node_property _ _ _) = K_system_tree_node_property"
| "kind_of (D_interrupt_generator _ _) = K_interrupt_generator"
| "kind_of (D_metric_member _ _ _ _ _ _) = K_metric_member"
| "kind_of D_metric_class = K_metric_class"
| "kind_of (D_metric_instance _ _ _ _) = K_metric_instance"
| "kind_of (D_io_paradigm _ _) = K_io_paradigm"
| "kind_of (D_io_regular_file _ _) = K_io_regular_file"
| "kind_of (D_io_handle _ _ _ _ _) = K_io_handle"
| "kind_of (D_io_pre_created_handle_state _ _) = K_io_pre_created_handle_state"

text \<open>The changes of existing definitions.\<close>

datatype otf2_change =
    Set_name def_kind nat nat
  | Set_canonical_name nat nat
  | Set_source_file nat nat
  | Set_description nat nat
  | Set_parent nat nat
  | Add_member def_kind nat nat

record 'r registry =
  reg_get :: "def_kind \<Rightarrow> reg_key \<Rightarrow> 'r \<Rightarrow> nat option"
  reg_create :: "reg_key option \<Rightarrow> otf2_def \<Rightarrow> 'r \<Rightarrow> nat \<times> 'r"
  reg_emplace :: "reg_key \<Rightarrow> otf2_def \<Rightarrow> 'r \<Rightarrow> nat \<times> 'r"
  reg_change :: "otf2_change \<Rightarrow> 'r \<Rightarrow> 'r"

section \<open>State\<close>

datatype global_cctx_node = GNode (g_cctx: "nat option") (g_children: "(CallingContext \<times> global_cctx_node) list")

text \<open>
  References of definitions that only some configurations create are \<open>None\<close> before. \<open>tr_mappings\<close> collects the mapping tables that are written to the locations of the local trees.
\<close>

record 'r trace =
  tr_registry :: 'r
  tr_tree :: global_cctx_node
  tr_thread_names :: "(Thread, string) std_map"
  tr_groups :: scope_groups
  tr_local_trees :: "local_cctx_tree list"
  tr_finalized :: bool
  tr_root_node :: nat
  tr_comm_locations_group :: nat
  tr_lo2s_regions_group :: nat
  tr_syscall_regions_group :: nat
  tr_kernel_regions_group :: nat
  tr_mappings :: "(local_cctx_tree \<times> nat option list) list"
  tr_hardware_locations_group :: nat
  tr_interrupt_generator :: nat
  tr_nec_interrupt_generator :: "nat option"
  tr_cpuid_metric_class :: "nat option"
  tr_bio_node :: "nat option"
  tr_bio_paradigm :: "nat option"
  tr_bio_comm_group :: "nat option"
  tr_posix_paradigm :: "nat option"
  tr_posix_comm_group :: "nat option"
  tr_properties :: "(string \<times> string) list"
  tr_times :: "int \<times> int"

text \<open>What the trace reads from its surroundings: the resolvers, \<^verbatim>\<open>/proc\<close>, and the names of system calls in libaudit.\<close>

record trace_env =
  te_resolver :: resolver_env
  te_cmdline :: "Thread \<Rightarrow> string option"
  te_audit_name :: "int \<Rightarrow> string option"

definition tr_has :: "'r registry \<Rightarrow> def_kind \<Rightarrow> reg_key \<Rightarrow> 'r trace \<Rightarrow> bool" where
  "tr_has reg kd k tr \<longleftrightarrow> reg_get reg kd k (tr_registry tr) \<noteq> None"

definition tr_get :: "'r registry \<Rightarrow> def_kind \<Rightarrow> reg_key \<Rightarrow> 'r trace \<Rightarrow> nat result" where
  "tr_get reg kd k tr = (case reg_get reg kd k (tr_registry tr) of Some x \<Rightarrow> Inr x | None \<Rightarrow> Inl Out_of_range)"

definition tr_create :: "'r registry \<Rightarrow> reg_key option \<Rightarrow> otf2_def \<Rightarrow> 'r trace \<Rightarrow> nat \<times> 'r trace" where
  "tr_create reg ko d tr = (case reg_create reg ko d (tr_registry tr) of (x, r) \<Rightarrow> (x, tr\<lparr>tr_registry := r\<rparr>))"

definition tr_emplace :: "'r registry \<Rightarrow> reg_key \<Rightarrow> otf2_def \<Rightarrow> 'r trace \<Rightarrow> nat \<times> 'r trace" where
  "tr_emplace reg k d tr = (case reg_emplace reg k d (tr_registry tr) of (x, r) \<Rightarrow> (x, tr\<lparr>tr_registry := r\<rparr>))"

definition tr_change :: "'r registry \<Rightarrow> otf2_change \<Rightarrow> 'r trace \<Rightarrow> 'r trace" where
  "tr_change reg c tr = tr\<lparr>tr_registry := reg_change reg c (tr_registry tr)\<rparr>"

definition intern :: "'r registry \<Rightarrow> string \<Rightarrow> 'r trace \<Rightarrow> nat \<times> 'r trace" where
  "intern reg s tr = tr_emplace reg (ByString s) (D_string s) tr"

text \<open>A region whose three names and source file are the same string.\<close>

definition emplace_named_region :: "'r registry \<Rightarrow> reg_key \<Rightarrow> nat \<Rightarrow> 'r trace \<Rightarrow> nat \<times> 'r trace" where
  "emplace_named_region reg k iname tr = tr_emplace reg k (D_region iname iname iname User iname 0 0) tr"

section \<open>Processes and threads\<close>

definition intern_process_node :: "'r registry \<Rightarrow> Process \<Rightarrow> 'r trace \<Rightarrow> nat" where
  "intern_process_node reg process tr =
    (case tr_get reg K_system_tree_node (ByProcess process) tr of Inr n \<Rightarrow> n | Inl _ \<Rightarrow> tr_root_node tr)"

text \<open>The part of \<open>emplace_process\<close> for a process that is not known yet.\<close>

definition new_process :: "'r registry \<Rightarrow> Process \<Rightarrow> Process \<Rightarrow> string \<Rightarrow> 'r trace \<Rightarrow> 'r trace" where
  "new_process reg parent process name tr =
    (let tr = tr\<lparr>tr_thread_names := fst (std_emplace thread_less (process_as_thread process) name (tr_thread_names tr))\<rparr>;
         (iname, tr) = intern reg name tr;
         parent_node = (if parent = Process_no_parent then tr_root_node tr else intern_process_node reg parent tr);
         (cls, tr) = intern reg ''process'' tr;
         (node, tr) = tr_create reg (Some (ByProcess process)) (D_system_tree_node iname cls (Some parent_node)) tr;
         (lg, tr) = tr_emplace reg (ByExecutionScope (scope_of_process process)) (D_location_group iname node) tr;
         (cg, tr) = tr_emplace reg (ByProcess process) (D_comm_group iname Pthread) tr;
         (cm, tr) = tr_emplace reg (ByProcess process) (D_comm iname cg) tr
     in tr)"

text \<open>\<open>update_thread\<close>; an unknown thread is logged.\<close>

definition thread_label :: "string \<Rightarrow> Thread \<Rightarrow> string" where
  "thread_label name thread = name @ '' ('' @ show_int (thread_as_int thread) @ '')''"

definition sample_location :: "Thread \<Rightarrow> reg_key" where
  "sample_location thread = ByMeasurementScope (measurement_scope SAMPLE (scope_of_thread thread))"

definition update_thread :: "'r registry \<Rightarrow> Thread \<Rightarrow> string \<Rightarrow> 'r trace \<Rightarrow> 'r trace" where
  "update_thread reg thread name tr =
    (if name = [] then tr
     else
       let (iname, tr) = intern reg (thread_label name thread) tr in
       case tr_get reg K_region (ByThread thread) tr of
         Inl _ \<Rightarrow> tr
       | Inr region \<Rightarrow>
         let tr = tr_change reg (Set_name K_region region iname) tr;
             tr = tr_change reg (Set_canonical_name region iname) tr;
             tr = tr_change reg (Set_source_file region iname) tr;
             tr = tr_change reg (Set_description region iname) tr;
             tr = (case tr_get reg K_location (sample_location thread) tr of
                     Inr l \<Rightarrow> tr_change reg (Set_name K_location l iname) tr | Inl _ \<Rightarrow> tr)
         in tr\<lparr>tr_thread_names := std_set thread_less thread name (tr_thread_names tr)\<rparr>)"

text \<open>The renaming in \<open>update_process\<close>; an unknown definition ends it with a warning.\<close>

fun rename_all :: "'r registry \<Rightarrow> (def_kind \<times> reg_key) list \<Rightarrow> nat \<Rightarrow> 'r trace \<Rightarrow> bool \<times> 'r trace" where
  "rename_all reg [] iname tr = (True, tr)"
| "rename_all reg ((kd, k) # ks) iname tr =
    (case tr_get reg kd k tr of
       Inl _ \<Rightarrow> (False, tr)
     | Inr x \<Rightarrow> rename_all reg ks iname (tr_change reg (Set_name kd x iname) tr))"

definition rename_process :: "'r registry \<Rightarrow> Process \<Rightarrow> string \<Rightarrow> 'r trace \<Rightarrow> 'r trace" where
  "rename_process reg process name tr =
    (if name = [] then tr
     else
       let (iname, tr) = intern reg name tr;
           (known, tr) = rename_all reg [(K_system_tree_node, ByProcess process),
             (K_location_group, ByExecutionScope (scope_of_process process)),
             (K_comm_group, ByProcess process), (K_comm, ByProcess process)] iname tr
       in if known then update_thread reg (process_as_thread process) name tr else tr)"

function emplace_process :: "'r registry \<Rightarrow> Process \<Rightarrow> Process \<Rightarrow> string \<Rightarrow> 'r trace \<Rightarrow> 'r trace result"
  and update_process :: "'r registry \<Rightarrow> Process \<Rightarrow> Process \<Rightarrow> string \<Rightarrow> 'r trace \<Rightarrow> 'r trace result" where
  "emplace_process reg parent process name tr =
    (if tr_has reg K_system_tree_node (ByProcess process) tr
     then update_process reg parent process name tr
     else Inr (new_process reg parent process name tr))"
| "update_process reg parent process name tr =
    (if parent \<noteq> Process_no_parent
     then sum_bind (emplace_process reg Process_no_parent parent [] (rename_process reg process name tr)) (\<lambda>tr1.
       sum_bind (tr_get reg K_system_tree_node (ByProcess process) tr1) (\<lambda>node.
       sum_bind (tr_get reg K_system_tree_node (ByProcess parent) tr1) (\<lambda>pnode.
         Inr (tr_change reg (Set_parent node pnode) tr1))))
     else Inr (rename_process reg process name tr))"
  by pat_completeness auto
termination
  by (relation "measure (case_sum (\<lambda>(reg, parent, _). if parent = Process_no_parent then 1 else 3)
      (\<lambda>(reg, parent, _). if parent = Process_no_parent then 0 else 2))") auto

declare emplace_process.simps [simp del] update_process.simps [simp del]

definition emplace_thread_exclusive ::
    "'r registry \<Rightarrow> trace_env \<Rightarrow> Process \<Rightarrow> Thread \<Rightarrow> string \<Rightarrow> 'r trace \<Rightarrow> 'r trace result" where
  "emplace_thread_exclusive reg env process thread name tr =
    sum_bind (emplace_process reg Process_no_parent process [] tr) (\<lambda>tr.
      let tr = tr\<lparr>tr_groups := add_thread thread process (tr_groups tr)\<rparr>;
          thread_name = (if thread = Thread 0 then ''<idle>'' else name)
      in if tr_has reg K_calling_context (ByThread thread) tr
         then Inr (update_thread reg thread name tr)
         else
           let tr = tr\<lparr>tr_thread_names := fst (std_emplace thread_less thread thread_name (tr_thread_names tr))\<rparr>;
               (iname, tr) = intern reg (if thread \<noteq> Thread 0 then thread_label name thread else thread_name) tr;
               (region, tr) = emplace_named_region reg (ByThread thread) iname tr;
               tr = (if is_kernel_thread (te_cmdline env thread)
                     then tr_change reg (Add_member K_regions_group (tr_kernel_regions_group tr) region) tr else tr);
               (cctx, tr) = tr_create reg (Some (ByThread thread)) (D_calling_context region None None) tr
           in Inr tr)"

definition emplace_thread ::
    "'r registry \<Rightarrow> trace_env \<Rightarrow> Process \<Rightarrow> Thread \<Rightarrow> string \<Rightarrow> 'r trace \<Rightarrow> 'r trace result" where
  "emplace_thread reg env process thread name tr = emplace_thread_exclusive reg env process thread name tr"

definition emplace_monitoring_thread :: "'r registry \<Rightarrow> Thread \<Rightarrow> string \<Rightarrow> 'r trace \<Rightarrow> 'r trace" where
  "emplace_monitoring_thread reg thread name tr =
    (let (iname, tr) = intern reg (''lo2s::'' @ name) tr in
     if \<not> tr_has reg K_region (ByThread thread) tr
     then
       let (region, tr) = tr_create reg (Some (ByThread thread)) (D_region iname iname iname User iname 0 0) tr;
           tr = tr_change reg (Add_member K_regions_group (tr_lo2s_regions_group tr) region) tr;
           (cctx, tr) = tr_emplace reg (ByThread thread) (D_calling_context region None None) tr
       in tr
     else tr)"

fun emplace_thread_list ::
    "'r registry \<Rightarrow> trace_env \<Rightarrow> Process \<Rightarrow> (Thread, string) std_map \<Rightarrow> 'r trace \<Rightarrow> 'r trace result" where
  "emplace_thread_list reg env process [] tr = Inr tr"
| "emplace_thread_list reg env process ((thread, name) # ts) tr =
    sum_bind (emplace_thread_exclusive reg env process thread name tr) (emplace_thread_list reg env process ts)"

fun emplace_threads ::
    "'r registry \<Rightarrow> trace_env \<Rightarrow> (Process, (Thread, string) std_map) std_map \<Rightarrow> 'r trace \<Rightarrow> 'r trace result" where
  "emplace_threads reg env [] tr = Inr tr"
| "emplace_threads reg env ((process, threads) # ps) tr =
    sum_bind (std_at thread_less threads (process_as_thread process)) (\<lambda>name.
    sum_bind (emplace_process reg Process_no_parent process name tr) (\<lambda>tr.
    sum_bind (emplace_thread_list reg env process threads tr) (emplace_threads reg env ps)))"

section \<open>Calling contexts\<close>

definition intern_scl :: "'r registry \<Rightarrow> LineInfo \<Rightarrow> 'r trace \<Rightarrow> nat \<times> 'r trace" where
  "intern_scl reg info tr =
    (let (file, tr) = intern reg (li_file info) tr
     in tr_emplace reg (ByLineInfo info) (D_source_code_location file (li_line info)) tr)"

definition intern_region :: "'r registry \<Rightarrow> LineInfo \<Rightarrow> 'r trace \<Rightarrow> nat \<times> 'r trace" where
  "intern_region reg info tr =
    (let (name, tr) = intern reg (li_function info) tr;
         (file, tr) = intern reg (li_file info) tr;
         (region, tr) = tr_emplace reg (ByLineInfo info) (D_region name name name Sampling file (li_line info) 0) tr
     in case tr_get reg K_regions_group (ByString (li_dso info)) tr of
          Inr g \<Rightarrow> (region, tr_change reg (Add_member K_regions_group g region) tr)
        | Inl _ \<Rightarrow>
          let (dso, tr) = intern reg (li_dso info) tr;
              (g, tr) = tr_emplace reg (ByString (li_dso info)) (D_regions_group dso Compiler) tr
          in (region, tr))"

text \<open>
  The calling context of a line below a node. The arguments of the call are evaluated in no fixed order;
  the region is interned first here. A node without a calling context is dereferenced.
\<close>

definition create_line_cctx :: "'r registry \<Rightarrow> LineInfo \<Rightarrow> nat option \<Rightarrow> 'r trace \<Rightarrow> (nat \<times> 'r trace) result" where
  "create_line_cctx reg info parent tr =
    (case parent of
       None \<Rightarrow> Inl Memory_fault
     | Some p \<Rightarrow>
       let (region, tr) = intern_region reg info tr;
           (scl, tr) = intern_scl reg info tr
       in Inr (tr_create reg None (D_calling_context region (Some scl) (Some p)) tr))"

definition cctx_for_gpu_kernel ::
    "'r registry \<Rightarrow> u64 \<Rightarrow> resolvers \<Rightarrow> Process \<Rightarrow> nat option \<Rightarrow> 'r trace \<Rightarrow> (nat \<times> 'r trace) result" where
  "cctx_for_gpu_kernel reg kernel_id rs p parent tr =
    create_line_cctx reg
      (case std_lookup process_less (gpu_function_resolvers rs) p of
         Some functions \<Rightarrow> manual_lookup ''gpu kernels'' functions kernel_id
       | None \<Rightarrow> for_unknown_function) parent tr"

text \<open>What the resolvers of a process say about an address.\<close>

definition resolve :: "resolver_env \<Rightarrow> process_function_map \<Rightarrow> u64 \<Rightarrow> LineInfo result" where
  "resolve env fr a =
    sum_bind (mm_find fr a) (\<lambda>it.
      case it of
        Some (m, r) \<Rightarrow> lookup_line_info env r (a - range_start (range m) + pgoff m)
      | None \<Rightarrow> Inr for_unknown_function)"

fun omp_label :: "OMPTCctx \<Rightarrow> string" where
  "omp_label c =
    (if omp_type c = OMPType_code PARALLEL then ''ompt::parallel('' @ show_u64 (omp_num_threads c) @ '')''
     else if omp_type c = OMPType_code MASTER then ''ompt::master''
     else if omp_type c = OMPType_code SYNC then ''ompt::sync''
     else if omp_type c = OMPType_code LOOP then ''ompt::loop''
     else if omp_type c = OMPType_code WORKSHARE then ''ompt::workshare''
     else if omp_type c = OMPType_code OTHER then ''ompt::other''
     else [])"

definition omp_line_info ::
    "trace_env \<Rightarrow> OMPTCctx \<Rightarrow> resolvers \<Rightarrow> Process \<Rightarrow> (Thread, string) std_map \<Rightarrow> LineInfo result" where
  "omp_line_info env c rs p names =
    sum_bind (case std_lookup process_less (function_resolvers rs) p of
                Some fr \<Rightarrow> resolve (te_resolver env) fr (omp_addr c)
              | None \<Rightarrow> Inr for_unknown_function) (\<lambda>info.
      let info = (if line_info_eq info for_unknown_function
                  then (case std_lookup thread_less names (process_as_thread p) of
                          Some n \<Rightarrow> info\<lparr>li_dso := n\<rparr> | None \<Rightarrow> info)
                  else info)
      in Inr (if line_info_eq info for_unknown_function then info\<lparr>li_function := omp_label c\<rparr>
              else info\<lparr>li_function := omp_label c @ '' '' @ li_function info\<rparr>))"

definition cctx_for_openmp ::
    "'r registry \<Rightarrow> trace_env \<Rightarrow> OMPTCctx \<Rightarrow> resolvers \<Rightarrow> Process \<Rightarrow> nat option \<Rightarrow> 'r trace \<Rightarrow> (nat \<times> 'r trace) result" where
  "cctx_for_openmp reg env c rs p parent tr =
    sum_bind (omp_line_info env c rs p (tr_thread_names tr)) (\<lambda>info. create_line_cctx reg info parent tr)"

definition cctx_for_address ::
    "'r registry \<Rightarrow> trace_env \<Rightarrow> u64 \<Rightarrow> resolvers \<Rightarrow> Process \<Rightarrow> nat option \<Rightarrow> 'r trace
      \<Rightarrow> (nat \<times> resolvers \<times> 'r trace) result" where
  "cctx_for_address reg env a rs p parent tr =
    sum_bind (resolvers_insert (te_resolver env) p rs) (\<lambda>rs.
    sum_bind (std_at process_less (function_resolvers rs) p) (\<lambda>fr.
    sum_bind (resolve (te_resolver env) fr a) (\<lambda>info.
    sum_bind (create_line_cctx reg info parent tr) (\<lambda>(cctx, tr).
      let (ip, tr) = intern reg ''ip'' tr;
          (v, tr) = intern reg (show_u64 a) tr;
          (pr, tr) = tr_create reg None (D_calling_context_property cctx ip v) tr
      in Inr (cctx, rs, tr)))))"

definition cctx_for_thread :: "'r registry \<Rightarrow> trace_env \<Rightarrow> Thread \<Rightarrow> Process \<Rightarrow> 'r trace \<Rightarrow> (nat \<times> 'r trace) result" where
  "cctx_for_thread reg env thread p tr =
    sum_bind (emplace_thread reg env p thread [] tr) (\<lambda>tr.
      case tr_get reg K_calling_context (ByThread thread) tr of
        Inr cctx \<Rightarrow> Inr (cctx, tr)
      | Inl _ \<Rightarrow>
        sum_bind (std_at thread_less (tr_thread_names tr) thread) (\<lambda>name.
          let (iname, tr) = intern reg (name @ ''FOOBAR ('' @ show_int (thread_as_int thread) @ '')'') tr;
              (region, tr) = emplace_named_region reg (ByThread thread) iname tr;
              (k, n, tr) = (case get_process (tr_groups tr) thread of
                Inr parent \<Rightarrow>
                  let names = fst (std_emplace thread_less (process_as_thread parent) [] (tr_thread_names tr));
                      n = (case std_lookup thread_less names (process_as_thread parent) of Some n \<Rightarrow> n | None \<Rightarrow> [])
                  in (ByProcess parent, n, tr\<lparr>tr_thread_names := names\<rparr>)
              | Inl _ \<Rightarrow> (ByThread thread, name, tr));
              (gname, tr) = intern reg n tr;
              (g, tr) = tr_emplace reg k (D_regions_group gname User) tr;
              tr = tr_change reg (Add_member K_regions_group g region) tr
          in Inr (tr_create reg (Some (ByThread thread)) (D_calling_context region None None) tr)))"

definition cctx_for_process :: "'r registry \<Rightarrow> Process \<Rightarrow> 'r trace \<Rightarrow> (nat \<times> 'r trace) result" where
  "cctx_for_process reg process tr =
    sum_bind (emplace_process reg Process_no_parent process [] tr) (\<lambda>tr.
      case tr_get reg K_calling_context (ByProcess process) tr of
        Inr cctx \<Rightarrow> Inr (cctx, tr)
      | Inl _ \<Rightarrow>
        let names = fst (std_emplace thread_less (process_as_thread process) [] (tr_thread_names tr));
            name = (case std_lookup thread_less names (process_as_thread process) of Some n \<Rightarrow> n | None \<Rightarrow> []);
            (iname, tr) = intern reg name (tr\<lparr>tr_thread_names := names\<rparr>);
            (region, tr) = emplace_named_region reg (ByProcess process) iname tr
        in Inr (tr_create reg (Some (ByProcess process)) (D_calling_context region None None) tr))"

definition syscall_name_for_nr :: "trace_env \<Rightarrow> int \<Rightarrow> string" where
  "syscall_name_for_nr env nr = (case te_audit_name env nr of Some n \<Rightarrow> n | None \<Rightarrow> ''syscall '' @ show_int nr)"

definition cctx_for_syscall :: "'r registry \<Rightarrow> trace_env \<Rightarrow> u64 \<Rightarrow> 'r trace \<Rightarrow> nat \<times> 'r trace" where
  "cctx_for_syscall reg env i tr =
    (let (name, tr) = intern reg (syscall_name_for_nr env (sint (ucast i :: u32))) tr;
         (region, tr) = emplace_named_region reg (BySyscall (sint i)) name tr;
         (scl, tr) = tr_emplace reg (BySyscall (sint i)) (D_source_code_location name 0) tr;
         (cctx, tr) = tr_emplace reg (BySyscall (sint i)) (D_calling_context region (Some scl) None) tr;
         tr = tr_change reg (Add_member K_regions_group (tr_syscall_regions_group tr) region) tr
     in (cctx, tr))"

section \<open>Merging\<close>

text \<open>What \<open>merge_nodes\<close> changes besides the global tree: trace, resolvers, mapping table and merge context.\<close>

record 'r merge_state =
  m_trace :: "'r trace"
  m_resolvers :: resolvers
  m_table :: "nat option list"
  m_process :: Process

definition new_cctx ::
    "'r registry \<Rightarrow> trace_env \<Rightarrow> CallingContext \<Rightarrow> nat option \<Rightarrow> 'r merge_state \<Rightarrow> (nat \<times> 'r merge_state) result" where
  "new_cctx reg env c parent ms =
    (case c of
       CC_SAMPLE_ADDR a \<Rightarrow>
         sum_bind (cctx_for_address reg env a (m_resolvers ms) (m_process ms) parent (m_trace ms)) (\<lambda>(x, rs, tr).
           Inr (x, ms\<lparr>m_resolvers := rs, m_trace := tr\<rparr>))
     | CC_GPU_KERNEL k \<Rightarrow>
         sum_bind (cctx_for_gpu_kernel reg k (m_resolvers ms) (m_process ms) parent (m_trace ms)) (\<lambda>(x, tr).
           Inr (x, ms\<lparr>m_trace := tr\<rparr>))
     | CC_OPENMP oc \<Rightarrow>
         sum_bind (cctx_for_openmp reg env oc (m_resolvers ms) (m_process ms) parent (m_trace ms)) (\<lambda>(x, tr).
           Inr (x, ms\<lparr>m_trace := tr\<rparr>))
     | CC_THREAD t \<Rightarrow>
         sum_bind (cctx_for_thread reg env t (m_process ms) (m_trace ms)) (\<lambda>(x, tr). Inr (x, ms\<lparr>m_trace := tr\<rparr>))
     | CC_PROCESS p \<Rightarrow>
         sum_bind (cctx_for_process reg p (m_trace ms)) (\<lambda>(x, tr). Inr (x, ms\<lparr>m_trace := tr\<rparr>))
     | CC_SYSCALL i \<Rightarrow>
         (case cctx_for_syscall reg env i (m_trace ms) of (x, tr) \<Rightarrow> Inr (x, ms\<lparr>m_trace := tr\<rparr>))
     | CC_ROOT \<Rightarrow> Inl (Runtime_error ''The cctx tree ROOT should not appear in merge_nodes!''))"

text \<open>The child of a global node for a context, created when it does not exist.\<close>

definition global_child ::
    "'r registry \<Rightarrow> trace_env \<Rightarrow> CallingContext \<Rightarrow> global_cctx_node \<Rightarrow> 'r merge_state
      \<Rightarrow> ((CallingContext \<times> global_cctx_node) \<times> global_cctx_node \<times> 'r merge_state) result" where
  "global_child reg env c g ms =
    (if c = CC_ROOT \<and> CC_ROOT \<in> fst ` set (g_children g)
     then Inl (Runtime_error ''Can not have two CallingContext Roots!'')
     else case std_find cctx_lt c (g_children g) of
       Some it \<Rightarrow> Inr (it, g, ms)
     | None \<Rightarrow>
       sum_bind (new_cctx reg env c (g_cctx g) ms) (\<lambda>(x, ms).
         Inr ((c, GNode (Some x) []),
           GNode (g_cctx g) (fst (std_emplace cctx_lt c (GNode (Some x) []) (g_children g))), ms)))"

definition table_set :: "nat \<Rightarrow> nat \<Rightarrow> nat option list \<Rightarrow> nat option list result" where
  "table_set i x table = (if i < length table then Inr (table[i := Some x]) else Inl Out_of_range)"

definition enter_context :: "CallingContext \<Rightarrow> 'r merge_state \<Rightarrow> 'r merge_state" where
  "enter_context c ms = (case c of CC_PROCESS p \<Rightarrow> ms\<lparr>m_process := p\<rparr> | _ \<Rightarrow> ms)"

text \<open>
  \<open>merge_nodes\<close>. The global node is passed and returned as a value: none of the operations on definitions
  touches the tree.
\<close>

fun merge_nodes ::
    "'r registry \<Rightarrow> trace_env \<Rightarrow> cctx_node \<Rightarrow> global_cctx_node \<Rightarrow> 'r merge_state
      \<Rightarrow> (global_cctx_node \<times> 'r merge_state) result"
  and merge_children ::
    "'r registry \<Rightarrow> trace_env \<Rightarrow> (CallingContext \<times> cctx_node) list \<Rightarrow> global_cctx_node \<Rightarrow> 'r merge_state
      \<Rightarrow> (global_cctx_node \<times> 'r merge_state) result" where
  "merge_nodes reg env (Node r ch) g ms = merge_children reg env ch g ms"
| "merge_children reg env [] g ms = Inr (g, ms)"
| "merge_children reg env ((c, n) # es) g ms =
    (case global_child reg env c g ms of
       Inl e \<Rightarrow> Inl e
     | Inr (it, g1, ms1) \<Rightarrow>
       (case g_cctx (snd it) of
          None \<Rightarrow> Inl Memory_fault
        | Some x \<Rightarrow>
          (case table_set (node_ref n) x (m_table ms1) of
             Inl e \<Rightarrow> Inl e
           | Inr table \<Rightarrow>
             (case merge_nodes reg env n (snd it) (enter_context (fst it) (ms1\<lparr>m_table := table\<rparr>)) of
                Inl e \<Rightarrow> Inl e
              | Inr (sub, ms2) \<Rightarrow>
                merge_children reg env es
                  (GNode (g_cctx g1) (std_update cctx_lt c (\<lambda>_. sub) (g_children g1))) ms2))))"

text \<open>The default constructor of \<^verbatim>\<open>Process\<close> gives the merge context its initial process.\<close>

definition merge_calling_contexts ::
    "'r registry \<Rightarrow> trace_env \<Rightarrow> local_cctx_tree \<Rightarrow> resolvers \<Rightarrow> 'r trace
      \<Rightarrow> (nat option list \<times> resolvers \<times> 'r trace) result" where
  "merge_calling_contexts reg env t rs tr =
    sum_bind (merge_nodes reg env (lt_tree t) (tr_tree tr)
        \<lparr>m_trace = tr, m_resolvers = rs, m_table = replicate (num_cctx t) None, m_process = Process_invalid\<rparr>) (\<lambda>(g, ms).
    sum_bind (cpp_assert (None \<notin> set (m_table ms))) (\<lambda>_.
      Inr (m_table ms, m_resolvers ms, (m_trace ms)\<lparr>tr_tree := g\<rparr>)))"

text \<open>\<open>create_local_cctx_tree\<close>; trees are appended and later changed through references to them.\<close>

definition create_local_cctx_tree :: "local_cctx_tree \<Rightarrow> 'r trace \<Rightarrow> 'r trace result" where
  "create_local_cctx_tree t tr =
    sum_bind (cpp_assert (\<not> tr_finalized tr)) (\<lambda>_. Inr (tr\<lparr>tr_local_trees := tr_local_trees tr @ [t]\<rparr>))"

fun merge_trees ::
    "'r registry \<Rightarrow> trace_env \<Rightarrow> local_cctx_tree list \<Rightarrow> resolvers \<Rightarrow> 'r trace \<Rightarrow> (resolvers \<times> 'r trace) result" where
  "merge_trees reg env [] rs tr = Inr (rs, tr)"
| "merge_trees reg env (t # ts) rs tr =
    (if num_cctx t > 0
     then sum_bind (merge_calling_contexts reg env t rs tr) (\<lambda>(table, rs, tr).
       merge_trees reg env ts rs (tr\<lparr>tr_mappings := tr_mappings tr @ [(t, table)]\<rparr>))
     else merge_trees reg env ts rs tr)"

text \<open>The maps of its process, as a property of the calling context of a thread.\<close>

definition maps_property :: "'r registry \<Rightarrow> resolvers \<Rightarrow> Thread \<Rightarrow> 'r trace \<Rightarrow> 'r trace result" where
  "maps_property reg rs thread tr =
    (case tr_get reg K_calling_context (ByThread thread) tr of
       Inl _ \<Rightarrow> Inr tr
     | Inr cctx \<Rightarrow>
       (case get_process (tr_groups tr) thread of
          Inl e \<Rightarrow> if e = Out_of_range then Inr tr else Inl e
        | Inr process \<Rightarrow>
          (case std_lookup process_less (function_resolvers rs) process of
             None \<Rightarrow> Inr tr
           | Some mm \<Rightarrow>
             let (maps, tr) = intern reg ''MAPS'' tr;
                 (text, tr) = intern reg (mm_to_string mm) tr;
                 (pr, tr) = tr_create reg None (D_calling_context_property cctx maps text) tr
             in Inr tr)))"

fun maps_properties :: "'r registry \<Rightarrow> resolvers \<Rightarrow> Thread list \<Rightarrow> 'r trace \<Rightarrow> 'r trace result" where
  "maps_properties reg rs [] tr = Inr tr"
| "maps_properties reg rs (th # ths) tr = sum_bind (maps_property reg rs th tr) (maps_properties reg rs ths)"

definition trace_finalize :: "'r registry \<Rightarrow> trace_env \<Rightarrow> resolvers \<Rightarrow> 'r trace \<Rightarrow> (resolvers \<times> 'r trace) result" where
  "trace_finalize reg env rs tr =
    sum_bind (merge_trees reg env (tr_local_trees tr) rs tr) (\<lambda>(rs, tr).
    sum_bind (maps_properties reg rs (map fst (tr_thread_names tr)) tr) (\<lambda>tr.
      Inr (rs, tr\<lparr>tr_local_trees := [], tr_finalized := True\<rparr>)))"

text \<open>
  The destructor: the regions of the threads are collected in the group of their process. The clock
  properties and the symbolic link to the trace are output.
\<close>

definition group_region :: "'r registry \<Rightarrow> Thread \<times> string \<Rightarrow> 'r trace \<Rightarrow> 'r trace result" where
  "group_region reg th tr =
    (case tr_get reg K_region (ByThread (fst th)) tr of
       Inl _ \<Rightarrow> Inr tr
     | Inr region \<Rightarrow>
       (case get_process (tr_groups tr) (fst th) of
          Inr parent \<Rightarrow>
            let names = fst (std_emplace thread_less (process_as_thread parent) [] (tr_thread_names tr));
                name = (case std_lookup thread_less names (process_as_thread parent) of Some n \<Rightarrow> n | None \<Rightarrow> []);
                (iname, tr) = intern reg name (tr\<lparr>tr_thread_names := names\<rparr>);
                (g, tr) = tr_emplace reg (ByProcess parent) (D_regions_group iname User) tr
            in Inr (tr_change reg (Add_member K_regions_group g region) tr)
        | Inl e \<Rightarrow>
          if e = Out_of_range
          then
            let (iname, tr) = intern reg (snd th) tr;
                (g, tr) = tr_emplace reg (ByThread (fst th)) (D_regions_group iname User) tr
            in Inr (tr_change reg (Add_member K_regions_group g region) tr)
          else Inl e))"

section \<open>Locations\<close>

definition emplace_location ::
    "'r registry \<Rightarrow> MeasurementScope \<Rightarrow> location_type \<Rightarrow> 'r trace \<Rightarrow> (nat \<times> 'r trace) result" where
  "emplace_location reg scope ty tr =
    sum_bind (ms_name scope) (\<lambda>name.
      let (iname, tr) = intern reg name tr in
      sum_bind (get_parent (tr_groups tr) (ms_scope scope)) (\<lambda>parent.
      sum_bind (tr_get reg K_location_group (ByExecutionScope parent) tr) (\<lambda>lg.
        Inr (tr_emplace reg (ByMeasurementScope scope) (D_location iname lg ty) tr))))"

text \<open>\<open>sample_writer\<close>: note the order of the arguments when a group is missing.\<close>

definition trace_sample_writer ::
    "'r registry \<Rightarrow> trace_env \<Rightarrow> MeasurementScope \<Rightarrow> 'r trace \<Rightarrow> (nat \<times> 'r trace) result" where
  "trace_sample_writer reg env scope tr =
    sum_bind (cpp_assert (scope_is_thread (ms_scope scope) \<or> scope_is_cpu (ms_scope scope))) (\<lambda>_.
    sum_bind (if scope_is_thread (ms_scope scope)
              then sum_bind (scope_as_thread (ms_scope scope)) (\<lambda>t. emplace_thread reg env Process_no_parent t [] tr)
              else Inr tr) (\<lambda>tr.
    sum_bind (get_parent (tr_groups tr) (ms_scope scope)) (\<lambda>parent.
    sum_bind (if tr_has reg K_location_group (ByExecutionScope parent) tr then Inr tr
              else sum_bind (scope_as_thread (ms_scope scope)) (\<lambda>t.
                let names = fst (std_emplace thread_less t [] (tr_thread_names tr));
                    name = (case std_lookup thread_less names t of Some n \<Rightarrow> n | None \<Rightarrow> [])
                in emplace_process reg (thread_as_process t) Process_no_parent name
                     (tr\<lparr>tr_thread_names := names\<rparr>))) (\<lambda>tr.
    sum_bind (emplace_location reg scope Cpu_thread tr) (\<lambda>(l, tr).
      let tr = tr_change reg (Add_member K_comm_locations_group (tr_comm_locations_group tr) l) tr in
      if scope_is_process parent
      then sum_bind (scope_as_thread (ms_scope scope)) (\<lambda>t.
        sum_bind (get_process (tr_groups tr) t) (\<lambda>p.
        sum_bind (tr_get reg K_comm_group (ByProcess p) tr) (\<lambda>g.
          Inr (l, tr_change reg (Add_member K_comm_group g l) tr))))
      else Inr (l, tr))))))"

definition trace_syscall_writer :: "'r registry \<Rightarrow> ExecutionScope \<Rightarrow> 'r trace \<Rightarrow> (nat \<times> 'r trace) result" where
  "trace_syscall_writer reg scope tr = emplace_location reg (measurement_scope SYSCALL scope) Cpu_thread tr"

definition trace_metric_writer :: "'r registry \<Rightarrow> MeasurementScope \<Rightarrow> 'r trace \<Rightarrow> (nat \<times> 'r trace) result" where
  "trace_metric_writer reg scope tr = emplace_location reg scope Metric tr"

definition trace_posix_io_writer :: "'r registry \<Rightarrow> Thread \<Rightarrow> 'r trace \<Rightarrow> (nat \<times> 'r trace) result" where
  "trace_posix_io_writer reg thread tr =
    emplace_location reg (measurement_scope POSIX_IO (scope_of_thread thread)) Cpu_thread tr"

definition METRIC_PID :: int where
  "METRIC_PID = 0"

definition create_metric_writer :: "'r registry \<Rightarrow> string \<Rightarrow> 'r trace \<Rightarrow> (nat \<times> 'r trace) result" where
  "create_metric_writer reg name tr =
    (let (iname, tr) = intern reg name tr in
     sum_bind (tr_get reg K_location_group (ByExecutionScope (scope_of_thread (Thread METRIC_PID))) tr) (\<lambda>lg.
       Inr (tr_create reg None (D_location iname lg Metric) tr)))"

definition trace_process_comm :: "'r registry \<Rightarrow> Thread \<Rightarrow> 'r trace \<Rightarrow> nat result" where
  "trace_process_comm reg thread tr =
    sum_bind (get_process (tr_groups tr) thread) (\<lambda>p. tr_get reg K_comm (ByProcess p) tr)"

section \<open>The system tree\<close>

text \<open>One round of the loop over the CPUs in the constructor.\<close>

definition register_package :: "'r registry \<Rightarrow> Package \<Rightarrow> 'r trace \<Rightarrow> nat \<times> 'r trace" where
  "register_package reg package tr =
    (case tr_get reg K_system_tree_node (ByPackage package) tr of
       Inr n \<Rightarrow> (n, tr)
     | Inl _ \<Rightarrow>
       let (name, tr) = intern reg (show_int (package_id package)) tr;
           (cls, tr) = intern reg ''package'' tr;
           (n, tr) = tr_emplace reg (ByPackage package) (D_system_tree_node name cls (Some (tr_root_node tr))) tr;
           (d, tr) = tr_create reg None (D_system_tree_node_domain n Socket) tr
       in (n, tr))"

definition register_core :: "'r registry \<Rightarrow> Package \<Rightarrow> Core \<Rightarrow> nat \<Rightarrow> 'r trace \<Rightarrow> nat \<times> 'r trace" where
  "register_core reg package core package_node tr =
    (case tr_get reg K_system_tree_node (ByCore core) tr of
       Inr n \<Rightarrow> (n, tr)
     | Inl _ \<Rightarrow>
       let (name, tr) = intern reg (show_int (package_id package) @ '':'' @ show_int (core_as_int core)) tr;
           (cls, tr) = intern reg ''core'' tr;
           (n, tr) = tr_emplace reg (ByCore core) (D_system_tree_node name cls (Some package_node)) tr;
           (d, tr) = tr_create reg None (D_system_tree_node_domain n Core_domain) tr
       in (n, tr))"

definition register_cpu :: "'r registry \<Rightarrow> topology \<Rightarrow> Cpu \<Rightarrow> 'r trace \<Rightarrow> 'r trace result" where
  "register_cpu reg topo cpu tr =
    sum_bind (core_of topo cpu) (\<lambda>core.
    sum_bind (package_of topo cpu) (\<lambda>package.
      let (package_node, tr) = register_package reg package tr;
          (core_node, tr) = register_core reg package core package_node tr;
          (name, tr) = intern reg (show_int (cpu_as_int cpu)) tr;
          (cls, tr) = intern reg ''cpu'' tr;
          (cpu_node, tr) = tr_create reg (Some (ByCpu cpu)) (D_system_tree_node name cls (Some core_node)) tr;
          (d, tr) = tr_create reg None (D_system_tree_node_domain cpu_node Pu) tr;
          (lg_name, tr) = intern reg (''cpu '' @ show_int (cpu_as_int cpu)) tr;
          (lg, tr) = tr_create reg (Some (ByExecutionScope (scope_of_cpu cpu))) (D_location_group lg_name cpu_node) tr
      in Inr (tr\<lparr>tr_groups := add_cpu cpu (tr_groups tr)\<rparr>)))"

fun register_cpus :: "'r registry \<Rightarrow> topology \<Rightarrow> Cpu list \<Rightarrow> 'r trace \<Rightarrow> 'r trace result" where
  "register_cpus reg topo [] tr = Inr tr"
| "register_cpus reg topo (cpu # cpus) tr =
    sum_bind (register_cpu reg topo cpu tr) (register_cpus reg topo cpus)"

end
