(* ===== verification/Trace_Merge.thy ===== *)
theory Trace_Merge
  imports Trace
begin

text \<open>
  Correctness of the merge of local calling context trees (\<^verbatim>\<open>Trace::merge_nodes\<close>, \<^verbatim>\<open>Trace::merge_calling_contexts\<close>,
  \<^verbatim>\<open>Trace::finalize\<close>): what the code relies on in the registry of otf2xx, the invariant of the global tree, and the
  proof that every local reference is mapped to the calling context at the same place of the global tree.
\<close>

section \<open>What the code relies on\<close>

text \<open>
  The registry is a map per kind of definition, ordered by the comparison of the keys, which does not see
  the object of a line. \<open>cdef\<close> tells the region, source code location and parent of a calling context.
\<close>

definition same_key :: "reg_key \<Rightarrow> reg_key \<Rightarrow> bool" where
  "same_key k l = (case k of
     ByLineInfo a \<Rightarrow> (case l of ByLineInfo b \<Rightarrow> line_info_eq a b | _ \<Rightarrow> False)
   | _ \<Rightarrow> k = l)"

type_synonym cctx_data = "nat \<times> nat option \<times> nat option"

definition reg_added ::
    "'r registry \<Rightarrow> ('r \<Rightarrow> nat \<Rightarrow> cctx_data option) \<Rightarrow> reg_key option \<Rightarrow> otf2_def \<Rightarrow> 'r \<Rightarrow> nat \<times> 'r \<Rightarrow> bool" where
  "reg_added reg cdef ko d r res \<longleftrightarrow>
    (\<forall>kd k. reg_get reg kd k (snd res) =
      (if kd = kind_of d \<and> (\<exists>l. ko = Some l \<and> same_key l k) then Some (fst res) else reg_get reg kd k r)) \<and>
    (\<forall>y c. cdef r y = Some c \<longrightarrow> cdef (snd res) y = Some c) \<and>
    (\<forall>g s p. d = D_calling_context g s p \<longrightarrow> cdef (snd res) (fst res) = Some (g, s, p))"

definition registry_ok :: "'r registry \<Rightarrow> ('r \<Rightarrow> nat \<Rightarrow> cctx_data option) \<Rightarrow> bool" where
  "registry_ok reg cdef \<longleftrightarrow>
    (\<forall>kd k l r. same_key k l \<longrightarrow> reg_get reg kd k r = reg_get reg kd l r) \<and>
    (\<forall>d r. reg_added reg cdef None d r (reg_create reg None d r)) \<and>
    (\<forall>k d r. reg_get reg (kind_of d) k r = None \<longrightarrow> reg_added reg cdef (Some k) d r (reg_create reg (Some k) d r)) \<and>
    (\<forall>k d r. reg_emplace reg k d r =
      (case reg_get reg (kind_of d) k r of Some x \<Rightarrow> (x, r) | None \<Rightarrow> reg_create reg (Some k) d r)) \<and>
    (\<forall>c r kd k. reg_get reg kd k (reg_change reg c r) = reg_get reg kd k r) \<and>
    (\<forall>c r y. cdef (reg_change reg c r) y = cdef r y)"

text \<open>The resolvers answer: no map file of a process is malformed, and the reader of debug information does not throw.\<close>

definition resolver_env_ok :: "resolver_env \<Rightarrow> bool" where
  "resolver_env_ok env \<longleftrightarrow>
    (\<forall>p. \<exists>m. ProcessFunctionMap_new env p = Inr m) \<and> (\<forall>f a. \<exists>l. re_dwarf_lookup env f a = Inr l)"

section \<open>The registry grows\<close>

definition tr_grows ::
    "'r registry \<Rightarrow> ('r \<Rightarrow> nat \<Rightarrow> cctx_data option) \<Rightarrow> def_kind set \<Rightarrow> 'r trace \<Rightarrow> 'r trace \<Rightarrow> bool" where
  "tr_grows reg cdef kds tr tr' \<longleftrightarrow>
    (\<forall>kd k x. reg_get reg kd k (tr_registry tr) = Some x \<longrightarrow> reg_get reg kd k (tr_registry tr') = Some x) \<and>
    (\<forall>kd k. kd \<notin> kds \<longrightarrow> reg_get reg kd k (tr_registry tr') = reg_get reg kd k (tr_registry tr)) \<and>
    (\<forall>y c. cdef (tr_registry tr) y = Some c \<longrightarrow> cdef (tr_registry tr') y = Some c) \<and>
    tr_tree tr' = tr_tree tr \<and> tr_mappings tr' = tr_mappings tr \<and> tr_local_trees tr' = tr_local_trees tr \<and>
    (groups_ok (tr_groups tr) \<longrightarrow> groups_ok (tr_groups tr'))"

lemma tr_grows_refl [simp]: "tr_grows reg cdef kds tr tr"
  by (simp add: tr_grows_def)

lemma tr_grows_trans: "tr_grows reg cdef kds a b \<Longrightarrow> tr_grows reg cdef kds b c \<Longrightarrow> tr_grows reg cdef kds a c"
  by (simp add: tr_grows_def)

lemma tr_grows_mono: "tr_grows reg cdef kds a b \<Longrightarrow> kds \<subseteq> kds' \<Longrightarrow> tr_grows reg cdef kds' a b"
  unfolding tr_grows_def by blast

lemma tr_grows_fields [simp]:
  "tr_grows reg cdef kds a (b\<lparr>tr_thread_names := n\<rparr>) = tr_grows reg cdef kds a b"
  "tr_grows reg cdef kds (a\<lparr>tr_thread_names := n\<rparr>) b = tr_grows reg cdef kds a b"
  by (simp_all add: tr_grows_def)

lemma tr_grows_add_thread: "tr_grows reg cdef kds a (a\<lparr>tr_groups := add_thread t p (tr_groups a)\<rparr>)"
  by (simp add: tr_grows_def add_thread_def groups_ok_emplace)

lemma tr_has_get: "tr_has reg kd k tr \<longleftrightarrow> (\<exists>x. tr_get reg kd k tr = Inr x)"
  by (simp add: tr_has_def tr_get_def split: option.splits)

lemma tr_get_fields [simp]:
  "tr_get reg kd k (tr\<lparr>tr_thread_names := n\<rparr>) = tr_get reg kd k tr"
  "tr_get reg kd k (tr\<lparr>tr_groups := gs\<rparr>) = tr_get reg kd k tr"
  by (simp_all add: tr_get_def)

lemma tr_grows_get: "tr_grows reg cdef kds a b \<Longrightarrow> tr_get reg kd k a = Inr x \<Longrightarrow> tr_get reg kd k b = Inr x"
  by (auto simp: tr_grows_def tr_get_def split: option.splits)

lemma tr_grows_get_other:
  "tr_grows reg cdef kds a b \<Longrightarrow> kd \<notin> kds \<Longrightarrow> tr_get reg kd k b = tr_get reg kd k a"
  by (auto simp: tr_grows_def tr_get_def)

lemma same_key_refl [simp]: "same_key k k"
  by (simp add: same_key_def line_info_eq_def split: reg_key.splits)

lemma reg_added_grows:
  assumes "registry_ok reg cdef" "reg_added reg cdef ko d (tr_registry tr) (x, r)"
    "\<And>k. ko = Some k \<Longrightarrow> reg_get reg (kind_of d) k (tr_registry tr) = None" "kind_of d \<in> kds"
  shows "tr_grows reg cdef kds tr (tr\<lparr>tr_registry := r\<rparr>)"
proof -
  have "reg_get reg kd l (tr_registry tr) = None" if "kd = kind_of d" "ko = Some k" "same_key k l" for kd k l
    using assms(1,3) that unfolding registry_ok_def by metis
  then show ?thesis
    using assms(2,4) unfolding tr_grows_def reg_added_def by auto
qed

lemma tr_create_grows:
  assumes "registry_ok reg cdef" "\<And>k. ko = Some k \<Longrightarrow> tr_get reg (kind_of d) k tr = Inl Out_of_range"
    "tr_create reg ko d tr = (x, tr')" "kind_of d \<in> kds"
  shows "tr_grows reg cdef kds tr tr'"
    "ko = Some k \<Longrightarrow> tr_get reg (kind_of d) k tr' = Inr x"
    "d = D_calling_context g s p \<Longrightarrow> cdef (tr_registry tr') x = Some (g, s, p)"
proof -
  obtain r where r: "reg_create reg ko d (tr_registry tr) = (x, r)" "tr' = tr\<lparr>tr_registry := r\<rparr>"
    using assms(3) by (auto simp: tr_create_def split: prod.splits)
  have none: "\<And>k. ko = Some k \<Longrightarrow> reg_get reg (kind_of d) k (tr_registry tr) = None"
    using assms(2) by (auto simp: tr_get_def split: option.splits)
  then have add: "reg_added reg cdef ko d (tr_registry tr) (x, r)"
    using assms(1) r(1) unfolding registry_ok_def by (cases ko) metis+
  from reg_added_grows[OF assms(1) add none assms(4)] show "tr_grows reg cdef kds tr tr'" using r(2) by simp
  show "ko = Some k \<Longrightarrow> tr_get reg (kind_of d) k tr' = Inr x"
    using add r(2) by (simp add: reg_added_def tr_get_def)
  show "d = D_calling_context g s p \<Longrightarrow> cdef (tr_registry tr') x = Some (g, s, p)"
    using add r(2) by (simp add: reg_added_def)
qed

lemma tr_emplace_grows:
  assumes "registry_ok reg cdef" "tr_emplace reg k d tr = (x, tr')" "kind_of d \<in> kds"
  shows "tr_grows reg cdef kds tr tr'" "tr_get reg (kind_of d) k tr' = Inr x"
proof -
  have em: "reg_emplace reg k d (tr_registry tr) =
      (case reg_get reg (kind_of d) k (tr_registry tr) of Some x \<Rightarrow> (x, tr_registry tr)
       | None \<Rightarrow> reg_create reg (Some k) d (tr_registry tr))"
    using assms(1) by (simp add: registry_ok_def)
  have "tr_grows reg cdef kds tr tr' \<and> tr_get reg (kind_of d) k tr' = Inr x"
  proof (cases "reg_get reg (kind_of d) k (tr_registry tr)")
    case None
    then have c: "tr_create reg (Some k) d tr = (x, tr')" "tr_get reg (kind_of d) k tr = Inl Out_of_range"
      using assms(2) em by (simp_all add: tr_emplace_def tr_create_def tr_get_def)
    show ?thesis
      using tr_create_grows(1)[OF assms(1) _ c(1) assms(3)] tr_create_grows(2)[OF assms(1) _ c(1) assms(3)] c(2) by auto
  next
    case (Some y)
    then show ?thesis using assms(2) em by (auto simp: tr_emplace_def tr_get_def)
  qed
  then show "tr_grows reg cdef kds tr tr'" "tr_get reg (kind_of d) k tr' = Inr x" by auto
qed

lemma tr_grows_change [simp]:
  assumes "registry_ok reg cdef"
  shows "tr_grows reg cdef kds a (tr_change reg c b) = tr_grows reg cdef kds a b"
    "tr_grows reg cdef kds (tr_change reg c a) b = tr_grows reg cdef kds a b"
    "tr_get reg kd k (tr_change reg c a) = tr_get reg kd k a"
  using assms by (simp_all add: registry_ok_def tr_grows_def tr_change_def tr_get_def)

lemma intern_grows:
  "registry_ok reg cdef \<Longrightarrow> intern reg s tr = (x, tr') \<Longrightarrow> K_string \<in> kds \<Longrightarrow> tr_grows reg cdef kds tr tr'"
  unfolding intern_def by (erule tr_emplace_grows) auto

section \<open>Operations on definitions\<close>

text \<open>The kinds of definitions that are made for processes and threads.\<close>

abbreviation process_kinds :: "def_kind set" where
  "process_kinds \<equiv> {K_string, K_system_tree_node, K_location_group, K_comm_group, K_comm}"

lemma rename_all_grows: "registry_ok reg cdef \<Longrightarrow> tr_grows reg cdef kds tr (snd (rename_all reg ks iname tr))"
  by (induction reg ks iname tr rule: rename_all.induct) (auto split: sum.splits)

lemma update_thread_grows:
  assumes "registry_ok reg cdef" "K_string \<in> kds"
  shows "tr_grows reg cdef kds tr (update_thread reg thread name tr)"
proof -
  obtain x tr1 where i: "intern reg (thread_label name thread) tr = (x, tr1)" by force
  show ?thesis
    using intern_grows[OF assms(1) i assms(2)] assms(1)
    by (simp add: update_thread_def i Let_def split: sum.split)
qed

lemma rename_process_grows:
  assumes "registry_ok reg cdef" "K_string \<in> kds"
  shows "tr_grows reg cdef kds tr (rename_process reg process name tr)"
proof -
  obtain x tr1 where i: "intern reg name tr = (x, tr1)" by force
  let ?ks = "[(K_system_tree_node, ByProcess process), (K_location_group, ByExecutionScope (scope_of_process process)),
    (K_comm_group, ByProcess process), (K_comm, ByProcess process)]"
  obtain b tr2 where r: "rename_all reg ?ks x tr1 = (b, tr2)" by force
  have "tr_grows reg cdef kds tr tr2"
    using intern_grows[OF assms(1) i assms(2)] rename_all_grows[OF assms(1), of kds tr1 ?ks x] r
    by (metis tr_grows_trans snd_conv)
  with update_thread_grows[OF assms, of tr2] show ?thesis
    unfolding rename_process_def i Let_def prod.case r by (auto intro: tr_grows_trans)
qed

lemma new_process_grows:
  assumes "registry_ok reg cdef" "process_kinds \<subseteq> kds" "\<not> tr_has reg K_system_tree_node (ByProcess process) tr"
  shows "tr_grows reg cdef kds tr (new_process reg parent process name tr)"
    "tr_has reg K_system_tree_node (ByProcess process) (new_process reg parent process name tr)"
proof -
  note ok = assms(1)
  have in_kds: "K_string \<in> kds" "K_system_tree_node \<in> kds" "K_location_group \<in> kds" "K_comm_group \<in> kds" "K_comm \<in> kds"
    using assms(2) by auto
  let ?tr = "tr\<lparr>tr_thread_names := fst (std_emplace thread_less (process_as_thread process) name (tr_thread_names tr))\<rparr>"
  obtain i tr1 where s1: "intern reg name ?tr = (i, tr1)" by force
  let ?pn = "if parent = Process_no_parent then tr_root_node tr1 else intern_process_node reg parent tr1"
  obtain c tr2 where s2: "intern reg ''process'' tr1 = (c, tr2)" by force
  obtain n tr3 where s3: "tr_create reg (Some (ByProcess process)) (D_system_tree_node i c (Some ?pn)) tr2 = (n, tr3)" by force
  obtain l tr4 where s4: "tr_emplace reg (ByExecutionScope (scope_of_process process)) (D_location_group i n) tr3 = (l, tr4)" by force
  obtain cg tr5 where s5: "tr_emplace reg (ByProcess process) (D_comm_group i Pthread) tr4 = (cg, tr5)" by force
  obtain cm tr6 where s6: "tr_emplace reg (ByProcess process) (D_comm i cg) tr5 = (cm, tr6)" by force
  have run: "new_process reg parent process name tr = tr6"
    unfolding new_process_def Let_def s1 s2 s3 s4 s5 s6 prod.case by (simp add: s3 s4 s5 s6)
  have g12: "tr_grows reg cdef {K_string} tr tr2"
    using intern_grows[OF ok s1, of "{K_string}"] intern_grows[OF ok s2, of "{K_string}"] tr_grows_trans by auto
  have "tr_get reg K_system_tree_node (ByProcess process) tr2 = Inl Out_of_range"
    using tr_grows_get_other[OF g12, of K_system_tree_node "ByProcess process"] assms(3)
    by (auto simp: tr_has_def tr_get_def)
  then have g3: "tr_grows reg cdef kds tr2 tr3" "tr_get reg K_system_tree_node (ByProcess process) tr3 = Inr n"
    using tr_create_grows(1)[OF ok _ s3, of kds] tr_create_grows(2)[OF ok _ s3, of kds "ByProcess process"] in_kds by auto
  have g6: "tr_grows reg cdef kds tr3 tr6"
    using tr_emplace_grows(1)[OF ok s4, of kds] tr_emplace_grows(1)[OF ok s5, of kds] tr_emplace_grows(1)[OF ok s6, of kds]
      in_kds by (auto intro: tr_grows_trans)
  show "tr_grows reg cdef kds tr (new_process reg parent process name tr)"
    unfolding run using tr_grows_mono[OF g12, of kds] g3(1) g6 in_kds by (auto intro: tr_grows_trans)
  show "tr_has reg K_system_tree_node (ByProcess process) (new_process reg parent process name tr)"
    unfolding run tr_has_get using tr_grows_get[OF g6 g3(2)] by blast
qed

lemma emplace_process_root:
  assumes "registry_ok reg cdef" "process_kinds \<subseteq> kds"
  shows "\<exists>tr'. emplace_process reg Process_no_parent process name tr = Inr tr' \<and> tr_grows reg cdef kds tr tr' \<and>
    tr_has reg K_system_tree_node (ByProcess process) tr'"
proof (cases "tr_has reg K_system_tree_node (ByProcess process) tr")
  case True
  have g: "tr_grows reg cdef kds tr (rename_process reg process name tr)"
    using assms by (intro rename_process_grows) auto
  have "tr_has reg K_system_tree_node (ByProcess process) (rename_process reg process name tr)"
    using True tr_grows_get[OF g] unfolding tr_has_get by blast
  then show ?thesis using True g by (simp add: emplace_process.simps update_process.simps)
next
  case False
  then show ?thesis using new_process_grows[OF assms False] by (simp add: emplace_process.simps)
qed

lemma emplace_process_ok:
  assumes "registry_ok reg cdef" "process_kinds \<subseteq> kds"
  shows "\<exists>tr'. emplace_process reg parent process name tr = Inr tr' \<and> tr_grows reg cdef kds tr tr' \<and>
    tr_has reg K_system_tree_node (ByProcess process) tr'"
proof (cases "parent = Process_no_parent \<or> \<not> tr_has reg K_system_tree_node (ByProcess process) tr")
  case True
  moreover have ?thesis if "\<not> tr_has reg K_system_tree_node (ByProcess process) tr"
    using new_process_grows[OF assms that, of parent name] that by (simp add: emplace_process.simps)
  ultimately show ?thesis
    using emplace_process_root[OF assms, of process name tr] by auto
next
  case False
  let ?tr = "rename_process reg process name tr"
  have g: "tr_grows reg cdef kds tr ?tr" using assms by (intro rename_process_grows) auto
  obtain tr1 where tr1: "emplace_process reg Process_no_parent parent [] ?tr = Inr tr1"
    "tr_grows reg cdef kds ?tr tr1" "tr_has reg K_system_tree_node (ByProcess parent) tr1"
    using emplace_process_root[OF assms, of parent "[]" ?tr] by blast
  have g1: "tr_grows reg cdef kds tr tr1" using g tr1(2) by (rule tr_grows_trans)
  obtain n m where nm: "tr_get reg K_system_tree_node (ByProcess process) tr1 = Inr n"
    "tr_get reg K_system_tree_node (ByProcess parent) tr1 = Inr m"
    using False tr_grows_get[OF g1] tr1(3) unfolding tr_has_get by blast
  have "emplace_process reg parent process name tr = Inr (tr_change reg (Set_parent n m) tr1)"
    using False tr1(1) nm by (simp add: emplace_process.simps[of reg parent] update_process.simps)
  then show ?thesis using g1 nm(1) assms(1) by (simp add: tr_has_get)
qed

lemma emplace_thread_ok:
  assumes "registry_ok reg cdef"
  shows "\<exists>tr'. emplace_thread_exclusive reg env process thread name tr = Inr tr' \<and> tr_grows reg cdef UNIV tr tr' \<and>
    tr_has reg K_calling_context (ByThread thread) tr'"
proof -
  note ok = assms
  obtain tr0 where tr0: "emplace_process reg Process_no_parent process [] tr = Inr tr0" "tr_grows reg cdef UNIV tr tr0"
    using emplace_process_root[OF ok, of UNIV] by blast
  let ?tr1 = "tr0\<lparr>tr_groups := add_thread thread process (tr_groups tr0)\<rparr>"
  have tr1: "tr_grows reg cdef UNIV tr ?tr1" using tr0(2) tr_grows_add_thread by (rule tr_grows_trans)
  show ?thesis
  proof (cases "tr_has reg K_calling_context (ByThread thread) ?tr1")
    case True
    have g: "tr_grows reg cdef UNIV ?tr1 (update_thread reg thread name ?tr1)"
      using ok by (intro update_thread_grows) auto
    with True tr0 show ?thesis
      using tr_grows_get[OF g] tr_grows_trans[OF tr1]
      by (auto simp: emplace_thread_exclusive_def Let_def tr_has_get)
  next
    case False
    let ?nm = "if thread = Thread 0 then ''<idle>'' else name"
    let ?tr2 = "?tr1\<lparr>tr_thread_names := fst (std_emplace thread_less thread ?nm (tr_thread_names ?tr1))\<rparr>"
    obtain i tr3 where s3: "intern reg (if thread \<noteq> Thread 0 then thread_label name thread else ?nm) ?tr2 = (i, tr3)" by force
    obtain rg tr4 where s4: "emplace_named_region reg (ByThread thread) i tr3 = (rg, tr4)" by force
    let ?tr5 = "if is_kernel_thread (te_cmdline env thread)
      then tr_change reg (Add_member K_regions_group (tr_kernel_regions_group tr4) rg) tr4 else tr4"
    obtain x tr6 where s6: "tr_create reg (Some (ByThread thread)) (D_calling_context rg None None) ?tr5 = (x, tr6)" by force
    have run: "emplace_thread_exclusive reg env process thread name tr = Inr tr6"
      using tr0(1) False s3 s4 s6 by (simp add: emplace_thread_exclusive_def Let_def)
    have g3: "tr_grows reg cdef {K_string, K_region} ?tr1 tr3"
      using intern_grows[OF ok s3, of "{K_string, K_region}"] by simp
    have g4: "tr_grows reg cdef {K_string, K_region} tr3 tr4"
      using tr_emplace_grows(1)[OF ok s4[unfolded emplace_named_region_def], of "{K_string, K_region}"] by simp
    have g5: "tr_grows reg cdef {K_string, K_region} ?tr1 ?tr5"
      using tr_grows_trans[OF g3 g4] ok by simp
    then have "tr_get reg K_calling_context (ByThread thread) ?tr5 = Inl Out_of_range"
      using False tr_grows_get_other[OF g5, of K_calling_context "ByThread thread"]
      by (auto simp: tr_has_def tr_get_def)
    then have g6: "tr_grows reg cdef UNIV ?tr5 tr6" "tr_get reg K_calling_context (ByThread thread) tr6 = Inr x"
      using tr_create_grows(1)[OF ok _ s6, of UNIV] tr_create_grows(2)[OF ok _ s6, of UNIV "ByThread thread"] by auto
    have "tr_grows reg cdef UNIV tr tr6"
      using tr1 tr_grows_mono[OF g5, of UNIV] g6(1) by (auto intro: tr_grows_trans)
    with run g6(2) show ?thesis by (auto simp: tr_has_get)
  qed
qed

section \<open>Calling contexts of the merge\<close>

lemma intern_region_grows:
  assumes "registry_ok reg cdef" "intern_region reg info tr = (x, tr')"
  shows "tr_grows reg cdef UNIV tr tr'"
proof -
  note ok = assms(1)
  obtain n tr1 where s1: "intern reg (li_function info) tr = (n, tr1)" by force
  obtain f tr2 where s2: "intern reg (li_file info) tr1 = (f, tr2)" by force
  obtain rg tr3 where s3: "tr_emplace reg (ByLineInfo info) (D_region n n n Sampling f (li_line info) 0) tr2 = (rg, tr3)" by force
  obtain d tr4 where s4: "intern reg (li_dso info) tr3 = (d, tr4)" by force
  obtain g tr5 where s5: "tr_emplace reg (ByString (li_dso info)) (D_regions_group d Compiler) tr4 = (g, tr5)" by force
  have g3: "tr_grows reg cdef UNIV tr tr3"
    using intern_grows[OF ok s1, of UNIV] intern_grows[OF ok s2, of UNIV] tr_emplace_grows(1)[OF ok s3, of UNIV]
    by (auto intro: tr_grows_trans)
  have "tr_grows reg cdef UNIV tr3 tr5"
    using intern_grows[OF ok s4, of UNIV] tr_emplace_grows(1)[OF ok s5, of UNIV] by (auto intro: tr_grows_trans)
  with g3 have g5: "tr_grows reg cdef UNIV tr tr5" by (rule tr_grows_trans)
  show ?thesis
    using assms(2) g3 g5 s4 s5 ok unfolding intern_region_def Let_def s1 s2 prod.case s3
    by (auto split: sum.splits)
qed

lemma intern_scl_grows:
  assumes "registry_ok reg cdef" "intern_scl reg info tr = (x, tr')"
  shows "tr_grows reg cdef UNIV tr tr'"
proof -
  obtain f tr1 where s1: "intern reg (li_file info) tr = (f, tr1)" by force
  have s2: "tr_emplace reg (ByLineInfo info) (D_source_code_location f (li_line info)) tr1 = (x, tr')"
    using assms(2) by (simp add: intern_scl_def s1)
  show ?thesis
    using intern_grows[OF assms(1) s1, of UNIV] tr_emplace_grows(1)[OF assms(1) s2, of UNIV] by (auto intro: tr_grows_trans)
qed

lemma create_line_cctx_ok:
  assumes "registry_ok reg cdef"
  shows "\<exists>x tr' g s. create_line_cctx reg info (Some p) tr = Inr (x, tr') \<and> tr_grows reg cdef UNIV tr tr' \<and>
    cdef (tr_registry tr') x = Some (g, Some s, Some p)"
proof -
  note ok = assms
  obtain rg tr1 where s1: "intern_region reg info tr = (rg, tr1)" by force
  obtain s tr2 where s2: "intern_scl reg info tr1 = (s, tr2)" by force
  obtain x tr3 where s3: "tr_create reg None (D_calling_context rg (Some s) (Some p)) tr2 = (x, tr3)" by force
  have "tr_grows reg cdef UNIV tr tr3"
    using intern_region_grows[OF ok s1] intern_scl_grows[OF ok s2] tr_create_grows(1)[OF ok _ s3, of UNIV]
    by (auto intro: tr_grows_trans)
  moreover have "cdef (tr_registry tr3) x = Some (rg, Some s, Some p)"
    using tr_create_grows(3)[OF ok _ s3, of UNIV] by simp
  ultimately show ?thesis by (simp add: create_line_cctx_def s1 s2 s3)
qed

lemma cctx_for_thread_ok:
  assumes "registry_ok reg cdef"
  shows "\<exists>x tr'. cctx_for_thread reg env thread p tr = Inr (x, tr') \<and> tr_grows reg cdef UNIV tr tr'"
  using emplace_thread_ok[OF assms, of env p thread "[]" tr]
  by (auto simp: cctx_for_thread_def emplace_thread_def tr_has_get)

lemma cctx_for_process_ok:
  assumes "registry_ok reg cdef"
  shows "\<exists>x tr'. cctx_for_process reg p tr = Inr (x, tr') \<and> tr_grows reg cdef UNIV tr tr'"
proof -
  note ok = assms
  obtain tr0 where tr0: "emplace_process reg Process_no_parent p [] tr = Inr tr0" "tr_grows reg cdef UNIV tr tr0"
    using emplace_process_root[OF ok, of UNIV] by blast
  show ?thesis
  proof (cases "tr_get reg K_calling_context (ByProcess p) tr0")
    case (Inr x)
    with tr0 show ?thesis by (simp add: cctx_for_process_def)
  next
    case (Inl e)
    let ?names = "fst (std_emplace thread_less (process_as_thread p) [] (tr_thread_names tr0))"
    let ?n = "case std_lookup thread_less ?names (process_as_thread p) of Some n \<Rightarrow> n | None \<Rightarrow> []"
    let ?tr1 = "tr0\<lparr>tr_thread_names := ?names\<rparr>"
    obtain i tr2 where s2: "intern reg ?n ?tr1 = (i, tr2)" by force
    obtain rg tr3 where s3: "emplace_named_region reg (ByProcess p) i tr2 = (rg, tr3)" by force
    obtain x tr4 where s4: "tr_create reg (Some (ByProcess p)) (D_calling_context rg None None) tr3 = (x, tr4)" by force
    have run: "cctx_for_process reg p tr = Inr (x, tr4)"
      using tr0(1) Inl s2 s3 s4 by (simp add: cctx_for_process_def Let_def)
    have g2: "tr_grows reg cdef {K_string, K_region} tr0 tr2"
      using intern_grows[OF ok s2, of "{K_string, K_region}"] by simp
    have "tr_grows reg cdef {K_string, K_region} tr2 tr3"
      using tr_emplace_grows(1)[OF ok s3[unfolded emplace_named_region_def], of "{K_string, K_region}"] by simp
    with g2 have g3: "tr_grows reg cdef {K_string, K_region} tr0 tr3" by (rule tr_grows_trans)
    have "tr_get reg K_calling_context (ByProcess p) tr3 = Inl Out_of_range"
      using Inl tr_grows_get_other[OF g3, of K_calling_context "ByProcess p"] by (auto simp: tr_get_def split: option.splits)
    then have "tr_grows reg cdef UNIV tr3 tr4" using tr_create_grows(1)[OF ok _ s4, of UNIV] by auto
    with run tr0(2) tr_grows_mono[OF g3, of UNIV] show ?thesis by (auto intro: tr_grows_trans)
  qed
qed

lemma cctx_for_syscall_grows:
  assumes "registry_ok reg cdef" "cctx_for_syscall reg env i tr = (x, tr')"
  shows "tr_grows reg cdef UNIV tr tr'"
proof -
  note ok = assms(1)
  obtain n tr1 where s1: "intern reg (syscall_name_for_nr env (sint (ucast i :: u32))) tr = (n, tr1)" by force
  obtain rg tr2 where s2: "emplace_named_region reg (BySyscall (sint i)) n tr1 = (rg, tr2)" by force
  obtain s tr3 where s3: "tr_emplace reg (BySyscall (sint i)) (D_source_code_location n 0) tr2 = (s, tr3)" by force
  obtain c tr4 where s4: "tr_emplace reg (BySyscall (sint i)) (D_calling_context rg (Some s) None) tr3 = (c, tr4)" by force
  have "tr_grows reg cdef UNIV tr tr4"
    using intern_grows[OF ok s1, of UNIV] tr_emplace_grows(1)[OF ok s2[unfolded emplace_named_region_def], of UNIV]
      tr_emplace_grows(1)[OF ok s3, of UNIV] tr_emplace_grows(1)[OF ok s4, of UNIV] by (auto intro: tr_grows_trans)
  then show ?thesis
    using assms(2) ok by (auto simp: cctx_for_syscall_def s1 s2 s3 s4 Let_def)
qed

abbreviation resolvers_ok :: "resolvers \<Rightarrow> bool" where
  "resolvers_ok rs \<equiv> process_key.sorted_keys (function_resolvers rs)"

lemma Range_point_ok: "\<exists>r. Range_point a = Inr r"
  using Mapping_point_ok[of a] by (auto simp: Mapping_point_def sum_bind_Inr_iff)

lemma lookup_line_info_ok:
  assumes "resolver_env_ok env"
  shows "\<exists>l. lookup_line_info env r a = Inr l"
proof (cases r)
  case R_kernel
  obtain pt where "Range_point (a + ks_start (re_kallsyms env)) = Inr pt" using Range_point_ok by blast
  with R_kernel show ?thesis by (simp add: kallsyms_lookup_def split: option.split)
next
  case (R_jit p)
  obtain pt where "Range_point (a + pm_start (re_perf_map env p)) = Inr pt" using Range_point_ok by blast
  with R_jit show ?thesis by (simp add: perf_map_lookup_def split: option.split)
qed (use assms in \<open>simp_all add: resolver_env_ok_def\<close>)

lemma std_at_lookup: "std_lookup lt xs k = Some v \<Longrightarrow> std_at lt xs k = Inr v"
  by (auto simp: std_lookup_def std_at_def)

lemma resolve_ok: "resolver_env_ok env \<Longrightarrow> \<exists>l. resolve env fr a = Inr l"
  using lookup_line_info_ok by (auto simp: resolve_def mm_find_lookup split: option.splits)

lemma resolvers_insert_ok:
  assumes "resolver_env_ok env" "resolvers_ok rs"
  shows "\<exists>rs' fr. resolvers_insert env p rs = Inr rs' \<and> resolvers_ok rs' \<and>
    std_at process_less (function_resolvers rs') p = Inr fr"
proof (cases "std_lookup process_less (function_resolvers rs) p")
  case (Some fr)
  with assms(2) std_at_lookup[OF Some] show ?thesis by (simp add: resolvers_insert_def)
next
  case None
  obtain m where m: "ProcessFunctionMap_new env p = Inr m" using assms(1) unfolding resolver_env_ok_def by blast
  let ?fr = "fst (std_emplace process_less p m (function_resolvers rs))"
  have "std_lookup process_less ?fr p = Some m"
    using None process_key.std_lookup_emplace[OF assms(2), of p m p] by simp
  from std_at_lookup[OF this] show ?thesis
    using None m process_key.std_emplace_sorted[OF assms(2), of p m] by (simp add: resolvers_insert_def)
qed

section \<open>The invariant of the global tree\<close>

text \<open>The contexts whose calling context is created below the one of their parent.\<close>

fun line_context :: "CallingContext \<Rightarrow> bool" where
  "line_context (CC_SAMPLE_ADDR _) = True"
| "line_context (CC_GPU_KERNEL _) = True"
| "line_context (CC_OPENMP _) = True"
| "line_context _ = False"

fun global_ok :: "(nat \<Rightarrow> cctx_data option) \<Rightarrow> global_cctx_node \<Rightarrow> bool" where
  "global_ok cd (GNode x ch) \<longleftrightarrow> cctx_key.sorted_keys ch \<and>
    (\<forall>e \<in> set ch. global_ok cd (snd e) \<and> (\<exists>y. g_cctx (snd e) = Some y \<and>
      (line_context (fst e) \<longrightarrow> (\<exists>g s. cd y = Some (g, Some s, x)))))"

primrec gnode_at :: "CallingContext list \<Rightarrow> global_cctx_node \<Rightarrow> global_cctx_node option" where
  "gnode_at [] g = Some g"
| "gnode_at (k # ks) g = Option.bind (std_lookup cctx_lt (g_children g) k) (gnode_at ks)"

text \<open>The calling contexts of a tree stay where they are.\<close>

definition global_ext :: "global_cctx_node \<Rightarrow> global_cctx_node \<Rightarrow> bool" where
  "global_ext g g' \<longleftrightarrow> (\<forall>p x. map_option g_cctx (gnode_at p g) = Some x \<longrightarrow> map_option g_cctx (gnode_at p g') = Some x)"

lemma global_ok_alt:
  "global_ok cd g \<longleftrightarrow> cctx_key.sorted_keys (g_children g) \<and>
    (\<forall>e \<in> set (g_children g). global_ok cd (snd e) \<and> (\<exists>y. g_cctx (snd e) = Some y \<and>
      (line_context (fst e) \<longrightarrow> (\<exists>gr s. cd y = Some (gr, Some s, g_cctx g)))))"
  by (cases g) simp

lemma global_ok_mono:
  "global_ok cd g \<Longrightarrow> (\<And>y c. cd y = Some c \<Longrightarrow> cd' y = Some c) \<Longrightarrow> global_ok cd' g"
  by (induction cd g rule: global_ok.induct) (simp, meson)

lemma global_ext_refl [simp]: "global_ext g g"
  by (simp add: global_ext_def)

lemma global_ext_trans: "global_ext a b \<Longrightarrow> global_ext b c \<Longrightarrow> global_ext a c"
  by (simp add: global_ext_def)

lemma global_ext_children:
  assumes "g_cctx g' = g_cctx g"
    "\<And>k n. std_lookup cctx_lt (g_children g) k = Some n \<Longrightarrow>
      \<exists>n'. std_lookup cctx_lt (g_children g') k = Some n' \<and> global_ext n n'"
  shows "global_ext g g'"
  unfolding global_ext_def
proof (intro allI impI)
  fix p x
  assume "map_option g_cctx (gnode_at p g) = Some x"
  then show "map_option g_cctx (gnode_at p g') = Some x"
    using assms by (cases p) (auto simp: Option.bind_eq_Some_conv global_ext_def, metis bind.bind_lunit option.simps(9))
qed

section \<open>One step of the merge\<close>

definition ms_step ::
    "'r registry \<Rightarrow> ('r \<Rightarrow> nat \<Rightarrow> cctx_data option) \<Rightarrow> 'r merge_state \<Rightarrow> 'r merge_state \<Rightarrow> bool" where
  "ms_step reg cdef ms ms' \<longleftrightarrow> tr_grows reg cdef UNIV (m_trace ms) (m_trace ms') \<and>
    resolvers_ok (m_resolvers ms') \<and> length (m_table ms') = length (m_table ms)"

abbreviation ms_cdef :: "('r \<Rightarrow> nat \<Rightarrow> cctx_data option) \<Rightarrow> 'r merge_state \<Rightarrow> nat \<Rightarrow> cctx_data option" where
  "ms_cdef cdef ms \<equiv> cdef (tr_registry (m_trace ms))"

lemma ms_step_refl: "resolvers_ok (m_resolvers ms) \<Longrightarrow> ms_step reg cdef ms ms"
  by (simp add: ms_step_def)

lemma ms_step_trans: "ms_step reg cdef a b \<Longrightarrow> ms_step reg cdef b c \<Longrightarrow> ms_step reg cdef a c"
  unfolding ms_step_def using tr_grows_trans by metis

lemma ms_step_cdef: "ms_step reg cdef a b \<Longrightarrow> ms_cdef cdef a y = Some c \<Longrightarrow> ms_cdef cdef b y = Some c"
  unfolding ms_step_def tr_grows_def by blast

lemma omp_line_info_ok:
  assumes "resolver_env_ok (te_resolver env)"
  shows "\<exists>l. omp_line_info env c rs p names = Inr l"
proof (cases "std_lookup process_less (function_resolvers rs) p")
  case (Some fr)
  obtain l where "resolve (te_resolver env) fr (omp_addr c) = Inr l" using resolve_ok[OF assms] by blast
  with Some show ?thesis by (simp add: omp_line_info_def Let_def)
qed (simp add: omp_line_info_def Let_def)

lemma cctx_for_address_ok:
  assumes "registry_ok reg cdef" "resolver_env_ok (te_resolver env)" "resolvers_ok rs"
  shows "\<exists>x rs' tr' g s. cctx_for_address reg env a rs p (Some q) tr = Inr (x, rs', tr') \<and> resolvers_ok rs' \<and>
    tr_grows reg cdef UNIV tr tr' \<and> cdef (tr_registry tr') x = Some (g, Some s, Some q)"
proof -
  note ok = assms(1)
  obtain rs' fr where rs: "resolvers_insert (te_resolver env) p rs = Inr rs'" "resolvers_ok rs'"
    "std_at process_less (function_resolvers rs') p = Inr fr"
    using resolvers_insert_ok[OF assms(2,3)] by blast
  obtain l where l: "resolve (te_resolver env) fr a = Inr l" using resolve_ok[OF assms(2)] by blast
  obtain x tr1 g s where c: "create_line_cctx reg l (Some q) tr = Inr (x, tr1)" "tr_grows reg cdef UNIV tr tr1"
    "cdef (tr_registry tr1) x = Some (g, Some s, Some q)"
    using create_line_cctx_ok[OF ok] by blast
  obtain i tr2 where s2: "intern reg ''ip'' tr1 = (i, tr2)" by force
  obtain v tr3 where s3: "intern reg (show_u64 a) tr2 = (v, tr3)" by force
  obtain pr tr4 where s4: "tr_create reg None (D_calling_context_property x i v) tr3 = (pr, tr4)" by force
  have g14: "tr_grows reg cdef UNIV tr1 tr4"
    using intern_grows[OF ok s2, of UNIV] intern_grows[OF ok s3, of UNIV] tr_create_grows(1)[OF ok _ s4, of UNIV]
    by (auto intro: tr_grows_trans)
  then have "cdef (tr_registry tr4) x = Some (g, Some s, Some q)" using c(3) by (simp add: tr_grows_def)
  with rs l c(1) s2 s3 s4 tr_grows_trans[OF c(2) g14] show ?thesis by (simp add: cctx_for_address_def)
qed

lemma new_cctx_ok:
  assumes "registry_ok reg cdef" "resolver_env_ok (te_resolver env)" "resolvers_ok (m_resolvers ms)"
    "c \<noteq> CC_ROOT" "line_context c \<Longrightarrow> parent \<noteq> None"
  shows "\<exists>x ms'. new_cctx reg env c parent ms = Inr (x, ms') \<and> ms_step reg cdef ms ms' \<and> m_table ms' = m_table ms \<and>
    (line_context c \<longrightarrow> (\<exists>g s. ms_cdef cdef ms' x = Some (g, Some s, parent)))"
proof (cases c)
  case (CC_SAMPLE_ADDR a)
  then obtain q where "parent = Some q" using assms(5) by auto
  with CC_SAMPLE_ADDR cctx_for_address_ok[OF assms(1-3), of a "m_process ms" q "m_trace ms"] show ?thesis
    by (auto simp: new_cctx_def ms_step_def)
next
  case (CC_GPU_KERNEL k)
  then obtain q where q: "parent = Some q" using assms(5) by auto
  let ?l = "case std_lookup process_less (gpu_function_resolvers (m_resolvers ms)) (m_process ms) of
    Some functions \<Rightarrow> manual_lookup ''gpu kernels'' functions k | None \<Rightarrow> for_unknown_function"
  show ?thesis
    using create_line_cctx_ok[OF assms(1), of ?l q "m_trace ms"] assms(3) CC_GPU_KERNEL q
    by (auto simp: new_cctx_def ms_step_def cctx_for_gpu_kernel_def)
next
  case (CC_OPENMP oc)
  then obtain q where q: "parent = Some q" using assms(5) by auto
  obtain l where l: "omp_line_info env oc (m_resolvers ms) (m_process ms) (tr_thread_names (m_trace ms)) = Inr l"
    using omp_line_info_ok[OF assms(2)] by blast
  show ?thesis
    using create_line_cctx_ok[OF assms(1), of l q "m_trace ms"] assms(3) CC_OPENMP q l
    by (auto simp: new_cctx_def ms_step_def cctx_for_openmp_def)
next
  case (CC_THREAD t)
  then show ?thesis
    using cctx_for_thread_ok[OF assms(1), of env t "m_process ms" "m_trace ms"] assms(3)
    by (auto simp: new_cctx_def ms_step_def)
next
  case (CC_PROCESS p)
  then show ?thesis
    using cctx_for_process_ok[OF assms(1), of p "m_trace ms"] assms(3) by (auto simp: new_cctx_def ms_step_def)
next
  case (CC_SYSCALL i)
  obtain x tr where "cctx_for_syscall reg env i (m_trace ms) = (x, tr)" by force
  then show ?thesis
    using cctx_for_syscall_grows[OF assms(1)] assms(3) CC_SYSCALL by (auto simp: new_cctx_def ms_step_def)
qed (use assms(4) in simp)

lemma global_child_ok:
  assumes "registry_ok reg cdef" "resolver_env_ok (te_resolver env)" "resolvers_ok (m_resolvers ms)"
    "global_ok (ms_cdef cdef ms) g" "c \<noteq> CC_ROOT" "line_context c \<Longrightarrow> g_cctx g \<noteq> None"
  shows "\<exists>it g1 ms1. global_child reg env c g ms = Inr (it, g1, ms1) \<and> ms_step reg cdef ms ms1 \<and>
    m_table ms1 = m_table ms \<and> global_ok (ms_cdef cdef ms1) g1 \<and> g_cctx g1 = g_cctx g \<and> global_ext g g1 \<and>
    std_find cctx_lt c (g_children g1) = Some it \<and> g_cctx (snd it) \<noteq> None"
proof -
  have srt: "cctx_key.sorted_keys (g_children g)" using assms(4) by (simp add: global_ok_alt[of _ g])
  show ?thesis
  proof (cases "std_find cctx_lt c (g_children g)")
    case (Some it)
    then have "it \<in> set (g_children g)" using cctx_key.std_find_Some[OF srt] by blast
    then have "g_cctx (snd it) \<noteq> None" using assms(4) by (auto simp: global_ok_alt[of _ g])
    then show ?thesis using Some assms by (simp add: global_child_def ms_step_refl)
  next
    case None
    obtain x ms1 where n: "new_cctx reg env c (g_cctx g) ms = Inr (x, ms1)" "ms_step reg cdef ms ms1"
      "m_table ms1 = m_table ms" "line_context c \<longrightarrow> (\<exists>gr s. ms_cdef cdef ms1 x = Some (gr, Some s, g_cctx g))"
      using new_cctx_ok[OF assms(1-3,5,6)] by blast
    let ?n = "GNode (Some x) []"
    let ?ch = "fst (std_emplace cctx_lt c ?n (g_children g))"
    let ?g1 = "GNode (g_cctx g) ?ch"
    have old: "global_ok (ms_cdef cdef ms1) g" using global_ok_mono[OF assms(4)] ms_step_cdef[OF n(2)] by blast
    have "global_ok (ms_cdef cdef ms1) ?g1"
      using cctx_key.std_emplace_sorted[OF srt, of c ?n] cctx_key.std_emplace_set[OF srt, of c ?n] old n(4)
      unfolding global_ok_alt[of _ g] global_ok.simps by fastforce
    moreover have "global_ext g ?g1"
    proof (rule global_ext_children)
      fix k m
      assume "std_lookup cctx_lt (g_children g) k = Some m"
      moreover from this have "\<not> cctx_key.eqv c k"
        using None cctx_key.std_find_cong[OF srt] by (auto simp: std_lookup_def)
      ultimately show "\<exists>n'. std_lookup cctx_lt (g_children ?g1) k = Some n' \<and> global_ext m n'"
        by (simp add: cctx_key.std_lookup_emplace[OF srt])
    qed simp
    moreover have "std_find cctx_lt c (g_children ?g1) = Some (c, ?n)"
      using None by (simp add: cctx_key.std_find_emplace_same[OF srt])
    ultimately show ?thesis using None n assms(5) by (simp add: global_child_def)
  qed
qed

text \<open>Replacing the subtree of a child.\<close>

lemma global_update:
  assumes "global_ok cd g" "std_find cctx_lt c (g_children g) = Some it" "global_ok cd sub"
    "g_cctx sub = g_cctx (snd it)" "global_ext (snd it) sub"
  defines "g2 \<equiv> GNode (g_cctx g) (std_update cctx_lt c (\<lambda>_. sub) (g_children g))"
  shows "global_ok cd g2" "global_ext g g2" "gnode_at (c # p) g2 = gnode_at p sub"
proof -
  have srt: "cctx_key.sorted_keys (g_children g)" using assms(1) by (simp add: global_ok_alt[of _ g])
  obtain pre post where split: "g_children g = pre @ it # post"
    "std_update cctx_lt c (\<lambda>_. sub) (g_children g) = pre @ (fst it, sub) # post"
    using cctx_key.std_update_split[OF srt assms(2)] by blast
  show "global_ok cd g2"
    using assms(1,3,4) cctx_key.std_update_sorted[OF srt, of c "\<lambda>_. sub"] split
    unfolding g2_def global_ok_alt[of _ g] global_ok.simps by auto
  show "gnode_at (c # p) g2 = gnode_at p sub"
    using assms(2) by (simp add: g2_def cctx_key.std_find_update[OF srt] std_lookup_def)
  show "global_ext g g2"
  proof (rule global_ext_children)
    fix k m
    assume m: "std_lookup cctx_lt (g_children g) k = Some m"
    have "m = snd it" if "cctx_key.eqv c k"
      using m assms(2) cctx_key.std_find_cong[OF srt that] by (auto simp: std_lookup_def)
    then show "\<exists>n'. std_lookup cctx_lt (g_children g2) k = Some n' \<and> global_ext m n'"
      using m assms(5) by (auto simp: g2_def cctx_key.std_lookup_update[OF srt])
  qed (simp add: g2_def)
qed

section \<open>Merging a tree\<close>

lemma children_induct:
  assumes "Q []" "\<And>c n es. Q (children n) \<Longrightarrow> Q es \<Longrightarrow> Q ((c, n) # es)"
  shows "Q es"
proof -
  have list: "Q es" if "\<And>e. e \<in> set es \<Longrightarrow> Q (children (snd e))" for es
    using that
  proof (induction es)
    case (Cons e es)
    then have "Q (children (snd e))" "Q es" by auto
    then show ?case using assms(2)[of "snd e" es "fst e"] by simp
  qed (rule assms(1))
  have "Q (children n)" for n
  proof (induction n)
    case (Node r ch)
    have "Q (children (snd e))" if "e \<in> set ch" for e
      using Node[OF that, of "snd e"] by (simp add: snds.simps)
    then show ?case using list[of ch] by simp
  qed
  then show ?thesis using list by blast
qed

fun roots_free :: "cctx_node \<Rightarrow> bool" where
  "roots_free (Node r ch) \<longleftrightarrow> (\<forall>e \<in> set ch. fst e \<noteq> CC_ROOT \<and> roots_free (snd e))"

lemma roots_free_alt: "roots_free n \<longleftrightarrow> (\<forall>e \<in> set (children n). fst e \<noteq> CC_ROOT \<and> roots_free (snd e))"
  by (cases n) simp

abbreviation list_refs :: "(CallingContext \<times> cctx_node) list \<Rightarrow> nat multiset" where
  "list_refs es \<equiv> sum_list (map (\<lambda>e. node_refs (snd e)) es)"

text \<open>
  What merging a list of children achieves: the references of their nodes are mapped to the calling contexts at
  the same places below the global node, and no other entries of the table change.
\<close>

definition merged ::
    "'r registry \<Rightarrow> ('r \<Rightarrow> nat \<Rightarrow> cctx_data option) \<Rightarrow> (CallingContext \<times> cctx_node) list \<Rightarrow> global_cctx_node
      \<Rightarrow> 'r merge_state \<Rightarrow> global_cctx_node \<Rightarrow> 'r merge_state \<Rightarrow> bool" where
  "merged reg cdef es g ms g' ms' \<longleftrightarrow>
    ms_step reg cdef ms ms' \<and> global_ok (ms_cdef cdef ms') g' \<and> g_cctx g' = g_cctx g \<and> global_ext g g' \<and>
    (\<forall>i. i \<notin># list_refs es \<longrightarrow> m_table ms' ! i = m_table ms ! i) \<and>
    (\<forall>e \<in> set es. \<forall>p m. node_at p (snd e) = Some m \<longrightarrow>
      (\<exists>x. map_option g_cctx (gnode_at (fst e # p) g') = Some (Some x) \<and> m_table ms' ! node_ref m = Some x))"

lemma mergedD:
  assumes "merged reg cdef es g ms g' ms'"
  shows "ms_step reg cdef ms ms'" "global_ok (ms_cdef cdef ms') g'" "g_cctx g' = g_cctx g" "global_ext g g'"
    "i \<notin># list_refs es \<Longrightarrow> m_table ms' ! i = m_table ms ! i"
    "e \<in> set es \<Longrightarrow> node_at p (snd e) = Some m \<Longrightarrow>
      \<exists>x. map_option g_cctx (gnode_at (fst e # p) g') = Some (Some x) \<and> m_table ms' ! node_ref m = Some x"
  using assms unfolding merged_def by blast+

definition mergeable :: "(CallingContext \<times> cctx_node) list \<Rightarrow> nat \<Rightarrow> bool" where
  "mergeable es len \<longleftrightarrow> (\<forall>e \<in> set es. node_ok (snd e) \<and> fst e \<noteq> CC_ROOT \<and> roots_free (snd e)) \<and>
    (\<forall>i. count (list_refs es) i \<le> 1) \<and> (\<forall>i. i \<in># list_refs es \<longrightarrow> i < len)"

lemma mergeable_Cons:
  assumes "mergeable ((c, n) # es) len"
  shows "mergeable (children n) len" "mergeable es len" "node_ok n" "c \<noteq> CC_ROOT" "roots_free n" "node_ref n < len"
    "node_ref n \<notin># list_refs (children n)" "node_ref n \<notin># list_refs es"
    "i \<in># node_refs n \<Longrightarrow> i \<notin># list_refs es"
proof -
  have n: "node_refs n = add_mset (node_ref n) (list_refs (children n))" by (rule node_refs_alt)
  have c: "count (node_refs n) i + count (list_refs es) i \<le> 1" for i
    using assms by (auto simp: mergeable_def)
  have lt: "i < len" if "i \<in># node_refs n \<or> i \<in># list_refs es" for i
    using assms that by (auto simp: mergeable_def)
  show ok: "node_ok n" "c \<noteq> CC_ROOT" "roots_free n" using assms by (auto simp: mergeable_def)
  show "node_ref n < len" using lt n by simp
  show "node_ref n \<notin># list_refs (children n)" using c[of "node_ref n"] n unfolding not_in_iff by simp
  show disj: "i \<notin># list_refs es" if "i \<in># node_refs n" for i
    using c[of i] count_greater_zero_iff[of "node_refs n" i] that unfolding not_in_iff by linarith
  show "node_ref n \<notin># list_refs es" using disj n by simp
  have "count (list_refs (children n)) i \<le> 1" for i using c[of i] n by (auto split: if_splits)
  moreover have "i < len" if "i \<in># list_refs (children n)" for i using lt n that by simp
  ultimately show "mergeable (children n) len"
    using ok unfolding mergeable_def node_ok_alt[of n] roots_free_alt[of n] by blast
  have "count (list_refs es) i \<le> 1" for i using c[of i] by simp
  then show "mergeable es len" using assms lt by (auto simp: mergeable_def)
qed

lemma merge_nodes_children: "merge_nodes reg env n g ms = merge_children reg env (children n) g ms"
  by (cases n) simp

lemma std_lookup_member:
  assumes "cctx_key.sorted_keys xs" "std_lookup cctx_lt xs k = Some v"
  shows "\<exists>e \<in> set xs. snd e = v \<and> cctx_key.eqv (fst e) k"
proof -
  obtain e where "std_find cctx_lt k xs = Some e" "snd e = v" using assms(2) by (auto simp: std_lookup_def)
  with cctx_key.std_find_Some[OF assms(1)] show ?thesis by blast
qed

lemma node_at_refs: "node_at p n = Some m \<Longrightarrow> node_ok n \<Longrightarrow> node_ref m \<in># node_refs n"
proof (induction p arbitrary: n)
  case (Cons k p)
  then obtain n' where n': "std_lookup cctx_lt (children n) k = Some n'" "node_at p n' = Some m"
    by (auto simp: Option.bind_eq_Some_conv)
  then obtain e where "e \<in> set (children n)" "snd e = n'"
    using std_lookup_member[OF node_ok_sorted[OF Cons.prems(2)]] by blast
  moreover have "node_ref m \<in># node_refs n'"
    using Cons.IH[OF n'(2)] node_ok_lookup[OF Cons.prems(2) n'(1)] by blast
  ultimately show ?case by (force simp: node_refs_alt[of n])
next
  case Nil
  then show ?case by (simp add: node_refs_alt[of m])
qed

text \<open>The places of a child, in terms of the places below it.\<close>

lemma merged_places:
  assumes "merged reg cdef (children n) it ms it' ms'" "node_ok n" "node_at p n = Some m" "p \<noteq> []"
  shows "\<exists>x. map_option g_cctx (gnode_at p it') = Some (Some x) \<and> m_table ms' ! node_ref m = Some x"
proof -
  obtain k ks n' where p: "p = k # ks" "std_lookup cctx_lt (children n) k = Some n'" "node_at ks n' = Some m"
    using assms(3,4) by (cases p) (auto simp: Option.bind_eq_Some_conv)
  then obtain e where e: "e \<in> set (children n)" "snd e = n'" "cctx_key.eqv (fst e) k"
    using std_lookup_member[OF node_ok_sorted[OF assms(2)]] by blast
  have "cctx_key.sorted_keys (g_children it')" using mergedD(2)[OF assms(1)] by (simp add: global_ok_alt[of _ it'])
  from cctx_key.std_find_cong[OF this e(3)] have "gnode_at (k # ks) it' = gnode_at (fst e # ks) it'"
    by (simp add: std_lookup_def)
  then show ?thesis using mergedD(6)[OF assms(1) e(1), of ks m] e(2) p by simp
qed

lemma enter_context_simps [simp]:
  "m_trace (enter_context c ms) = m_trace ms" "m_resolvers (enter_context c ms) = m_resolvers ms"
  "m_table (enter_context c ms) = m_table ms"
  by (simp_all add: enter_context_def split: CallingContext.splits)

text \<open>Putting the merge of a first child and of the remaining ones together.\<close>

lemma merged_Cons:
  assumes mg: "mergeable ((c, n) # es) (length (m_table ms))"
    and child: "ms_step reg cdef ms ms1" "m_table ms1 = m_table ms" "global_ext g g1" "g_cctx g1 = g_cctx g"
      "global_ok (ms_cdef cdef ms1) g1" "std_find cctx_lt c (g_children g1) = Some it" "g_cctx (snd it) = Some x"
    and sub: "merged reg cdef (children n) (snd it)
      (enter_context c' (ms1\<lparr>m_table := (m_table ms1)[node_ref n := Some x]\<rparr>)) sub ms2"
    and rest: "merged reg cdef es (GNode (g_cctx g1) (std_update cctx_lt c (\<lambda>_. sub) (g_children g1))) ms2 g' ms'"
  shows "merged reg cdef ((c, n) # es) g ms g' ms'"
proof -
  let ?g2 = "GNode (g_cctx g1) (std_update cctx_lt c (\<lambda>_. sub) (g_children g1))"
  note facts = mergeable_Cons[OF mg]
  note sub_facts = mergedD[OF sub] and rest_facts = mergedD[OF rest]
  have step2: "ms_step reg cdef ms1 ms2" using sub_facts(1) by (simp add: ms_step_def)
  have step': "ms_step reg cdef ms ms'"
    using ms_step_trans[OF ms_step_trans[OF child(1) step2] rest_facts(1)] .
  have ok1: "global_ok (ms_cdef cdef ms2) g1" using global_ok_mono[OF child(5)] ms_step_cdef[OF step2] by blast
  note g2 = global_update[OF ok1 child(6) sub_facts(2-4)]
  have ext: "global_ext g g'"
    using global_ext_trans[OF child(3) global_ext_trans[OF g2(2) rest_facts(4)]] .
  have t2: "m_table ms2 ! i = m_table ms ! i" if "i \<notin># node_refs n" for i
  proof -
    have "i \<notin># list_refs (children n)" "i \<noteq> node_ref n"
      using that unfolding node_refs_alt[of n] set_mset_add_mset_insert by auto
    then show ?thesis using sub_facts(5)[of i] child(2) by simp
  qed
  have t2n: "m_table ms2 ! node_ref n = Some x"
    using sub_facts(5)[OF facts(7)] child(2) facts(6) by simp
  have frame: "m_table ms' ! i = m_table ms ! i" if "i \<notin># list_refs ((c, n) # es)" for i
    using that t2[of i] rest_facts(5)[of i] by simp
  note sub_at = g2(3)
  have place: "\<exists>y. map_option g_cctx (gnode_at (c # p) g') = Some (Some y) \<and> m_table ms' ! node_ref m = Some y"
    if m: "node_at p n = Some m" for p m
  proof -
    have "\<exists>y. map_option g_cctx (gnode_at p sub) = Some (Some y) \<and> m_table ms2 ! node_ref m = Some y"
    proof (cases "p = []")
      case True
      then show ?thesis using m t2n sub_facts(3) child(7) by simp
    next
      case False
      then show ?thesis using merged_places[OF sub facts(3) m] by simp
    qed
    then obtain y where y: "map_option g_cctx (gnode_at (c # p) ?g2) = Some (Some y)" "m_table ms2 ! node_ref m = Some y"
      unfolding sub_at by blast
    have "node_ref m \<notin># list_refs es" using facts(9) node_at_refs[OF m facts(3)] by blast
    then have "m_table ms' ! node_ref m = Some y" using rest_facts(5) y(2) by simp
    then show ?thesis using y(1) rest_facts(4) unfolding global_ext_def by blast
  qed
  moreover have "\<exists>y. map_option g_cctx (gnode_at (fst e # p) g') = Some (Some y) \<and> m_table ms' ! node_ref m = Some y"
    if "e \<in> set es" "node_at p (snd e) = Some m" for e p m
    using rest_facts(6)[OF that] .
  ultimately show ?thesis
    using step' rest_facts(2,3) ext frame child(4) unfolding merged_def by auto
qed

lemma merge_children_ok:
  assumes "registry_ok reg cdef" "resolver_env_ok (te_resolver env)"
    "resolvers_ok (m_resolvers ms)" "global_ok (ms_cdef cdef ms) g" "mergeable es (length (m_table ms))"
    "\<And>e. e \<in> set es \<Longrightarrow> line_context (fst e) \<Longrightarrow> g_cctx g \<noteq> None"
  shows "\<exists>g' ms'. merge_children reg env es g ms = Inr (g', ms') \<and> merged reg cdef es g ms g' ms'"
  using assms(3-)
proof (induction es arbitrary: g ms rule: children_induct)
  case 1
  then show ?case by (simp add: merged_def ms_step_refl)
next
  case (2 c n es)
  note facts = mergeable_Cons[OF 2(5)]
  obtain it g1 ms1 where ch: "global_child reg env c g ms = Inr (it, g1, ms1)" "ms_step reg cdef ms ms1"
    "m_table ms1 = m_table ms" "global_ok (ms_cdef cdef ms1) g1" "g_cctx g1 = g_cctx g" "global_ext g g1"
    "std_find cctx_lt c (g_children g1) = Some it" "g_cctx (snd it) \<noteq> None"
    using global_child_ok[OF assms(1,2) 2(3,4) facts(4)] 2(6)[of "(c, n)"] by auto
  then obtain x where x: "g_cctx (snd it) = Some x" by blast
  let ?ms = "enter_context (fst it) (ms1\<lparr>m_table := (m_table ms1)[node_ref n := Some x]\<rparr>)"
  have rs1: "resolvers_ok (m_resolvers ms1)" using ch(2) by (simp add: ms_step_def)
  have "it \<in> set (g_children g1)"
    using cctx_key.std_find_Some[OF _ ch(7)] ch(4) by (simp add: global_ok_alt[of _ g1])
  then have it_ok: "global_ok (ms_cdef cdef ms1) (snd it)" using ch(4) by (simp add: global_ok_alt[of _ g1])
  have "resolvers_ok (m_resolvers ?ms)" "global_ok (ms_cdef cdef ?ms) (snd it)" "mergeable (children n) (length (m_table ?ms))"
    using rs1 it_ok facts(1) ch(3) by simp_all
  then obtain sub ms2 where sub: "merge_children reg env (children n) (snd it) ?ms = Inr (sub, ms2)"
    "merged reg cdef (children n) (snd it) ?ms sub ms2"
    using 2(1)[of ?ms "snd it"] ch(8) by blast
  let ?g2 = "GNode (g_cctx g1) (std_update cctx_lt c (\<lambda>_. sub) (g_children g1))"
  note sub_facts = mergedD[OF sub(2)]
  have step2: "ms_step reg cdef ms1 ms2" using sub_facts(1) by (simp add: ms_step_def)
  have ok1: "global_ok (ms_cdef cdef ms2) g1" using global_ok_mono[OF ch(4)] ms_step_cdef[OF step2] by blast
  have ok2: "global_ok (ms_cdef cdef ms2) ?g2"
    using global_update(1)[OF ok1 ch(7) sub_facts(2-4)] .
  have len2: "length (m_table ms2) = length (m_table ms)" "resolvers_ok (m_resolvers ms2)"
    using step2 ch(3) by (simp_all add: ms_step_def)
  have "g_cctx ?g2 \<noteq> None" if "e \<in> set es" "line_context (fst e)" for e
    using 2(6)[of e] that ch(5) by auto
  then obtain g' ms' where rest: "merge_children reg env es ?g2 ms2 = Inr (g', ms')" "merged reg cdef es ?g2 ms2 g' ms'"
    using 2(2)[OF len2(2) ok2] facts(2) len2(1) by auto
  have "merge_children reg env ((c, n) # es) g ms = Inr (g', ms')"
    using ch(1,3) x sub(1) rest(1) facts(6) by (simp add: table_set_def merge_nodes_children)
  moreover have "merged reg cdef ((c, n) # es) g ms g' ms'"
    using merged_Cons[OF 2(5) ch(2,3,6,5,4,7) x sub(2) rest(2)] .
  ultimately show ?case by blast
qed

lemma refs_places: "node_ok n \<Longrightarrow> i \<in># node_refs n \<Longrightarrow> \<exists>p m. node_at p n = Some m \<and> node_ref m = i"
proof (induction n)
  case (Node r ch)
  show ?case
  proof (cases "i = r")
    case True
    then show ?thesis by (intro exI[of _ "[]"]) simp
  next
    case False
    then obtain e where e: "e \<in> set ch" "i \<in># node_refs (snd e)" using Node.prems(2) by auto
    moreover have "node_ok (snd e)" using Node.prems(1) e(1) by (simp add: node_ok_alt[of "Node r ch"])
    ultimately obtain p m where "node_at p (snd e) = Some m" "node_ref m = i"
      using Node.IH[of e "snd e"] by (auto simp: snds.simps)
    moreover have "std_lookup cctx_lt ch (fst e) = Some (snd e)"
      using cctx_key.std_find_member[of ch e] e(1) node_ok_sorted[OF Node.prems(1)] by (simp add: std_lookup_def)
    ultimately show ?thesis by (intro exI[of _ "fst e # p"]) simp
  qed
qed

section \<open>Properties\<close>

text \<open>
  A local tree that is ready for the merge: its users have left it in a reachable state and finished it, and its
  addresses, GPU kernels and OpenMP regions are below a process or thread, as all writers enter them.
\<close>

definition merge_ready :: "local_cctx_tree \<Rightarrow> bool" where
  "merge_ready t \<longleftrightarrow> lt_reachable t \<and> num_cctx t = lt_next_cctx_ref t \<and> roots_free (lt_tree t) \<and>
    (\<forall>e \<in> set (children (lt_tree t)). \<not> line_context (fst e))"

text \<open>The table of a tree leads from its references to the calling contexts at the same places of a global tree.\<close>

definition maps_tree :: "local_cctx_tree \<Rightarrow> nat option list \<Rightarrow> global_cctx_node \<Rightarrow> bool" where
  "maps_tree t table g \<longleftrightarrow> length table = num_cctx t \<and>
    (\<forall>p m. p \<noteq> [] \<and> node_at p (lt_tree t) = Some m \<longrightarrow>
      (\<exists>x. map_option g_cctx (gnode_at p g) = Some (Some x) \<and> table ! node_ref m = Some x))"

lemma maps_tree_ext: "maps_tree t table g \<Longrightarrow> global_ext g g' \<Longrightarrow> maps_tree t table g'"
  unfolding maps_tree_def global_ext_def by blast

lemma merge_ready_mergeable:
  assumes "merge_ready t"
  shows "mergeable (children (lt_tree t)) (num_cctx t)" "list_refs (children (lt_tree t)) = mset [0..<num_cctx t]"
    "node_ok (lt_tree t)"
proof -
  have inv: "tree_inv t" using lt_reachable_inv assms by (auto simp: merge_ready_def lt_inv_def)
  show refs: "list_refs (children (lt_tree t)) = mset [0..<num_cctx t]"
  proof -
    have "add_mset 0 (list_refs (children (lt_tree t))) = add_mset 0 (mset [0..<num_cctx t])"
      using inv assms node_refs_alt[of "lt_tree t"] unfolding tree_inv_def merge_ready_def by metis
    then show ?thesis by simp
  qed
  show ok: "node_ok (lt_tree t)" using inv by (simp add: tree_inv_def)
  have "count (mset [0..<num_cctx t]) i \<le> 1" for i
    using distinct_count_atmost_1[of "[0..<num_cctx t]"] by (simp split: if_splits)
  then show "mergeable (children (lt_tree t)) (num_cctx t)"
    using ok assms refs node_ok_alt[of "lt_tree t"] roots_free_alt[of "lt_tree t"]
    unfolding mergeable_def refs merge_ready_def by simp
qed

lemma merge_calling_contexts_ok:
  assumes "registry_ok reg cdef" "resolver_env_ok (te_resolver env)" "resolvers_ok rs"
    "global_ok (cdef (tr_registry tr)) (tr_tree tr)" "merge_ready t"
  shows "\<exists>table rs' tr'. merge_calling_contexts reg env t rs tr = Inr (table, rs', tr') \<and> resolvers_ok rs' \<and>
    tr_grows reg cdef UNIV tr (tr'\<lparr>tr_tree := tr_tree tr\<rparr>) \<and> global_ok (cdef (tr_registry tr')) (tr_tree tr') \<and>
    global_ext (tr_tree tr) (tr_tree tr') \<and> maps_tree t table (tr_tree tr')"
proof -
  let ?ms = "\<lparr>m_trace = tr, m_resolvers = rs, m_table = replicate (num_cctx t) None, m_process = Process_invalid\<rparr>"
  note ready = merge_ready_mergeable[OF assms(5)]
  obtain g ms where run: "merge_children reg env (children (lt_tree t)) (tr_tree tr) ?ms = Inr (g, ms)"
    and mg: "merged reg cdef (children (lt_tree t)) (tr_tree tr) ?ms g ms"
    using merge_children_ok[OF assms(1,2), of ?ms "tr_tree tr" "children (lt_tree t)"] assms(3-5) ready(1)
    by (auto simp: merge_ready_def)
  note facts = mergedD[OF mg]
  have places: "\<exists>x. map_option g_cctx (gnode_at p g) = Some (Some x) \<and> m_table ms ! node_ref m = Some x"
    if "p \<noteq> []" "node_at p (lt_tree t) = Some m" for p m
    using merged_places[OF mg ready(3)] that by blast
  have len: "length (m_table ms) = num_cctx t" using facts(1) by (simp add: ms_step_def)
  have "m_table ms ! i \<noteq> None" if i: "i < num_cctx t" for i
  proof -
    have "i \<in># list_refs (children (lt_tree t))" using ready(2) i by simp
    then obtain e where e: "e \<in> set (children (lt_tree t))" "i \<in># node_refs (snd e)" by auto
    moreover from this have "node_ok (snd e)" using ready(1) by (simp add: mergeable_def)
    ultimately obtain p m where "node_at p (snd e) = Some m" "node_ref m = i" using refs_places by blast
    then show ?thesis using facts(6)[OF e(1)] by auto
  qed
  then have "None \<notin> set (m_table ms)" by (auto simp: in_set_conv_nth len)
  then have "merge_calling_contexts reg env t rs tr = Inr (m_table ms, m_resolvers ms, (m_trace ms)\<lparr>tr_tree := g\<rparr>)"
    by (simp add: merge_calling_contexts_def merge_nodes_children run)
  moreover have "tr_grows reg cdef UNIV tr (((m_trace ms)\<lparr>tr_tree := g\<rparr>)\<lparr>tr_tree := tr_tree tr\<rparr>)"
    using facts(1) by (simp add: ms_step_def tr_grows_def)
  moreover have "maps_tree t (m_table ms) g" using places len by (simp add: maps_tree_def)
  ultimately show ?thesis using facts(1,2,4) by (simp add: ms_step_def)
qed

lemma merge_trees_ok:
  assumes "registry_ok reg cdef" "resolver_env_ok (te_resolver env)" "resolvers_ok rs"
    "global_ok (cdef (tr_registry tr)) (tr_tree tr)" "groups_ok (tr_groups tr)"
    "\<And>t. t \<in> set ts \<Longrightarrow> num_cctx t > 0 \<Longrightarrow> merge_ready t"
  shows "\<exists>rs' tr' new. merge_trees reg env ts rs tr = Inr (rs', tr') \<and> groups_ok (tr_groups tr') \<and>
    global_ok (cdef (tr_registry tr')) (tr_tree tr') \<and> global_ext (tr_tree tr) (tr_tree tr') \<and>
    tr_mappings tr' = tr_mappings tr @ new \<and> map fst new = filter (\<lambda>t. num_cctx t > 0) ts \<and>
    (\<forall>e \<in> set new. maps_tree (fst e) (snd e) (tr_tree tr'))"
  using assms(3-)
proof (induction ts arbitrary: rs tr)
  case (Cons t ts)
  show ?case
  proof (cases "num_cctx t > 0")
    case True
    then have ready: "merge_ready t" using Cons.prems(4) by simp
    obtain table rs1 tr1 where m: "merge_calling_contexts reg env t rs tr = Inr (table, rs1, tr1)" "resolvers_ok rs1"
      "tr_grows reg cdef UNIV tr (tr1\<lparr>tr_tree := tr_tree tr\<rparr>)" "global_ok (cdef (tr_registry tr1)) (tr_tree tr1)"
      "global_ext (tr_tree tr) (tr_tree tr1)" "maps_tree t table (tr_tree tr1)"
      using merge_calling_contexts_ok[OF assms(1,2) Cons.prems(1,2) ready] by blast
    let ?tr = "tr1\<lparr>tr_mappings := tr_mappings tr1 @ [(t, table)]\<rparr>"
    have "groups_ok (tr_groups ?tr)" using m(3) Cons.prems(3) by (simp add: tr_grows_def)
    moreover have "global_ok (cdef (tr_registry ?tr)) (tr_tree ?tr)" using m(4) by simp
    ultimately obtain rs' tr' new where ih: "merge_trees reg env ts rs1 ?tr = Inr (rs', tr')"
      "groups_ok (tr_groups tr')" "global_ok (cdef (tr_registry tr')) (tr_tree tr')"
      "global_ext (tr_tree ?tr) (tr_tree tr')" "tr_mappings tr' = tr_mappings ?tr @ new"
      "map fst new = filter (\<lambda>t. num_cctx t > 0) ts" "\<forall>e \<in> set new. maps_tree (fst e) (snd e) (tr_tree tr')"
      using Cons.IH[OF m(2), of ?tr] Cons.prems(4) by auto
    have "merge_trees reg env (t # ts) rs tr = Inr (rs', tr')" using True m(1) ih(1) by simp
    moreover have "tr_mappings tr' = tr_mappings tr @ (t, table) # new"
      using m(3) ih(5) by (simp add: tr_grows_def)
    moreover have "global_ext (tr_tree tr) (tr_tree tr')" using global_ext_trans[OF m(5)] ih(4) by simp
    moreover have "maps_tree t table (tr_tree tr')" using maps_tree_ext[OF m(6)] ih(4) by simp
    ultimately show ?thesis using ih(2,3,6,7) True by (intro exI[of _ rs'] exI[of _ tr'] exI[of _ "(t, table) # new"]) simp
  next
    case False
    then show ?thesis using Cons.IH[OF Cons.prems(1-3)] Cons.prems(4) by auto
  qed
qed simp

lemma get_process_ok: "groups_ok g \<Longrightarrow> \<exists>q. get_process g t = Inr q"
  by (auto simp: get_process_lookup split: option.split elim: groups_thread_lookup)

lemma maps_property_ok:
  assumes "registry_ok reg cdef" "groups_ok (tr_groups tr)"
  shows "\<exists>tr'. maps_property reg rs th tr = Inr tr' \<and> tr_grows reg cdef UNIV tr tr'"
proof -
  note ok = assms(1)
  obtain q where q: "get_process (tr_groups tr) th = Inr q" using get_process_ok[OF assms(2)] by blast
  have "tr_grows reg cdef UNIV tr tr3"
    if s: "intern reg ''MAPS'' tr = (i, tr1)" "intern reg (mm_to_string mm) tr1 = (v, tr2)"
      "tr_create reg None (D_calling_context_property c i v) tr2 = (pr, tr3)" for i tr1 mm v tr2 c pr tr3
    using intern_grows[OF ok s(1), of UNIV] intern_grows[OF ok s(2), of UNIV] tr_create_grows(1)[OF ok _ s(3), of UNIV]
    by (auto intro: tr_grows_trans)
  then show ?thesis
    by (auto simp: maps_property_def q Let_def split: sum.split option.split prod.split)
qed

lemma maps_properties_ok:
  assumes "registry_ok reg cdef"
  shows "groups_ok (tr_groups tr) \<Longrightarrow>
    \<exists>tr'. maps_properties reg rs ths tr = Inr tr' \<and> tr_grows reg cdef UNIV tr tr'"
proof (induction ths arbitrary: tr)
  case (Cons th ths)
  obtain tr1 where tr1: "maps_property reg rs th tr = Inr tr1" "tr_grows reg cdef UNIV tr tr1"
    using maps_property_ok[OF assms Cons.prems] by blast
  moreover from this have "groups_ok (tr_groups tr1)" using Cons.prems by (simp add: tr_grows_def)
  ultimately show ?case using Cons.IH tr_grows_trans[OF tr1(2)] by auto
qed simp

text \<open>
  C2. Finalizing a trace merges all local calling context trees: when the resolvers answer, neither an exception
  nor a failed assertion occurs. Every tree with contexts gets a table with one defined entry per reference,
  and following the table from any node of a local tree leads to the calling context that the final global
  tree has at the same place. The calling contexts that existed before keep their places, every calling
  context of an address, GPU kernel or OpenMP region is a child of the calling context it was sampled in,
  and afterwards the list of local trees is empty and the trace counts as finalized.
\<close>
theorem finalize_maps_contexts:
  assumes "registry_ok reg cdef" "resolver_env_ok (te_resolver env)"
    "process_key.sorted_keys (function_resolvers rs)"
    "global_ok (cdef (tr_registry tr)) (tr_tree tr)" "groups_ok (tr_groups tr)"
    "\<forall>t \<in> set (tr_local_trees tr). num_cctx t > 0 \<longrightarrow> merge_ready t"
  shows "\<exists>rs' tr' new. trace_finalize reg env rs tr = Inr (rs', tr') \<and>
    global_ok (cdef (tr_registry tr')) (tr_tree tr') \<and> global_ext (tr_tree tr) (tr_tree tr') \<and>
    tr_mappings tr' = tr_mappings tr @ new \<and> map fst new = filter (\<lambda>t. num_cctx t > 0) (tr_local_trees tr) \<and>
    (\<forall>e \<in> set new. maps_tree (fst e) (snd e) (tr_tree tr')) \<and> tr_local_trees tr' = [] \<and> tr_finalized tr'"
proof -
  obtain rs1 tr1 new where m: "merge_trees reg env (tr_local_trees tr) rs tr = Inr (rs1, tr1)" "groups_ok (tr_groups tr1)"
    "global_ok (cdef (tr_registry tr1)) (tr_tree tr1)" "global_ext (tr_tree tr) (tr_tree tr1)"
    "tr_mappings tr1 = tr_mappings tr @ new" "map fst new = filter (\<lambda>t. num_cctx t > 0) (tr_local_trees tr)"
    "\<forall>e \<in> set new. maps_tree (fst e) (snd e) (tr_tree tr1)"
    using merge_trees_ok[OF assms(1-5), of "tr_local_trees tr"] assms(6) by blast
  obtain tr2 where p: "maps_properties reg rs1 (map fst (tr_thread_names tr1)) tr1 = Inr tr2" "tr_grows reg cdef UNIV tr1 tr2"
    using maps_properties_ok[OF assms(1) m(2)] by blast
  have "tr_tree tr2 = tr_tree tr1" "tr_mappings tr2 = tr_mappings tr1" using p(2) by (simp_all add: tr_grows_def)
  moreover have "global_ok (cdef (tr_registry tr2)) (tr_tree tr1)"
    using global_ok_mono[OF m(3)] p(2) unfolding tr_grows_def by blast
  moreover have "trace_finalize reg env rs tr = Inr (rs1, tr2\<lparr>tr_local_trees := [], tr_finalized := True\<rparr>)"
    using m(1) p(1) by (simp add: trace_finalize_def)
  ultimately show ?thesis using m(4-7) by (intro exI[of _ rs1] exI[of _ "tr2\<lparr>tr_local_trees := [], tr_finalized := True\<rparr>"] exI[of _ new]) simp
qed

text \<open>A registry as a list of definitions with their keys, which shows that the laws can hold.\<close>

type_synonym list_registry = "(reg_key option \<times> otf2_def) list"

definition entry_matches :: "def_kind \<Rightarrow> reg_key \<Rightarrow> reg_key option \<times> otf2_def \<Rightarrow> bool" where
  "entry_matches kd k e \<longleftrightarrow> kind_of (snd e) = kd \<and> (case fst e of None \<Rightarrow> False | Some l \<Rightarrow> same_key l k)"

definition list_get :: "def_kind \<Rightarrow> reg_key \<Rightarrow> list_registry \<Rightarrow> nat option" where
  "list_get kd k r = List.find (\<lambda>i. entry_matches kd k (r ! i)) [0..<length r]"

definition list_create :: "reg_key option \<Rightarrow> otf2_def \<Rightarrow> list_registry \<Rightarrow> nat \<times> list_registry" where
  "list_create ko d r = (length r, r @ [(ko, d)])"

definition list_registry :: "list_registry registry" where
  "list_registry = \<lparr>reg_get = list_get, reg_create = list_create,
    reg_emplace = (\<lambda>k d r. case list_get (kind_of d) k r of Some x \<Rightarrow> (x, r) | None \<Rightarrow> list_create (Some k) d r),
    reg_change = (\<lambda>c r. r)\<rparr>"

definition list_cdef :: "list_registry \<Rightarrow> nat \<Rightarrow> cctx_data option" where
  "list_cdef r x = (if x < length r then (case snd (r ! x) of D_calling_context g s p \<Rightarrow> Some (g, s, p) | _ \<Rightarrow> None) else None)"

lemma list_registry_simps [simp]:
  "reg_get list_registry = list_get" "reg_create list_registry = list_create" "reg_change list_registry = (\<lambda>c r. r)"
  "reg_emplace list_registry k d r = (case list_get (kind_of d) k r of Some x \<Rightarrow> (x, r) | None \<Rightarrow> list_create (Some k) d r)"
  by (simp_all add: list_registry_def)

lemma same_key_sym: "same_key k l = same_key l k"
  by (cases k; cases l) (auto simp: same_key_def line_info_eq_def)

lemma same_key_trans: "same_key k l \<Longrightarrow> same_key l m \<Longrightarrow> same_key k m"
  by (cases k; cases l; cases m) (auto simp: same_key_def line_info_eq_def)

lemma entry_matches_same: "same_key k l \<Longrightarrow> entry_matches kd k = entry_matches kd l"
proof -
  assume kl: "same_key k l"
  have "same_key m k \<longleftrightarrow> same_key m l" for m
    using kl same_key_trans[of m k l] same_key_trans[of m l k] same_key_sym[of k l] by blast
  then show ?thesis by (intro ext) (simp add: entry_matches_def split: option.split)
qed

lemma find_append: "List.find P (xs @ ys) = (case List.find P xs of None \<Rightarrow> List.find P ys | Some x \<Rightarrow> Some x)"
  by (induction xs) auto

lemma list_get_create:
  "list_get kd k (snd (list_create ko d r)) =
    (case list_get kd k r of Some x \<Rightarrow> Some x | None \<Rightarrow> if entry_matches kd k (ko, d) then Some (length r) else None)"
proof -
  have "List.find (\<lambda>i. entry_matches kd k ((r @ [(ko, d)]) ! i)) [0..<length r] = list_get kd k r"
    unfolding list_get_def by (intro find_cong) (auto simp: nth_append)
  then show ?thesis by (simp add: list_get_def[of kd k "r @ [(ko, d)]"] list_create_def find_append split: option.split)
qed

lemma list_create_added:
  assumes "\<And>k. ko = Some k \<Longrightarrow> list_get (kind_of d) k r = None"
  shows "reg_added list_registry list_cdef ko d r (list_create ko d r)"
proof -
  have "list_get (kind_of d) k r = None" if "ko = Some l" "same_key l k" for k l
    using assms[OF that(1)] entry_matches_same[OF that(2)] by (simp add: list_get_def)
  then have "list_get kd k (snd (list_create ko d r)) =
      (if kd = kind_of d \<and> (\<exists>l. ko = Some l \<and> same_key l k) then Some (fst (list_create ko d r)) else list_get kd k r)" for kd k
    unfolding list_get_create by (auto simp: entry_matches_def list_create_def split: option.splits)
  then show ?thesis
    by (auto simp: reg_added_def list_cdef_def list_create_def nth_append split: if_splits)
qed

lemma list_registry_ok: "registry_ok list_registry list_cdef"
proof -
  have "list_get kd k r = list_get kd l r" if "same_key k l" for kd k l r
    using entry_matches_same[OF that] by (simp add: list_get_def)
  moreover have "reg_added list_registry list_cdef None d r (list_create None d r)" for d r
    using list_create_added[of None] by simp
  moreover have "reg_added list_registry list_cdef (Some k) d r (list_create (Some k) d r)" if "list_get (kind_of d) k r = None" for k d r
    using list_create_added[of "Some k"] that by simp
  ultimately show ?thesis unfolding registry_ok_def list_registry_simps by blast
qed

definition example_trace_env :: trace_env where
  "example_trace_env = \<lparr>te_resolver = \<lparr>re_kallsyms = kallsyms_empty,
      re_perf_map = (\<lambda>_. \<lparr>pm_entries = [], pm_start = UINT64_MAX, pm_end = UINT64_MAX\<rparr>),
      re_dwarf_opens = (\<lambda>_. False), re_dwarf_lookup = (\<lambda>f a. Inr (for_binary f))\<rparr>,
    te_cmdline = (\<lambda>_. None), te_audit_name = (\<lambda>_. None)\<rparr>"

lemma example_trace_env_ok: "resolver_env_ok (te_resolver example_trace_env)"
proof -
  have "ProcessFunctionMap_new (te_resolver example_trace_env) p = Inr [(Memory_Map.span UINT64_MAX UINT64_MAX, R_kernel)]" for p
    by (simp add: example_trace_env_def ProcessFunctionMap_new_def kallsyms_empty_def has_perf_map_def Mapping_new_def
      Range_new_def mm_emplace_def mm_trim_start_def mm_trim_end_def Mapping_point_ok std_find_def Let_def std_emplace_def)
  then show ?thesis by (simp add: resolver_env_ok_def example_trace_env_def)
qed

definition example_local :: local_cctx_tree where
  "example_local =
    \<lparr>lt_tree = Node 0 [(CC_PROCESS (Process 7), Node 0 [(CC_THREAD (Thread 9), Node 1 [(CC_SAMPLE_ADDR 16, Node 2 [])])])],
     lt_cur = [CC_ROOT, CC_PROCESS (Process 7), CC_THREAD (Thread 9), CC_SAMPLE_ADDR 16],
     lt_ref_count = 0, lt_next_cctx_ref = 3, lt_written = [Cctx_enter 5 0 2, Cctx_enter 5 1 2, Cctx_enter 5 2 2]\<rparr>"

lemma example_local_enter:
  "cctx_enter (0, 0, 0) 5 [CC_PROCESS (Process 7), CC_THREAD (Thread 9), CC_SAMPLE_ADDR 16] local_cctx_tree_new =
    Inr (1, example_local)"
  by (simp add: example_local_def cctx_enter_def local_cctx_tree_new_def cur_level_def handle_enter_cctx_node_def
      push_cctx_def create_cctx_node_def ref_at_def lt_write_def std_emplace_def std_find_def std_lookup_def
      std_update_def cctx_lt_def cctx_less_def process_less_def thread_less_def)

lemma example_local_ready: "merge_ready (lt_finalize example_local)"
proof -
  have "lt_reachable example_local"
    by (rule lt_reachable.enter[OF lt_reachable.new _ example_local_enter]) simp
  from lt_reachable.finish[OF this] show ?thesis
    by (simp add: merge_ready_def num_cctx_def lt_finalize_def example_local_def)
qed

definition example_trace :: "list_registry trace" where
  "example_trace = \<lparr>tr_registry = [], tr_tree = GNode None [], tr_thread_names = [], tr_groups = [],
    tr_local_trees = [lt_finalize example_local, local_cctx_tree_new], tr_finalized = False, tr_root_node = 0,
    tr_comm_locations_group = 0, tr_lo2s_regions_group = 0, tr_syscall_regions_group = 0, tr_kernel_regions_group = 0,
    tr_mappings = [], tr_hardware_locations_group = 1, tr_interrupt_generator = 0, tr_nec_interrupt_generator = None,
    tr_cpuid_metric_class = None, tr_bio_node = None, tr_bio_paradigm = None, tr_bio_comm_group = None,
    tr_posix_paradigm = None, tr_posix_comm_group = None, tr_properties = [], tr_times = (0, 0)\<rparr>"

definition no_resolvers :: resolvers where
  "no_resolvers = \<lparr>function_resolvers = [], gpu_function_resolvers = []\<rparr>"

theorem finalize_maps_contexts_witness:
  "\<exists>rs' tr' new. trace_finalize list_registry example_trace_env no_resolvers example_trace = Inr (rs', tr') \<and>
    global_ok (list_cdef (tr_registry tr')) (tr_tree tr') \<and> global_ext (tr_tree example_trace) (tr_tree tr') \<and>
    tr_mappings tr' = tr_mappings example_trace @ new \<and>
    map fst new = filter (\<lambda>t. num_cctx t > 0) (tr_local_trees example_trace) \<and>
    (\<forall>e \<in> set new. maps_tree (fst e) (snd e) (tr_tree tr')) \<and> tr_local_trees tr' = [] \<and> tr_finalized tr'"
  by (rule finalize_maps_contexts[OF list_registry_ok example_trace_env_ok])
    (use example_local_ready in \<open>simp_all add: no_resolvers_def example_trace_def groups_ok_def num_cctx_def local_cctx_tree_new_def\<close>)

end
