(* ===== verification/Tracepoint.thy ===== *)
theory Tracepoint
  imports Proc_Util
begin

text \<open>
  Tracepoints: the description of their fields (\<^verbatim>\<open>src/perf/tracepoint/event_attr.cpp\<close>, \<^verbatim>\<open>include/lo2s/perf/tracepoint/format.hpp\<close>),
  reading fields from the raw data of a record (\<^verbatim>\<open>include/lo2s/perf/tracepoint/reader.hpp\<close>) and the writer that puts
  them into a metric event (\<^verbatim>\<open>src/perf/tracepoint/writer.cpp\<close>).
\<close>

section \<open>Fields\<close>

record event_field =
  ef_name :: string
  ef_offset :: int
  ef_size :: nat

definition is_integer :: "event_field \<Rightarrow> bool" where
  "is_integer f \<longleftrightarrow> ef_size f = 1 \<or> ef_size f = 2 \<or> ef_size f = 4 \<or> ef_size f = 8"

definition field_valid :: "event_field \<Rightarrow> bool" where
  "field_valid f \<longleftrightarrow> ef_size f > 0"

record tracepoint_attr =
  tp_name :: string
  tp_id :: int
  tp_fields :: "event_field list"

definition field_regex :: regex where
  "field_regex = re_seq [Plus is_space, re_lit ''field:'', Group (Plus (\<lambda>c. c \<noteq> CHR '';'')), re_lit '';'', Plus is_space,
    re_lit ''offset:'', Group (Plus is_digit), re_lit '';'', Plus is_space, re_lit ''size:'', Group (Plus is_digit),
    re_lit '';'', Plus is_space, re_lit ''signed:'', Group (Plus is_digit), re_lit '';'']"

definition type_name_regex :: regex where
  "type_name_regex = re_seq [Group (Star re_dot), re_lit '' '',
    Group (Plus (\<lambda>c. c \<noteq> CHR '' '' \<and> c \<noteq> CHR ''['' \<and> c \<noteq> CHR '']'')),
    Opt (Group (re_seq [re_lit ''['', Plus (\<lambda>c. c \<noteq> CHR '']''), re_lit '']'']))]"

text \<open>\<^verbatim>\<open>std::stol\<close> of a string of digits.\<close>

definition stol_digits :: "string \<Rightarrow> int result" where
  "stol_digits s = (if 2 ^ 63 \<le> digits_value s then Inl Out_of_range else Inr (int (digits_value s)))"

definition parse_format_line :: "string \<Rightarrow> tracepoint_attr \<Rightarrow> tracepoint_attr result" where
  "parse_format_line line a =
    (case regex_match field_regex line of
       Some [param, off, sz, sg] \<Rightarrow>
         sum_bind (stol_digits off) (\<lambda>offset.
         sum_bind (stol_digits sz) (\<lambda>sz.
           case regex_match type_name_regex param of
             Some [ty, name, dim] \<Rightarrow>
               if starts_with name ''common_'' then Inr a
               else Inr (a\<lparr>tp_fields := tp_fields a @ [\<lparr>ef_name = name, ef_offset = offset, ef_size = nat sz\<rparr>]\<rparr>)
           | _ \<Rightarrow> Inr a))
     | _ \<Rightarrow> Inr a)"

fun parse_format_lines :: "string list \<Rightarrow> tracepoint_attr \<Rightarrow> tracepoint_attr result" where
  "parse_format_lines [] a = Inr a"
| "parse_format_lines (line # ls) a = sum_bind (parse_format_line line a) (parse_format_lines ls)"

text \<open>
  \<open>parse_format\<close>. The files below the path of the event are arguments: the number in the file \<^verbatim>\<open>id\<close>, when it can be
  read, and the lines of the file \<^verbatim>\<open>format\<close>, when it can be opened.
\<close>

definition slash_name :: "string \<Rightarrow> string" where
  "slash_name name = map (\<lambda>c. if c = CHR '':'' then CHR ''/'' else c) name"

definition parse_format ::
    "(string \<Rightarrow> int option) \<Rightarrow> (string \<Rightarrow> string list option) \<Rightarrow> string \<Rightarrow> tracepoint_attr result" where
  "parse_format id_file format_file name =
    (let name = slash_name name in
     case id_file name of
       None \<Rightarrow> Inl (Runtime_error ''Failed to read tracepoint ID file'')
     | Some i \<Rightarrow>
       (case format_file name of
          None \<Rightarrow> Inl (Runtime_error ''Failed to open tracepoint format file'')
        | Some lines \<Rightarrow> parse_format_lines lines \<lparr>tp_name = name, tp_id = i, tp_fields = []\<rparr>))"

definition find_field :: "tracepoint_attr \<Rightarrow> string \<Rightarrow> event_field result" where
  "find_field a name =
    (case List.find (\<lambda>f. ef_name f = name) (tp_fields a) of Some f \<Rightarrow> Inr f | None \<Rightarrow> Inl Out_of_range)"

section \<open>Raw data\<close>

text \<open>The size the kernel reports and the bytes that follow it.\<close>

record raw_record =
  rr_size :: u32
  rr_data :: "byte list"

definition le_value :: "byte list \<Rightarrow> nat" where
  "le_value bs = foldr (\<lambda>b acc. unat b + 256 * acc) bs 0"

text \<open>\<open>_get<TT>\<close> for the signed type of \<open>n\<close> bytes; reading past the record is undefined.\<close>

definition get_signed :: "nat \<Rightarrow> int \<Rightarrow> raw_record \<Rightarrow> int result" where
  "get_signed n offset r =
    sum_bind (cpp_assert (offset \<ge> 0)) (\<lambda>_.
    sum_bind (cpp_assert (word_of_int offset + (word_of_nat n :: u64) \<le> ucast (rr_size r))) (\<lambda>_.
      if nat offset + n \<le> length (rr_data r)
      then let v = le_value (take n (drop (nat offset) (rr_data r))) in
        Inr (if v < 2 ^ (8 * n - 1) then int v else int v - 2 ^ (8 * n))
      else Inl Memory_fault))"

definition raw_get :: "event_field \<Rightarrow> raw_record \<Rightarrow> u64 result" where
  "raw_get f r =
    (if is_integer f then sum_bind (get_signed (ef_size f) (ef_offset f) r) (\<lambda>v. Inr (word_of_int v)) else Inr 0)"

definition raw_get_str :: "event_field \<Rightarrow> raw_record \<Rightarrow> string result" where
  "raw_get_str f r =
    (let bs = take (ef_size f) (drop (nat (ef_offset f)) (rr_data r)); cs = takeWhile (\<lambda>b. b \<noteq> 0) bs in
     if ef_offset f < 0 \<or> (length cs = length bs \<and> length bs < ef_size f) then Inl Memory_fault
     else Inr (map (\<lambda>b. char_of (unat b)) cs))"

section \<open>The writer\<close>

fun metric_values :: "event_field list \<Rightarrow> raw_record \<Rightarrow> u64 list result" where
  "metric_values [] r = Inr []"
| "metric_values (f # fs) r =
    (if \<not> is_integer f then metric_values fs r
     else sum_bind (raw_get f r) (\<lambda>v. sum_bind (metric_values fs r) (\<lambda>vs. Inr (v # vs))))"

text \<open>
  \<open>handle\<close>. The metric event has one slot per member of its class; more values than slots would be written past
  the end.
\<close>

definition tracepoint_handle ::
    "(u64 \<Rightarrow> int) \<Rightarrow> tracepoint_attr \<Rightarrow> nat \<Rightarrow> u64 \<Rightarrow> raw_record \<Rightarrow> (int \<times> u64 list) result" where
  "tracepoint_handle conv a slots time r =
    sum_bind (metric_values (tp_fields a) r) (\<lambda>vs.
      if length vs \<le> slots then Inr (conv time, vs @ replicate (slots - length vs) 0) else Inl Memory_fault)"

text \<open>The names of the members that \<^verbatim>\<open>Trace::tracepoint_metric_class\<close> creates for an event.\<close>

definition metric_members :: "tracepoint_attr \<Rightarrow> string list" where
  "metric_members a = map (\<lambda>f. tp_name a @ ''::'' @ ef_name f) (filter is_integer (tp_fields a))"

section \<open>Properties\<close>

text \<open>A value of a signed type of \<open>n\<close> bytes, in the byte order of the record.\<close>

definition le_bytes :: "nat \<Rightarrow> int \<Rightarrow> byte list" where
  "le_bytes n v = map (\<lambda>i. word_of_int (v div 256 ^ i)) [0..<n]"

definition holds_value :: "event_field \<Rightarrow> raw_record \<Rightarrow> int \<Rightarrow> bool" where
  "holds_value f r v \<longleftrightarrow> 0 \<le> ef_offset f \<and> nat (ef_offset f) + ef_size f \<le> unat (rr_size r) \<and>
    unat (rr_size r) \<le> length (rr_data r) \<and> take (ef_size f) (drop (nat (ef_offset f)) (rr_data r)) = le_bytes (ef_size f) v \<and>
    - (2 ^ (8 * ef_size f - 1)) \<le> v \<and> v < 2 ^ (8 * ef_size f - 1)"

lemma le_value_le_bytes: "int (le_value (le_bytes n v)) = v mod 256 ^ n"
proof (induction n arbitrary: v)
  case 0
  then show ?case by (simp add: le_value_def le_bytes_def)
next
  case (Suc n)
  have "le_bytes (Suc n) v = word_of_int v # le_bytes n (v div 256)"
    unfolding le_bytes_def by (simp add: upt_conv_Cons map_Suc_upt[symmetric] o_def zdiv_zmult2_eq del: upt_Suc)
  then have "int (le_value (le_bytes (Suc n) v)) = uint (word_of_int v :: byte) + 256 * ((v div 256) mod 256 ^ n)"
    using Suc[of "v div 256"] by (simp add: le_value_def)
  also have "\<dots> = v mod 256 + 256 * ((v div 256) mod 256 ^ n)" by (simp add: uint_word_of_int)
  also have "\<dots> = v mod (256 * 256 ^ n)" by (subst zmod_zmult2_eq) simp_all
  finally show ?case by simp
qed

lemma pow_256: "(256 :: int) ^ n = 2 ^ (8 * n)"
  by (simp add: power_mult)

lemma get_signed_holds:
  assumes "holds_value f r v" "is_integer f"
  shows "get_signed (ef_size f) (ef_offset f) r = Inr v"
proof -
  let ?n = "ef_size f" and ?o = "ef_offset f"
  have n: "0 < ?n" using assms(2) by (auto simp: is_integer_def)
  have h: "0 \<le> ?o" "nat ?o + ?n \<le> unat (rr_size r)" "unat (rr_size r) \<le> length (rr_data r)"
    "take ?n (drop (nat ?o) (rr_data r)) = le_bytes ?n v" "- (2 ^ (8 * ?n - 1)) \<le> v" "v < 2 ^ (8 * ?n - 1)"
    using assms(1) by (auto simp: holds_value_def)
  have size: "unat (rr_size r) < 2 ^ 32" using unsigned_less[of "rr_size r"] by simp
  have "word_of_int ?o + (word_of_nat ?n :: u64) = word_of_nat (nat ?o + ?n)" using h(1) by (metis int_nat_eq of_int_of_nat_eq of_nat_add)
  moreover have "unat (word_of_nat (nat ?o + ?n) :: u64) = nat ?o + ?n"
    using h(2) size by (simp add: unsigned_of_nat take_bit_nat_eq_self del: of_nat_add)
  moreover have "unat (ucast (rr_size r) :: u64) = unat (rr_size r)"
    using size by (simp add: unsigned_ucast_eq take_bit_nat_eq_self)
  ultimately have fits: "word_of_int ?o + (word_of_nat ?n :: u64) \<le> ucast (rr_size r)"
    using h(2) by (simp add: word_le_nat_alt)
  let ?v = "le_value (le_bytes ?n v)"
  have two: "(2 :: int) ^ (8 * ?n) = 2 * 2 ^ (8 * ?n - 1)" using n by (simp add: power_eq_if)
  have "int ?v = v mod 2 ^ (8 * ?n)" using le_value_le_bytes[of ?n v] by (simp add: pow_256)
  moreover have "v mod 2 ^ (8 * ?n) = (if 0 \<le> v then v else v + 2 ^ (8 * ?n))"
  proof (cases "0 \<le> v")
    case False
    then have "(v + 2 ^ (8 * ?n)) mod 2 ^ (8 * ?n) = v + 2 ^ (8 * ?n)" using h(5) two by (intro mod_pos_pos_trivial) auto
    with False show ?thesis by simp
  qed (use h(6) two in simp)
  ultimately have v: "int ?v = (if 0 \<le> v then v else v + 2 ^ (8 * ?n))" by simp
  have "?v < 2 ^ (8 * ?n - 1) \<longleftrightarrow> 0 \<le> v"
  proof -
    have "?v < 2 ^ (8 * ?n - 1) \<longleftrightarrow> int ?v < 2 ^ (8 * ?n - 1)" using of_nat_less_iff[of ?v "2 ^ (8 * ?n - 1)", where 'a = int] by simp
    then show ?thesis using v h(5,6) two by auto
  qed
  then show ?thesis using h(1-4) fits v by (auto simp: get_signed_def Let_def)
qed

lemma metric_values_holds:
  "(\<And>f. f \<in> set fs \<Longrightarrow> is_integer f \<Longrightarrow> holds_value f r (val f)) \<Longrightarrow>
    metric_values fs r = Inr (map (\<lambda>f. word_of_int (val f)) (filter is_integer fs))"
proof (induction fs)
  case (Cons f fs)
  then have rest: "metric_values fs r = Inr (map (\<lambda>f. word_of_int (val f)) (filter is_integer fs))" by auto
  show ?case
  proof (cases "is_integer f")
    case True
    then have "get_signed (ef_size f) (ef_offset f) r = Inr (val f)" using Cons.prems by (intro get_signed_holds) auto
    with True rest show ?thesis by (simp add: raw_get_def)
  qed (use rest in simp)
qed simp

text \<open>
  C35. For a record that holds a value for every integer field of the event, the writer writes one metric event with
  as many values as the metric class of the event has members, in the order of the members. Each is the value
  of its field: negative numbers of all four widths are extended to 64 bits without change of value, no
  assertion fails and nothing outside of the record is read.
\<close>
theorem tracepoint_metric_values:
  assumes "\<forall>f \<in> set (tp_fields a). is_integer f \<longrightarrow> holds_value f r (val f)"
  shows "\<exists>vs. tracepoint_handle conv a (length (metric_members a)) time r = Inr (conv time, vs) \<and>
    length vs = length (metric_members a) \<and> map sint vs = map val (filter is_integer (tp_fields a))"
proof -
  let ?fs = "filter is_integer (tp_fields a)"
  have "sint (word_of_int (val f) :: u64) = val f" if f: "f \<in> set ?fs" for f
  proof -
    have "holds_value f r (val f)" "ef_size f \<in> {1, 2, 4, 8}" using assms f by (auto simp: is_integer_def)
    then have "- (2 ^ 63) \<le> val f \<and> val f < 2 ^ 63" by (auto simp: holds_value_def)
    then show ?thesis by (simp add: signed_of_int signed_take_bit_int_eq_self)
  qed
  then have "map sint (map (\<lambda>f. word_of_int (val f) :: u64) ?fs) = map val ?fs" by simp
  moreover have "metric_values (tp_fields a) r = Inr (map (\<lambda>f. word_of_int (val f)) ?fs)"
    using assms by (intro metric_values_holds) auto
  ultimately show ?thesis by (simp add: tracepoint_handle_def metric_members_def)
qed

definition example_tracepoint :: tracepoint_attr where
  "example_tracepoint = \<lparr>tp_name = ''power/cpu_idle'', tp_id = 3, tp_fields =
    [\<lparr>ef_name = ''state'', ef_offset = 0, ef_size = 4\<rparr>, \<lparr>ef_name = ''comm'', ef_offset = 4, ef_size = 3\<rparr>,
     \<lparr>ef_name = ''cpu_id'', ef_offset = 7, ef_size = 1\<rparr>]\<rparr>"

theorem tracepoint_metric_values_witness:
  "\<exists>vs. tracepoint_handle uint example_tracepoint (length (metric_members example_tracepoint)) 9
      \<lparr>rr_size = 8, rr_data = [0xFE, 0xFF, 0xFF, 0xFF, 1, 2, 3, 5]\<rparr> = Inr (uint (9 :: u64), vs) \<and>
    length vs = length (metric_members example_tracepoint) \<and>
    map sint vs = map (\<lambda>f. if ef_size f = 4 then - 2 else 5) (filter is_integer (tp_fields example_tracepoint))"
  by (rule tracepoint_metric_values)
    (simp add: example_tracepoint_def holds_value_def le_bytes_def is_integer_def upt_rec)

text \<open>A line of a format file.\<close>

lemma example_format_line:
  "parse_format_line ('' field:int a[2];'' @ '' offset:8; size:4; signed:1;'') a =
    Inr (a\<lparr>tp_fields := tp_fields a @ [\<lparr>ef_name = ''a'', ef_offset = 8, ef_size = 4\<rparr>]\<rparr>)"
proof -
  have "regex_match field_regex ('' field:int a[2];'' @ '' offset:8; size:4; signed:1;'') = Some [''int a[2]'', ''8'', ''4'', ''1'']"
    by (simp add: field_regex_def regex_match_def re_lit_def is_digit_def is_space_def upt_rec)
  moreover have "regex_match type_name_regex ''int a[2]'' = Some [''int'', ''a'', ''[2]'']"
    by (simp add: type_name_regex_def regex_match_def re_lit_def re_dot_def upt_rec)
  ultimately show ?thesis
    by (simp add: parse_format_line_def stol_digits_def digits_value_def digit_value_def starts_with_def)
qed

end
