(* ===== verification/Time_Sync.thy ===== *)
theory Time_Sync
  imports Text_Format
begin

text \<open>
  Clocks and the conversion of perf timestamps to local time (\<^verbatim>\<open>include/lo2s/time/time.hpp\<close>, \<^verbatim>\<open>src/time/time.cpp\<close>,
  \<^verbatim>\<open>include/lo2s/perf/time/\<close>, \<^verbatim>\<open>src/perf/time/\<close>). All times are nanoseconds; sums of time points and offsets stay in
  the range of the 64-bit representation for several centuries and are integers here.
\<close>

section \<open>Clocks\<close>

record timespec =
  tv_sec :: int
  tv_nsec :: int

definition clock_now :: "timespec \<Rightarrow> int" where
  "clock_now tp = tv_sec tp * 1000000000 + tv_nsec tp"

text \<open>The table of a build in which all clocks of Linux are available, with their numbers.\<close>

definition clocks :: "(string \<times> int) list" where
  "clocks = [(''realtime'', 0), (''monotonic'', 1), (''process-cputime-id'', 2), (''process-thread-id'', 3),
    (''monotonic-raw'', 4), (''realtime-coarse'', 5), (''monotonic-coarse'', 6), (''boottime'', 7),
    (''realtime-alarm'', 8), (''boottime-alarm'', 9), (''pebs'', - 1)]"

definition get_clock_by_name :: "string \<Rightarrow> (string \<times> int) result" where
  "get_clock_by_name name =
    (case List.find (\<lambda>clock. name = fst clock) clocks of
       Some clock \<Rightarrow> Inr clock
     | None \<Rightarrow> Inl (Runtime_error (''clock '' @ [CHR 0x27] @ name @ [CHR 0x27] @ '' is not available'')))"

section \<open>Synchronization\<close>

text \<open>The state of \<^verbatim>\<open>time::Reader\<close>: the local time of the access that triggers the event and the time of the event.\<close>

record time_reader =
  local_time :: int
  perf_time :: int

definition convert_time_point :: "u64 \<Rightarrow> int" where
  "convert_time_point raw_time = sint raw_time"

definition time_reader_new :: "int \<Rightarrow> time_reader" where
  "time_reader_new now = \<lparr>local_time = now, perf_time = 0\<rparr>"

definition time_reader_handle :: "u64 \<Rightarrow> time_reader \<Rightarrow> bool \<times> time_reader" where
  "time_reader_handle time r = (True, r\<lparr>perf_time := convert_time_point time\<rparr>)"

text \<open>\<open>read\<close> stops after the first synchronization event, as its handler returns true.\<close>

definition time_reader_read :: "u64 list \<Rightarrow> time_reader \<Rightarrow> time_reader" where
  "time_reader_read events r = (case events of [] \<Rightarrow> r | e # _ \<Rightarrow> snd (time_reader_handle e r))"

text \<open>The constructor of the converter; the event may fail to open. The result is the offset.\<close>

definition converter_new :: "bool \<Rightarrow> (int \<times> u64 list) result \<Rightarrow> int" where
  "converter_new clockid_set sync =
    (case sync of
       Inl _ \<Rightarrow> 0
     | Inr (now, events) \<Rightarrow>
       let reader = time_reader_read events (time_reader_new now) in
       if perf_time reader = 0 then 0
       else let time_diff = local_time reader - perf_time reader in
         if clockid_set
         then if time_diff < - 100000 \<or> time_diff > 0 then time_diff else 0
         else time_diff)"

definition to_local :: "int \<Rightarrow> int \<Rightarrow> int" where
  "to_local offset perf_tp = perf_tp + offset"

definition to_perf :: "int \<Rightarrow> int \<Rightarrow> int" where
  "to_perf offset local_tp = local_tp - offset"

definition raw_to_local :: "int \<Rightarrow> u64 \<Rightarrow> int" where
  "raw_to_local offset perf_raw = to_local offset (convert_time_point perf_raw)"

section \<open>Properties\<close>

text \<open>
  When the synchronization event was read, the converter maps its timestamp to the local time of the access
  that triggered it, exactly without an explicit reference clock and with at most 100 microseconds of delay
  otherwise; the conversions in both directions are inverse to each other and keep the order of timestamps.
\<close>
lemma time_conversion_synchronized:
  assumes "convert_time_point e \<noteq> 0" "offset = converter_new clockid_set (Inr (now, e # es))"
  shows "0 \<le> raw_to_local offset e - now \<and> raw_to_local offset e - now \<le> 100000 \<and>
    (\<not> clockid_set \<longrightarrow> raw_to_local offset e = now) \<and>
    to_perf offset (to_local offset x) = x \<and> to_local offset (to_perf offset x) = x \<and>
    (x \<le> y \<longleftrightarrow> to_local offset x \<le> to_local offset y)"
  using assms(1) unfolding assms(2)
  by (auto simp: converter_new_def time_reader_read_def time_reader_new_def time_reader_handle_def
      raw_to_local_def to_local_def to_perf_def Let_def)

lemma time_conversion_synchronized_witness:
  "0 \<le> raw_to_local (converter_new False (Inr (5, [7, 9]))) 7 - 5 \<and>
    raw_to_local (converter_new False (Inr (5, [7, 9]))) 7 - 5 \<le> 100000 \<and>
    raw_to_local (converter_new False (Inr (5, [7, 9]))) 7 = 5 \<and>
    to_perf (converter_new False (Inr (5, [7, 9]))) (to_local (converter_new False (Inr (5, [7, 9]))) 3) = 3 \<and>
    to_local (converter_new False (Inr (5, [7, 9]))) (to_perf (converter_new False (Inr (5, [7, 9]))) 3) = 3 \<and>
    ((3 :: int) \<le> 4 \<longleftrightarrow>
      to_local (converter_new False (Inr (5, [7, 9]))) 3 \<le> to_local (converter_new False (Inr (5, [7, 9]))) 4)"
  using time_conversion_synchronized[OF _ refl, of 7 False 5 "[9]" 3 4]
  by (simp add: convert_time_point_def)

end
