(* ===== verification/Poll_Monitor.thy ===== *)
theory Poll_Monitor
  imports Lo2s_Prelude Scopes
begin

text \<open>
  The monitor threads that wait in \<^verbatim>\<open>poll\<close>: \<^verbatim>\<open>ThreadedMonitor\<close> and \<^verbatim>\<open>PollMonitor\<close>
  (\<^verbatim>\<open>src/monitor/threaded_monitor.cpp\<close>, \<^verbatim>\<open>poll_monitor.cpp\<close>) with the classes that derive from them:
  \<^verbatim>\<open>ScopeMonitor\<close>, \<^verbatim>\<open>TracepointMonitor\<close> and \<^verbatim>\<open>IoMonitor\<close>. The virtual member functions
  \<open>monitor(fd)\<close> and \<open>finalize_thread\<close> are the operations of the locale \<open>poll_client\<close>; what the loop
  guarantees for every class is proved in it once. The result of a call of \<^verbatim>\<open>poll\<close> is an argument.
  The thread of the monitor and the thread that calls \<open>start\<close> and \<open>stop\<close> take steps in any order.
\<close>

section \<open>The poll loop\<close>

type_synonym revents = "16 word"

definition POLLIN :: revents where
  "POLLIN = 1"

definition POLLHUP :: revents where
  "POLLHUP = 16"

record pollfd =
  pf_fd :: int
  pf_events :: revents
  pf_revents :: revents

text \<open>What one call of \<^verbatim>\<open>poll\<close> does: its result, \<^verbatim>\<open>errno\<close> and the \<open>revents\<close> it fills in.\<close>

record poll_outcome =
  po_ret :: int
  po_errno :: int
  po_revents :: "revents list"

text \<open>\<open>'w\<close> is the state of the derived class.\<close>

record 'w poll_monitor =
  pm_pfds :: "pollfd list"
  pm_num_wakeups :: nat
  pm_client :: 'w

definition poll_monitor_new :: "int \<Rightarrow> 'w \<Rightarrow> 'w poll_monitor" where
  "poll_monitor_new eventfd w =
    \<lparr>pm_pfds = [\<lparr>pf_fd = eventfd, pf_events = POLLIN, pf_revents = 0\<rparr>], pm_num_wakeups = 0, pm_client = w\<rparr>"

definition add_fd :: "int \<Rightarrow> 'w poll_monitor \<Rightarrow> 'w poll_monitor" where
  "add_fd fd m = m\<lparr>pm_pfds := pm_pfds m @ [\<lparr>pf_fd = fd, pf_events = POLLIN, pf_revents = 0\<rparr>]\<rparr>"

definition stop_pfd :: "'w poll_monitor \<Rightarrow> pollfd" where
  "stop_pfd m = hd (pm_pfds m)"

datatype loop_exit =
    Polling
  | Stop_requested
  | Panic
  | Terminated cpp_error

definition poll_fill :: "poll_outcome \<Rightarrow> pollfd list \<Rightarrow> pollfd list" where
  "poll_fill out pfds = map2 (\<lambda>p r. p\<lparr>pf_revents := r\<rparr>) pfds (po_revents out)"

text \<open>\<open>monitor()\<close>: the member function of the derived class for each readable descriptor, in order.\<close>

fun monitor_fds :: "(int \<Rightarrow> 'w \<Rightarrow> 'w result) \<Rightarrow> pollfd list \<Rightarrow> 'w \<Rightarrow> 'w result" where
  "monitor_fds handle [] w = Inr w"
| "monitor_fds handle (p # ps) w =
    sum_bind (if pf_revents p AND POLLIN \<noteq> 0 then handle (pf_fd p) w else Inr w) (monitor_fds handle ps)"

definition unexpected_flags :: "pollfd \<Rightarrow> bool" where
  "unexpected_flags p \<longleftrightarrow> pf_revents p \<noteq> 0 \<and> pf_revents p \<noteq> POLLIN"

text \<open>One iteration of the loop of \<open>run\<close>.\<close>

definition poll_iteration ::
    "(int \<Rightarrow> 'w \<Rightarrow> 'w result) \<Rightarrow> poll_outcome \<Rightarrow> 'w poll_monitor \<Rightarrow> (loop_exit \<times> 'w poll_monitor) result" where
  "poll_iteration handle out m0 =
    (let m = m0\<lparr>pm_pfds := poll_fill out (pm_pfds m0), pm_num_wakeups := pm_num_wakeups m0 + 1\<rparr> in
     if po_ret out = 0 then Inl (Runtime_error ''Received poll timeout despite requesting no timeout.'')
     else if po_ret out < 0 then Inl (System_error (po_errno out))
     else if list_ex unexpected_flags (pm_pfds m) then Inr (Panic, m)
     else sum_bind (monitor_fds handle (pm_pfds m) (pm_client m)) (\<lambda>w.
       Inr (if pf_revents (stop_pfd m) AND POLLIN \<noteq> 0 then Stop_requested else Polling, m\<lparr>pm_client := w\<rparr>)))"

text \<open>\<open>run\<close>, for the outcomes of the calls of \<^verbatim>\<open>poll\<close>; after the last of them it is still waiting.\<close>

fun poll_run ::
    "(int \<Rightarrow> 'w \<Rightarrow> 'w result) \<Rightarrow> poll_outcome list \<Rightarrow> 'w poll_monitor \<Rightarrow> (loop_exit \<times> 'w poll_monitor) result" where
  "poll_run handle [] m = Inr (Polling, m)"
| "poll_run handle (out # outs) m =
    sum_bind (poll_iteration handle out m) (\<lambda>(e, m'). if e = Polling then poll_run handle outs m' else Inr (e, m'))"

text \<open>
  \<open>thread_main\<close> after the registration of the thread: initialisation, loop, finalisation. An exception
  leaves the function of the thread, which ends the program.
\<close>

definition thread_main ::
    "('w \<Rightarrow> 'w) \<Rightarrow> (int \<Rightarrow> 'w \<Rightarrow> 'w result) \<Rightarrow> ('w \<Rightarrow> 'w) \<Rightarrow> poll_outcome list \<Rightarrow> 'w poll_monitor
      \<Rightarrow> (loop_exit \<times> 'w poll_monitor) result" where
  "thread_main initialize handle finalize outs m =
    sum_bind (poll_run handle outs (m\<lparr>pm_client := initialize (pm_client m)\<rparr>)) (\<lambda>(e, m').
      Inr (e, if e = Polling then m' else m'\<lparr>pm_client := finalize (pm_client m')\<rparr>))"

definition monitor_name :: "string \<Rightarrow> string \<Rightarrow> string" where
  "monitor_name grp nm = (if nm = [] then grp else grp @ '' ('' @ nm @ '')'')"

section \<open>The thread and its owner\<close>

text \<open>
  The state that both threads see: whether the \<^verbatim>\<open>std::thread\<close> is joinable, how the loop ended, whether
  the owner is in \<open>stop\<close>, the counter of the eventfd, and the monitor. The destructor asserts that
  the thread is not joinable.
\<close>

record 'w monitor_thread =
  mt_joinable :: bool
  mt_exit :: loop_exit
  mt_stopping :: bool
  mt_eventfd :: nat
  mt_monitor :: "'w poll_monitor"

definition monitor_thread_new :: "'w poll_monitor \<Rightarrow> 'w monitor_thread" where
  "monitor_thread_new m = \<lparr>mt_joinable = False, mt_exit = Polling, mt_stopping = False, mt_eventfd = 0, mt_monitor = m\<rparr>"

definition mt_start :: "('w \<Rightarrow> 'w) \<Rightarrow> 'w monitor_thread \<Rightarrow> 'w monitor_thread result" where
  "mt_start initialize t =
    (if mt_joinable t then Inl Assertion
     else Inr (t\<lparr>mt_joinable := True, mt_exit := Polling,
            mt_monitor := (mt_monitor t)\<lparr>pm_client := initialize (pm_client (mt_monitor t))\<rparr>\<rparr>))"

text \<open>\<open>stop\<close> up to the call of \<open>join\<close>; without a running thread it only warns.\<close>

definition mt_stop :: "'w monitor_thread \<Rightarrow> 'w monitor_thread" where
  "mt_stop t = (if \<not> mt_joinable t then t else t\<lparr>mt_eventfd := mt_eventfd t + 1, mt_stopping := True\<rparr>)"

text \<open>One iteration of the thread, and the finalisation when it is the last one.\<close>

definition mt_wake ::
    "(int \<Rightarrow> 'w \<Rightarrow> 'w result) \<Rightarrow> ('w \<Rightarrow> 'w) \<Rightarrow> poll_outcome \<Rightarrow> 'w monitor_thread \<Rightarrow> 'w monitor_thread" where
  "mt_wake handle finalize out t =
    (case poll_iteration handle out (mt_monitor t) of
       Inl err \<Rightarrow> t\<lparr>mt_exit := Terminated err\<rparr>
     | Inr (e, m) \<Rightarrow> t\<lparr>mt_exit := e, mt_monitor := if e = Polling then m else m\<lparr>pm_client := finalize (pm_client m)\<rparr>\<rparr>)"

text \<open>
  What \<^verbatim>\<open>poll(2)\<close> and \<^verbatim>\<open>eventfd(2)\<close> promise: without a timeout the result is not zero, every descriptor
  gets its flags, and the eventfd is readable exactly when its counter is positive.
\<close>

definition poll_allowed :: "'w monitor_thread \<Rightarrow> poll_outcome \<Rightarrow> bool" where
  "poll_allowed t out \<longleftrightarrow> po_ret out \<noteq> 0 \<and>
    (po_ret out > 0 \<longrightarrow> length (po_revents out) = length (pm_pfds (mt_monitor t)) \<and>
      hd (po_revents out) = (if mt_eventfd t > 0 then POLLIN else 0))"

inductive wake_step :: "(int \<Rightarrow> 'w \<Rightarrow> 'w result) \<Rightarrow> ('w \<Rightarrow> 'w) \<Rightarrow> 'w monitor_thread \<Rightarrow> 'w monitor_thread \<Rightarrow> bool"
  for handle finalize where
  wake: "mt_joinable t \<Longrightarrow> mt_exit t = Polling \<Longrightarrow> poll_allowed t out \<Longrightarrow> wake_step handle finalize t (mt_wake handle finalize out t)"

inductive join_step :: "'w monitor_thread \<Rightarrow> 'w monitor_thread \<Rightarrow> bool" where
  join: "mt_stopping t \<Longrightarrow> mt_exit t \<in> {Stop_requested, Panic} \<Longrightarrow>
    join_step t (t\<lparr>mt_joinable := False, mt_stopping := False\<rparr>)"

inductive monitor_step ::
    "(int \<Rightarrow> 'w \<Rightarrow> 'w result) \<Rightarrow> ('w \<Rightarrow> 'w) \<Rightarrow> 'w monitor_thread \<Rightarrow> 'w monitor_thread \<Rightarrow> bool"
  for handle finalize where
  wakes: "wake_step handle finalize t t' \<Longrightarrow> monitor_step handle finalize t t'"
| stops: "mt_joinable t \<Longrightarrow> \<not> mt_stopping t \<Longrightarrow> monitor_step handle finalize t (mt_stop t)"
| joins: "join_step t t' \<Longrightarrow> monitor_step handle finalize t t'"
| waits: "monitor_step handle finalize t t"

inductive_cases wake_stepE: "wake_step handle finalize t t'"
inductive_cases join_stepE: "join_step t t'"
inductive_cases monitor_stepE: "monitor_step handle finalize t t'"

text \<open>
  An infinite run of a started monitor, fair to both threads: a \<^verbatim>\<open>poll\<close> with a readable descriptor
  returns, and so does the \<open>join\<close> of a thread that has ended.
\<close>

definition monitor_trace ::
    "(int \<Rightarrow> 'w \<Rightarrow> 'w result) \<Rightarrow> ('w \<Rightarrow> 'w) \<Rightarrow> (nat \<Rightarrow> 'w monitor_thread) \<Rightarrow> bool" where
  "monitor_trace handle finalize r \<longleftrightarrow>
    (\<forall>i. monitor_step handle finalize (r i) (r (Suc i))) \<and>
    (\<forall>i. mt_joinable (r i) \<longrightarrow> mt_exit (r i) = Polling \<longrightarrow> mt_eventfd (r i) > 0 \<longrightarrow>
      (\<exists>j \<ge> i. wake_step handle finalize (r j) (r (Suc j)))) \<and>
    (\<forall>i. mt_stopping (r i) \<longrightarrow> mt_exit (r i) \<in> {Stop_requested, Panic} \<longrightarrow> (\<exists>j \<ge> i. join_step (r j) (r (Suc j))))"

section \<open>The loop\<close>

lemma poll_fill_fds [simp]:
  "length (po_revents out) = length pfds \<Longrightarrow> map pf_fd (poll_fill out pfds) = map pf_fd pfds"
  by (rule nth_equalityI) (auto simp: poll_fill_def)

lemma poll_iteration_Inr:
  "poll_iteration handle out m = Inr (e, m') \<Longrightarrow>
    po_ret out > 0 \<and> pm_pfds m' = poll_fill out (pm_pfds m) \<and> pm_num_wakeups m' = pm_num_wakeups m + 1 \<and>
    (e = Panic \<and> list_ex unexpected_flags (pm_pfds m') \<and> pm_client m' = pm_client m \<or>
     \<not> list_ex unexpected_flags (pm_pfds m') \<and> monitor_fds handle (pm_pfds m') (pm_client m) = Inr (pm_client m') \<and>
     e = (if pf_revents (stop_pfd m') AND POLLIN \<noteq> 0 then Stop_requested else Polling))"
  by (auto simp: poll_iteration_def Let_def stop_pfd_def sum_bind_Inr_iff split: if_splits)

text \<open>Any flag other than \<^verbatim>\<open>POLLIN\<close> ends the loop before a descriptor of this wake-up is read.\<close>

lemma hangup_ends_loop:
  assumes "po_ret out > 0" "list_ex unexpected_flags (poll_fill out (pm_pfds m))"
  shows "poll_run handle (out # outs) m =
    Inr (Panic, m\<lparr>pm_pfds := poll_fill out (pm_pfds m), pm_num_wakeups := pm_num_wakeups m + 1\<rparr>)"
  using assms by (simp add: poll_iteration_def Let_def)

text \<open>A call of \<^verbatim>\<open>poll\<close> that a signal interrupts is not repeated.\<close>

lemma interrupted_poll_terminates:
  "po_ret out < 0 \<Longrightarrow> poll_run handle (out # outs) m = Inl (System_error (po_errno out))"
  by (simp add: poll_iteration_def Let_def)


section \<open>What the loop guarantees for every derived class\<close>

text \<open>
  The interface of a derived class: the member function for a descriptor does not fail for the
  descriptors \<open>fds\<close> that were added, called for the stop descriptor it serves everything the
  class reads (\<open>served w w'\<close>: between the states \<open>w\<close> and \<open>w'\<close> all of it has been read), and what
  happens before and after keeps that true.
\<close>

locale poll_client =
  fixes handle :: "int \<Rightarrow> 'w \<Rightarrow> 'w result"
    and finalize :: "'w \<Rightarrow> 'w"
    and stop_fd :: int
    and fds :: "int set"
    and client_inv :: "'w \<Rightarrow> bool"
    and served :: "'w \<Rightarrow> 'w \<Rightarrow> bool"
  assumes handle_total: "client_inv w \<Longrightarrow> fd \<in> insert stop_fd fds \<Longrightarrow> \<exists>w'. handle fd w = Inr w'"
    and handle_inv: "client_inv w \<Longrightarrow> handle fd w = Inr w' \<Longrightarrow> client_inv w'"
    and stop_serves: "client_inv w \<Longrightarrow> handle stop_fd w = Inr w' \<Longrightarrow> served w w'"
    and served_then: "client_inv w' \<Longrightarrow> served w w' \<Longrightarrow> handle fd w' = Inr w'' \<Longrightarrow> served w w''"
    and served_finalize: "client_inv w' \<Longrightarrow> served w w' \<Longrightarrow> served w (finalize w')"
begin

definition monitor_ok :: "'w poll_monitor \<Rightarrow> bool" where
  "monitor_ok m \<longleftrightarrow> (\<exists>others. map pf_fd (pm_pfds m) = stop_fd # others \<and> set others \<subseteq> fds) \<and> client_inv (pm_client m)"

definition thread_ok :: "'w monitor_thread \<Rightarrow> bool" where
  "thread_ok t \<longleftrightarrow> (mt_stopping t \<longrightarrow> mt_joinable t \<and> mt_eventfd t > 0) \<and>
    (mt_exit t = Polling \<longrightarrow> mt_joinable t \<and> monitor_ok (mt_monitor t))"

lemma monitor_fds_total:
  "client_inv w \<Longrightarrow> pf_fd ` set ps \<subseteq> insert stop_fd fds \<Longrightarrow> \<exists>w'. monitor_fds handle ps w = Inr w' \<and> client_inv w'"
proof (induction ps arbitrary: w)
  case (Cons p ps)
  obtain w' where "(if pf_revents p AND POLLIN \<noteq> 0 then handle (pf_fd p) w else Inr w) = Inr w'" "client_inv w'"
    using Cons.prems handle_total[of w "pf_fd p"] handle_inv by (cases "pf_revents p AND POLLIN = 0") auto
  with Cons show ?case by auto
qed simp

lemma monitor_fds_served_then:
  "client_inv w' \<Longrightarrow> served w w' \<Longrightarrow> monitor_fds handle ps w' = Inr w'' \<Longrightarrow> served w w'' \<and> client_inv w''"
proof (induction ps arbitrary: w')
  case (Cons p ps)
  from Cons.prems(3) obtain v where
    v: "(if pf_revents p AND POLLIN \<noteq> 0 then handle (pf_fd p) w' else Inr w') = Inr v" "monitor_fds handle ps v = Inr w''"
    by (auto simp: sum_bind_Inr_iff)
  have "served w v \<and> client_inv v"
    using v(1) Cons.prems(1,2) served_then handle_inv by (auto split: if_splits)
  with Cons.IH v(2) show ?case by blast
qed simp

lemma monitor_fds_served:
  assumes "client_inv w" "pf_fd p = stop_fd" "pf_revents p AND POLLIN \<noteq> 0" "monitor_fds handle (p # ps) w = Inr w'"
  shows "served w w' \<and> client_inv w'"
proof -
  from assms obtain v where "handle stop_fd w = Inr v" "monitor_fds handle ps v = Inr w'"
    by (auto simp: sum_bind_Inr_iff)
  then show ?thesis
    using monitor_fds_served_then stop_serves handle_inv assms(1) by blast
qed

lemma iteration_ok:
  assumes "monitor_ok m" "poll_iteration handle out m = Inr (e, m')" "length (po_revents out) = length (pm_pfds m)"
  shows "monitor_ok m' \<and> (hd (po_revents out) = POLLIN \<longrightarrow> e \<noteq> Polling \<and> (e = Stop_requested \<longrightarrow> served (pm_client m) (pm_client m')))"
proof -
  obtain others where fds: "map pf_fd (pm_pfds m) = stop_fd # others" "set others \<subseteq> fds" and inv: "client_inv (pm_client m)"
    using assms(1) by (auto simp: monitor_ok_def)
  then have fds': "map pf_fd (pm_pfds m') = stop_fd # others"
    using poll_iteration_Inr[OF assms(2)] poll_fill_fds[OF assms(3)] by simp
  then obtain p ps where pfds': "pm_pfds m' = p # ps" "pf_fd p = stop_fd" by auto
  have hd: "pf_revents p = hd (po_revents out)"
    using poll_iteration_Inr[OF assms(2)] pfds' assms(3)
    by (cases "pm_pfds m"; cases "po_revents out") (auto simp: poll_fill_def)
  show ?thesis
  proof (cases "list_ex unexpected_flags (pm_pfds m')")
    case True
    with poll_iteration_Inr[OF assms(2)] fds' fds(2) inv show ?thesis by (auto simp: monitor_ok_def)
  next
    case False
    then have "monitor_fds handle (pm_pfds m') (pm_client m) = Inr (pm_client m')"
      "e = (if pf_revents (hd (pm_pfds m')) AND POLLIN \<noteq> 0 then Stop_requested else Polling)"
      using poll_iteration_Inr[OF assms(2)] unfolding stop_pfd_def by blast+
    then have run: "monitor_fds handle (p # ps) (pm_client m) = Inr (pm_client m')"
      and e: "e = (if pf_revents p AND POLLIN \<noteq> 0 then Stop_requested else Polling)"
      unfolding pfds'(1) list.sel by blast+
    have "pf_fd ` set (p # ps) \<subseteq> insert stop_fd fds"
      using fds' fds(2) pfds' by (metis image_set insert_mono list.set(2) list.map(2))
    then have "client_inv (pm_client m')"
      using monitor_fds_total[OF inv] run by fastforce
    then show ?thesis
      using fds' fds(2) e hd monitor_fds_served[OF inv pfds'(2) _ run] by (auto simp: monitor_ok_def POLLIN_def)
  qed
qed

lemma wake_ok:
  assumes "thread_ok t" "wake_step handle finalize t t'"
  shows "thread_ok t' \<and> mt_stopping t' = mt_stopping t \<and> mt_joinable t' = mt_joinable t"
    and "mt_eventfd t > 0 \<Longrightarrow> mt_exit t' \<noteq> Polling \<and>
      (mt_exit t' = Stop_requested \<longrightarrow> served (pm_client (mt_monitor t)) (pm_client (mt_monitor t')))"
proof -
  obtain out where out: "mt_joinable t" "mt_exit t = Polling" "poll_allowed t out" "t' = mt_wake handle finalize out t"
    using assms(2) by (auto elim: wake_stepE)
  have "thread_ok t' \<and> mt_stopping t' = mt_stopping t \<and> mt_joinable t' = mt_joinable t \<and> (mt_eventfd t > 0 \<longrightarrow> mt_exit t' \<noteq> Polling \<and>
      (mt_exit t' = Stop_requested \<longrightarrow> served (pm_client (mt_monitor t)) (pm_client (mt_monitor t'))))"
  proof (cases "poll_iteration handle out (mt_monitor t)")
    case (Inl err)
    with out assms(1) show ?thesis by (auto simp: mt_wake_def thread_ok_def)
  next
    case (Inr em)
    obtain e m where em: "em = (e, m)" by fastforce
    have len: "length (po_revents out) = length (pm_pfds (mt_monitor t))"
      and hd: "mt_eventfd t > 0 \<Longrightarrow> hd (po_revents out) = POLLIN"
      using out(3) poll_iteration_Inr[OF Inr[unfolded em]] by (auto simp: poll_allowed_def)
    have ok: "monitor_ok (mt_monitor t)" using assms(1) out(2) by (simp add: thread_ok_def)
    note it = iteration_ok[OF ok Inr[unfolded em] len]
    have "client_inv (pm_client m)" using it by (simp add: monitor_ok_def)
    with Inr em it hd out assms(1) served_finalize show ?thesis
      by (auto simp: mt_wake_def thread_ok_def)
  qed
  then show "thread_ok t' \<and> mt_stopping t' = mt_stopping t \<and> mt_joinable t' = mt_joinable t"
    and "mt_eventfd t > 0 \<Longrightarrow> mt_exit t' \<noteq> Polling \<and>
      (mt_exit t' = Stop_requested \<longrightarrow> served (pm_client (mt_monitor t)) (pm_client (mt_monitor t')))" by blast+
qed

lemma step_ok:
  assumes "thread_ok t" "monitor_step handle finalize t t'"
  shows "thread_ok t'"
  using assms(2)
proof (cases rule: monitor_step.cases)
  case wakes
  then show ?thesis using wake_ok(1)[OF assms(1)] by blast
next
  case stops
  with assms(1) show ?thesis by (auto simp: thread_ok_def mt_stop_def)
next
  case joins
  with assms(1) show ?thesis by (auto simp: thread_ok_def elim!: join_stepE)
qed (use assms(1) in simp)

lemma trace_ok:
  assumes "monitor_trace handle finalize r" "thread_ok (r 0)"
  shows "thread_ok (r i)"
  using assms step_ok by (induction i) (auto simp: monitor_trace_def)

text \<open>Until the thread wakes up, a requested stop stays requested.\<close>

lemma stop_pending:
  assumes "monitor_trace handle finalize r" "thread_ok (r 0)" "mt_stopping (r i)" "mt_exit (r i) = Polling"
    and "\<forall>k. i \<le> k \<and> k < i + n \<longrightarrow> \<not> wake_step handle finalize (r k) (r (Suc k))"
  shows "r (i + n) = r i"
  using assms(5)
proof (induction n)
  case (Suc n)
  then have same: "r (i + n) = r i" by simp
  have "\<not> wake_step handle finalize (r (i + n)) (r (Suc (i + n)))" using Suc.prems by simp
  moreover have "monitor_step handle finalize (r (i + n)) (r (Suc (i + n)))"
    using assms(1) by (simp add: monitor_trace_def)
  ultimately show ?case
    using assms(3,4) same by (auto elim!: monitor_stepE join_stepE)
qed simp

lemma stop_is_served:
  assumes trace: "monitor_trace handle finalize r" and ok: "thread_ok (r 0)"
    and stopping: "mt_stopping (r i)" "mt_exit (r i) = Polling"
  shows "\<exists>j > i. mt_exit (r j) \<noteq> Polling \<and>
    (mt_exit (r j) = Stop_requested \<longrightarrow> served (pm_client (mt_monitor (r i))) (pm_client (mt_monitor (r j)))) \<and>
    (mt_exit (r j) \<in> {Stop_requested, Panic} \<longrightarrow> (\<exists>k > j. \<not> mt_joinable (r k)))"
proof -
  have pending: "mt_joinable (r i)" "mt_eventfd (r i) > 0"
    using trace_ok[OF trace ok, of i] stopping by (auto simp: thread_ok_def)
  define woken where "woken j \<longleftrightarrow> i \<le> j \<and> wake_step handle finalize (r j) (r (Suc j))" for j
  have "\<exists>j. woken j"
    using trace pending stopping by (auto simp: monitor_trace_def woken_def)
  then obtain j where j: "woken j" "\<forall>k < j. \<not> woken k"
    using exists_least_iff by metis
  obtain n where n: "j = i + n" using j(1) by (auto simp: woken_def le_iff_add)
  have same: "r j = r i"
    using stop_pending[OF trace ok stopping, of n] j(2) n by (auto simp: woken_def)
  note wk = wake_ok[OF trace_ok[OF trace ok, of j], of "r (Suc j)"]
  have out: "mt_exit (r (Suc j)) \<noteq> Polling"
    "mt_exit (r (Suc j)) = Stop_requested \<longrightarrow> served (pm_client (mt_monitor (r i))) (pm_client (mt_monitor (r (Suc j))))"
    "mt_stopping (r (Suc j))"
    using wk j(1) pending stopping same by (auto simp: woken_def)
  have "\<exists>k > Suc j. \<not> mt_joinable (r k)" if "mt_exit (r (Suc j)) \<in> {Stop_requested, Panic}"
  proof -
    from trace that out(3) obtain k where "k \<ge> Suc j" "join_step (r k) (r (Suc k))"
      unfolding monitor_trace_def by blast
    then show ?thesis by (intro exI[of _ "Suc k"]) (auto elim!: join_stepE)
  qed
  with out n show ?thesis by (intro exI[of _ "Suc j"]) auto
qed

end

end
