(* ===== verification/Scope_Monitor.thy ===== *)
theory Scope_Monitor
  imports Poll_Monitor Std_Map
begin

text \<open>
  The monitors of one execution scope, of the tracepoints of one CPU and of block I/O
  (\<^verbatim>\<open>src/monitor/scope_monitor.cpp\<close>, \<^verbatim>\<open>tracepoint_monitor.cpp\<close>, \<^verbatim>\<open>io_monitor.hpp\<close>) as clients of the poll
  loop. A writer is the file descriptor it polls; the calls of its operations are recorded.
\<close>

section \<open>Execution scopes\<close>

datatype scope_call =
    Pin_to_scope ExecutionScope
  | Read_syscall
  | Read_sample
  | Read_group
  | Read_userspace
  | End_sample
  | Stop_syscall

record scope_monitor =
  sm_scope :: ExecutionScope
  sm_stop_fd :: int
  sm_syscall :: "int option"
  sm_sample :: "int option"
  sm_group :: "int option"
  sm_userspace :: "int option"
  sm_calls :: "scope_call list"

text \<open>The configuration the constructor reads, and the constructors of the writers: a descriptor or an exception.\<close>

record scope_env =
  se_sampling :: bool
  se_process_recording :: bool
  se_syscall :: bool
  se_group :: bool
  se_userspace :: bool
  se_sample_writer :: "ExecutionScope \<Rightarrow> bool \<Rightarrow> int result"
  se_syscall_writer :: "ExecutionScope \<Rightarrow> int result"
  se_group_writer :: "ExecutionScope \<Rightarrow> bool \<Rightarrow> int result"
  se_userspace_writer :: "ExecutionScope \<Rightarrow> int result"

text \<open>
  The mask for \<^verbatim>\<open>sched_setaffinity\<close>: the affinity of the thread, empty when it cannot be read, or the
  CPU of the scope.
\<close>

definition try_pin_to_scope :: "(Thread \<Rightarrow> int set option) \<Rightarrow> ExecutionScope \<Rightarrow> int set result" where
  "try_pin_to_scope getaffinity scope =
    (if scope_is_thread scope
     then sum_bind (scope_as_thread scope) (\<lambda>t. Inr (case getaffinity t of None \<Rightarrow> {} | Some cpus \<Rightarrow> cpus))
     else sum_bind (scope_as_cpu scope) (\<lambda>c. Inr {cpu_as_int c}))"

definition sm_call :: "scope_call list \<Rightarrow> scope_monitor \<Rightarrow> scope_monitor" where
  "sm_call cs m = m\<lparr>sm_calls := sm_calls m @ cs\<rparr>"

text \<open>An optional member is built, when it is configured, with its descriptor added to the poll set.\<close>

definition with_writer ::
    "bool \<Rightarrow> int result \<Rightarrow> (int \<Rightarrow> scope_monitor \<Rightarrow> scope_monitor) \<Rightarrow> scope_monitor poll_monitor \<Rightarrow> scope_monitor poll_monitor result" where
  "with_writer enabled writer set_writer m =
    (if enabled then sum_bind writer (\<lambda>fd. Inr (add_fd fd (m\<lparr>pm_client := set_writer fd (pm_client m)\<rparr>))) else Inr m)"

definition scope_monitor_new ::
    "scope_env \<Rightarrow> int \<Rightarrow> ExecutionScope \<Rightarrow> bool \<Rightarrow> scope_monitor poll_monitor result" where
  "scope_monitor_new env eventfd scope enable_on_exec =
    sum_bind (execution_scope_name scope) (\<lambda>_.
    sum_bind (with_writer (se_sampling env \<or> se_process_recording env) (se_sample_writer env scope enable_on_exec)
        (\<lambda>fd. sm_sample_update (\<lambda>_. Some fd))
        (poll_monitor_new eventfd \<lparr>sm_scope = scope, sm_stop_fd = eventfd, sm_syscall = None, sm_sample = None,
           sm_group = None, sm_userspace = None, sm_calls = []\<rparr>)) (\<lambda>m.
    sum_bind (with_writer (se_syscall env) (se_syscall_writer env scope) (\<lambda>fd. sm_syscall_update (\<lambda>_. Some fd)) m) (\<lambda>m.
    sum_bind (with_writer (se_group env) (se_group_writer env scope enable_on_exec) (\<lambda>fd. sm_group_update (\<lambda>_. Some fd)) m) (\<lambda>m.
    with_writer (se_userspace env) (se_userspace_writer env scope) (\<lambda>fd. sm_userspace_update (\<lambda>_. Some fd)) m))))"

definition scope_initialize :: "scope_monitor \<Rightarrow> scope_monitor" where
  "scope_initialize m = sm_call [Pin_to_scope (sm_scope m)] m"

definition scope_finalize :: "scope_monitor \<Rightarrow> scope_monitor" where
  "scope_finalize m =
    sm_call ((if sm_sample m \<noteq> None then [End_sample] else []) @ (if sm_syscall m \<noteq> None then [Stop_syscall] else [])) m"

definition reads_on :: "int \<Rightarrow> int \<Rightarrow> int option \<Rightarrow> scope_call \<Rightarrow> scope_call list" where
  "reads_on fd stop writer c = (case writer of None \<Rightarrow> [] | Some wfd \<Rightarrow> if fd = stop \<or> wfd = fd then [c] else [])"

definition scope_handle :: "int \<Rightarrow> scope_monitor \<Rightarrow> scope_monitor result" where
  "scope_handle fd m =
    Inr (sm_call
      ((if \<not> scope_is_cpu (sm_scope m) then [Pin_to_scope (sm_scope m)] else []) @
       reads_on fd (sm_stop_fd m) (sm_syscall m) Read_syscall @
       reads_on fd (sm_stop_fd m) (sm_sample m) Read_sample @
       reads_on fd (sm_stop_fd m) (sm_group m) Read_group @
       reads_on fd (sm_stop_fd m) (sm_userspace m) Read_userspace) m)"

definition scope_group :: "scope_monitor \<Rightarrow> string" where
  "scope_group m = (if scope_is_cpu (sm_scope m) then ''lo2s::CpuMonitor'' else ''lo2s::ThreadMonitor'')"

text \<open>The operations that read everything the monitor has.\<close>

definition all_reads :: "scope_monitor \<Rightarrow> scope_call set" where
  "all_reads m = {c. c = Read_syscall \<and> sm_syscall m \<noteq> None \<or> c = Read_sample \<and> sm_sample m \<noteq> None \<or>
    c = Read_group \<and> sm_group m \<noteq> None \<or> c = Read_userspace \<and> sm_userspace m \<noteq> None}"

text \<open>From \<open>m\<close> to \<open>m'\<close> every writer of the monitor has been read.\<close>

definition scope_served :: "scope_monitor \<Rightarrow> scope_monitor \<Rightarrow> bool" where
  "scope_served m m' \<longleftrightarrow>
    (\<exists>calls. m' = sm_call calls m \<and> all_reads m \<subseteq> set calls)"

lemma sm_call_simps [simp]:
  "sm_call cs (sm_call ds m) = sm_call (ds @ cs) m" "sm_scope (sm_call cs m) = sm_scope m"
  "sm_stop_fd (sm_call cs m) = sm_stop_fd m" "sm_syscall (sm_call cs m) = sm_syscall m"
  "sm_sample (sm_call cs m) = sm_sample m" "sm_group (sm_call cs m) = sm_group m"
  "sm_userspace (sm_call cs m) = sm_userspace m" "sm_calls (sm_call cs m) = sm_calls m @ cs"
  by (simp_all add: sm_call_def)

lemma scope_served_call: "scope_served m m' \<Longrightarrow> scope_served m (sm_call cs m')"
  by (force simp: scope_served_def)

lemma scope_served_append: "scope_served m (sm_call cs m0) \<Longrightarrow> scope_served m (sm_call (cs @ ds) m0)"
  using scope_served_call[of m "sm_call cs m0" ds] by simp

lemma scope_stop_serves: "scope_handle (sm_stop_fd m) m = Inr m' \<Longrightarrow> scope_served m m'"
  unfolding scope_served_def scope_handle_def
  by (rule exI, rule conjI, rule sym, erule Inr_inject) (auto simp: all_reads_def reads_on_def)

text \<open>
  The monitor of a scope is a client of the poll loop, whatever its descriptors are; its operations
  change nothing but the record of the calls.
\<close>

interpretation scope_poll: poll_client scope_handle scope_finalize "sm_stop_fd m0" UNIV "\<lambda>m. \<exists>calls. m = sm_call calls m0" scope_served
  for m0
proof unfold_locales
  fix w w' assume "\<exists>calls. w = sm_call calls m0" "scope_handle (sm_stop_fd m0) w = Inr w'"
  then show "scope_served w w'" using scope_stop_serves[of w w'] by auto
qed (auto simp: scope_handle_def scope_finalize_def intro!: scope_served_append)

definition scope_fds :: "scope_monitor \<Rightarrow> int list" where
  "scope_fds m = sm_stop_fd m # List.concat (map (case_option [] (\<lambda>fd. [fd])) [sm_sample m, sm_syscall m, sm_group m, sm_userspace m])"

lemma scope_monitor_polls_writers:
  "scope_monitor_new env eventfd scope enable = Inr m \<Longrightarrow>
    map pf_fd (pm_pfds m) = scope_fds (pm_client m) \<and> sm_stop_fd (pm_client m) = eventfd \<and> sm_calls (pm_client m) = [] \<and>
    (sm_sample (pm_client m) \<noteq> None \<longleftrightarrow> se_sampling env \<or> se_process_recording env) \<and>
    (sm_syscall (pm_client m) \<noteq> None \<longleftrightarrow> se_syscall env) \<and> (sm_group (pm_client m) \<noteq> None \<longleftrightarrow> se_group env) \<and>
    (sm_userspace (pm_client m) \<noteq> None \<longleftrightarrow> se_userspace env)"
  by (cases "se_sampling env \<or> se_process_recording env"; cases "se_syscall env"; cases "se_group env"; cases "se_userspace env")
    (auto simp: scope_monitor_new_def sum_bind_Inr_iff with_writer_def poll_monitor_new_def add_fd_def scope_fds_def)

section \<open>Stopping the monitor of a scope\<close>

lemma all_reads_call [simp]: "all_reads (sm_call cs m) = all_reads m"
  by (simp add: all_reads_def)

text \<open>The reads that the configuration asks for.\<close>

definition configured_reads :: "scope_env \<Rightarrow> scope_call set" where
  "configured_reads env =
    (if se_sampling env \<or> se_process_recording env then {Read_sample} else {}) \<union> (if se_syscall env then {Read_syscall} else {}) \<union>
    (if se_group env then {Read_group} else {}) \<union> (if se_userspace env then {Read_userspace} else {})"

lemma configured_all_reads:
  assumes "scope_monitor_new env eventfd scope enable = Inr m"
  shows "all_reads (pm_client m) = configured_reads env"
  using scope_monitor_polls_writers[OF assms] by (auto simp: all_reads_def configured_reads_def)

lemma started_scope_monitor_ok:
  assumes "scope_monitor_new env eventfd scope enable = Inr m" "mt_start scope_initialize (monitor_thread_new m) = Inr t"
  shows "scope_poll.thread_ok (pm_client m) t"
proof -
  have "sm_stop_fd (pm_client m) = eventfd" "map pf_fd (pm_pfds m) = scope_fds (pm_client m)"
    using scope_monitor_polls_writers[OF assms(1)] by blast+
  with assms(2) show ?thesis
    by (auto simp: mt_start_def monitor_thread_new_def scope_poll.thread_ok_def scope_poll.monitor_ok_def scope_fds_def
        scope_initialize_def)
qed

text \<open>
  C9. Liveness of \<^verbatim>\<open>ScopeMonitor\<close> under \<open>stop\<close>: in every fair run of the two threads in which \<open>stop\<close>
  is called while the thread is in its poll loop, the loop ends. Unless \<^verbatim>\<open>poll\<close> fails or reports other
  flags than \<^verbatim>\<open>POLLIN\<close>, every writer that is configured is read after the request, the thread is
  finalised after that, and the owner returns from \<open>join\<close>.
\<close>

theorem scope_monitor_stop_served:
  assumes "scope_monitor_new env eventfd scope enable = Inr m"
    and "mt_start scope_initialize (monitor_thread_new m) = Inr (r 0)"
    and "monitor_trace scope_handle scope_finalize r"
    and "mt_stopping (r i)" "mt_exit (r i) = Polling"
  shows "\<exists>j > i. mt_exit (r j) \<noteq> Polling \<and>
    (mt_exit (r j) = Stop_requested \<longrightarrow> (\<exists>calls.
      sm_calls (pm_client (mt_monitor (r j))) = sm_calls (pm_client (mt_monitor (r i))) @ calls \<and>
      configured_reads env \<subseteq> set calls)) \<and>
    (mt_exit (r j) \<in> {Stop_requested, Panic} \<longrightarrow> (\<exists>k > j. \<not> mt_joinable (r k)))"
proof -
  let ?w = "\<lambda>i. pm_client (mt_monitor (r i))"
  note ok = started_scope_monitor_ok[OF assms(1,2)]
  from scope_poll.stop_is_served[OF assms(3) ok assms(4,5)] obtain j where
    j: "j > i" "mt_exit (r j) \<noteq> Polling" "mt_exit (r j) = Stop_requested \<longrightarrow> scope_served (?w i) (?w j)"
      "mt_exit (r j) \<in> {Stop_requested, Panic} \<longrightarrow> (\<exists>k > j. \<not> mt_joinable (r k))"
    by blast
  have "\<exists>cs. ?w i = sm_call cs (pm_client m)"
    using scope_poll.trace_ok[OF assms(3) ok, of i] assms(5) by (simp add: scope_poll.thread_ok_def scope_poll.monitor_ok_def)
  then have reads: "all_reads (?w i) = all_reads (pm_client m)" by auto
  have "\<exists>calls. sm_calls (?w j) = sm_calls (?w i) @ calls \<and> configured_reads env \<subseteq> set calls"
    if "mt_exit (r j) = Stop_requested"
    using that j(3) reads configured_all_reads[OF assms(1)] by (auto simp: scope_served_def)
  with j show ?thesis by blast
qed

definition example_scope_env :: scope_env where
  "example_scope_env = \<lparr>se_sampling = True, se_process_recording = False, se_syscall = False, se_group = True,
    se_userspace = False, se_sample_writer = (\<lambda>_ _. Inr 7), se_syscall_writer = (\<lambda>_. Inl (System_error 1)),
    se_group_writer = (\<lambda>_ _. Inr 8), se_userspace_writer = (\<lambda>_. Inl (System_error 1))\<rparr>"

definition example_scope_monitor :: "scope_monitor poll_monitor" where
  "example_scope_monitor =
    projr (scope_monitor_new example_scope_env 5 (scope_of_thread (Thread 42)) False)"

definition example_outcome :: poll_outcome where
  "example_outcome = \<lparr>po_ret = 2, po_errno = 0, po_revents = [POLLIN, POLLIN, 0]\<rparr>"

definition example_run :: "nat \<Rightarrow> scope_monitor monitor_thread" where
  "example_run i =
    (let t0 = projr (mt_start scope_initialize (monitor_thread_new example_scope_monitor));
         t2 = mt_wake scope_handle scope_finalize example_outcome (mt_stop t0) in
     if i = 0 then t0 else if i = 1 then mt_stop t0 else if i = 2 then t2
     else t2\<lparr>mt_joinable := False, mt_stopping := False\<rparr>)"

lemmas example_simps = example_run_def example_scope_monitor_def example_scope_env_def example_outcome_def scope_monitor_new_def
  with_writer_def poll_monitor_new_def add_fd_def execution_scope_name_def scope_of_thread_def mt_start_def monitor_thread_new_def mt_stop_def mt_wake_def poll_iteration_def poll_fill_def scope_handle_def scope_finalize_def scope_initialize_def reads_on_def sm_call_def stop_pfd_def unexpected_flags_def POLLIN_def Let_def scope_is_cpu_def

lemma example_monitor_started: "scope_monitor_new example_scope_env 5 (scope_of_thread (Thread 42)) False = Inr example_scope_monitor"
  "mt_start scope_initialize (monitor_thread_new example_scope_monitor) = Inr (example_run 0)"
  by (simp_all add: example_simps)

lemma example_run_fields:
  "mt_joinable (example_run i) \<longleftrightarrow> i < 3" "mt_stopping (example_run i) \<longleftrightarrow> i = 1 \<or> i = 2"
  "mt_exit (example_run i) = (if i < 2 then Polling else Stop_requested)" "mt_eventfd (example_run i) = (if i = 0 then 0 else 1)"
  "length (pm_pfds (mt_monitor (example_run i))) = 3"
  by (simp_all add: example_simps)

lemma example_run_wakes: "wake_step scope_handle scope_finalize (example_run 1) (example_run 2)"
proof -
  have "example_run 2 = mt_wake scope_handle scope_finalize example_outcome (example_run 1)" by (simp add: example_run_def Let_def)
  moreover have "poll_allowed (example_run 1) example_outcome"
    by (simp add: poll_allowed_def example_run_fields example_outcome_def)
  ultimately show ?thesis by (auto intro: wake simp: example_run_fields)
qed

lemma example_run_joins: "join_step (example_run 2) (example_run 3)"
proof -
  have "example_run 3 = (example_run 2)\<lparr>mt_joinable := False, mt_stopping := False\<rparr>" by (simp add: example_run_def Let_def)
  then show ?thesis by (auto intro: join simp: example_run_fields)
qed

lemma example_run_trace: "monitor_trace scope_handle scope_finalize example_run"
proof -
  have start: "monitor_step scope_handle scope_finalize (example_run 0) (example_run 1)"
  proof -
    have "example_run 1 = mt_stop (example_run 0)" by (simp add: example_run_def Let_def)
    then show ?thesis using stops[of "example_run 0"] by (simp add: example_run_fields)
  qed
  have "monitor_step scope_handle scope_finalize (example_run i) (example_run (Suc i))" for i
  proof -
    consider "i = 0" | "i = 1" | "i = 2" | "i \<ge> 3" by linarith
    then show ?thesis
    proof cases
      case 4
      then have "example_run (Suc i) = example_run i" by (simp add: example_run_def Let_def)
      then show ?thesis by (simp add: waits)
    qed (use start wakes[OF example_run_wakes] joins[OF example_run_joins] in \<open>auto simp: numeral_2_eq_2 numeral_3_eq_3\<close>)
  qed
  moreover have "\<exists>j \<ge> i. wake_step scope_handle scope_finalize (example_run j) (example_run (Suc j))"
    if "mt_exit (example_run i) = Polling" "mt_eventfd (example_run i) > 0" for i
    using that example_run_wakes by (intro exI[of _ 1]) (auto simp: example_run_fields numeral_2_eq_2 split: if_splits)
  moreover have "\<exists>j \<ge> i. join_step (example_run j) (example_run (Suc j))" if "mt_stopping (example_run i)" for i
    using that example_run_joins by (intro exI[of _ 2]) (auto simp: example_run_fields numeral_2_eq_2 numeral_3_eq_3)
  ultimately show ?thesis
    by (simp add: monitor_trace_def)
qed

theorem scope_monitor_stop_served_witness:
  "\<exists>j > 1. mt_exit (example_run j) = Stop_requested \<and> (\<exists>calls.
      sm_calls (pm_client (mt_monitor (example_run j))) = sm_calls (pm_client (mt_monitor (example_run 1))) @ calls \<and>
      {Read_sample, Read_group} \<subseteq> set calls) \<and> (\<exists>k > j. \<not> mt_joinable (example_run k))"
proof -
  have conf: "configured_reads example_scope_env = {Read_sample, Read_group}"
    by (auto simp: configured_reads_def example_scope_env_def)
  have "mt_stopping (example_run 1)" "mt_exit (example_run 1) = Polling" by (simp_all add: example_run_fields)
  from scope_monitor_stop_served[OF example_monitor_started example_run_trace this] obtain j where
    j: "j > 1" "mt_exit (example_run j) = Stop_requested \<longrightarrow> (\<exists>calls. sm_calls (pm_client (mt_monitor (example_run j))) =
        sm_calls (pm_client (mt_monitor (example_run 1))) @ calls \<and> {Read_sample, Read_group} \<subseteq> set calls)"
      "mt_exit (example_run j) \<in> {Stop_requested, Panic} \<longrightarrow> (\<exists>k > j. \<not> mt_joinable (example_run k))"
    unfolding conf by blast
  have "mt_exit (example_run j) = Stop_requested" using j(1) by (simp add: example_run_fields)
  with j show ?thesis by blast
qed

section \<open>Tracepoints\<close>

datatype tracepoint_call = Read_tracepoint int

record tracepoint_monitor =
  tm_stop_fd :: int
  tm_writers :: "(int, unit) std_map"
  tm_reads :: "tracepoint_call list"

text \<open>The constructor for the descriptors of the writers; an entry of the same descriptor is kept.\<close>

definition tm_add :: "int \<Rightarrow> tracepoint_monitor poll_monitor \<Rightarrow> tracepoint_monitor poll_monitor" where
  "tm_add fd m =
    (let m' = add_fd fd m in
     m'\<lparr>pm_client := (pm_client m')\<lparr>tm_writers := fst (std_emplace (<) fd () (tm_writers (pm_client m')))\<rparr>\<rparr>)"

fun tm_add_all :: "int result list \<Rightarrow> tracepoint_monitor poll_monitor \<Rightarrow> tracepoint_monitor poll_monitor result" where
  "tm_add_all [] m = Inr m"
| "tm_add_all (w # ws) m = sum_bind w (\<lambda>fd. tm_add_all ws (tm_add fd m))"

definition tracepoint_monitor_new :: "int \<Rightarrow> int result list \<Rightarrow> tracepoint_monitor poll_monitor result" where
  "tracepoint_monitor_new eventfd writers =
    tm_add_all writers (poll_monitor_new eventfd \<lparr>tm_stop_fd = eventfd, tm_writers = [], tm_reads = []\<rparr>)"

definition tracepoint_monitor_handle :: "int \<Rightarrow> tracepoint_monitor \<Rightarrow> tracepoint_monitor result" where
  "tracepoint_monitor_handle fd m =
    (if fd = tm_stop_fd m then Inr (m\<lparr>tm_reads := tm_reads m @ map (Read_tracepoint \<circ> fst) (tm_writers m)\<rparr>)
     else sum_bind (std_at (<) (tm_writers m) fd) (\<lambda>_. Inr (m\<lparr>tm_reads := tm_reads m @ [Read_tracepoint fd]\<rparr>)))"

definition tracepoint_finalize :: "tracepoint_monitor \<Rightarrow> tracepoint_monitor" where
  "tracepoint_finalize m = m\<lparr>tm_writers := []\<rparr>"

definition tracepoints_served :: "tracepoint_monitor \<Rightarrow> tracepoint_monitor \<Rightarrow> bool" where
  "tracepoints_served m m' \<longleftrightarrow>
    (\<exists>calls. tm_reads m' = tm_reads m @ calls \<and> (\<forall>fd \<in> fst ` set (tm_writers m). Read_tracepoint fd \<in> set calls))"

lemma tracepoint_monitor_handle_Inr:
  "tracepoint_monitor_handle fd m = Inr m' \<Longrightarrow> tm_stop_fd m' = tm_stop_fd m \<and> tm_writers m' = tm_writers m \<and>
    (\<exists>calls. tm_reads m' = tm_reads m @ calls)"
  by (auto simp: tracepoint_monitor_handle_def sum_bind_Inr_iff split: if_splits)

interpretation tracepoint_poll: poll_client tracepoint_monitor_handle tracepoint_finalize stop_fd fds
    "\<lambda>m. tm_stop_fd m = stop_fd \<and> (\<forall>fd \<in> fds. fd \<noteq> stop_fd \<longrightarrow> std_lookup (<) (tm_writers m) fd \<noteq> None)" tracepoints_served
  for stop_fd fds
proof unfold_locales
  fix w w' w'' :: tracepoint_monitor and fd
  assume "tracepoints_served w w'" "tracepoint_monitor_handle fd w' = Inr w''"
  with tracepoint_monitor_handle_Inr[of fd w' w''] show "tracepoints_served w w''"
    unfolding tracepoints_served_def by (metis append_assoc Un_iff set_append)
next
  fix w :: tracepoint_monitor and fd
  assume "tm_stop_fd w = stop_fd \<and> (\<forall>fd \<in> fds. fd \<noteq> stop_fd \<longrightarrow> std_lookup (<) (tm_writers w) fd \<noteq> None)"
    "fd \<in> insert stop_fd fds"
  then show "\<exists>w'. tracepoint_monitor_handle fd w = Inr w'"
    by (auto simp: tracepoint_monitor_handle_def std_at_def)
qed (auto simp: tracepoints_served_def tracepoint_monitor_handle_def tracepoint_finalize_def sum_bind_Inr_iff split: if_splits)

section \<open>Block I/O\<close>

text \<open>The merged reader is read at every wake-up of any descriptor, and stopped and read once more at the end.\<close>

datatype io_call = Io_read | Io_stop

record io_monitor =
  io_fds :: "int list"
  io_calls :: "io_call list"

definition io_monitor_new :: "int \<Rightarrow> int list \<Rightarrow> io_monitor poll_monitor" where
  "io_monitor_new eventfd fds = fold add_fd fds (poll_monitor_new eventfd \<lparr>io_fds = fds, io_calls = []\<rparr>)"

definition io_monitor_handle :: "int \<Rightarrow> io_monitor \<Rightarrow> io_monitor result" where
  "io_monitor_handle fd m = Inr (m\<lparr>io_calls := io_calls m @ [Io_read]\<rparr>)"

definition io_monitor_finalize :: "io_monitor \<Rightarrow> io_monitor" where
  "io_monitor_finalize m = m\<lparr>io_calls := io_calls m @ replicate (length (io_fds m)) Io_stop @ [Io_read]\<rparr>"

definition io_served :: "io_monitor \<Rightarrow> io_monitor \<Rightarrow> bool" where
  "io_served m m' \<longleftrightarrow> (\<exists>calls. io_calls m' = io_calls m @ calls \<and> Io_read \<in> set calls)"

interpretation io_poll: poll_client io_monitor_handle io_monitor_finalize stop_fd UNIV "\<lambda>_. True" io_served
  for stop_fd
  by unfold_locales (auto simp: io_served_def io_monitor_handle_def io_monitor_finalize_def)

end
