(* ===== verification/Trace_Metrics.thy ===== *)
theory Trace_Metrics
  imports Trace_Merge Tracepoint Counter_Buffer
begin

text \<open>
  The definitions of metrics in the global trace (\<^verbatim>\<open>include/lo2s/trace/trace.hpp\<close>, \<^verbatim>\<open>src/trace/trace.cpp\<close>): the class of the CPU
  number, of the grouped, userspace and NEC counters and of tracepoints, and the constructors of the
  writers that use them. The types of the members of a class are those of the values the writers store.
\<close>

declare cpp_Inr_iff [simp]

section \<open>Members, classes and instances\<close>

definition metric_member ::
    "'r registry \<Rightarrow> string \<Rightarrow> string \<Rightarrow> metric_mode \<Rightarrow> value_type \<Rightarrow> string \<Rightarrow> int \<Rightarrow> 'r trace \<Rightarrow> nat \<times> 'r trace" where
  "metric_member reg name description mode ty unit exponent tr =
    (let (n, tr) = intern reg name tr; (d, tr) = intern reg description tr; (u, tr) = intern reg unit tr
     in tr_create reg None (D_metric_member n d mode ty exponent u) tr)"

definition metric_class :: "'r registry \<Rightarrow> 'r trace \<Rightarrow> nat \<times> 'r trace" where
  "metric_class reg tr = tr_create reg None D_metric_class tr"

definition metric_instance :: "'r registry \<Rightarrow> nat \<Rightarrow> nat \<Rightarrow> nat \<Rightarrow> 'r trace \<Rightarrow> nat \<times> 'r trace" where
  "metric_instance reg mc recorder location tr = tr_create reg None (D_metric_instance mc recorder K_location location) tr"

definition metric_instance_node :: "'r registry \<Rightarrow> nat \<Rightarrow> nat \<Rightarrow> nat \<Rightarrow> 'r trace \<Rightarrow> nat \<times> 'r trace" where
  "metric_instance_node reg mc recorder node tr = tr_create reg None (D_metric_instance mc recorder K_system_tree_node node) tr"

definition add_metric :: "'r registry \<Rightarrow> nat \<Rightarrow> nat \<Rightarrow> 'r trace \<Rightarrow> 'r trace" where
  "add_metric reg mc member tr = tr_change reg (Add_member K_metric_class mc member) tr"

definition cpuid_metric_class :: "'r registry \<Rightarrow> 'r trace \<Rightarrow> nat \<times> 'r trace" where
  "cpuid_metric_class reg tr =
    (case tr_cpuid_metric_class tr of
       Some mc \<Rightarrow> (mc, tr)
     | None \<Rightarrow>
       let (mc, tr) = metric_class reg tr;
           (x, tr) = metric_member reg ''CPU'' ''CPU executing the task'' Absolute_point Int64 ''cpuid'' 0 (tr\<lparr>tr_cpuid_metric_class := Some mc\<rparr>)
       in (mc, add_metric reg mc x tr))"

definition get_event_metric_member :: "'r registry \<Rightarrow> event_attr \<Rightarrow> 'r trace \<Rightarrow> nat \<times> 'r trace" where
  "get_event_metric_member reg ev tr =
    (let (n, tr) = intern reg (ea_name ev) tr; (d, tr) = intern reg (ea_name ev) tr; (u, tr) = intern reg (ea_unit ev) tr
     in tr_emplace reg (BySamplingEvent (ea_attr ev)) (D_metric_member n d Accumulated_start Double 0 u) tr)"

fun add_event_members :: "'r registry \<Rightarrow> nat \<Rightarrow> event_attr list \<Rightarrow> 'r trace \<Rightarrow> 'r trace" where
  "add_event_members reg mc [] tr = tr"
| "add_event_members reg mc (ev # evs) tr =
    (let (x, tr) = get_event_metric_member reg ev tr in add_event_members reg mc evs (add_metric reg mc x tr))"

text \<open>Members that are looked up by their name and have 64 bit unsigned values.\<close>

fun add_named_members :: "'r registry \<Rightarrow> nat \<Rightarrow> (string \<times> string) list \<Rightarrow> string \<Rightarrow> 'r trace \<Rightarrow> 'r trace" where
  "add_named_members reg mc [] unit tr = tr"
| "add_named_members reg mc ((name, description) # ms) unit tr =
    (let (n, tr) = intern reg name tr; (d, tr) = intern reg description tr; (u, tr) = intern reg unit tr;
         (x, tr) = tr_emplace reg (ByString name) (D_metric_member n d Accumulated_start Uint64 0 u) tr
     in add_named_members reg mc ms unit (add_metric reg mc x tr))"

definition nec_counters :: "(string \<times> string) list" where
  "nec_counters =
    [(''execution_count'', ''Execution Count (EX)''), (''vector_execution_count'', ''Vector execution count (VX)''),
     (''fpec'', ''Floating point data element count (FPEC)''), (''vector_elements_count'', ''Vector elements count (VE)''),
     (''vecc'', ''Vector execution clock count (VECC)''), (''l1mcc'', ''L1 cache miss clocc count (L1MCC)''),
     (''vector_elements_count2'', ''Vector elements count 2 (VE2)''),
     (''varec'', ''Vector arithmetic execution clock count (VAREC)''),
     (''vldec'', ''Vector load execution clock count (VLDEC)''), (''pccc'', ''Port conflict clock count (PCCC)''),
     (''vlpc'', ''Vector Load packet count (VLPC)''), (''vlec'', ''Vector load element count (VLEC)''),
     (''vlcme'', ''Vector load cache miss element count (VLCME)''), (''fmaec'', ''Fused multiply add element count (FMAEC)''),
     (''ptcc'', ''Power throttling clock count (PTCC)''), (''ttcc'', ''Thermal throttling clock coung (TTCC)'')]"

definition time_members :: "(string \<times> string) list" where
  "time_members = [(''time_enabled'', ''time event active''), (''time_running'', ''time event on CPU'')]"

definition collection_key :: "counter_collection \<Rightarrow> reg_key" where
  "collection_key cc = ByCounterCollection (map_option ea_attr (cc_leader cc)) (map ea_attr (cc_counters cc))"

text \<open>
  The class of a collection of counters. The class is registered before the leader is asked for, so that it
  stays registered when there is none.
\<close>

definition collection_class ::
    "'r registry \<Rightarrow> MeasurementScopeType \<Rightarrow> counter_collection \<Rightarrow> 'r trace \<Rightarrow> nat result \<times> 'r trace" where
  "collection_class reg ty cc tr =
    (case tr_get reg K_metric_class (collection_key cc) tr of
       Inr mc \<Rightarrow> (Inr mc, tr)
     | Inl _ \<Rightarrow>
       let (mc, tr) = tr_emplace reg (collection_key cc) D_metric_class tr in
       if ty = GROUP_METRIC then
         case cc_leader cc of
           None \<Rightarrow> (Inl (Runtime_error ''No suitable grouped metrics leader event!''), tr)
         | Some leader \<Rightarrow>
           (Inr mc, add_named_members reg mc time_members ''ns'' (add_event_members reg mc (leader # cc_counters cc) tr))
       else (Inr mc, add_event_members reg mc (cc_counters cc) tr))"

definition perf_metric_class ::
    "'r registry \<Rightarrow> composer_env \<Rightarrow> MeasurementScope \<Rightarrow> composer \<times> 'r trace \<Rightarrow> nat event_result \<times> composer \<times> 'r trace" where
  "perf_metric_class reg cenv scope ctr =
    (case ctr of (c, tr) \<Rightarrow>
     if ms_type scope = NEC_METRIC then
       case tr_get reg K_metric_class (ByMeasurementScopeType NEC_METRIC) tr of
         Inr mc \<Rightarrow> (Inr mc, c, tr)
       | Inl _ \<Rightarrow>
         let (mc, tr) = tr_emplace reg (ByMeasurementScopeType NEC_METRIC) D_metric_class tr
         in (Inr mc, c, add_named_members reg mc nec_counters ''#'' tr)
     else
       case counters_for cenv scope c of
         (Inl e, c) \<Rightarrow> (Inl e, c, tr)
       | (Inr cc, c) \<Rightarrow> let (r, tr) = collection_class reg (ms_type scope) cc tr in (cpp r, c, tr))"

fun add_field_members :: "'r registry \<Rightarrow> nat \<Rightarrow> string \<Rightarrow> event_field list \<Rightarrow> 'r trace \<Rightarrow> 'r trace" where
  "add_field_members reg mc event [] tr = tr"
| "add_field_members reg mc event (f # fs) tr =
    (if is_integer f
     then let (x, tr) = metric_member reg (event @ ''::'' @ ef_name f) ''?'' Absolute_next Int64 ''#'' 0 tr
          in add_field_members reg mc event fs (add_metric reg mc x tr)
     else add_field_members reg mc event fs tr)"

definition tracepoint_metric_class :: "'r registry \<Rightarrow> tracepoint_attr \<Rightarrow> 'r trace \<Rightarrow> nat \<times> 'r trace" where
  "tracepoint_metric_class reg a tr =
    (case tr_get reg K_metric_class (ByString (tp_name a)) tr of
       Inr mc \<Rightarrow> (mc, tr)
     | Inl _ \<Rightarrow>
       let (mc, tr) = tr_create reg (Some (ByString (tp_name a))) D_metric_class tr
       in (mc, add_field_members reg mc (tp_name a) (tp_fields a) tr))"

section \<open>Writers\<close>

text \<open>
  The constructors of the local tree, of the sample and system call writers and of \<^verbatim>\<open>MetricWriter\<close> on the
  trace; their result is the location they write to.
\<close>

definition local_tree_writer ::
    "'r registry \<Rightarrow> trace_env \<Rightarrow> MeasurementScope \<Rightarrow> 'r trace \<Rightarrow> (nat \<times> 'r trace) result" where
  "local_tree_writer reg env scope tr =
    sum_bind (cpp_assert (\<not> tr_finalized tr)) (\<lambda>_.
    sum_bind (trace_sample_writer reg env scope tr) (\<lambda>(l, tr).
    sum_bind (create_local_cctx_tree local_cctx_tree_new tr) (\<lambda>tr. Inr (l, tr))))"

definition sample_writer_constructor ::
    "'r registry \<Rightarrow> trace_env \<Rightarrow> ExecutionScope \<Rightarrow> 'r trace \<Rightarrow> (nat \<times> nat \<times> 'r trace) result" where
  "sample_writer_constructor reg env scope tr =
    sum_bind (local_tree_writer reg env (measurement_scope SAMPLE scope) tr) (\<lambda>(l, tr).
      let (mc, tr) = cpuid_metric_class reg tr; (i, tr) = metric_instance reg mc l l tr
      in Inr (l, i, tr))"

definition syscall_writer_constructor ::
    "'r registry \<Rightarrow> trace_env \<Rightarrow> ExecutionScope \<Rightarrow> 'r trace \<Rightarrow> (nat \<times> 'r trace) result" where
  "syscall_writer_constructor reg env scope tr = local_tree_writer reg env (measurement_scope SYSCALL scope) tr"

definition metric_writer_constructor ::
    "'r registry \<Rightarrow> trace_env \<Rightarrow> composer_env \<Rightarrow> MeasurementScope \<Rightarrow> composer \<times> 'r trace
      \<Rightarrow> (nat \<times> nat \<times> composer \<times> 'r trace) event_result" where
  "metric_writer_constructor reg env cenv scope ctr =
    (case ctr of (c, tr) \<Rightarrow>
     ev_bind (cpp (trace_metric_writer reg scope tr)) (\<lambda>(recorder, tr).
       case perf_metric_class reg cenv scope (c, tr) of
         (Inl e, _) \<Rightarrow> Inl e
       | (Inr mc, c, tr) \<Rightarrow>
         ev_bind (cpp (trace_sample_writer reg env (measurement_scope SAMPLE (ms_scope scope)) tr)) (\<lambda>(location, tr).
           let (i, tr) = metric_instance reg mc recorder location tr in Inr (recorder, i, c, tr))))"

definition tracepoint_writer_constructor ::
    "'r registry \<Rightarrow> Cpu \<Rightarrow> nat \<Rightarrow> 'r trace \<Rightarrow> (nat \<times> nat \<times> 'r trace) result" where
  "tracepoint_writer_constructor reg cpu mc tr =
    sum_bind (create_metric_writer reg (''tracepoint metrics for cpu '' @ show_int (cpu_as_int cpu)) tr) (\<lambda>(recorder, tr).
    sum_bind (tr_get reg K_system_tree_node (ByCpu cpu) tr) (\<lambda>node.
      let (i, tr) = metric_instance_node reg mc recorder node tr in Inr (recorder, i, tr)))"

end
