(* ===== verification/Metric_Types.thy ===== *)
theory Metric_Types
  imports Trace_Metrics
begin

text \<open>
  The typing of metric events. The registry of otf2xx knows the members of every metric class and the type of
  every member; a class found under the key of a counter collection has one member for each value that the
  writer of the collection stores, of the type of that value. This is an invariant of the operations on
  metrics, and the writers of counters rely on it.
\<close>

section \<open>What the code relies on\<close>

text \<open>
  \<open>mtype\<close> is the type of a member and \<open>mems\<close> the members of a class: a new definition has a new reference, a new
  class has no members, and \<open>add_member\<close> appends to one class.
\<close>

definition metric_laws ::
    "'r registry \<Rightarrow> ('r \<Rightarrow> nat \<Rightarrow> value_type option) \<Rightarrow> ('r \<Rightarrow> nat \<Rightarrow> nat list) \<Rightarrow> bool" where
  "metric_laws reg mtype mems \<longleftrightarrow>
    (\<forall>ko d r. (\<forall>k. reg_get reg (kind_of d) k r \<noteq> Some (fst (reg_create reg ko d r))) \<and>
      mtype r (fst (reg_create reg ko d r)) = None \<and>
      mtype (snd (reg_create reg ko d r)) =
        (case d of D_metric_member _ _ _ ty _ _ \<Rightarrow> (mtype r)(fst (reg_create reg ko d r) \<mapsto> ty) | _ \<Rightarrow> mtype r) \<and>
      mems (snd (reg_create reg ko d r)) =
        (if d = D_metric_class then (mems r)(fst (reg_create reg ko d r) := []) else mems r)) \<and>
    (\<forall>c r. mtype (reg_change reg c r) = mtype r \<and>
      mems (reg_change reg c r) =
        (case c of Add_member kd g m \<Rightarrow> if kd = K_metric_class then (mems r)(g := mems r g @ [m]) else mems r | _ \<Rightarrow> mems r))"

text \<open>The types of the members of a class, for a collection with or without a leader.\<close>

definition collection_types :: "bool \<Rightarrow> nat \<Rightarrow> value_type list" where
  "collection_types leader n = (if leader then replicate (Suc n) Double @ [Uint64, Uint64] else replicate n Double)"

definition class_types :: "('r \<Rightarrow> nat \<Rightarrow> value_type option) \<Rightarrow> ('r \<Rightarrow> nat \<Rightarrow> nat list) \<Rightarrow> 'r trace \<Rightarrow> nat \<Rightarrow> value_type option list" where
  "class_types mtype mems tr mc = map (mtype (tr_registry tr)) (mems (tr_registry tr) mc)"

definition members_typed :: "'r registry \<Rightarrow> ('r \<Rightarrow> nat \<Rightarrow> value_type option) \<Rightarrow> 'r trace \<Rightarrow> bool" where
  "members_typed reg mtype tr \<longleftrightarrow>
    (\<forall>a x. reg_get reg K_metric_member (BySamplingEvent a) (tr_registry tr) = Some x \<longrightarrow> mtype (tr_registry tr) x = Some Double) \<and>
    (\<forall>s x. reg_get reg K_metric_member (ByString s) (tr_registry tr) = Some x \<longrightarrow> mtype (tr_registry tr) x = Some Uint64)"

definition classes_typed ::
    "'r registry \<Rightarrow> ('r \<Rightarrow> nat \<Rightarrow> value_type option) \<Rightarrow> ('r \<Rightarrow> nat \<Rightarrow> nat list) \<Rightarrow> 'r trace \<Rightarrow> bool" where
  "classes_typed reg mtype mems tr \<longleftrightarrow>
    (\<forall>l cs mc. reg_get reg K_metric_class (ByCounterCollection l cs) (tr_registry tr) = Some mc \<longrightarrow>
      class_types mtype mems tr mc = map Some (collection_types (l \<noteq> None) (length cs)))"

section \<open>Members\<close>

text \<open>What an operation leaves alone: the types of members and everything about classes.\<close>

definition metric_frame ::
    "'r registry \<Rightarrow> ('r \<Rightarrow> nat \<Rightarrow> value_type option) \<Rightarrow> ('r \<Rightarrow> nat \<Rightarrow> nat list) \<Rightarrow> 'r trace \<Rightarrow> 'r trace \<Rightarrow> bool" where
  "metric_frame reg mtype mems tr tr' \<longleftrightarrow>
    (\<forall>x t. mtype (tr_registry tr) x = Some t \<longrightarrow> mtype (tr_registry tr') x = Some t) \<and>
    mems (tr_registry tr') = mems (tr_registry tr) \<and>
    (\<forall>k. reg_get reg K_metric_class k (tr_registry tr') = reg_get reg K_metric_class k (tr_registry tr))"

lemma metric_frame_refl [simp]: "metric_frame reg mtype mems tr tr"
  by (simp add: metric_frame_def)

lemma metric_frame_trans:
  "metric_frame reg mtype mems a b \<Longrightarrow> metric_frame reg mtype mems b c \<Longrightarrow> metric_frame reg mtype mems a c"
  by (simp add: metric_frame_def)

lemma same_key_metric [simp]:
  "same_key (BySamplingEvent a) k \<longleftrightarrow> k = BySamplingEvent a" "same_key k (BySamplingEvent a) \<longleftrightarrow> k = BySamplingEvent a"
  "same_key (ByString s) k \<longleftrightarrow> k = ByString s" "same_key k (ByString s) \<longleftrightarrow> k = ByString s"
  "same_key (ByCounterCollection l cs) k \<longleftrightarrow> k = ByCounterCollection l cs"
  "same_key k (ByCounterCollection l cs) \<longleftrightarrow> k = ByCounterCollection l cs"
  by (auto simp: same_key_def split: reg_key.splits)

lemma metric_laws_create:
  assumes "metric_laws reg mtype mems" "reg_create reg ko d r = (x, r')"
  shows "reg_get reg (kind_of d) k r \<noteq> Some x" "mtype r x = None"
    "mtype r' = (case d of D_metric_member _ _ _ ty _ _ \<Rightarrow> (mtype r)(x \<mapsto> ty) | _ \<Rightarrow> mtype r)"
    "mems r' = (if d = D_metric_class then (mems r)(x := []) else mems r)"
proof -
  have "(\<forall>k. reg_get reg (kind_of d) k r \<noteq> Some (fst (reg_create reg ko d r))) \<and>
      mtype r (fst (reg_create reg ko d r)) = None \<and>
      mtype (snd (reg_create reg ko d r)) =
        (case d of D_metric_member _ _ _ ty _ _ \<Rightarrow> (mtype r)(fst (reg_create reg ko d r) \<mapsto> ty) | _ \<Rightarrow> mtype r) \<and>
      mems (snd (reg_create reg ko d r)) =
        (if d = D_metric_class then (mems r)(fst (reg_create reg ko d r) := []) else mems r)"
    using assms(1) unfolding metric_laws_def by blast
  then show "reg_get reg (kind_of d) k r \<noteq> Some x" "mtype r x = None"
    "mtype r' = (case d of D_metric_member _ _ _ ty _ _ \<Rightarrow> (mtype r)(x \<mapsto> ty) | _ \<Rightarrow> mtype r)"
    "mems r' = (if d = D_metric_class then (mems r)(x := []) else mems r)"
    unfolding assms(2) fst_conv snd_conv by blast+
qed

lemma metric_laws_change:
  assumes "metric_laws reg mtype mems"
  shows "mtype (reg_change reg c r) = mtype r"
    "mems (reg_change reg (Add_member K_metric_class g m) r) = (mems r)(g := mems r g @ [m])"
proof -
  have "mtype (reg_change reg c r) = mtype r \<and> mems (reg_change reg c r) =
      (case c of Add_member kd g m \<Rightarrow> if kd = K_metric_class then (mems r)(g := mems r g @ [m]) else mems r | _ \<Rightarrow> mems r)" for c
    using assms unfolding metric_laws_def by blast
  then show "mtype (reg_change reg c r) = mtype r"
    "mems (reg_change reg (Add_member K_metric_class g m) r) = (mems r)(g := mems r g @ [m])" by simp_all
qed

lemma create_other:
  assumes "registry_ok reg cdef" "metric_laws reg mtype mems" "tr_create reg ko d tr = (x, tr')"
    "kind_of d \<noteq> K_metric_member" "kind_of d \<noteq> K_metric_class"
    "\<And>k. ko = Some k \<Longrightarrow> tr_get reg (kind_of d) k tr = Inl Out_of_range"
  shows "metric_frame reg mtype mems tr tr' \<and> (members_typed reg mtype tr \<longrightarrow> members_typed reg mtype tr')"
proof -
  obtain r where r: "reg_create reg ko d (tr_registry tr) = (x, r)" "tr' = tr\<lparr>tr_registry := r\<rparr>"
    using assms(3) by (auto simp: tr_create_def split: prod.splits)
  have kinds: "mtype r = mtype (tr_registry tr)" "mems r = mems (tr_registry tr)"
    using metric_laws_create(3,4)[OF assms(2) r(1)] assms(4,5) by (auto split: otf2_def.splits)
  have "tr_grows reg cdef {kind_of d} tr tr'"
    using tr_create_grows(1)[OF assms(1,6,3)] by simp
  then have "\<forall>kd k. kd \<noteq> kind_of d \<longrightarrow> reg_get reg kd k r = reg_get reg kd k (tr_registry tr)"
    using r(2) by (simp add: tr_grows_def)
  then have "\<And>k. reg_get reg K_metric_member k r = reg_get reg K_metric_member k (tr_registry tr)"
    "\<And>k. reg_get reg K_metric_class k r = reg_get reg K_metric_class k (tr_registry tr)"
    using assms(4,5) by simp_all
  with kinds r(2) show ?thesis by (simp add: metric_frame_def members_typed_def)
qed

lemma emplace_cases:
  assumes "registry_ok reg cdef" "tr_emplace reg k d tr = (x, tr')"
  obtains "tr_get reg (kind_of d) k tr = Inr x" "tr' = tr"
  | "tr_get reg (kind_of d) k tr = Inl Out_of_range" "tr_create reg (Some k) d tr = (x, tr')"
proof -
  have "\<forall>k d r. reg_emplace reg k d r =
      (case reg_get reg (kind_of d) k r of Some x \<Rightarrow> (x, r) | None \<Rightarrow> reg_create reg (Some k) d r)"
    using assms(1) unfolding registry_ok_def by blast
  then have em: "reg_emplace reg k d (tr_registry tr) = (case reg_get reg (kind_of d) k (tr_registry tr) of
      Some x \<Rightarrow> (x, tr_registry tr) | None \<Rightarrow> reg_create reg (Some k) d (tr_registry tr))"
    by blast
  show thesis
  proof (cases "reg_get reg (kind_of d) k (tr_registry tr)")
    case None
    show thesis
      by (rule that(2)) (use None em assms(2) in \<open>simp_all add: tr_emplace_def tr_create_def tr_get_def\<close>)
  next
    case (Some y)
    show thesis
      by (rule that(1)) (use Some em assms(2) in \<open>simp_all add: tr_emplace_def tr_get_def\<close>)
  qed
qed

lemma intern_frame:
  assumes "registry_ok reg cdef" "metric_laws reg mtype mems" "intern reg s tr = (x, tr')"
  shows "metric_frame reg mtype mems tr tr' \<and> (members_typed reg mtype tr \<longrightarrow> members_typed reg mtype tr')"
  using assms(3) unfolding intern_def
proof (rule emplace_cases[OF assms(1)])
  assume "tr_get reg (kind_of (D_string s)) (ByString s) tr = Inl Out_of_range"
    "tr_create reg (Some (ByString s)) (D_string s) tr = (x, tr')"
  then show ?thesis using create_other[OF assms(1,2)] by force
qed simp

text \<open>A new member has its type, and the members that can be looked up keep theirs.\<close>

lemma create_member:
  assumes "registry_ok reg cdef" "metric_laws reg mtype mems" "tr_create reg ko (D_metric_member n d md ty e u) tr = (x, tr')"
    "\<And>k. ko = Some k \<Longrightarrow> tr_get reg K_metric_member k tr = Inl Out_of_range"
  shows "metric_frame reg mtype mems tr tr'" "mtype (tr_registry tr') x = Some ty"
    "members_typed reg mtype tr \<Longrightarrow>
      (\<forall>a. ko = Some (BySamplingEvent a) \<longrightarrow> ty = Double) \<Longrightarrow> (\<forall>s. ko = Some (ByString s) \<longrightarrow> ty = Uint64) \<Longrightarrow>
      members_typed reg mtype tr'"
proof -
  let ?d = "D_metric_member n d md ty e u"
  obtain r where r: "reg_create reg ko ?d (tr_registry tr) = (x, r)" "tr' = tr\<lparr>tr_registry := r\<rparr>"
    using assms(3) by (auto simp: tr_create_def split: prod.splits)
  have fresh: "mtype (tr_registry tr) x = None" "mtype r = (mtype (tr_registry tr))(x \<mapsto> ty)" "mems r = mems (tr_registry tr)"
    using metric_laws_create(2-4)[OF assms(2) r(1)] by simp_all
  have none: "reg_get reg (kind_of ?d) k (tr_registry tr) = None" if "ko = Some k" for k
    using assms(4)[OF that] by (simp add: tr_get_def split: option.splits)
  have added: "reg_added reg cdef ko ?d (tr_registry tr) (x, r)"
    using assms(1) r(1) none unfolding registry_ok_def by (cases ko) metis+
  then have get: "reg_get reg kd k r =
      (if kd = K_metric_member \<and> (\<exists>l. ko = Some l \<and> same_key l k) then Some x else reg_get reg kd k (tr_registry tr))" for kd k
    unfolding reg_added_def kind_of.simps fst_conv snd_conv by blast
  show "metric_frame reg mtype mems tr tr'"
    using fresh get r(2) by (auto simp: metric_frame_def)
  show "mtype (tr_registry tr') x = Some ty" using fresh r(2) by simp
  show "members_typed reg mtype tr'" if "members_typed reg mtype tr"
    "\<forall>a. ko = Some (BySamplingEvent a) \<longrightarrow> ty = Double" "\<forall>s. ko = Some (ByString s) \<longrightarrow> ty = Uint64"
    using that fresh get r(2) unfolding members_typed_def by auto
qed

lemma emplace_member:
  assumes "registry_ok reg cdef" "metric_laws reg mtype mems" "members_typed reg mtype tr"
    "tr_emplace reg k (D_metric_member n d md ty e u) tr = (x, tr')"
    "(\<exists>a. k = BySamplingEvent a) \<and> ty = Double \<or> (\<exists>s. k = ByString s) \<and> ty = Uint64"
  shows "metric_frame reg mtype mems tr tr' \<and> members_typed reg mtype tr' \<and> mtype (tr_registry tr') x = Some ty"
  using assms(4)
proof (rule emplace_cases[OF assms(1)])
  assume "tr_get reg (kind_of (D_metric_member n d md ty e u)) k tr = Inr x" "tr' = tr"
  then show ?thesis
    using assms(3,5) by (auto simp: members_typed_def tr_get_def split: option.splits)
next
  assume a: "tr_get reg (kind_of (D_metric_member n d md ty e u)) k tr = Inl Out_of_range"
    "tr_create reg (Some k) (D_metric_member n d md ty e u) tr = (x, tr')"
  from create_member[OF assms(1,2) a(2)] a(1) assms(3,5) show ?thesis by auto
qed

lemma add_metric_members:
  assumes "registry_ok reg cdef" "metric_laws reg mtype mems"
  shows "mems (tr_registry (add_metric reg mc x tr)) = (mems (tr_registry tr))(mc := mems (tr_registry tr) mc @ [x])"
    "mtype (tr_registry (add_metric reg mc x tr)) = mtype (tr_registry tr)"
    "reg_get reg kd k (tr_registry (add_metric reg mc x tr)) = reg_get reg kd k (tr_registry tr)"
    "members_typed reg mtype (add_metric reg mc x tr) = members_typed reg mtype tr"
proof -
  have "\<forall>c r kd k. reg_get reg kd k (reg_change reg c r) = reg_get reg kd k r"
    using assms(1) unfolding registry_ok_def by blast
  then show "mems (tr_registry (add_metric reg mc x tr)) = (mems (tr_registry tr))(mc := mems (tr_registry tr) mc @ [x])"
    "mtype (tr_registry (add_metric reg mc x tr)) = mtype (tr_registry tr)"
    "reg_get reg kd k (tr_registry (add_metric reg mc x tr)) = reg_get reg kd k (tr_registry tr)"
    "members_typed reg mtype (add_metric reg mc x tr) = members_typed reg mtype tr"
    using metric_laws_change[OF assms(2)] by (simp_all add: add_metric_def tr_change_def members_typed_def)
qed

section \<open>Classes\<close>

text \<open>One class gets members of the given types; the rest stays.\<close>

definition class_extended ::
    "'r registry \<Rightarrow> ('r \<Rightarrow> nat \<Rightarrow> value_type option) \<Rightarrow> ('r \<Rightarrow> nat \<Rightarrow> nat list) \<Rightarrow> nat \<Rightarrow> value_type list
      \<Rightarrow> 'r trace \<Rightarrow> 'r trace \<Rightarrow> bool" where
  "class_extended reg mtype mems mc tys tr tr' \<longleftrightarrow> members_typed reg mtype tr' \<and>
    (\<forall>x t. mtype (tr_registry tr) x = Some t \<longrightarrow> mtype (tr_registry tr') x = Some t) \<and>
    (\<forall>k. reg_get reg K_metric_class k (tr_registry tr') = reg_get reg K_metric_class k (tr_registry tr)) \<and>
    (\<exists>xs. mems (tr_registry tr') = (mems (tr_registry tr))(mc := mems (tr_registry tr) mc @ xs) \<and>
      map (mtype (tr_registry tr')) xs = map Some tys)"

lemma class_extended_refl: "members_typed reg mtype tr \<Longrightarrow> class_extended reg mtype mems mc [] tr tr"
  by (auto simp: class_extended_def intro!: exI[of _ "[]"])

lemma class_extended_trans:
  assumes "class_extended reg mtype mems mc ts a b" "class_extended reg mtype mems mc us b c"
  shows "class_extended reg mtype mems mc (ts @ us) a c"
proof -
  obtain xs where xs: "mems (tr_registry b) = (mems (tr_registry a))(mc := mems (tr_registry a) mc @ xs)"
      "map (mtype (tr_registry b)) xs = map Some ts"
    using assms(1) by (auto simp: class_extended_def)
  obtain ys where ys: "mems (tr_registry c) = (mems (tr_registry b))(mc := mems (tr_registry b) mc @ ys)"
      "map (mtype (tr_registry c)) ys = map Some us"
    using assms(2) by (auto simp: class_extended_def)
  have "map (mtype (tr_registry c)) xs = map (mtype (tr_registry b)) xs"
  proof (rule map_cong[OF refl])
    fix x assume "x \<in> set xs"
    then have "mtype (tr_registry b) x \<in> set (map Some ts)" by (metis xs(2) image_eqI list.set_map)
    with assms(2) show "mtype (tr_registry c) x = mtype (tr_registry b) x" by (auto simp: class_extended_def)
  qed
  with xs ys have "mems (tr_registry c) = (mems (tr_registry a))(mc := mems (tr_registry a) mc @ (xs @ ys)) \<and>
      map (mtype (tr_registry c)) (xs @ ys) = map Some (ts @ us)" by simp
  moreover have "members_typed reg mtype c" using assms(2) by (simp add: class_extended_def)
  moreover have "\<forall>x t. mtype (tr_registry a) x = Some t \<longrightarrow> mtype (tr_registry c) x = Some t"
    "\<forall>k. reg_get reg K_metric_class k (tr_registry c) = reg_get reg K_metric_class k (tr_registry a)"
    using assms by (simp_all add: class_extended_def)
  ultimately show ?thesis unfolding class_extended_def by blast
qed

lemma add_one_member:
  assumes "registry_ok reg cdef" "metric_laws reg mtype mems" "metric_frame reg mtype mems a b" "members_typed reg mtype b"
    "mtype (tr_registry b) x = Some ty"
  shows "class_extended reg mtype mems mc [ty] a (add_metric reg mc x b)"
  using assms(3-5) unfolding class_extended_def add_metric_members[OF assms(1,2)] metric_frame_def
  by (auto intro!: exI[of _ "[x]"])

lemma add_event_members_extend:
  assumes "registry_ok reg cdef" "metric_laws reg mtype mems"
  shows "members_typed reg mtype tr \<Longrightarrow>
    class_extended reg mtype mems mc (replicate (length evs) Double) tr (add_event_members reg mc evs tr)"
proof (induction evs arbitrary: tr)
  case (Cons ev evs)
  obtain n t1 d t2 u t3 x t4 where s: "intern reg (ea_name ev) tr = (n, t1)" "intern reg (ea_name ev) t1 = (d, t2)"
    "intern reg (ea_unit ev) t2 = (u, t3)"
    "tr_emplace reg (BySamplingEvent (ea_attr ev)) (D_metric_member n d Accumulated_start Double 0 u) t3 = (x, t4)"
    by (metis surj_pair)
  note i = intern_frame[OF assms s(1)] intern_frame[OF assms s(2)] intern_frame[OF assms s(3)]
  have t3: "metric_frame reg mtype mems tr t3" "members_typed reg mtype t3"
    using i Cons.prems metric_frame_trans by blast+
  have t4: "metric_frame reg mtype mems tr t4" "members_typed reg mtype t4" "mtype (tr_registry t4) x = Some Double"
    using emplace_member[OF assms t3(2) s(4)] t3(1) metric_frame_trans by blast+
  note one = add_one_member[OF assms t4, of mc]
  have "class_extended reg mtype mems mc (replicate (length evs) Double) (add_metric reg mc x t4)
      (add_event_members reg mc evs (add_metric reg mc x t4))"
    using one by (intro Cons.IH) (simp add: class_extended_def)
  from class_extended_trans[OF one this] show ?case
    using s by (simp add: get_event_metric_member_def)
qed (simp add: class_extended_refl)

lemma add_named_members_extend:
  assumes "registry_ok reg cdef" "metric_laws reg mtype mems"
  shows "members_typed reg mtype tr \<Longrightarrow>
    class_extended reg mtype mems mc (replicate (length ms) Uint64) tr (add_named_members reg mc ms unit tr)"
proof (induction ms arbitrary: tr)
  case (Cons m ms)
  obtain name desc where m: "m = (name, desc)" by fastforce
  obtain n t1 d t2 u t3 x t4 where s: "intern reg name tr = (n, t1)" "intern reg desc t1 = (d, t2)"
    "intern reg unit t2 = (u, t3)"
    "tr_emplace reg (ByString name) (D_metric_member n d Accumulated_start Uint64 0 u) t3 = (x, t4)"
    by (metis surj_pair)
  note i = intern_frame[OF assms s(1)] intern_frame[OF assms s(2)] intern_frame[OF assms s(3)]
  have t3: "metric_frame reg mtype mems tr t3" "members_typed reg mtype t3"
    using i Cons.prems metric_frame_trans by blast+
  have t4: "metric_frame reg mtype mems tr t4" "members_typed reg mtype t4" "mtype (tr_registry t4) x = Some Uint64"
    using emplace_member[OF assms t3(2) s(4)] t3(1) metric_frame_trans by blast+
  note one = add_one_member[OF assms t4, of mc]
  have "class_extended reg mtype mems mc (replicate (length ms) Uint64) (add_metric reg mc x t4)
      (add_named_members reg mc ms unit (add_metric reg mc x t4))"
    using one by (intro Cons.IH) (simp add: class_extended_def)
  from class_extended_trans[OF one this] show ?case
    using s m by simp
qed (simp add: class_extended_refl)


text \<open>Under the invariant every class found for a collection has the types of the collection.\<close>

lemma collection_types_nth: "length (collection_types l n) = (if l then n + 3 else n)"
  by (simp add: collection_types_def)

lemma class_extended_types:
  assumes "class_extended reg mtype mems mc tys tr tr'"
  shows "class_types mtype mems tr' mc = map (mtype (tr_registry tr')) (mems (tr_registry tr) mc) @ map Some tys"
    "c \<noteq> mc \<Longrightarrow> class_types mtype mems tr c = map Some ts \<Longrightarrow> class_types mtype mems tr' c = map Some ts"
proof -
  obtain xs where xs: "mems (tr_registry tr') = (mems (tr_registry tr))(mc := mems (tr_registry tr) mc @ xs)"
      "map (mtype (tr_registry tr')) xs = map Some tys"
    using assms by (auto simp: class_extended_def)
  then show "class_types mtype mems tr' mc = map (mtype (tr_registry tr')) (mems (tr_registry tr) mc) @ map Some tys"
    by (simp add: class_types_def)
  assume c: "c \<noteq> mc" "class_types mtype mems tr c = map Some ts"
  have "map (mtype (tr_registry tr')) (mems (tr_registry tr) c) = map (mtype (tr_registry tr)) (mems (tr_registry tr) c)"
  proof (rule map_cong[OF refl])
    fix x assume "x \<in> set (mems (tr_registry tr) c)"
    then have "mtype (tr_registry tr) x \<in> set (map Some ts)" using c(2) by (metis class_types_def image_eqI list.set_map)
    with assms show "mtype (tr_registry tr') x = mtype (tr_registry tr) x" by (auto simp: class_extended_def)
  qed
  with c xs(1) show "class_types mtype mems tr' c = map Some ts" by (simp add: class_types_def)
qed

text \<open>A new class, with the members that are added to it, keeps the invariant.\<close>

lemma new_class_typed:
  assumes "registry_ok reg cdef" "metric_laws reg mtype mems" "members_typed reg mtype tr" "classes_typed reg mtype mems tr"
    "tr_get reg K_metric_class k tr = Inl Out_of_range" "tr_emplace reg k D_metric_class tr = (mc, t1)"
  shows "members_typed reg mtype t1" "mems (tr_registry t1) mc = []"
    "class_extended reg mtype mems mc tys t1 t2 \<Longrightarrow>
      (\<And>l cs. k = ByCounterCollection l cs \<Longrightarrow> tys = collection_types (l \<noteq> None) (length cs)) \<Longrightarrow>
      (\<nexists>a. k = ByLineInfo a) \<Longrightarrow> classes_typed reg mtype mems t2"
proof -
  have none: "reg_get reg K_metric_class k (tr_registry tr) = None"
    using assms(5) by (simp add: tr_get_def split: option.splits)
  then have "reg_emplace reg k D_metric_class (tr_registry tr) = reg_create reg (Some k) D_metric_class (tr_registry tr)"
    using assms(1) by (simp add: registry_ok_def)
  then obtain r where r: "reg_create reg (Some k) D_metric_class (tr_registry tr) = (mc, r)" "t1 = tr\<lparr>tr_registry := r\<rparr>"
    using assms(6) by (auto simp: tr_emplace_def split: prod.splits)
  have fresh: "\<And>k. reg_get reg K_metric_class k (tr_registry tr) \<noteq> Some mc" "mtype r = mtype (tr_registry tr)"
      "mems r = (mems (tr_registry tr))(mc := [])"
    using metric_laws_create[OF assms(2) r(1)] by simp_all
  have added: "reg_added reg cdef (Some k) D_metric_class (tr_registry tr) (mc, r)"
    using assms(1) r(1) none unfolding registry_ok_def by (metis kind_of.simps(17))
  then have get: "reg_get reg kd l r = (if kd = K_metric_class \<and> same_key k l then Some mc else reg_get reg kd l (tr_registry tr))" for kd l
    unfolding reg_added_def kind_of.simps fst_conv snd_conv option.inject by metis
  show "members_typed reg mtype t1"
    using assms(3) get fresh r(2) by (simp add: members_typed_def)
  show mt: "mems (tr_registry t1) mc = []" using fresh r(2) by simp
  assume ext: "class_extended reg mtype mems mc tys t1 t2"
    and tys: "\<And>l cs. k = ByCounterCollection l cs \<Longrightarrow> tys = collection_types (l \<noteq> None) (length cs)"
    and key: "\<nexists>a. k = ByLineInfo a"
  have new: "class_types mtype mems t2 mc = map Some tys"
    using class_extended_types(1)[OF ext] mt by simp
  show "classes_typed reg mtype mems t2"
    unfolding classes_typed_def
  proof (intro allI impI)
    fix l cs c assume "reg_get reg K_metric_class (ByCounterCollection l cs) (tr_registry t2) = Some c"
    then have c: "reg_get reg K_metric_class (ByCounterCollection l cs) r = Some c"
      using ext r(2) by (simp add: class_extended_def)
    show "class_types mtype mems t2 c = map Some (collection_types (l \<noteq> None) (length cs))"
    proof (cases "k = ByCounterCollection l cs")
      case True
      with c get have "c = mc" by simp
      with new tys True show ?thesis by simp
    next
      case False
      with c get key have old: "reg_get reg K_metric_class (ByCounterCollection l cs) (tr_registry tr) = Some c" by simp
      then have "c \<noteq> mc" using fresh(1) by metis
      moreover have "class_types mtype mems t1 c = map Some (collection_types (l \<noteq> None) (length cs))"
        using assms(4) old fresh(2,3) r(2) \<open>c \<noteq> mc\<close> unfolding classes_typed_def class_types_def by simp
      ultimately show ?thesis using class_extended_types(2)[OF ext] by blast
    qed
  qed
qed


lemma tr_get_cases: obtains x where "tr_get reg kd k tr = Inr x" | "tr_get reg kd k tr = Inl Out_of_range"
  by (cases "reg_get reg kd k (tr_registry tr)") (auto simp: tr_get_def)

lemma collection_class_typed:
  assumes "registry_ok reg cdef" "metric_laws reg mtype mems" "members_typed reg mtype tr" "classes_typed reg mtype mems tr"
    "collection_class reg ty cc tr = (r, tr')"
    "if ty = GROUP_METRIC then cc_leader cc \<noteq> None \<or> cc_counters cc = [] else cc_leader cc = None"
  shows "members_typed reg mtype tr' \<and> classes_typed reg mtype mems tr' \<and>
    (\<forall>mc. r = Inr mc \<longrightarrow> class_types mtype mems tr' mc =
      map Some (collection_types (cc_leader cc \<noteq> None) (length (cc_counters cc))))"
proof (cases rule: tr_get_cases[of reg K_metric_class "collection_key cc" tr])
  case (1 x)
  then have "reg_get reg K_metric_class (collection_key cc) (tr_registry tr) = Some x" "r = Inr x" "tr' = tr"
    using assms(5) by (auto simp: collection_class_def tr_get_def split: option.splits)
  with assms(3,4) show ?thesis by (auto simp: classes_typed_def collection_key_def)
next
  case 2
  let ?tys = "collection_types (cc_leader cc \<noteq> None) (length (cc_counters cc))"
  obtain mc t1 where t1: "tr_emplace reg (collection_key cc) D_metric_class tr = (mc, t1)" by fastforce
  note new = new_class_typed[OF assms(1-4) 2 t1]
  have key: "tys = collection_types (l \<noteq> None) (length cs)" if "tys = ?tys" "collection_key cc = ByCounterCollection l cs" for tys l cs
    using that by (auto simp: collection_key_def)
  have line: "\<nexists>a. collection_key cc = ByLineInfo a" by (simp add: collection_key_def)
  have finished: ?thesis if ext: "class_extended reg mtype mems mc ?tys t1 tr'" and res: "r = Inr mc \<or> (\<exists>e. r = Inl e)"
    using new(3)[OF ext key line] class_extended_types(1)[OF ext] new(2) ext res by (auto simp: class_extended_def)
  show ?thesis
  proof (cases "ty = GROUP_METRIC")
    case False
    then have "tr' = add_event_members reg mc (cc_counters cc) t1" "r = Inr mc"
      using assms(5) 2 t1 by (simp_all add: collection_class_def)
    moreover have "?tys = replicate (length (cc_counters cc)) Double"
      using False assms(6) by (simp add: collection_types_def)
    ultimately show ?thesis
      using finished add_event_members_extend[OF assms(1,2) new(1), of mc "cc_counters cc"] by simp
  next
    case True
    show ?thesis
    proof (cases "cc_leader cc")
      case None
      then have "?tys = []" "tr' = t1" "\<exists>e. r = Inl e"
        using True assms(5,6) 2 t1 by (auto simp: collection_types_def collection_class_def)
      then show ?thesis using finished class_extended_refl[OF new(1)] by simp
    next
      case (Some leader)
      let ?t2 = "add_event_members reg mc (leader # cc_counters cc) t1"
      have tr': "tr' = add_named_members reg mc time_members ''ns'' ?t2" "r = Inr mc"
        using True Some assms(5) 2 t1 by (simp_all add: collection_class_def)
      have e1: "class_extended reg mtype mems mc (replicate (Suc (length (cc_counters cc))) Double) t1 ?t2"
        using add_event_members_extend[OF assms(1,2) new(1), of mc "leader # cc_counters cc"] by simp
      then have "members_typed reg mtype ?t2" by (simp add: class_extended_def)
      from add_named_members_extend[OF assms(1,2) this, of mc time_members "''ns''"]
      have e2: "class_extended reg mtype mems mc [Uint64, Uint64] ?t2 tr'"
        using tr'(1) by (simp add: time_members_def numeral_2_eq_2)
      have "?tys = replicate (Suc (length (cc_counters cc))) Double @ [Uint64, Uint64]"
        using Some by (simp add: collection_types_def)
      then show ?thesis using finished class_extended_trans[OF e1 e2] tr'(2) by simp
    qed
  qed
qed

section \<open>The counters of a scope\<close>

lemma group_handle_stores:
  assumes "gc_inv n b" "gr_nr v = n" "0 < n" "cs_leader c = Some s" "length (cs_counters c) = n - 1" "length vals = n + 2"
  shows "\<exists>b' vals'. group_handle c v b vals = Inr (b', vals') \<and> length vals' = n + 2 \<and>
    vals' ! n = of_nat (unat (gr_time_enabled v)) \<and> vals' ! (n + 1) = of_nat (unat (gr_time_running v))"
proof -
  obtain b' where b': "gc_read v b = Inr b'" "gc_inv n b'"
    using group.rd_step[OF assms(1,2)] by blast
  have len: "length (gc_accumulated b') = n" and prev: "gc_previous b' = v"
    using b' assms(1,2) by (auto simp: gc_read_def Let_def gc_inv_def)
  have "\<forall>j < length (gc_accumulated b'). get_scale c (0 + j + 0) = Inr (if j = 0 then s else cs_counters c ! (j - 1))"
    using assms(3-5) len by (auto simp: get_scale_def)
  note st = store_scaled_ok[OF this, of vals]
  have "length (fold (\<lambda>j vs. vs[0 + j := f j]) js vals) = length vals" for f :: "nat \<Rightarrow> rat" and js and vals :: "rat list"
    by (induction js arbitrary: vals) simp_all
  then obtain vs where "store_scaled 0 c 0 (gc_accumulated b') vals = Inr vs" "length vs = n + 2"
    using st assms(6) by simp
  then show ?thesis
    using b'(1) len prev assms(6) by (simp add: group_handle_def Let_def gc_enabled_def gc_running_def)
qed

lemma available_group_shape:
  "available_group scope g = Inr cc \<Longrightarrow> cc_leader cc \<noteq> None \<or> cc_counters cc = []"
  by (auto simp: available_group_def no_counters_def sum_bind_Inr_iff split: option.splits if_splits)

lemma then_do_Inr: "then_do r f = (Inr x, c') \<Longrightarrow> \<exists>a c. r = (Inr a, c) \<and> f a c = (Inr x, c')"
  by (cases r; cases "fst r") (auto simp: then_do_def split: sum.splits)

lemma counters_for_shape:
  assumes "counters_for env scope c = (Inr cc, c')"
  shows "if ms_type scope = GROUP_METRIC then cc_leader cc \<noteq> None \<or> cc_counters cc = [] else cc_leader cc = None"
  using assms
  by (auto simp: counters_for_def group_counters_for_def userspace_counters_for_def no_counters_def sum_bind_Inr_iff
      dest!: then_do_Inr available_group_shape split: if_splits option.splits)

text \<open>The scales a collection passes to the writers.\<close>

definition collection_scales :: "counter_collection \<Rightarrow> counter_scales" where
  "collection_scales cc = \<lparr>cs_leader = map_option ea_scale (cc_leader cc), cs_counters = map ea_scale (cc_counters cc)\<rparr>"


text \<open>
  C16. The events of the counter writers are well typed. Whenever the trace returns the metric class of the
  grouped or userspace counters of a scope, the class has, in this order, one floating point member for the
  leader and for each counter of the collection and, for grouped counters, two unsigned members for the
  times; so a group writer that has one value per member handles every sample of its collection and writes
  all of them. The registry keeps this for all classes of collections.
\<close>

theorem metric_class_typed:
  assumes "registry_ok reg cdef" "metric_laws reg mtype mems" "members_typed reg mtype tr" "classes_typed reg mtype mems tr"
    and "ms_type scope = GROUP_METRIC \<or> ms_type scope = USERSPACE_METRIC"
    and "perf_metric_class reg cenv scope (c, tr) = (Inr mc, c', tr')"
  shows "members_typed reg mtype tr' \<and> classes_typed reg mtype mems tr' \<and>
    (\<exists>cc. counters_for cenv scope c = (Inr cc, c') \<and>
      class_types mtype mems tr' mc = map Some (collection_types (cc_leader cc \<noteq> None) (length (cc_counters cc))) \<and>
      (cc_leader cc \<noteq> None \<longrightarrow> (\<forall>v b vals. gc_inv (Suc (length (cc_counters cc))) b \<longrightarrow> gr_nr v = Suc (length (cc_counters cc)) \<longrightarrow>
        length vals = length (class_types mtype mems tr' mc) \<longrightarrow>
        (\<exists>b' vals'. group_handle (collection_scales cc) v b vals = Inr (b', vals') \<and> length vals' = length vals \<and>
          vals' ! (length vals - 2) = of_nat (unat (gr_time_enabled v)) \<and>
          vals' ! (length vals - 1) = of_nat (unat (gr_time_running v))))))"
proof -
  obtain cc tr1 where cc: "counters_for cenv scope c = (Inr cc, c')" "collection_class reg (ms_type scope) cc tr = (Inr mc, tr')"
    using assms(5,6) by (auto simp: perf_metric_class_def split: prod.splits sum.splits)
  note t = collection_class_typed[OF assms(1-4) cc(2) counters_for_shape[OF cc(1)]]
  let ?n = "Suc (length (cc_counters cc))"
  have "\<exists>b' vals'. group_handle (collection_scales cc) v b vals = Inr (b', vals') \<and> length vals' = length vals \<and>
      vals' ! (length vals - 2) = of_nat (unat (gr_time_enabled v)) \<and> vals' ! (length vals - 1) = of_nat (unat (gr_time_running v))"
    if "cc_leader cc \<noteq> None" "gc_inv ?n b" "gr_nr v = ?n" "length vals = length (class_types mtype mems tr' mc)" for v b vals
  proof -
    have "length vals = ?n + 2" using t that(1,4) by (simp add: collection_types_def)
    with group_handle_stores[of ?n b v "collection_scales cc" _ vals] that(1-3) show ?thesis
      by (fastforce simp: collection_scales_def)
  qed
  with t cc(1) show ?thesis by blast
qed

text \<open>A registry that keeps the members of its classes.\<close>

type_synonym member_registry = "list_registry \<times> (nat \<Rightarrow> nat list)"

definition member_registry :: "member_registry registry" where
  "member_registry =
    (let create = \<lambda>ko d (r, m). (length r, r @ [(ko, d)], if d = D_metric_class then m(length r := []) else m) in
     \<lparr>reg_get = (\<lambda>kd k s. list_get kd k (fst s)), reg_create = create,
      reg_emplace = (\<lambda>k d s. case list_get (kind_of d) k (fst s) of Some x \<Rightarrow> (x, s) | None \<Rightarrow> create (Some k) d s),
      reg_change = (\<lambda>c (r, m). (r, case c of Add_member kd g x \<Rightarrow> if kd = K_metric_class then m(g := m g @ [x]) else m | _ \<Rightarrow> m))\<rparr>)"

definition member_type :: "member_registry \<Rightarrow> nat \<Rightarrow> value_type option" where
  "member_type s x =
    (if x < length (fst s) then case snd (fst s ! x) of D_metric_member _ _ _ ty _ _ \<Rightarrow> Some ty | _ \<Rightarrow> None else None)"

lemma member_registry_ok: "registry_ok member_registry (\<lambda>s. list_cdef (fst s))"
proof -
  have get: "list_get kd k r = list_get kd l r" if "same_key k l" for kd k l r
    using entry_matches_same[OF that] by (simp add: list_get_def)
  have add: "reg_added member_registry (\<lambda>s. list_cdef (fst s)) ko d s (reg_create member_registry ko d s)"
    if "\<And>k. ko = Some k \<Longrightarrow> list_get (kind_of d) k (fst s) = None" for ko d s
    using list_create_added[of ko d "fst s"] that
    by (cases s) (auto simp: member_registry_def reg_added_def list_create_def)
  have "reg_added member_registry (\<lambda>s. list_cdef (fst s)) None d s (reg_create member_registry None d s)" for d s
    by (rule add) simp
  moreover have "reg_added member_registry (\<lambda>s. list_cdef (fst s)) (Some k) d s (reg_create member_registry (Some k) d s)"
    if "reg_get member_registry (kind_of d) k s = None" for k d s
    by (rule add) (use that in \<open>simp add: member_registry_def\<close>)
  moreover have "reg_get member_registry kd k s = reg_get member_registry kd l s" if "same_key k l" for kd k l s
    using get[OF that] by (simp add: member_registry_def)
  moreover have "reg_emplace member_registry k d s =
      (case reg_get member_registry (kind_of d) k s of Some x \<Rightarrow> (x, s) | None \<Rightarrow> reg_create member_registry (Some k) d s)" for k d s
    by (simp add: member_registry_def split: option.split)
  moreover have "fst (reg_change member_registry c s) = fst s" for c s
    by (cases s) (simp add: member_registry_def)
  moreover from this have "reg_get member_registry kd k (reg_change member_registry c s) = reg_get member_registry kd k s" for kd k c s
    by (simp add: member_registry_def)
  ultimately show ?thesis
    unfolding registry_ok_def by simp
qed

lemma list_get_bound: "list_get kd k r = Some x \<Longrightarrow> x < length r"
  by (auto simp: list_get_def find_Some_iff)

lemma member_registry_laws: "metric_laws member_registry member_type snd"
proof -
  have "reg_get member_registry kd k r \<noteq> Some (fst (reg_create member_registry ko d r))" for kd k ko d r
    using list_get_bound[of kd k "fst r"] by (cases r) (auto simp: member_registry_def)
  moreover have "member_type (snd (reg_create member_registry ko d r)) =
      (case d of D_metric_member _ _ _ ty _ _ \<Rightarrow> (member_type r)(fst (reg_create member_registry ko d r) \<mapsto> ty) | _ \<Rightarrow> member_type r)" for ko d r
    by (cases r; cases d) (auto simp: member_registry_def member_type_def nth_append fun_eq_iff)
  moreover have "member_type r (fst (reg_create member_registry ko d r)) = None" for ko d r
    by (cases r) (simp add: member_registry_def member_type_def)
  ultimately show ?thesis
    unfolding metric_laws_def by (auto simp: member_registry_def member_type_def fun_eq_iff split: otf2_change.splits)
qed


text \<open>A thread with a leader and one more counter.\<close>

definition typed_composer :: composer where
  "typed_composer = example_composer\<lparr>cp_group_counters :=
    Some \<lparr>cc_leader = Some (known_event ''cpu-clock'' 1 0), cc_counters = [known_event ''instructions'' 0 1]\<rparr>\<rparr>"

definition typed_trace :: "member_registry trace" where
  "typed_trace = \<lparr>tr_registry = ([], \<lambda>_. []), tr_tree = GNode None [], tr_thread_names = [], tr_groups = [],
    tr_local_trees = [], tr_finalized = False, tr_root_node = 0, tr_comm_locations_group = 0, tr_lo2s_regions_group = 0,
    tr_syscall_regions_group = 0, tr_kernel_regions_group = 0, tr_mappings = [], tr_hardware_locations_group = 1,
    tr_interrupt_generator = 0, tr_nec_interrupt_generator = None, tr_cpuid_metric_class = None, tr_bio_node = None,
    tr_bio_paradigm = None, tr_bio_comm_group = None, tr_posix_paradigm = None, tr_posix_comm_group = None,
    tr_properties = [], tr_times = (0, 0)\<rparr>"

definition typed_scope :: MeasurementScope where
  "typed_scope = measurement_scope GROUP_METRIC (scope_of_thread (Thread 7))"

lemma typed_counters:
  "counters_for composing_env typed_scope typed_composer =
    (Inr \<lparr>cc_leader = Some (known_event ''cpu-clock'' 1 0), cc_counters = [known_event ''instructions'' 0 1]\<rparr>, typed_composer)"
proof -
  have "is_available_in (known_event n t k) (scope_of_thread (Thread 7)) = Inr True" for n t k
    by (simp add: is_available_in_def known_event_def scope_of_thread_def scope_is_thread_def)
  then show ?thesis
    by (simp add: counters_for_def typed_scope_def measurement_scope_def group_counters_for_def emplace_group_counters_def
        typed_composer_def cc_empty_def available_group_def)
qed

theorem metric_class_typed_witness:
  "\<exists>mc c' tr'. perf_metric_class member_registry composing_env typed_scope (typed_composer, typed_trace) = (Inr mc, c', tr') \<and>
    classes_typed member_registry member_type snd tr' \<and>
    class_types member_type snd tr' mc = map Some [Double, Double, Uint64, Uint64]"
proof -
  have start: "members_typed member_registry member_type typed_trace" "classes_typed member_registry member_type snd typed_trace"
    by (simp_all add: members_typed_def classes_typed_def typed_trace_def member_registry_def list_get_def)
  have "tr_get member_registry K_metric_class k typed_trace = Inl Out_of_range" for k
    by (simp add: tr_get_def typed_trace_def member_registry_def list_get_def)
  moreover have grp: "ms_type typed_scope = GROUP_METRIC"
    by (simp add: typed_scope_def measurement_scope_def)
  ultimately obtain mc c' tr' where p: "perf_metric_class member_registry composing_env typed_scope (typed_composer, typed_trace) = (Inr mc, c', tr')"
    by (cases "tr_emplace member_registry (collection_key \<lparr>cc_leader = Some (known_event ''cpu-clock'' 1 0),
        cc_counters = [known_event ''instructions'' 0 1]\<rparr>) D_metric_class typed_trace")
      (auto simp: perf_metric_class_def typed_counters collection_class_def)
  have ty: "ms_type typed_scope = GROUP_METRIC \<or> ms_type typed_scope = USERSPACE_METRIC"
    using grp by simp
  from metric_class_typed[OF member_registry_ok member_registry_laws start ty p] p show ?thesis
    by (auto simp: typed_counters collection_types_def)
qed

text \<open>
  A class of grouped counters without a leader is refused the first time only: it stays registered and a
  second request returns it, without members.
\<close>

lemma leaderless_class_twice:
  assumes "registry_ok reg cdef" "tr_get reg K_metric_class (collection_key no_counters) tr = Inl Out_of_range"
  shows "\<exists>tr' mc. collection_class reg GROUP_METRIC no_counters tr =
      (Inl (Runtime_error ''No suitable grouped metrics leader event!''), tr') \<and>
    collection_class reg GROUP_METRIC no_counters tr' = (Inr mc, tr')"
proof -
  obtain mc t1 where t1: "tr_emplace reg (collection_key no_counters) D_metric_class tr = (mc, t1)" by fastforce
  have "tr_get reg K_metric_class (collection_key no_counters) t1 = Inr mc"
    using tr_emplace_grows(2)[OF assms(1) t1, of "{K_metric_class}"] by simp
  with assms(2) t1 show ?thesis
    by (intro exI[of _ t1] exI[of _ mc]) (simp add: collection_class_def no_counters_def)
qed

end
