(* ===== verification/Trace_Session.thy ===== *)
theory Trace_Session
  imports Trace_Metrics
begin

text \<open>
  The rest of the global trace (\<^verbatim>\<open>src/trace/trace.cpp\<close>): the name of the trace, its properties and times, the
  constructor and the destructor, and the handles and locations of block and POSIX I/O. The names and times
  that the system provides are arguments, as is the replacement of substrings, a function of the nitro library.
\<close>

section \<open>The name of the trace\<close>

text \<open>
  The names in the matches of \<^verbatim>\<open>\{ENV=([^}]*)\}\<close>, which do not overlap: a match ends at the first closing brace.
\<close>

fun env_names :: "nat \<Rightarrow> string \<Rightarrow> string list" where
  "env_names 0 s = []"
| "env_names (Suc n) [] = []"
| "env_names (Suc n) (c # s) =
    (if take 5 (c # s) = ''{ENV='' \<and> CHR ''}'' \<in> set (drop 5 (c # s))
     then let name = takeWhile (\<lambda>c. c \<noteq> CHR ''}'') (drop 5 (c # s)) in
       name # env_names n (drop (length name + 6) (c # s))
     else env_names n s)"

record trace_name_env =
  tn_replace_all :: "string \<Rightarrow> string \<Rightarrow> string \<Rightarrow> string"
  tn_datetime :: string
  tn_hostname :: string
  tn_getenv :: "string \<Rightarrow> string"

definition get_trace_name :: "trace_name_env \<Rightarrow> string \<Rightarrow> string" where
  "get_trace_name env trace_path =
    (let path = tn_replace_all env trace_path ''{DATE}'' (tn_datetime env);
         path = tn_replace_all env path ''{HOSTNAME}'' (tn_hostname env)
     in fold (\<lambda>name r. tn_replace_all env r (''{ENV='' @ name @ ''}'') (tn_getenv env name))
          (env_names (length path) path) path)"

section \<open>Properties and times\<close>

definition add_lo2s_property :: "'r registry \<Rightarrow> string \<Rightarrow> string \<Rightarrow> 'r trace \<Rightarrow> 'r trace" where
  "add_lo2s_property reg name val tr =
    (let property_name = ''LO2S::'' @ name;
         tr = tr\<lparr>tr_properties := tr_properties tr @ [(property_name, val)]\<rparr>;
         (n, tr) = intern reg property_name tr; (v, tr) = intern reg val tr
     in snd (tr_create reg None (D_system_tree_node_property (tr_root_node tr) n v) tr))"

text \<open>The time at which recording starts becomes a property of the trace, but not its first time.\<close>

definition begin_record :: "'r registry \<Rightarrow> string \<Rightarrow> 'r trace \<Rightarrow> 'r trace" where
  "begin_record reg now tr = add_lo2s_property reg ''STARTING_TIME'' now tr"

definition end_record :: "int \<Rightarrow> 'r trace \<Rightarrow> 'r trace" where
  "end_record now tr = tr\<lparr>tr_times := (fst (tr_times tr), now)\<rparr>"

definition record_from :: "'r trace \<Rightarrow> int" where
  "record_from tr = fst (tr_times tr)"

definition record_to :: "'r trace \<Rightarrow> int" where
  "record_to tr = snd (tr_times tr)"

section \<open>Block I/O\<close>

definition bio_parent_node :: "'r registry \<Rightarrow> (u64 \<rightharpoonup> block_device) \<Rightarrow> block_device \<Rightarrow> 'r trace \<Rightarrow> nat option" where
  "bio_parent_node reg devices dev tr =
    (let parent = ByBlockDevice (bd_id (block_device_for devices (bd_parent dev))) in
     if bd_type dev = PARTITION
     then case tr_get reg K_system_tree_node parent tr of Inr n \<Rightarrow> Some n | Inl _ \<Rightarrow> tr_bio_node tr
     else tr_bio_node tr)"

definition trace_bio_writer :: "'r registry \<Rightarrow> block_device \<Rightarrow> 'r trace \<Rightarrow> nat \<times> 'r trace" where
  "trace_bio_writer reg dev tr =
    (let k = ByBlockDevice (bd_id dev) in
     case tr_get reg K_location k tr of
       Inr l \<Rightarrow> (l, tr)
     | Inl _ \<Rightarrow>
       let (name, tr) = intern reg (''block I/O events for '' @ bd_name dev) tr;
           (dn, tr) = intern reg (bd_name dev) tr; (cls, tr) = intern reg ''block dev'' tr;
           (node, tr) = tr_emplace reg k (D_system_tree_node dn cls (tr_bio_node tr)) tr;
           (lg, tr) = tr_emplace reg k (D_location_group name node) tr;
           (l, tr) = tr_emplace reg k (D_location name lg Cpu_thread) tr
       in (l, tr_change reg (Add_member K_comm_locations_group (tr_hardware_locations_group tr) l) tr))"

text \<open>The paradigm and the communicator of block I/O are null references unless block I/O is recorded.\<close>

definition block_io_handle :: "'r registry \<Rightarrow> (u64 \<rightharpoonup> block_device) \<Rightarrow> block_device \<Rightarrow> 'r trace \<Rightarrow> (nat \<times> 'r trace) result" where
  "block_io_handle reg devices dev tr =
    (let k = ByBlockDevice (bd_id dev) in
     case tr_get reg K_io_handle k tr of
       Inr h \<Rightarrow> Inr (h, tr)
     | Inl _ \<Rightarrow>
       (case (tr_bio_paradigm tr, tr_bio_comm_group tr) of
          (Some paradigm, Some grp) \<Rightarrow>
            let (name, tr) = intern reg (bd_name dev) tr;
                parent = bio_parent_node reg devices dev tr;
                (cls, tr) = intern reg (if bd_type dev = PARTITION then ''partition'' else ''disk'') tr;
                (node, tr) = tr_emplace reg k (D_system_tree_node name cls parent) tr;
                (file, tr) = tr_emplace reg k (D_io_regular_file name node) tr;
                (cm, tr) = tr_emplace reg k (D_comm name grp) tr;
                (h, tr) = tr_emplace reg k (D_io_handle name file paradigm True cm) tr;
                (st, tr) = tr_create reg None (D_io_pre_created_handle_state h Read_write) tr
            in Inr (h, tr)
        | _ \<Rightarrow> Inl Memory_fault))"

section \<open>POSIX I/O\<close>

text \<open>The handles of the standard streams exist before the measurement.\<close>

definition create_posix_handle :: "'r registry \<Rightarrow> reg_key \<Rightarrow> int \<Rightarrow> nat \<Rightarrow> nat \<Rightarrow> nat \<Rightarrow> nat \<Rightarrow> 'r trace \<Rightarrow> nat \<times> 'r trace" where
  "create_posix_handle reg k fd name filedef paradigm cm tr =
    (let (h, tr) = tr_emplace reg k (D_io_handle name filedef paradigm False cm) tr in
     (h, if fd < 3
         then snd (tr_create reg None (D_io_pre_created_handle_state h (if fd = 0 then Read_only else Write_only)) tr)
         else tr))"

definition trace_posix_io_handle ::
    "'r registry \<Rightarrow> Thread \<Rightarrow> int \<Rightarrow> int \<Rightarrow> string \<Rightarrow> 'r trace \<Rightarrow> (nat \<times> 'r trace) result" where
  "trace_posix_io_handle reg thread fd i name tr =
    (let k = ByThreadFdInstance (ThreadFdInstance thread fd i) in
     case tr_get reg K_io_handle k tr of
       Inr h \<Rightarrow> Inr (h, tr)
     | Inl _ \<Rightarrow>
       let (filename, tr) = intern reg name tr;
           (file, tr) = tr_emplace reg (ByString name) (D_io_regular_file filename (tr_root_node tr)) tr in
       sum_bind (get_process (tr_groups tr) thread) (\<lambda>p.
       sum_bind (tr_get reg K_comm (ByProcess p) tr) (\<lambda>cm.
       case tr_posix_paradigm tr of
         None \<Rightarrow> Inl Memory_fault
       | Some paradigm \<Rightarrow> Inr (create_posix_handle reg k fd filename file paradigm cm tr))))"

section \<open>The constructor\<close>

text \<open>What the constructor reads: the configuration, \<^verbatim>\<open>uname\<close>, the topology and the block devices by number.\<close>

record trace_config =
  tc_hostname :: string
  tc_uname :: "(string \<times> string) list"
  tc_period :: u64
  tc_topology :: topology
  tc_block_io :: bool
  tc_block_devices :: "u64 \<rightharpoonup> block_device"
  tc_device_numbers :: "u64 list"
  tc_nec :: bool
  tc_posix_io :: bool

definition empty_trace :: "'r \<Rightarrow> scope_groups \<Rightarrow> 'r trace" where
  "empty_trace r groups = \<lparr>tr_registry = r, tr_tree = GNode None [], tr_thread_names = [], tr_groups = groups,
    tr_local_trees = [], tr_finalized = False, tr_root_node = 0, tr_comm_locations_group = 0, tr_lo2s_regions_group = 0,
    tr_syscall_regions_group = 0, tr_kernel_regions_group = 0, tr_mappings = [], tr_hardware_locations_group = 0,
    tr_interrupt_generator = 0, tr_nec_interrupt_generator = None, tr_cpuid_metric_class = None, tr_bio_node = None,
    tr_bio_paradigm = None, tr_bio_comm_group = None, tr_posix_paradigm = None, tr_posix_comm_group = None,
    tr_properties = [], tr_times = (0, 0)\<rparr>"

definition create_named_group :: "'r registry \<Rightarrow> (nat \<Rightarrow> otf2_def) \<Rightarrow> string \<Rightarrow> 'r trace \<Rightarrow> nat \<times> 'r trace" where
  "create_named_group reg d name tr = (let (n, tr) = intern reg name tr in tr_create reg None (d n) tr)"

text \<open>The member initialisers.\<close>

definition trace_members :: "'r registry \<Rightarrow> trace_config \<Rightarrow> 'r trace \<Rightarrow> 'r trace" where
  "trace_members reg cfg tr =
    (let (ig, tr) = create_named_group reg (\<lambda>n. D_interrupt_generator n (tc_period cfg)) ''perf HW_INSTRUCTIONS'' tr;
         (cl, tr) = create_named_group reg (\<lambda>n. D_comm_locations_group n Pthread) ''All pthread locations'' tr;
         (hl, tr) = create_named_group reg (\<lambda>n. D_comm_locations_group n Hardware) ''All hardware locations'' tr;
         (lo, tr) = create_named_group reg (\<lambda>n. D_regions_group n User) ''lo2s'' tr;
         (sc, tr) = create_named_group reg (\<lambda>n. D_regions_group n User) ''<syscalls>'' tr;
         (kr, tr) = create_named_group reg (\<lambda>n. D_regions_group n User) ''<kernel threads>'' tr;
         (hn, tr) = intern reg (tc_hostname cfg) tr; (mn, tr) = intern reg ''machine'' tr;
         (root, tr) = tr_create reg None (D_system_tree_node hn mn None) tr
     in tr\<lparr>tr_interrupt_generator := ig, tr_comm_locations_group := cl, tr_hardware_locations_group := hl,
          tr_lo2s_regions_group := lo, tr_syscall_regions_group := sc, tr_kernel_regions_group := kr, tr_root_node := root\<rparr>)"

fun register_disks :: "'r registry \<Rightarrow> (u64 \<rightharpoonup> block_device) \<Rightarrow> u64 list \<Rightarrow> 'r trace \<Rightarrow> 'r trace result" where
  "register_disks reg devices [] tr = Inr tr"
| "register_disks reg devices (i # is) tr =
    (case devices i of
       Some dev \<Rightarrow>
         if bd_type dev = DISK
         then sum_bind (block_io_handle reg devices dev tr) (\<lambda>(h, tr).
           register_disks reg devices is (snd (trace_bio_writer reg dev tr)))
         else register_disks reg devices is tr
     | None \<Rightarrow> register_disks reg devices is tr)"

definition create_block_io :: "'r registry \<Rightarrow> trace_config \<Rightarrow> 'r trace \<Rightarrow> 'r trace result" where
  "create_block_io reg cfg tr =
    (if \<not> tc_block_io cfg then Inr tr
     else
       let (n, tr) = intern reg ''block devices'' tr; (h, tr) = intern reg ''hardware'' tr;
           (node, tr) = tr_create reg None (D_system_tree_node n h (Some (tr_root_node tr))) tr;
           (b, tr) = intern reg ''block_io'' tr; (d, tr) = intern reg ''block layer I/O'' tr;
           (paradigm, tr) = tr_create reg None (D_io_paradigm b d) tr;
           (grp, tr) = create_named_group reg (\<lambda>n. D_comm_group n Hardware) ''block devices'' tr
       in register_disks reg (tc_block_devices cfg) (tc_device_numbers cfg)
            (tr\<lparr>tr_bio_node := Some node, tr_bio_paradigm := Some paradigm, tr_bio_comm_group := Some grp\<rparr>))"

definition create_nec :: "'r registry \<Rightarrow> trace_config \<Rightarrow> 'r trace \<Rightarrow> 'r trace" where
  "create_nec reg cfg tr =
    (if \<not> tc_nec cfg then tr
     else let (ig, tr) = create_named_group reg (\<lambda>n. D_interrupt_generator n (tc_period cfg)) ''NEC sampling timer'' tr
          in tr\<lparr>tr_nec_interrupt_generator := Some ig\<rparr>)"

definition create_posix_io :: "'r registry \<Rightarrow> trace_config \<Rightarrow> 'r trace \<Rightarrow> 'r trace" where
  "create_posix_io reg cfg tr =
    (if \<not> tc_posix_io cfg then tr
     else
       let (p, tr) = intern reg ''POSIX'' tr; (d, tr) = intern reg ''POSIX I/O'' tr;
           (paradigm, tr) = tr_create reg None (D_io_paradigm p d) tr;
           (grp, tr) = create_named_group reg (\<lambda>n. D_comm_group n Hardware) ''POSIX I/O files'' tr
       in tr\<lparr>tr_posix_paradigm := Some paradigm, tr_posix_comm_group := Some grp\<rparr>)"

definition trace_new :: "'r registry \<Rightarrow> trace_config \<Rightarrow> scope_groups \<Rightarrow> 'r \<Rightarrow> 'r trace result" where
  "trace_new reg cfg groups r =
    (let tr = trace_members reg cfg (empty_trace r groups);
         tr = fold (\<lambda>(name, val). add_lo2s_property reg (''UNAME::'' @ name) val) (tc_uname cfg) tr;
         (n, tr) = intern reg ''Metric Location Group'' tr;
         (lg, tr) = tr_create reg (Some (ByExecutionScope (scope_of_thread (Thread METRIC_PID)))) (D_location_group n (tr_root_node tr)) tr;
         (d, tr) = tr_create reg None (D_system_tree_node_domain (tr_root_node tr) Shared_memory) tr in
     sum_bind (register_cpus reg (tc_topology cfg) (map fst (tp_cpus (tc_topology cfg))) tr) (\<lambda>tr.
     sum_bind (create_block_io reg cfg (tr\<lparr>tr_groups := add_process Process_no_parent (tr_groups tr)\<rparr>)) (\<lambda>tr.
       Inr (create_posix_io reg cfg (create_nec reg cfg tr)))))"

section \<open>The destructor\<close>

text \<open>
  The regions of the threads are grouped, then the times of the trace are written. The threads are those with
  a name when the destructor starts: an entry that the loop itself adds is for the main thread of a process
  that was never named.
\<close>

fun group_regions :: "'r registry \<Rightarrow> (Thread \<times> string) list \<Rightarrow> 'r trace \<Rightarrow> 'r trace result" where
  "group_regions reg [] tr = Inr tr"
| "group_regions reg (th # ths) tr = sum_bind (group_region reg th tr) (group_regions reg ths)"

definition clock_properties :: "'r trace \<Rightarrow> int \<times> int" where
  "clock_properties tr = (record_from tr, if record_from tr > record_to tr then record_from tr else record_to tr)"

datatype output_link = No_link | Link_kept | Link_replaced | Link_created

text \<open>The link to the newest trace: its path, and whether that path is a link and exists.\<close>

definition create_output_link :: "string \<Rightarrow> bool \<Rightarrow> bool \<Rightarrow> output_link" where
  "create_output_link symlink_path is_symlink path_exists =
    (if symlink_path = [] then No_link
     else if is_symlink then Link_replaced
     else if path_exists then Link_kept
     else Link_created)"

definition trace_destroy :: "'r registry \<Rightarrow> 'r trace \<Rightarrow> ((int \<times> int) \<times> 'r trace) result" where
  "trace_destroy reg tr =
    sum_bind (group_regions reg (tr_thread_names tr) tr) (\<lambda>tr.
      Inr (clock_properties tr, tr\<lparr>tr_times := clock_properties tr\<rparr>))"


section \<open>Handles\<close>

text \<open>A handle is created once for each device and for each use of a file descriptor.\<close>

lemma block_io_handle_once:
  assumes "registry_ok reg cdef" "block_io_handle reg devices dev tr = Inr (h, tr')"
  shows "block_io_handle reg devices dev tr' = Inr (h, tr')"
proof (cases "tr_get reg K_io_handle (ByBlockDevice (bd_id dev)) tr")
  case (Inr x)
  then show ?thesis using assms(2) by (auto simp: block_io_handle_def)
next
  case (Inl e)
  obtain t name fl paradigm cm t1 where t: "tr_emplace reg (ByBlockDevice (bd_id dev)) (D_io_handle name fl paradigm True cm) t = (h, t1)"
      "tr' = snd (tr_create reg None (D_io_pre_created_handle_state h Read_write) t1)"
    using assms(2) Inl by (auto simp: block_io_handle_def Let_def split: option.splits prod.splits)
  have "tr_get reg K_io_handle (ByBlockDevice (bd_id dev)) t1 = Inr h"
    using tr_emplace_grows(2)[OF assms(1) t(1)] by fastforce
  moreover have "tr_grows reg cdef {K_io_pre_created_handle_state} t1 tr'"
    using tr_create_grows(1)[OF assms(1), of None "D_io_pre_created_handle_state h Read_write" t1] t(2)
    by (metis insertI1 kind_of.simps(22) option.distinct(1) prod.collapse)
  ultimately have "tr_get reg K_io_handle (ByBlockDevice (bd_id dev)) tr' = Inr h"
    by (rule tr_grows_get[rotated])
  then show ?thesis by (simp add: block_io_handle_def)
qed

lemma posix_io_handle_once:
  assumes "registry_ok reg cdef" "trace_posix_io_handle reg thread fd i name tr = Inr (h, tr')"
  shows "trace_posix_io_handle reg thread fd i name' tr' = Inr (h, tr')"
proof (cases "tr_get reg K_io_handle (ByThreadFdInstance (ThreadFdInstance thread fd i)) tr")
  case (Inr x)
  then show ?thesis using assms(2) by (auto simp: trace_posix_io_handle_def)
next
  case (Inl e)
  let ?k = "ByThreadFdInstance (ThreadFdInstance thread fd i)"
  obtain t n fl paradigm cm where t: "create_posix_handle reg ?k fd n fl paradigm cm t = (h, tr')"
    using assms(2) Inl by (auto simp: trace_posix_io_handle_def Let_def sum_bind_Inr_iff split: option.splits prod.splits)
  obtain t1 where t1: "tr_emplace reg ?k (D_io_handle n fl paradigm False cm) t = (h, t1)"
    using t by (auto simp: create_posix_handle_def split: prod.splits)
  have "tr_get reg K_io_handle ?k t1 = Inr h"
    using tr_emplace_grows(2)[OF assms(1) t1] by fastforce
  moreover have "tr_grows reg cdef {K_io_pre_created_handle_state} t1 (snd (tr_create reg None (D_io_pre_created_handle_state h st) t1))" for st
    using tr_create_grows(1)[OF assms(1), of None "D_io_pre_created_handle_state h st" t1]
    by (metis insertI1 kind_of.simps(22) option.distinct(1) prod.collapse)
  then have "tr_grows reg cdef {K_io_pre_created_handle_state} t1 tr'"
    using t t1 by (auto simp: create_posix_handle_def split: if_splits)
  ultimately have "tr_get reg K_io_handle ?k tr' = Inr h"
    by (rule tr_grows_get[rotated])
  then show ?thesis by (simp add: trace_posix_io_handle_def)
qed

section \<open>The times of the trace\<close>

lemma tr_times_ops [simp]:
  "tr_times (snd (intern reg s tr)) = tr_times tr" "tr_times (snd (tr_create reg ko d tr)) = tr_times tr"
  "tr_times (snd (tr_emplace reg k d tr)) = tr_times tr" "tr_times (tr_change reg c tr) = tr_times tr"
  by (simp_all add: intern_def tr_create_def tr_emplace_def tr_change_def split: prod.splits)

lemma add_lo2s_property_times [simp]: "tr_times (add_lo2s_property reg name val tr) = tr_times tr"
  by (simp add: add_lo2s_property_def Let_def case_prod_unfold)

text \<open>
  The constructor leaves the first time of the trace at 0 and nothing changes it: a trace starts at 0 whenever
  it was begun, and at the end its times are 0 and the time of \<open>end_record\<close>, when that is not negative.
\<close>

lemma trace_starts_at_zero:
  assumes "record_from tr = 0" "0 \<le> stop_time"
  shows "clock_properties (end_record stop_time (begin_record reg start_time tr)) = (0, stop_time)"
  using assms by (simp add: clock_properties_def record_from_def record_to_def end_record_def begin_record_def)

end
