(* ===== verification/Process_Monitor.thy ===== *)
theory Process_Monitor
  imports Trace_Metrics Scope_Monitor Process_Controller
begin

text \<open>
  The process monitors (\<^verbatim>\<open>src/monitor/process_monitor.cpp\<close>, \<^verbatim>\<open>system_process_monitor.cpp\<close>), which the process
  controller calls: the monitor of every thread, what the constructors of its writers do to the trace, and
  the life of the monitors of the threads.
\<close>

section \<open>The writers of a scope and the trace\<close>

text \<open>
  A constructor of a writer opens its perf event and then registers its definitions; the first one that fails
  leaves what the others before it have registered. An operation on the trace that fails has no effect.
\<close>

type_synonym 'r composed_trace = "composer \<times> 'r trace"

fun run_constructors ::
    "(bool \<times> int result \<times> ('r composed_trace \<Rightarrow> 'r composed_trace event_result)) list \<Rightarrow> 'r composed_trace
      \<Rightarrow> event_error option \<times> 'r composed_trace" where
  "run_constructors [] ctr = (None, ctr)"
| "run_constructors ((enabled, fd, register) # cs) ctr =
    (if \<not> enabled then run_constructors cs ctr
     else case fd of
         Inl e \<Rightarrow> (Some (Cpp e), ctr)
       | Inr _ \<Rightarrow> (case register ctr of Inl e \<Rightarrow> (Some e, ctr) | Inr ctr \<Rightarrow> run_constructors cs ctr))"

definition scope_trace ::
    "'r registry \<Rightarrow> trace_env \<Rightarrow> composer_env \<Rightarrow> scope_env \<Rightarrow> ExecutionScope \<Rightarrow> bool \<Rightarrow> 'r composed_trace
      \<Rightarrow> event_error option \<times> 'r composed_trace" where
  "scope_trace reg env cenv senv scope enable_on_exec ctr =
    run_constructors
      [(se_sampling senv \<or> se_process_recording senv, se_sample_writer senv scope enable_on_exec,
         \<lambda>(c, tr). ev_bind (cpp (sample_writer_constructor reg env scope tr)) (\<lambda>(l, i, tr). Inr (c, tr))),
       (se_syscall senv, se_syscall_writer senv scope,
         \<lambda>(c, tr). ev_bind (cpp (syscall_writer_constructor reg env scope tr)) (\<lambda>(l, tr). Inr (c, tr))),
       (se_group senv, se_group_writer senv scope enable_on_exec,
         \<lambda>ctr. ev_bind (metric_writer_constructor reg env cenv (measurement_scope GROUP_METRIC scope) ctr)
           (\<lambda>(l, i, c, tr). Inr (c, tr))),
       (se_userspace senv, se_userspace_writer senv scope,
         \<lambda>ctr. ev_bind (metric_writer_constructor reg env cenv (measurement_scope USERSPACE_METRIC scope) ctr)
           (\<lambda>(l, i, c, tr). Inr (c, tr)))] ctr"

section \<open>State\<close>

datatype thread_call = Start_monitor Thread | Stop_monitor Thread

text \<open>
  The surroundings: the configuration of the scope monitors, their eventfd, whether the system can start a
  thread, and the map records that the sample writer of a thread has kept when it is stopped.
\<close>

record 'r monitor_env =
  me_registry :: "'r registry"
  me_trace :: trace_env
  me_composer :: composer_env
  me_scope :: scope_env
  me_eventfd :: "Thread \<Rightarrow> int"
  me_can_start :: "Thread \<Rightarrow> bool"
  me_mmaps :: "Thread \<Rightarrow> mmap_record list"

text \<open>An entry of \<open>threads_\<close> is the monitor and whether its thread is joinable.\<close>

record 'r process_monitor =
  pn_trace :: "'r trace"
  pn_composer :: composer
  pn_resolvers :: resolvers
  pn_posix :: "posix_monitor option"
  pn_threads :: "(Thread, scope_monitor poll_monitor \<times> bool) std_map"
  pn_calls :: "thread_call list"

definition std_erase :: "('k \<Rightarrow> 'k \<Rightarrow> bool) \<Rightarrow> 'k \<Rightarrow> ('k, 'v) std_map \<Rightarrow> ('k, 'v) std_map" where
  "std_erase lt k xs = filter (\<lambda>e. lt (fst e) k \<or> lt k (fst e)) xs"

section \<open>Operations\<close>

definition process_monitor_new ::
    "'r registry \<Rightarrow> bool \<Rightarrow> Thread \<Rightarrow> composer \<Rightarrow> resolvers \<Rightarrow> 'r trace \<Rightarrow> 'r process_monitor" where
  "process_monitor_new reg posix_io tid c rs tr =
    \<lparr>pn_trace = emplace_monitoring_thread reg tid ''ProcessMonitor'' tr, pn_composer = c, pn_resolvers = rs,
     pn_posix = if posix_io then Some posix_monitor_new else None, pn_threads = [], pn_calls = []\<rparr>"

text \<open>\<open>sampling.enabled || !has_counters_for(group) || !has_counters_for(userspace)\<close>\<close>

definition measures_thread :: "composer_env \<Rightarrow> ExecutionScope \<Rightarrow> bool composing" where
  "measures_thread cenv scope c =
    (if smp_enabled (cfg_sampling (ce_config cenv)) then (Inr True, c)
     else then_do (has_counters_for cenv (measurement_scope GROUP_METRIC scope) c) (\<lambda>grouped c.
       if \<not> grouped then (Inr True, c)
       else then_do (has_counters_for cenv (measurement_scope USERSPACE_METRIC scope) c) (\<lambda>userspace c.
         (Inr (\<not> userspace), c))))"

text \<open>
  The monitor of a thread is built in the map and started; exceptions are logged, a failed assertion ends the
  program.
\<close>

definition measure_thread :: "'r monitor_env \<Rightarrow> Thread \<Rightarrow> bool \<Rightarrow> 'r process_monitor \<Rightarrow> 'r process_monitor event_result" where
  "measure_thread env child spawn s =
    (let scope = scope_of_thread child;
         (err, c, tr) = scope_trace (me_registry env) (me_trace env) (me_composer env) (me_scope env) scope spawn
           (pn_composer s, pn_trace s);
         s = s\<lparr>pn_trace := tr, pn_composer := c\<rparr> in
     case err of
       Some e \<Rightarrow> if e = Cpp Assertion then Inl e else Inr s
     | None \<Rightarrow>
       (case scope_monitor_new (me_scope env) (me_eventfd env child) scope spawn of
          Inl e \<Rightarrow> if e = Assertion then Inl (Cpp e) else Inr s
        | Inr m \<Rightarrow>
          let (threads, inserted) = std_emplace thread_less child (m, me_can_start env child) (pn_threads s) in
          if \<not> inserted then Inl (Cpp Assertion)
          else Inr (s\<lparr>pn_threads := threads,
                 pn_calls := pn_calls s @ (if me_can_start env child then [Start_monitor child] else [])\<rparr>)))"

definition monitor_insert_thread ::
    "'r monitor_env \<Rightarrow> Process \<Rightarrow> Thread \<Rightarrow> string \<Rightarrow> bool \<Rightarrow> 'r process_monitor \<Rightarrow> 'r process_monitor event_result" where
  "monitor_insert_thread env parent child name spawn s =
    (let s = s\<lparr>pn_posix := map_option (pm_insert_thread child) (pn_posix s)\<rparr> in
     ev_bind (cpp (emplace_thread (me_registry env) (me_trace env) parent child name (pn_trace s))) (\<lambda>tr.
     let s = s\<lparr>pn_trace := tr\<rparr>; (ok, c) = measures_thread (me_composer env) (scope_of_thread child) (pn_composer s) in
     ev_bind ok (\<lambda>measured.
     ev_bind (if measured then measure_thread env child spawn (s\<lparr>pn_composer := c\<rparr>) else Inr (s\<lparr>pn_composer := c\<rparr>)) (\<lambda>s.
     ev_bind (cpp (emplace_thread (me_registry env) (me_trace env) parent child name (pn_trace s))) (\<lambda>tr.
       Inr (s\<lparr>pn_trace := tr\<rparr>))))))"

definition monitor_insert_process ::
    "'r monitor_env \<Rightarrow> Process \<Rightarrow> Process \<Rightarrow> string \<Rightarrow> bool \<Rightarrow> 'r process_monitor \<Rightarrow> 'r process_monitor event_result" where
  "monitor_insert_process env parent child proc_name spawn s =
    ev_bind (cpp (emplace_process (me_registry env) parent child proc_name (pn_trace s))) (\<lambda>tr.
    ev_bind (monitor_insert_thread env child (process_as_thread child) proc_name spawn (s\<lparr>pn_trace := tr\<rparr>)) (\<lambda>s.
      Inr (s\<lparr>pn_resolvers := resolvers_fork parent child (pn_resolvers s)\<rparr>)))"

definition monitor_update_name ::
    "'r monitor_env \<Rightarrow> Process \<Rightarrow> string \<Rightarrow> 'r process_monitor \<Rightarrow> 'r process_monitor event_result" where
  "monitor_update_name env process name s =
    ev_bind (cpp (emplace_process (me_registry env) Process_no_parent process name (pn_trace s))) (\<lambda>tr.
      Inr (s\<lparr>pn_trace := tr\<rparr>))"

text \<open>\<open>stop\<close> of a monitor joins its thread and its writer hands over its map records.\<close>

definition stop_thread :: "'r monitor_env \<Rightarrow> Thread \<Rightarrow> bool \<Rightarrow> 'r process_monitor \<Rightarrow> 'r process_monitor event_result" where
  "stop_thread env thread joinable s =
    (let s = s\<lparr>pn_calls := pn_calls s @ (if joinable then [Stop_monitor thread] else [])\<rparr> in
     ev_bind (cpp (emplace_mmaps (te_resolver (me_trace env))
         (if se_sampling (me_scope env) \<or> se_process_recording (me_scope env) then me_mmaps env thread else [])
         (pn_resolvers s))) (\<lambda>rs. Inr (s\<lparr>pn_resolvers := rs\<rparr>)))"

definition monitor_exit_thread :: "'r monitor_env \<Rightarrow> Thread \<Rightarrow> 'r process_monitor \<Rightarrow> 'r process_monitor event_result" where
  "monitor_exit_thread env thread s =
    (let s = s\<lparr>pn_posix := map_option (pm_exit_thread thread) (pn_posix s)\<rparr> in
     ev_bind (case std_lookup thread_less (pn_threads s) thread of
         Some (m, joinable) \<Rightarrow> stop_thread env thread joinable s
       | None \<Rightarrow> Inr s) (\<lambda>s.
       Inr (s\<lparr>pn_threads := std_erase thread_less thread (pn_threads s)\<rparr>)))"

fun stop_threads ::
    "'r monitor_env \<Rightarrow> (Thread, scope_monitor poll_monitor \<times> bool) std_map \<Rightarrow> 'r process_monitor \<Rightarrow> 'r process_monitor event_result" where
  "stop_threads env [] s = Inr s"
| "stop_threads env ((thread, m, joinable) # ts) s = ev_bind (stop_thread env thread joinable s) (stop_threads env ts)"

definition monitor_destroy :: "'r monitor_env \<Rightarrow> 'r process_monitor \<Rightarrow> 'r process_monitor event_result" where
  "monitor_destroy env s =
    ev_bind (stop_threads env (pn_threads s) s) (\<lambda>s. Inr (s\<lparr>pn_threads := []\<rparr>))"

text \<open>The calls of the process controller.\<close>

definition do_monitor_call :: "'r monitor_env \<Rightarrow> monitor_call \<Rightarrow> 'r process_monitor \<Rightarrow> 'r process_monitor event_result" where
  "do_monitor_call env call s =
    (case call of
       Insert_process parent child name spawn \<Rightarrow> monitor_insert_process env parent child name spawn s
     | Insert_thread process thread name \<Rightarrow> monitor_insert_thread env process thread name False s
     | Update_process_name process name \<Rightarrow> monitor_update_name env process name s
     | Exit_thread thread \<Rightarrow> monitor_exit_thread env thread s)"

fun monitor_calls :: "'r monitor_env \<Rightarrow> monitor_call list \<Rightarrow> 'r process_monitor \<Rightarrow> 'r process_monitor event_result" where
  "monitor_calls env [] s = Inr s"
| "monitor_calls env (c # cs) s = ev_bind (do_monitor_call env c s) (monitor_calls env cs)"

text \<open>\<^verbatim>\<open>SystemProcessMonitor\<close>: only the threads of the started program are tracked, and only by name.\<close>

definition system_monitor_call ::
    "'r registry \<Rightarrow> trace_env \<Rightarrow> monitor_call \<Rightarrow> 'r trace \<Rightarrow> 'r trace result" where
  "system_monitor_call reg env call tr =
    (case call of
       Insert_thread process thread name \<Rightarrow> emplace_thread reg env process thread name tr
     | _ \<Rightarrow> Inr tr)"


section \<open>The life of the monitors\<close>

definition calls_of :: "Thread \<Rightarrow> thread_call list \<Rightarrow> thread_call list" where
  "calls_of t cs = filter (\<lambda>c. c = Start_monitor t \<or> c = Stop_monitor t) cs"

definition start_stop :: "Thread \<Rightarrow> nat \<Rightarrow> thread_call list" where
  "start_stop t n = concat (replicate n [Start_monitor t, Stop_monitor t])"

lemma start_stop_Suc: "start_stop t n @ [Start_monitor t, Stop_monitor t] = start_stop t (Suc n)"
  unfolding start_stop_def by (induction n) simp_all

lemma calls_of_simps [simp]:
  "calls_of t [] = []" "calls_of t (cs @ ds) = calls_of t cs @ calls_of t ds"
  "calls_of t [Start_monitor u] = (if u = t then [Start_monitor t] else [])"
  "calls_of t [Stop_monitor u] = (if u = t then [Stop_monitor t] else [])"
  by (auto simp: calls_of_def)

text \<open>Thread \<open>t\<close> has been started and stopped in turn, and runs now or not.\<close>

definition turns :: "Thread \<Rightarrow> bool \<Rightarrow> thread_call list \<Rightarrow> bool" where
  "turns t runs cs \<longleftrightarrow> (\<exists>n. calls_of t cs = start_stop t n @ (if runs then [Start_monitor t] else []))"

definition runs_in :: "(Thread, scope_monitor poll_monitor \<times> bool) std_map \<Rightarrow> Thread \<Rightarrow> bool" where
  "runs_in threads t = (case std_lookup thread_less threads t of Some (m, joinable) \<Rightarrow> joinable | None \<Rightarrow> False)"

definition threads_inv :: "'r process_monitor \<Rightarrow> bool" where
  "threads_inv s \<longleftrightarrow> thread_key.sorted_keys (pn_threads s) \<and> (\<forall>t. turns t (runs_in (pn_threads s) t) (pn_calls s))"

lemma turns_start: "turns t False cs \<Longrightarrow> turns t True (cs @ [Start_monitor t])"
  by (auto simp: turns_def)

lemma turns_stop: "turns t True cs \<Longrightarrow> turns t False (cs @ [Stop_monitor t])"
  by (auto simp: turns_def start_stop_Suc)

lemma turns_other: "u \<noteq> t \<Longrightarrow> turns t b (cs @ [Start_monitor u]) = turns t b cs \<and> turns t b (cs @ [Stop_monitor u]) = turns t b cs"
  by (simp add: turns_def)

lemma thread_less_neq: "thread_less a b \<or> thread_less b a \<longleftrightarrow> a \<noteq> b"
  by (cases a; cases b) (auto simp: thread_less_def)

lemma thread_lookup_member:
  assumes "thread_key.sorted_keys xs"
  shows "std_lookup thread_less xs t = Some v \<longleftrightarrow> (t, v) \<in> set xs"
  using thread_key.std_find_Some[OF assms] thread_key.std_find_member[OF assms, of "(t, v)"]
  by (force simp: std_lookup_def)

lemma sorted_filter: "thread_key.sorted_keys xs \<Longrightarrow> thread_key.sorted_keys (filter P xs)"
  by (induction xs) auto

lemma erase_thread:
  assumes "thread_key.sorted_keys xs"
  shows "thread_key.sorted_keys (std_erase thread_less t xs)"
    "std_lookup thread_less (std_erase thread_less t xs) u = (if u = t then None else std_lookup thread_less xs u)"
proof -
  show sorted: "thread_key.sorted_keys (std_erase thread_less t xs)"
    using sorted_filter[OF assms] by (simp add: std_erase_def)
  have "std_lookup thread_less (std_erase thread_less t xs) u = Some v \<longleftrightarrow> u \<noteq> t \<and> std_lookup thread_less xs u = Some v" for v
    unfolding thread_lookup_member[OF sorted] thread_lookup_member[OF assms] by (auto simp: std_erase_def thread_less_neq)
  then show "std_lookup thread_less (std_erase thread_less t xs) u = (if u = t then None else std_lookup thread_less xs u)"
    by (metis option.exhaust)
qed

text \<open>An operation that changes neither the map nor the record of the calls.\<close>

lemma threads_inv_cong: "pn_threads s' = pn_threads s \<Longrightarrow> pn_calls s' = pn_calls s \<Longrightarrow> threads_inv s' = threads_inv s"
  by (simp add: threads_inv_def)

lemma measure_thread_inv:
  assumes "threads_inv s" "measure_thread env child spawn s = Inr s'"
  shows "threads_inv s'"
proof -
  obtain err c tr where tr: "scope_trace (me_registry env) (me_trace env) (me_composer env) (me_scope env)
      (scope_of_thread child) spawn (pn_composer s, pn_trace s) = (err, c, tr)"
    by (metis surj_pair)
  let ?s = "s\<lparr>pn_trace := tr, pn_composer := c\<rparr>"
  have e: "s' = ?s \<or> (\<exists>m threads. std_emplace thread_less child (m, me_can_start env child) (pn_threads s) = (threads, True) \<and>
      s' = ?s\<lparr>pn_threads := threads, pn_calls := pn_calls s @ (if me_can_start env child then [Start_monitor child] else [])\<rparr>)"
    using assms(2) tr by (auto simp: measure_thread_def Let_def split: option.splits sum.splits prod.splits if_splits)
  have keys: "thread_key.sorted_keys (pn_threads s)" and turns: "\<And>t. turns t (runs_in (pn_threads s) t) (pn_calls s)"
    using assms(1) by (simp_all add: threads_inv_def)
  show ?thesis
  proof (cases "s' = ?s")
    case True
    then show ?thesis using assms(1) threads_inv_cong[of s' s] by simp
  next
    case False
    with e obtain m threads where ins: "std_emplace thread_less child (m, me_can_start env child) (pn_threads s) = (threads, True)"
      and s': "pn_threads s' = threads" "pn_calls s' = pn_calls s @ (if me_can_start env child then [Start_monitor child] else [])" by auto
    have none: "std_lookup thread_less (pn_threads s) child = None"
      using thread_key.std_emplace_inserted[OF keys, of child "(m, me_can_start env child)"] ins by (simp add: std_lookup_def)
    have look: "std_lookup thread_less threads t = (if t = child then Some (m, me_can_start env child) else std_lookup thread_less (pn_threads s) t)" for t
      using thread_key.std_lookup_emplace[OF keys, of child "(m, me_can_start env child)" t] none ins by auto
    have "turns t (runs_in threads t) (pn_calls s')" for t
      using turns[of t] turns_start[of t "pn_calls s"] turns_other[of child t] none s'(2) look[of t]
      by (cases "t = child") (auto simp: runs_in_def)
    then show ?thesis
      using thread_key.std_emplace_sorted[OF keys, of child "(m, me_can_start env child)"] ins s'(1) by (simp add: threads_inv_def)
  qed
qed

lemma insert_thread_inv:
  assumes "threads_inv s" "monitor_insert_thread env parent child name spawn s = Inr s'"
  shows "threads_inv s'"
proof -
  obtain tr1 where tr1: "emplace_thread (me_registry env) (me_trace env) parent child name (pn_trace s) = Inr tr1"
    using assms(2) by (auto simp: monitor_insert_thread_def Let_def ev_bind_Inr_iff)
  obtain ok c where okc: "measures_thread (me_composer env) (scope_of_thread child) (pn_composer s) = (ok, c)" by fastforce
  obtain measured where m: "ok = Inr measured"
    using assms(2) tr1 okc by (cases ok) (simp_all add: monitor_insert_thread_def)
  let ?rest = "\<lambda>s. ev_bind (cpp (emplace_thread (me_registry env) (me_trace env) parent child name (pn_trace s)))
    (\<lambda>tr. Inr (s\<lparr>pn_trace := tr\<rparr>))"
  let ?s1 = "s\<lparr>pn_posix := map_option (pm_insert_thread child) (pn_posix s), pn_trace := tr1, pn_composer := c\<rparr>"
  have "ev_bind (if measured then measure_thread env child spawn ?s1 else Inr ?s1) ?rest = Inr s'"
    using assms(2) tr1 okc m by (simp add: monitor_insert_thread_def Let_def)
  then obtain s2 where s2: "(if measured then measure_thread env child spawn ?s1 else Inr ?s1) = Inr s2" "?rest s2 = Inr s'"
    unfolding ev_bind_Inr_iff by blast
  then obtain tr where s': "s' = s2\<lparr>pn_trace := tr\<rparr>"
    unfolding ev_bind_Inr_iff by blast
  have s1: "threads_inv ?s1"
    using assms(1) threads_inv_cong[of ?s1 s] by simp
  have "threads_inv s2"
  proof (cases measured)
    case True
    with s2(1) have "measure_thread env child spawn ?s1 = Inr s2" by (simp only: if_True)
    then show ?thesis by (rule measure_thread_inv[OF s1])
  next
    case False
    with s2(1) have "?s1 = s2" by (simp only: if_False sum.inject)
    with s1 show ?thesis by (simp only:)
  qed
  then show ?thesis
    using threads_inv_cong[of s' s2] s' by simp
qed

lemma stop_thread_calls:
  "stop_thread env t joinable s = Inr s' \<Longrightarrow>
    pn_threads s' = pn_threads s \<and> pn_calls s' = pn_calls s @ (if joinable then [Stop_monitor t] else [])"
  by (auto simp: stop_thread_def Let_def ev_bind_Inr_iff)

lemma exit_thread_inv:
  assumes "threads_inv s" "monitor_exit_thread env t s = Inr s'"
  shows "threads_inv s'" "std_lookup thread_less (pn_threads s') t = None"
proof -
  have keys: "thread_key.sorted_keys (pn_threads s)" and turns: "\<And>t. turns t (runs_in (pn_threads s) t) (pn_calls s)"
    using assms(1) by (simp_all add: threads_inv_def)
  have s': "pn_threads s' = std_erase thread_less t (pn_threads s)"
      "pn_calls s' = pn_calls s @ (if runs_in (pn_threads s) t then [Stop_monitor t] else [])"
    using assms(2) stop_thread_calls
    by (fastforce simp: monitor_exit_thread_def Let_def ev_bind_Inr_iff runs_in_def split: option.splits)+
  have "turns u (runs_in (pn_threads s') u) (pn_calls s')" for u
    using turns[of u] turns_stop[of u "pn_calls s"] turns_other[of t u] erase_thread(2)[OF keys, of t u] s'
    by (cases "u = t") (auto simp: runs_in_def)
  then show "threads_inv s'"
    using erase_thread(1)[OF keys] s'(1) by (simp add: threads_inv_def)
  show "std_lookup thread_less (pn_threads s') t = None"
    using erase_thread(2)[OF keys, of t t] s'(1) by simp
qed

lemma monitor_call_inv: "threads_inv s \<Longrightarrow> do_monitor_call env c s = Inr s' \<Longrightarrow> threads_inv s'"
  by (auto simp: do_monitor_call_def monitor_insert_process_def monitor_update_name_def ev_bind_Inr_iff
      dest!: insert_thread_inv[rotated] exit_thread_inv(1)[rotated] split: monitor_call.splits)
    (simp_all add: threads_inv_def)

lemma monitor_calls_inv: "threads_inv s \<Longrightarrow> monitor_calls env cs s = Inr s' \<Longrightarrow> threads_inv s'"
proof (induction cs arbitrary: s)
  case (Cons c cs)
  then obtain s1 where "do_monitor_call env c s = Inr s1" "monitor_calls env cs s1 = Inr s'"
    by (auto simp: ev_bind_Inr_iff)
  with Cons monitor_call_inv show ?case by blast
qed simp

lemma process_monitor_new_inv: "threads_inv (process_monitor_new reg posix_io tid c rs tr)"
  by (auto simp: threads_inv_def process_monitor_new_def runs_in_def std_lookup_def turns_def start_stop_def
      intro!: exI[of _ 0])

lemma stop_threads_calls:
  "thread_key.sorted_keys ts \<Longrightarrow> stop_threads env ts s = Inr s' \<Longrightarrow>
    calls_of t (pn_calls s') = calls_of t (pn_calls s) @ (if runs_in ts t then [Stop_monitor t] else [])"
proof (induction ts arbitrary: s)
  case (Cons x ts)
  obtain u m joinable where x: "x = (u, m, joinable)" by (cases x)
  with Cons.prems(2) obtain s1 where s1: "stop_thread env u joinable s = Inr s1" "stop_threads env ts s1 = Inr s'"
    by (auto simp: ev_bind_Inr_iff)
  have none: "std_lookup thread_less ts u = None"
  proof (rule ccontr)
    assume "std_lookup thread_less ts u \<noteq> None"
    then obtain v where "(u, v) \<in> set ts" using thread_lookup_member[of ts u] Cons.prems(1) by auto
    then show False using Cons.prems(1) x by (auto simp: thread_less_def)
  qed
  have "(t, v) \<in> set (x # ts) \<longleftrightarrow> t = u \<and> v = (m, joinable) \<or> (t, v) \<in> set ts" for v using x by auto
  then have "std_lookup thread_less (x # ts) t = (if t = u then Some (m, joinable) else std_lookup thread_less ts t)"
    using thread_lookup_member[of "x # ts" t] thread_lookup_member[of ts t] Cons.prems(1) by (metis not_None_eq sorted_wrt.simps(2) list.simps(9))
  then show ?case
    using Cons.IH[OF _ s1(2)] Cons.prems(1) stop_thread_calls[OF s1(1)] none by (auto simp: runs_in_def)
qed (simp add: runs_in_def std_lookup_def)

text \<open>
  C8. The monitors of the threads are started and stopped in turn, whatever the process controller calls: at
  any time each thread has been started and stopped alternately and runs exactly when its monitor is in
  the map with a joinable thread, and after the destructor every monitor that was ever started has been
  stopped exactly once for each start.
\<close>

theorem thread_monitors_stopped:
  assumes "monitor_calls env cs (process_monitor_new reg posix_io tid c rs tr) = Inr s" "monitor_destroy env s = Inr s'"
  shows "turns t (runs_in (pn_threads s) t) (pn_calls s) \<and> (\<exists>n. calls_of t (pn_calls s') = start_stop t n)"
proof -
  have inv: "threads_inv s" using monitor_calls_inv[OF process_monitor_new_inv assms(1)] .
  then have turns: "turns t (runs_in (pn_threads s) t) (pn_calls s)" by (simp add: threads_inv_def)
  obtain s1 where s1: "stop_threads env (pn_threads s) s = Inr s1" "s' = s1\<lparr>pn_threads := []\<rparr>"
    using assms(2) by (auto simp: monitor_destroy_def ev_bind_Inr_iff)
  have "calls_of t (pn_calls s') = calls_of t (pn_calls s) @ (if runs_in (pn_threads s) t then [Stop_monitor t] else [])"
    using stop_threads_calls[OF _ s1(1)] inv s1(2) by (simp add: threads_inv_def)
  with turns have "\<exists>n. calls_of t (pn_calls s') = start_stop t n"
    using start_stop_Suc by (auto simp: turns_def split: if_splits)
  with turns show ?thesis by blast
qed

text \<open>The insertion of a thread succeeds when its monitor does.\<close>

lemma insert_thread_total:
  assumes "registry_ok (me_registry env) cdef"
    "measures_thread (me_composer env) (scope_of_thread child) (pn_composer s) = (Inr measured, c)"
    "measured \<Longrightarrow> (\<And>s1. pn_threads s1 = pn_threads s \<Longrightarrow> pn_calls s1 = pn_calls s \<Longrightarrow>
      \<exists>s2. measure_thread env child spawn s1 = Inr s2 \<and> pn_threads s2 = threads \<and> pn_calls s2 = calls)"
    "\<not> measured \<Longrightarrow> threads = pn_threads s \<and> calls = pn_calls s"
  shows "\<exists>s'. monitor_insert_thread env parent child name spawn s = Inr s' \<and> pn_threads s' = threads \<and> pn_calls s' = calls"
proof -
  have em: "\<exists>tr'. emplace_thread (me_registry env) (me_trace env) parent child name tr = Inr tr'" for tr
    using emplace_thread_ok[OF assms(1)] unfolding emplace_thread_def by blast
  obtain tr1 where tr1: "emplace_thread (me_registry env) (me_trace env) parent child name (pn_trace s) = Inr tr1"
    using em by blast
  let ?s1 = "s\<lparr>pn_posix := map_option (pm_insert_thread child) (pn_posix s), pn_trace := tr1, pn_composer := c\<rparr>"
  obtain s2 where s2: "(if measured then measure_thread env child spawn ?s1 else Inr ?s1) = Inr s2"
      "pn_threads s2 = threads" "pn_calls s2 = calls"
    using assms(3)[of ?s1] assms(4) by (cases measured) auto
  obtain tr2 where tr2: "emplace_thread (me_registry env) (me_trace env) parent child name (pn_trace s2) = Inr tr2"
    using em by blast
  have "monitor_insert_thread env parent child name spawn s = Inr (s2\<lparr>pn_trace := tr2\<rparr>)"
    unfolding monitor_insert_thread_def Let_def
    using tr1 tr2 s2(1) by (simp add: assms(2) del: if_split cong: if_cong)
  with s2 show ?thesis by simp
qed

text \<open>
  C36. With sampling disabled, a thread for which there are both grouped and userspace counters is not measured
  at all: it gets no monitor, although both kinds of counters were asked for.
\<close>

theorem counters_without_sampling_unmeasured:
  assumes "registry_ok (me_registry env) cdef" "\<not> smp_enabled (cfg_sampling (ce_config (me_composer env)))"
    and "has_counters_for (me_composer env) (measurement_scope GROUP_METRIC (scope_of_thread child)) (pn_composer s) = (Inr True, c1)"
    and "has_counters_for (me_composer env) (measurement_scope USERSPACE_METRIC (scope_of_thread child)) c1 = (Inr True, c2)"
  shows "\<exists>s'. monitor_insert_thread env parent child name spawn s = Inr s' \<and> pn_threads s' = pn_threads s \<and> pn_calls s' = pn_calls s"
proof (rule insert_thread_total[OF assms(1)])
  show "measures_thread (me_composer env) (scope_of_thread child) (pn_composer s) = (Inr False, c2)"
    using assms(2-4) by (simp add: measures_thread_def)
qed simp_all

definition idle_scope_env :: scope_env where
  "idle_scope_env = \<lparr>se_sampling = False, se_process_recording = False, se_syscall = False, se_group = False,
    se_userspace = False, se_sample_writer = (\<lambda>_ _. Inr 7), se_syscall_writer = (\<lambda>_. Inr 8),
    se_group_writer = (\<lambda>_ _. Inr 9), se_userspace_writer = (\<lambda>_. Inr 10)\<rparr>"

definition example_monitor_env :: "composer_env \<Rightarrow> list_registry monitor_env" where
  "example_monitor_env cenv = \<lparr>me_registry = list_registry, me_trace = example_trace_env, me_composer = cenv,
    me_scope = idle_scope_env, me_eventfd = (\<lambda>_. 5), me_can_start = (\<lambda>_. True), me_mmaps = (\<lambda>_. [])\<rparr>"

definition example_process_monitor :: "composer \<Rightarrow> list_registry process_monitor" where
  "example_process_monitor c = process_monitor_new list_registry False (Thread 1) c
    \<lparr>function_resolvers = [], gpu_function_resolvers = []\<rparr> example_trace"

lemma example_insert:
  assumes "pn_threads s = []" "pn_calls s = []"
  shows "\<exists>s' m. monitor_insert_thread (example_monitor_env composing_env) p t name spawn s = Inr s' \<and>
    pn_threads s' = [(t, m, True)] \<and> pn_calls s' = [Start_monitor t]"
proof -
  let ?env = "example_monitor_env composing_env"
  obtain m where m: "scope_monitor_new idle_scope_env 5 (scope_of_thread t) spawn = Inr m"
    by (simp add: scope_monitor_new_def idle_scope_env_def with_writer_def execution_scope_name_def)
  have "measures_thread (me_composer ?env) (scope_of_thread t) (pn_composer s) = (Inr True, pn_composer s)"
    by (simp add: measures_thread_def example_monitor_env_def composing_env_def example_config_def)
  moreover have "\<exists>s2. measure_thread ?env t spawn s1 = Inr s2 \<and> pn_threads s2 = [(t, m, True)] \<and> pn_calls s2 = [Start_monitor t]"
    if "pn_threads s1 = pn_threads s" "pn_calls s1 = pn_calls s" for s1
  proof -
    have "scope_trace (me_registry ?env) (me_trace ?env) (me_composer ?env) (me_scope ?env) (scope_of_thread t) spawn ctr = (None, ctr)" for ctr
      by (simp add: scope_trace_def example_monitor_env_def idle_scope_env_def)
    then show ?thesis
      using that assms m by (simp add: measure_thread_def example_monitor_env_def)
  qed
  moreover have "registry_ok (me_registry ?env) list_cdef" by (simp add: example_monitor_env_def list_registry_ok)
  ultimately show ?thesis
    using insert_thread_total[of ?env list_cdef t s True "pn_composer s" spawn "[(t, m, True)]" "[Start_monitor t]" p name] by blast
qed

theorem thread_monitors_stopped_witness:
  "\<exists>s s'. monitor_calls (example_monitor_env composing_env) [Insert_thread (Process 7) (Thread 8) ''t'']
      (example_process_monitor example_composer) = Inr s \<and>
    monitor_destroy (example_monitor_env composing_env) s = Inr s' \<and>
    turns (Thread 8) True (pn_calls s) \<and> (\<exists>n. calls_of (Thread 8) (pn_calls s') = start_stop (Thread 8) n)"
proof -
  let ?env = "example_monitor_env composing_env"
  have start: "pn_threads (example_process_monitor example_composer) = []" "pn_calls (example_process_monitor example_composer) = []"
    by (simp_all add: example_process_monitor_def process_monitor_new_def)
  obtain s m where s: "monitor_insert_thread ?env (Process 7) (Thread 8) ''t'' False (example_process_monitor example_composer) = Inr s"
      "pn_threads s = [(Thread 8, m, True)]"
    using example_insert[OF start, of "Process 7" "Thread 8" "''t''" False] by blast
  have c: "monitor_calls ?env [Insert_thread (Process 7) (Thread 8) ''t''] (example_process_monitor example_composer) = Inr s"
    using s(1) by (simp add: do_monitor_call_def)
  obtain s' where d: "monitor_destroy ?env s = Inr s'"
    using s(2) by (simp add: monitor_destroy_def stop_thread_def example_monitor_env_def idle_scope_env_def)
  have "runs_in (pn_threads s) (Thread 8)"
    using s(2) thread_lookup_member[of "[(Thread 8, m, True)]" "Thread 8" "(m, True)"] by (simp add: runs_in_def)
  with thread_monitors_stopped[OF c[unfolded example_process_monitor_def] d, of "Thread 8"] c d show ?thesis by auto
qed

text \<open>Both kinds of counters are configured, and known.\<close>

definition counting_env :: composer_env where
  "counting_env = composing_env\<lparr>ce_config := example_config\<lparr>cfg_sampling := (cfg_sampling example_config)\<lparr>smp_enabled := False\<rparr>,
    cfg_userspace_counters := [''instructions'']\<rparr>\<rparr>"

definition counting_composer :: composer where
  "counting_composer = example_composer\<lparr>
    cp_group_counters := Some \<lparr>cc_leader = Some (known_event ''cpu-clock'' 1 0), cc_counters = [known_event ''instructions'' 0 1]\<rparr>,
    cp_userspace_counters := Some \<lparr>cc_leader = None, cc_counters = [known_event ''instructions'' 0 1]\<rparr>\<rparr>"

theorem counters_without_sampling_unmeasured_witness:
  "\<exists>s'. monitor_insert_thread (example_monitor_env counting_env) (Process 7) (Thread 8) ''t'' False
      (example_process_monitor counting_composer) = Inr s' \<and> pn_threads s' = [] \<and> pn_calls s' = []"
proof -
  have av: "is_available_in (known_event n t k) (scope_of_thread (Thread 8)) = Inr True" for n t k
    by (simp add: is_available_in_def known_event_def scope_of_thread_def scope_is_thread_def)
  have start: "pn_composer (example_process_monitor counting_composer) = counting_composer"
      "pn_threads (example_process_monitor counting_composer) = []" "pn_calls (example_process_monitor counting_composer) = []"
    by (simp_all add: example_process_monitor_def process_monitor_new_def)
  have "has_counters_for counting_env (measurement_scope GROUP_METRIC (scope_of_thread (Thread 8))) counting_composer = (Inr True, counting_composer)"
    by (simp add: has_counters_for_def counters_for_def measurement_scope_def group_counters_for_def emplace_group_counters_def
        counting_composer_def cc_empty_def available_group_def av)
  moreover have "has_counters_for counting_env (measurement_scope USERSPACE_METRIC (scope_of_thread (Thread 8))) counting_composer = (Inr True, counting_composer)"
    by (simp add: has_counters_for_def counters_for_def measurement_scope_def userspace_counters_for_def emplace_userspace_counters_def
        counting_composer_def av)
  ultimately show ?thesis
    using counters_without_sampling_unmeasured[of "example_monitor_env counting_env" list_cdef "Thread 8"
        "example_process_monitor counting_composer" counting_composer counting_composer "Process 7" "''t''" False] start
    by (simp add: example_monitor_env_def counting_env_def list_registry_ok)
qed

end
