(* ===== verification/Option_Declarations.thy ===== *)
theory Option_Declarations
  imports Lo2s_Prelude
begin

text \<open>
  The command line options lo2s declares to the parser of the nitro library (the \<open>add_parser\<close> functions below
  \<^verbatim>\<open>src/config/\<close>), with their short names, defaults and environment variables, in the order of declaration.
  The description texts are left out.
\<close>

datatype option_kind =
    Toggle bool bool
  | Value "string option" bool
  | Multi_value

text \<open>A toggle has a default and may be reversible; a value may have a default and may be optional.\<close>

record option_decl =
  od_name :: string
  od_short :: "char option"
  od_kind :: option_kind
  od_env :: "string option"

definition toggle :: "string \<Rightarrow> char option \<Rightarrow> option_decl" where
  "toggle name short = \<lparr>od_name = name, od_short = short, od_kind = Toggle False False, od_env = None\<rparr>"

definition reversible_toggle :: "string \<Rightarrow> option_decl" where
  "reversible_toggle name = \<lparr>od_name = name, od_short = None, od_kind = Toggle True True, od_env = None\<rparr>"

definition value_option :: "string \<Rightarrow> char option \<Rightarrow> string \<Rightarrow> option_decl" where
  "value_option name short def = \<lparr>od_name = name, od_short = short, od_kind = Value (Some def) False, od_env = None\<rparr>"

definition optional_option :: "string \<Rightarrow> char option \<Rightarrow> string option \<Rightarrow> option_decl" where
  "optional_option name short def = \<lparr>od_name = name, od_short = short, od_kind = Value def True, od_env = None\<rparr>"

definition multi_option :: "string \<Rightarrow> char option \<Rightarrow> option_decl" where
  "multi_option name short = \<lparr>od_name = name, od_short = short, od_kind = Multi_value, od_env = None\<rparr>"

definition general_options :: "option_decl list" where
  "general_options =
    [toggle ''all-cpus'' (Some CHR ''a''), toggle ''all-cpus-sampling'' (Some CHR ''A''),
     optional_option ''pid'' (Some CHR ''p'') None, toggle ''help'' (Some CHR ''h''), toggle ''version'' (Some CHR ''V''),
     toggle ''dump-config'' None, toggle ''quiet'' (Some CHR ''q''), toggle ''verbose'' (Some CHR ''v'')]"

definition otf2_options :: "option_decl list" where
  "otf2_options =
    [(value_option ''output-trace'' (Some CHR ''o'') ''lo2s_trace_{DATE}'')\<lparr>od_env := Some ''LO2S_OUTPUT_TRACE''\<rparr>]"

definition put_options :: "option_decl list" where
  "put_options = [reversible_toggle ''python'']"

definition as_user_options :: "option_decl list" where
  "as_user_options = [toggle ''drop-root'' (Some CHR ''u''), optional_option ''as-user'' (Some CHR ''U'') None]"

definition perf_options :: "option_decl list" where
  "perf_options =
    [value_option ''clockid'' (Some CHR ''k'') ''monotonic-raw'', value_option ''mmap-pages'' (Some CHR ''m'') ''16'',
     optional_option ''cgroup'' None None, toggle ''list-events'' None, toggle ''list-clockids'' None]"

definition sampling_options :: "bool \<Rightarrow> option_decl list" where
  "sampling_options hypervised =
    [reversible_toggle ''instruction-sampling'',
     value_option ''event'' (Some CHR ''e'') (if hypervised then ''cpu-clock'' else ''instructions''),
     value_option ''count'' (Some CHR ''c'') ''11010113'', toggle ''call-graph'' (Some CHR ''g''), toggle ''no-ip'' None,
     reversible_toggle ''kernel'', reversible_toggle ''process-recording'']"

definition tracepoint_options :: "option_decl list" where
  "tracepoint_options =
    [multi_option ''tracepoint'' (Some CHR ''t''), toggle ''list-tracepoints'' None,
     value_option ''tracepoint-read-interval'' None ''100'']"

definition block_io_options :: "option_decl list" where
  "block_io_options = [value_option ''block-io-read-interval'' None ''100'', toggle ''block-io'' None]"

definition posix_io_options :: "option_decl list" where
  "posix_io_options = [toggle ''posix-io'' None, value_option ''posix-io-read-interval'' None ''100'']"

definition syscall_options :: "option_decl list" where
  "syscall_options = [multi_option ''syscall'' (Some CHR ''s'')]"

definition userspace_options :: "option_decl list" where
  "userspace_options = [multi_option ''userspace-metric-event'' None, value_option ''userspace-readout-interval'' None ''100'']"

definition group_options :: "option_decl list" where
  "group_options =
    [optional_option ''metric-leader'' None (Some []), optional_option ''metric-count'' None None,
     value_option ''metric-frequency'' None ''10'', multi_option ''metric-event'' (Some CHR ''E''),
     toggle ''standard-metrics'' None]"

definition dwarf_options :: "option_decl list" where
  "dwarf_options = [value_option ''dwarf'' None ''local'']"

definition x86_energy_options :: "option_decl list" where
  "x86_energy_options = [toggle ''x86-energy'' (Some CHR ''X'')]"

definition x86_adapt_options :: "option_decl list" where
  "x86_adapt_options = [multi_option ''x86-adapt-knob'' (Some CHR ''x''), toggle ''list-knobs'' None]"

definition sensors_options :: "option_decl list" where
  "sensors_options = [toggle ''sensors'' (Some CHR ''S''), value_option ''sensors-read-interval'' None ''100'']"

definition accel_options :: "option_decl list" where
  "accel_options =
    [multi_option ''accel'' None, optional_option ''nec-readout-interval'' None (Some ''1''),
     optional_option ''nec-check-interval'' None (Some ''100'')]"

text \<open>The accelerators the description of \<^verbatim>\<open>--accel\<close> names.\<close>

definition described_accelerators :: "bool \<Rightarrow> bool \<Rightarrow> string list" where
  "described_accelerators cuda openmp = (if cuda then [''nvidia''] else []) @ (if openmp then [''openmp''] else [])"

definition rb_options :: "string \<Rightarrow> option_decl list" where
  "rb_options injectionlib_path =
    [value_option ''socket'' None ''/tmp/lo2s.socket'', optional_option ''ringbuf-read-interval'' None (Some ''100''),
     optional_option ''ld-library-path'' None (Some injectionlib_path), optional_option ''ringbuf-size'' None (Some ''16'')]"

definition perf_add_parser :: "bool \<Rightarrow> option_decl list" where
  "perf_add_parser hypervised =
    perf_options @ sampling_options hypervised @ tracepoint_options @ block_io_options @ posix_io_options @
    syscall_options @ userspace_options @ group_options"

definition add_parser :: "bool \<Rightarrow> string \<Rightarrow> option_decl list" where
  "add_parser hypervised injectionlib_path =
    general_options @ otf2_options @ put_options @ as_user_options @ perf_add_parser hypervised @ dwarf_options @
    x86_energy_options @ x86_adapt_options @ sensors_options @ accel_options @ rb_options injectionlib_path"

lemmas declaration_defs = add_parser_def perf_add_parser_def general_options_def otf2_options_def put_options_def
  as_user_options_def perf_options_def sampling_options_def tracepoint_options_def block_io_options_def
  posix_io_options_def syscall_options_def userspace_options_def group_options_def dwarf_options_def
  x86_energy_options_def x86_adapt_options_def sensors_options_def accel_options_def rb_options_def
  toggle_def reversible_toggle_def value_option_def optional_option_def multi_option_def

text \<open>No two options share a name or a short name, so every use of an option on the command line is unambiguous.\<close>

lemma option_names_distinct:
  "distinct (map od_name (add_parser hypervised path))"
  "distinct (filter (\<lambda>s. s \<noteq> None) (map od_short (add_parser hypervised path)))"
  by (simp_all add: declaration_defs)

text \<open>The options whose values the constructors of the configuration read as numbers are declared with a default.\<close>

lemma numeric_options_declared:
  "set [''count'', ''metric-frequency'', ''tracepoint-read-interval'', ''block-io-read-interval'', ''posix-io-read-interval'',
      ''userspace-readout-interval'', ''nec-readout-interval'', ''nec-check-interval'', ''ringbuf-read-interval'',
      ''ringbuf-size'', ''mmap-pages'']
    \<subseteq> od_name ` {d \<in> set (add_parser hypervised path). \<exists>v. \<exists>o'. od_kind d = Value (Some v) o'}"
proof -
  have "d \<in> set (add_parser hypervised path) \<Longrightarrow> od_kind d = Value (Some v) o' \<Longrightarrow>
      od_name d \<in> od_name ` {d \<in> set (add_parser hypervised path). \<exists>v. \<exists>o'. od_kind d = Value (Some v) o'}" for d v o'
    by blast
  note named = this
  have "value_option n s v \<in> set (add_parser hypervised path) \<Longrightarrow>
      n \<in> od_name ` {d \<in> set (add_parser hypervised path). \<exists>v. \<exists>o'. od_kind d = Value (Some v) o'}" for n s v
    using named[of "value_option n s v" v False] by (simp add: value_option_def)
  moreover have "optional_option n s (Some v) \<in> set (add_parser hypervised path) \<Longrightarrow>
      n \<in> od_name ` {d \<in> set (add_parser hypervised path). \<exists>v. \<exists>o'. od_kind d = Value (Some v) o'}" for n s v
    using named[of "optional_option n s (Some v)" v True] by (simp add: optional_option_def)
  moreover have "value_option ''count'' (Some CHR ''c'') ''11010113'' \<in> set (add_parser hypervised path)"
    "value_option ''metric-frequency'' None ''10'' \<in> set (add_parser hypervised path)"
    "value_option ''tracepoint-read-interval'' None ''100'' \<in> set (add_parser hypervised path)"
    "value_option ''block-io-read-interval'' None ''100'' \<in> set (add_parser hypervised path)"
    "value_option ''posix-io-read-interval'' None ''100'' \<in> set (add_parser hypervised path)"
    "value_option ''userspace-readout-interval'' None ''100'' \<in> set (add_parser hypervised path)"
    "optional_option ''nec-readout-interval'' None (Some ''1'') \<in> set (add_parser hypervised path)"
    "optional_option ''nec-check-interval'' None (Some ''100'') \<in> set (add_parser hypervised path)"
    "optional_option ''ringbuf-read-interval'' None (Some ''100'') \<in> set (add_parser hypervised path)"
    "optional_option ''ringbuf-size'' None (Some ''16'') \<in> set (add_parser hypervised path)"
    "value_option ''mmap-pages'' (Some CHR ''m'') ''16'' \<in> set (add_parser hypervised path)"
    by (simp_all add: add_parser_def perf_add_parser_def sampling_options_def group_options_def tracepoint_options_def
        block_io_options_def posix_io_options_def userspace_options_def accel_options_def rb_options_def perf_options_def)
  ultimately show ?thesis by auto
qed

end
