(* ===== verification/Options.thy ===== *)
theory Options
  imports Option_Declarations Event_Composer Time_Sync Resolvers
begin

text \<open>
  The configuration of lo2s (\<^verbatim>\<open>src/config.cpp\<close>, \<^verbatim>\<open>src/config/\<close>): what every part makes of the parsed command line, the
  checks, and the start of the program up to the point where the configuration is fixed. The parser is a
  library; its answers are an argument, as are the system and the features lo2s was built with. The result is
  the configuration, or how the program ends without one.
\<close>

section \<open>Arguments\<close>

text \<open>The answers of the parser: those of \<open>arguments\<close>, how often a toggle was given, and the positional arguments.\<close>

record command_line =
  cl_args :: arguments
  cl_times :: "string \<Rightarrow> nat"
  cl_pid :: "string \<Rightarrow> int"
  cl_positionals :: "string list"
  cl_argv :: "string list"

record build_features =
  bf_cuda :: bool
  bf_openmp :: bool
  bf_hip :: bool
  bf_libaudit :: bool
  bf_x86_adapt :: bool
  bf_x86_energy :: bool
  bf_sensors :: bool
  bf_debuginfod :: bool
  bf_hw_breakpoint_compat :: bool

text \<open>
  The system: the user id, the value of \<^verbatim>\<open>kernel.perf_event_paranoid\<close> unless reading it fails, the descriptor of a
  cgroup, the number libaudit has for a name unless it does not know the machine, the names of the tracepoints,
  and whether the directory of tracefs exists unless asking fails.
\<close>

record options_env =
  oe_build :: build_features
  oe_uid :: nat
  oe_sysctl_paranoid :: "int option"
  oe_cgroup_fd :: "string \<Rightarrow> int"
  oe_audit_nr :: "string \<Rightarrow> int option"
  oe_tracepoints :: "string list"
  oe_tracefs :: "bool option"

type_synonym environ = "string \<rightharpoonup> string"

datatype program_exit =
    Exit_status int
  | Escapes event_error

type_synonym 'a program = "program_exit + 'a"

definition ex_bind :: "'a program \<Rightarrow> ('a \<Rightarrow> 'b program) \<Rightarrow> 'b program" where
  "ex_bind r f = (case r of Inl e \<Rightarrow> Inl e | Inr x \<Rightarrow> f x)"

lemma ex_bind_simps [simp]: "ex_bind (Inl e) f = Inl e" "ex_bind (Inr x) f = f x"
  by (simp_all add: ex_bind_def)

lemma ex_bind_Inr_iff: "ex_bind r f = Inr y \<longleftrightarrow> (\<exists>x. r = Inr x \<and> f x = Inr y)"
  by (cases r) auto

definition program_of :: "'a event_result \<Rightarrow> 'a program" where
  "program_of r = (case r of Inl Exit_failure \<Rightarrow> Inl (Exit_status 1) | Inl e \<Rightarrow> Inl (Escapes e) | Inr x \<Rightarrow> Inr x)"

lemma case_sum_Inr_iff: "case_sum (\<lambda>e. Inl (f e)) g r = Inr y \<longleftrightarrow> (\<exists>x. r = Inr x \<and> g x = Inr y)"
  by (cases r) auto

lemma program_of_Inr_iff [simp]: "program_of r = Inr x \<longleftrightarrow> r = Inr x"
  by (auto simp: program_of_def split: sum.splits event_error.splits)

definition require :: "bool \<Rightarrow> unit program" where
  "require b = (if b then Inr () else Inl (Exit_status 1))"

lemma require_Inr_iff [simp]: "require b = Inr u \<longleftrightarrow> b"
  by (simp add: require_def)

definition perf_event_paranoid :: "options_env \<Rightarrow> int" where
  "perf_event_paranoid env =
    (if oe_uid env = 0 then - 1 else case oe_sysctl_paranoid env of Some v \<Rightarrow> v | None \<Rightarrow> 2)"

text \<open>\<^verbatim>\<open>std::chrono::milliseconds\<close> of a 64 bit number, converted to nanoseconds.\<close>

definition ms_interval :: "u64 \<Rightarrow> int" where
  "ms_interval ms = 1000000 * sint ms"

fun fmt_join :: "string \<Rightarrow> string list \<Rightarrow> string" where
  "fmt_join sep [] = []"
| "fmt_join sep [s] = s"
| "fmt_join sep (s # t # ss) = s @ sep @ fmt_join sep (t # ss)"

section \<open>General options\<close>

datatype MonitorType = PROCESS | CPU_SET

record general_config =
  gc_quiet :: bool
  gc_monitor_type :: MonitorType
  gc_process :: Process
  gc_command_line :: string

text \<open>The vector of words is created with \<open>argc\<close> empty words before the words are appended.\<close>

definition general_config_new :: "command_line \<Rightarrow> general_config" where
  "general_config_new cl =
    (let a = cl_args cl in
     \<lparr>gc_quiet = (arg_given a ''quiet'' \<and> \<not> arg_given a ''verbose''),
      gc_monitor_type = (if arg_given a ''all-cpus'' \<or> arg_given a ''all-cpus-sampling'' then CPU_SET else PROCESS),
      gc_process = (if arg_provided a ''pid'' then Process (cl_pid cl ''pid'') else Process_invalid),
      gc_command_line = fmt_join '' '' (replicate (length (cl_argv cl)) [] @ cl_argv cl)\<rparr>)"

datatype severity = Sev_trace | Sev_debug | Sev_info | Sev_warn | Sev_error

definition set_verbosity :: "command_line \<Rightarrow> severity" where
  "set_verbosity cl =
    (if arg_given (cl_args cl) ''quiet'' then Sev_error
     else if cl_times cl ''verbose'' = 0 then Sev_warn
     else if cl_times cl ''verbose'' = 1 then Sev_info
     else if cl_times cl ''verbose'' = 2 then Sev_debug
     else Sev_trace)"

record as_user_config =
  au_drop_root :: bool
  au_user :: string

definition as_user_config_new :: "arguments \<Rightarrow> as_user_config" where
  "as_user_config_new a =
    (if arg_provided a ''as-user'' then \<lparr>au_drop_root = True, au_user = arg_get a ''as-user''\<rparr>
     else \<lparr>au_drop_root = arg_given a ''drop-root'', au_user = []\<rparr>)"

record put_config =
  put_as_user :: as_user_config
  put_command :: "string list"
  put_use_python :: bool

definition put_config_new :: "command_line \<Rightarrow> put_config" where
  "put_config_new cl =
    \<lparr>put_as_user = as_user_config_new (cl_args cl), put_command = cl_positionals cl,
     put_use_python = arg_given (cl_args cl) ''python''\<rparr>"

section \<open>Events\<close>

record tracepoint_config =
  tpc_events :: "string list"
  tpc_read_interval :: int

definition tracepoint_config_new :: "arguments \<Rightarrow> tracepoint_config" where
  "tracepoint_config_new a =
    \<lparr>tpc_events = arg_all a ''tracepoint'', tpc_read_interval = ms_interval (arg_u64 a ''tracepoint-read-interval'')\<rparr>"

record block_io_config =
  bioc_enabled :: bool
  bioc_read_interval :: int

definition block_io_config_new :: "arguments \<Rightarrow> block_io_config" where
  "block_io_config_new a =
    \<lparr>bioc_enabled = arg_given a ''block-io'', bioc_read_interval = ms_interval (arg_u64 a ''block-io-read-interval'')\<rparr>"

record posix_io_config =
  pioc_enabled :: bool
  pioc_read_interval :: int

definition posix_io_config_new :: "arguments \<Rightarrow> posix_io_config" where
  "posix_io_config_new a =
    \<lparr>pioc_enabled = arg_given a ''posix-io'', pioc_read_interval = ms_interval (arg_u64 a ''posix-io-read-interval'')\<rparr>"

definition syscall_nr_for_name :: "options_env \<Rightarrow> string \<Rightarrow> int result" where
  "syscall_nr_for_name env name =
    (case stoi name of
       Inr nr \<Rightarrow> Inr nr
     | Inl Invalid_argument \<Rightarrow>
         Inr (if bf_libaudit (oe_build env) then (case oe_audit_nr env name of None \<Rightarrow> - 1 | Some nr \<Rightarrow> nr) else - 1)
     | Inl e \<Rightarrow> Inl e)"

fun parse_syscall_names :: "options_env \<Rightarrow> string list \<Rightarrow> int list program" where
  "parse_syscall_names env [] = Inr []"
| "parse_syscall_names env (name # names) =
    ex_bind (program_of (cpp (syscall_nr_for_name env name))) (\<lambda>nr.
    ex_bind (require (nr \<noteq> - 1)) (\<lambda>_.
    ex_bind (parse_syscall_names env names) (\<lambda>nrs. Inr (nr # nrs))))"

record syscall_config =
  scc_enabled :: bool
  scc_syscalls :: "int list"

text \<open>Without libaudit the requested system calls are dropped, numbers included: all of them are recorded.\<close>

definition syscall_config_new :: "options_env \<Rightarrow> arguments \<Rightarrow> syscall_config program" where
  "syscall_config_new env a =
    (if \<not> arg_provided a ''syscall'' then Inr \<lparr>scc_enabled = False, scc_syscalls = []\<rparr>
     else if ''all'' \<in> set (arg_all a ''syscall'') then Inr \<lparr>scc_enabled = True, scc_syscalls = []\<rparr>
     else if bf_libaudit (oe_build env)
     then ex_bind (parse_syscall_names env (arg_all a ''syscall'')) (\<lambda>nrs. Inr \<lparr>scc_enabled = True, scc_syscalls = nrs\<rparr>)
     else Inr \<lparr>scc_enabled = True, scc_syscalls = []\<rparr>)"

record userspace_config =
  usc_enabled :: bool
  usc_read_interval :: int
  usc_counters :: "string list"

definition userspace_config_new :: "arguments \<Rightarrow> userspace_config" where
  "userspace_config_new a =
    \<lparr>usc_enabled = (arg_all a ''userspace-metric-event'' \<noteq> []),
     usc_read_interval = ms_interval (arg_u64 a ''userspace-readout-interval''),
     usc_counters = arg_all a ''userspace-metric-event''\<rparr>"

record perf_main_config =
  pc_sampling :: sampling_config
  pc_tracepoints :: tracepoint_config
  pc_block_io :: block_io_config
  pc_posix_io :: posix_io_config
  pc_syscall :: syscall_config
  pc_userspace :: userspace_config
  pc_group :: group_config
  pc_cgroup_fd :: int
  pc_mmap_pages :: u64
  pc_clockid :: "int option"

text \<open>What the event composer reads of it.\<close>

definition composer_config :: "perf_main_config \<Rightarrow> perf_config" where
  "composer_config p =
    \<lparr>cfg_sampling = pc_sampling p, cfg_group = pc_group p, cfg_userspace_counters = usc_counters (pc_userspace p),
     cfg_clockid = pc_clockid p, cfg_mmap_pages = unat (pc_mmap_pages p)\<rparr>"

definition any_tracepoints :: "perf_main_config \<Rightarrow> bool" where
  "any_tracepoints p \<longleftrightarrow> tpc_events (pc_tracepoints p) \<noteq> [] \<or> bioc_enabled (pc_block_io p) \<or> scc_enabled (pc_syscall p)"

definition any_perf :: "perf_main_config \<Rightarrow> bool" where
  "any_perf p \<longleftrightarrow> bioc_enabled (pc_block_io p) \<or> grp_enabled (pc_group p) \<or> usc_enabled (pc_userspace p) \<or>
    smp_enabled (pc_sampling p) \<or> smp_process_recording (pc_sampling p)"

text \<open>
  The constructor; its second result is the reference clock of lo2s. The name \<^verbatim>\<open>pebs\<close> stands for the raw monotonic
  clock and large PEBS. Only an invalid clock is caught.
\<close>

definition perf_main_config_new :: "options_env \<Rightarrow> arguments \<Rightarrow> (perf_main_config \<times> int) program" where
  "perf_main_config_new env a =
    ex_bind (syscall_config_new env a) (\<lambda>sys.
    ex_bind (program_of (group_config_new a)) (\<lambda>grp.
    let pebs = (arg_get a ''clockid'' = ''pebs''); name = (if pebs then ''monotonic-raw'' else arg_get a ''clockid'') in
    case get_clock_by_name name of
      Inl _ \<Rightarrow> Inl (Exit_status 1)
    | Inr (nm, clock) \<Rightarrow>
        let cgroup_fd = (if arg_provided a ''cgroup'' then oe_cgroup_fd env (arg_get a ''cgroup'') else - 1) in
        ex_bind (require (arg_provided a ''cgroup'' \<longrightarrow> cgroup_fd \<noteq> - 1)) (\<lambda>_.
        Inr (\<lparr>pc_sampling = (sampling_config_new a)\<lparr>smp_use_pebs := pebs\<rparr>, pc_tracepoints = tracepoint_config_new a,
           pc_block_io = block_io_config_new a, pc_posix_io = posix_io_config_new a, pc_syscall = sys,
           pc_userspace = userspace_config_new a, pc_group = grp, pc_cgroup_fd = cgroup_fd,
           pc_mmap_pages = arg_u64 a ''mmap-pages'',
           pc_clockid = (if bf_hw_breakpoint_compat (oe_build env) then None else Some clock)\<rparr>, clock))))"

section \<open>Other parts\<close>

datatype DwarfUsage = Dwarf_none | Dwarf_local | Dwarf_full

definition dwarf_config_new :: "arguments \<Rightarrow> environ \<Rightarrow> (DwarfUsage \<times> environ) program" where
  "dwarf_config_new a environ =
    (if arg_get a ''dwarf'' = ''full'' then Inr (Dwarf_full, environ)
     else if arg_get a ''dwarf'' = ''local'' then Inr (Dwarf_local, environ(''DEBUGINFOD_URLS'' \<mapsto> []))
     else if arg_get a ''dwarf'' = ''none'' then Inr (Dwarf_none, environ)
     else Inl (Exit_status 1))"

record x86_adapt_config =
  xac_enabled :: bool
  xac_knobs :: "string list"

definition x86_adapt_config_new :: "arguments \<Rightarrow> x86_adapt_config" where
  "x86_adapt_config_new a = \<lparr>xac_enabled = (arg_all a ''x86-adapt-knob'' \<noteq> []), xac_knobs = arg_all a ''x86-adapt-knob''\<rparr>"

text \<open>The interval is read from the option for tracepoints.\<close>

record sensors_config =
  snc_enabled :: bool
  snc_read_interval :: int

definition sensors_config_new :: "arguments \<Rightarrow> sensors_config" where
  "sensors_config_new a =
    \<lparr>snc_enabled = arg_given a ''sensors'', snc_read_interval = ms_interval (arg_u64 a ''tracepoint-read-interval'')\<rparr>"

record accelerator_config =
  acc_nvidia :: bool
  acc_openmp :: bool
  acc_hip :: bool
  acc_nec :: bool
  acc_nec_read_interval :: int
  acc_nec_check_interval :: int

fun add_accelerators :: "build_features \<Rightarrow> string list \<Rightarrow> accelerator_config \<Rightarrow> accelerator_config program" where
  "add_accelerators bf [] c = Inr c"
| "add_accelerators bf (accel # accels) c =
    (if accel = ''nvidia'' then
       if bf_cuda bf then add_accelerators bf accels (c\<lparr>acc_nvidia := True\<rparr>) else Inl (Exit_status 1)
     else if accel = ''openmp'' then
       if bf_openmp bf then add_accelerators bf accels (c\<lparr>acc_openmp := True\<rparr>) else Inl (Exit_status 1)
     else if accel = ''amd'' then
       if bf_hip bf then add_accelerators bf accels (c\<lparr>acc_hip := True\<rparr>) else Inl (Exit_status 1)
     else Inl (Exit_status 1))"

definition accelerator_config_new :: "build_features \<Rightarrow> arguments \<Rightarrow> accelerator_config program" where
  "accelerator_config_new bf a =
    add_accelerators bf (arg_all a ''accel'')
      \<lparr>acc_nvidia = False, acc_openmp = False, acc_hip = False, acc_nec = False,
       acc_nec_read_interval = 1000 * sint (arg_u64 a ''nec-readout-interval''),
       acc_nec_check_interval = ms_interval (arg_u64 a ''nec-check-interval'')\<rparr>"

record rb_config =
  rbc_socket_path :: string
  rbc_injectionlib_path :: string
  rbc_size :: u64
  rbc_read_interval :: int

definition rb_config_new :: "arguments \<Rightarrow> rb_config" where
  "rb_config_new a =
    \<lparr>rbc_socket_path = arg_get a ''socket'', rbc_injectionlib_path = arg_get a ''ld-library-path'',
     rbc_size = arg_u64 a ''ringbuf-size'', rbc_read_interval = ms_interval (arg_u64 a ''ringbuf-read-interval'')\<rparr>"

section \<open>The configuration\<close>

record main_config =
  mc_general :: general_config
  mc_trace_path :: string
  mc_put :: put_config
  mc_perf :: perf_main_config
  mc_dwarf :: DwarfUsage
  mc_x86_energy :: bool
  mc_x86_adapt :: x86_adapt_config
  mc_sensors :: sensors_config
  mc_accel :: accelerator_config
  mc_rb :: rb_config

definition main_config_new :: "options_env \<Rightarrow> environ \<Rightarrow> command_line \<Rightarrow> (main_config \<times> int \<times> environ) program" where
  "main_config_new env environ cl =
    (let a = cl_args cl in
     ex_bind (perf_main_config_new env a) (\<lambda>(p, clock).
     ex_bind (dwarf_config_new a environ) (\<lambda>(dwarf, environ).
     ex_bind (accelerator_config_new (oe_build env) a) (\<lambda>accel.
       Inr (\<lparr>mc_general = general_config_new cl, mc_trace_path = arg_get a ''output-trace'', mc_put = put_config_new cl,
          mc_perf = p, mc_dwarf = dwarf, mc_x86_energy = arg_given a ''x86-energy'',
          mc_x86_adapt = x86_adapt_config_new a, mc_sensors = sensors_config_new a, mc_accel = accel,
          mc_rb = rb_config_new a\<rparr>, clock, environ)))))"

definition main_config_check :: "options_env \<Rightarrow> environ \<Rightarrow> main_config \<Rightarrow> unit program" where
  "main_config_check env environ c =
    (let system = (gc_monitor_type (mc_general c) = CPU_SET); p = mc_perf c; user = put_as_user (mc_put c) in
     if pioc_enabled (pc_posix_io p) \<and> oe_uid env \<noteq> 0 then Inl (Exit_status 1)
     else if pc_cgroup_fd p \<noteq> - 1 \<and> \<not> system then Inl (Exit_status 1)
     else if any_perf p \<and> system \<and> perf_event_paranoid env > 0 then Inl (Exit_status 1)
     else if \<not> system \<and> gc_process (mc_general c) = Process_invalid \<and> put_command (mc_put c) = [] then Inl (Exit_status 1)
     else if au_drop_root user \<and> environ ''SUDO_UID'' = None \<and> au_user user = [] then Inl (Exit_status 1)
     else if system \<and> pioc_enabled (pc_posix_io p) then Inl (Exit_status 1)
     else Inr ())"

text \<open>The options that print a list and end the program.\<close>

definition parse_print_options :: "options_env \<Rightarrow> arguments \<Rightarrow> unit program" where
  "parse_print_options env a =
    (if arg_given a ''list-tracepoints'' then Inl (Exit_status (if oe_tracepoints env = [] then 1 else 0))
     else if arg_given a ''list-events'' then Inl (Exit_status 0)
     else if arg_given a ''list-clockids'' then Inl (Exit_status 0)
     else if arg_given a ''list-knobs'' then Inl (Exit_status (if bf_x86_adapt (oe_build env) then 0 else 1))
     else Inr ())"

text \<open>The whole start, where the parser may have refused the command line. The version is never printed.\<close>

definition parse_program_options ::
    "options_env \<Rightarrow> environ \<Rightarrow> command_line option \<Rightarrow> (main_config \<times> int \<times> environ) program" where
  "parse_program_options env environ parsed =
    (case parsed of
       None \<Rightarrow> Inl (Exit_status 1)
     | Some cl \<Rightarrow>
       if arg_given (cl_args cl) ''help'' then Inl (Exit_status 0)
       else
         ex_bind (parse_print_options env (cl_args cl)) (\<lambda>_.
         ex_bind (main_config_new env environ cl) (\<lambda>(c, clock, environ).
         ex_bind (main_config_check env environ c) (\<lambda>_.
           if arg_given (cl_args cl) ''dump-config'' then Inl (Exit_status 0) else Inr (c, clock, environ)))))"

section \<open>Checks that no code calls\<close>

text \<open>
  \<^verbatim>\<open>perf::Config::check\<close>: the check of the groups is inside the loop over the userspace counters, and a counter
  that is listed several times is removed from the group only once for each of them.
\<close>

fun check_counters :: "string list \<Rightarrow> group_config \<Rightarrow> group_config event_result" where
  "check_counters [] g = Inr g"
| "check_counters (event # events) g =
    (let g = g\<lparr>grp_counters := remove1 event (grp_counters g)\<rparr> in
     ev_bind (group_config_check g) (\<lambda>_. check_counters events g))"

definition perf_config_check :: "options_env \<Rightarrow> perf_main_config \<Rightarrow> perf_main_config program" where
  "perf_config_check env p =
    (if any_perf p \<and> perf_event_paranoid env = 3 then Inl (Exit_status 1)
     else if any_perf p \<and> any_tracepoints p \<and> oe_tracefs env \<noteq> Some True then Inl (Exit_status 1)
     else ex_bind (program_of (check_counters (usc_counters (pc_userspace p)) (pc_group p))) (\<lambda>g. Inr (p\<lparr>pc_group := g\<rparr>)))"

definition dwarf_config_check :: "build_features \<Rightarrow> DwarfUsage \<Rightarrow> environ \<Rightarrow> DwarfUsage \<times> environ" where
  "dwarf_config_check bf usage environ =
    (if \<not> bf_debuginfod bf \<and> usage = Dwarf_full then (Dwarf_local, environ(''DEBUGINFOD_URLS'' \<mapsto> [])) else (usage, environ))"

definition sensors_config_check :: "build_features \<Rightarrow> sensors_config \<Rightarrow> unit program" where
  "sensors_config_check bf c = require (bf_sensors bf \<or> \<not> snc_enabled c)"

definition x86_energy_config_check :: "build_features \<Rightarrow> bool \<Rightarrow> unit program" where
  "x86_energy_config_check bf enabled = require (bf_x86_energy bf \<or> \<not> enabled)"

definition x86_adapt_config_check :: "build_features \<Rightarrow> x86_adapt_config \<Rightarrow> unit program" where
  "x86_adapt_config_check bf c = require (bf_x86_adapt bf \<or> xac_knobs c = [])"

section \<open>Which command lines are accepted\<close>

text \<open>The requirements of the program on a command line, in terms of its options alone.\<close>

definition system_mode :: "arguments \<Rightarrow> bool" where
  "system_mode a \<longleftrightarrow> arg_given a ''all-cpus'' \<or> arg_given a ''all-cpus-sampling''"

definition only_prints :: "arguments \<Rightarrow> bool" where
  "only_prints a \<longleftrightarrow> (\<exists>name \<in> {''help'', ''list-tracepoints'', ''list-events'', ''list-clockids'', ''list-knobs'', ''dump-config''}.
     arg_given a name)"

definition syscalls_known :: "options_env \<Rightarrow> arguments \<Rightarrow> bool" where
  "syscalls_known env a \<longleftrightarrow>
    (arg_provided a ''syscall'' \<and> ''all'' \<notin> set (arg_all a ''syscall'') \<and> bf_libaudit (oe_build env) \<longrightarrow>
     (\<forall>name \<in> set (arg_all a ''syscall''). \<exists>nr. syscall_nr_for_name env name = Inr nr \<and> nr \<noteq> - 1))"

definition accelerator_supported :: "build_features \<Rightarrow> string \<Rightarrow> bool" where
  "accelerator_supported bf accel \<longleftrightarrow>
    accel = ''nvidia'' \<and> bf_cuda bf \<or> accel = ''openmp'' \<and> bf_openmp bf \<or> accel = ''amd'' \<and> bf_hip bf"

definition counts_perf :: "arguments \<Rightarrow> bool" where
  "counts_perf a \<longleftrightarrow> arg_given a ''block-io'' \<or> arg_get a ''metric-leader'' \<noteq> [] \<or> arg_all a ''metric-event'' \<noteq> [] \<or>
    arg_given a ''standard-metrics'' \<or> arg_all a ''userspace-metric-event'' \<noteq> [] \<or>
    smp_enabled (sampling_config_new a) \<or> smp_process_recording (sampling_config_new a)"

definition events_ok :: "options_env \<Rightarrow> arguments \<Rightarrow> bool" where
  "events_ok env a \<longleftrightarrow> syscalls_known env a \<and>
    (arg_provided a ''metric-leader'' \<longrightarrow> arg_provided a ''metric-count'') \<and>
    arg_get a ''clockid'' \<in> fst ` set clocks \<and>
    (arg_provided a ''cgroup'' \<longrightarrow> oe_cgroup_fd env (arg_get a ''cgroup'') \<noteq> - 1)"

definition rights_ok :: "options_env \<Rightarrow> environ \<Rightarrow> arguments \<Rightarrow> bool" where
  "rights_ok env environ a \<longleftrightarrow>
    (arg_given a ''posix-io'' \<longrightarrow> oe_uid env = 0 \<and> \<not> system_mode a) \<and>
    (arg_provided a ''cgroup'' \<longrightarrow> system_mode a) \<and>
    (counts_perf a \<and> system_mode a \<longrightarrow> perf_event_paranoid env \<le> 0) \<and>
    (arg_given a ''drop-root'' \<and> \<not> arg_provided a ''as-user'' \<longrightarrow> environ ''SUDO_UID'' \<noteq> None) \<and>
    (arg_provided a ''as-user'' \<and> arg_get a ''as-user'' = [] \<longrightarrow> environ ''SUDO_UID'' \<noteq> None)"

definition options_ok :: "options_env \<Rightarrow> environ \<Rightarrow> command_line \<Rightarrow> bool" where
  "options_ok env environ cl \<longleftrightarrow>
    (let a = cl_args cl in
     \<not> only_prints a \<and> events_ok env a \<and> rights_ok env environ a \<and>
     arg_get a ''dwarf'' \<in> {''full'', ''local'', ''none''} \<and>
     (\<forall>accel \<in> set (arg_all a ''accel''). accelerator_supported (oe_build env) accel) \<and>
     (system_mode a \<or> arg_provided a ''pid'' \<and> cl_pid cl ''pid'' \<noteq> - 1 \<or> cl_positionals cl \<noteq> []))"

lemma parse_syscall_names_ok:
  "(\<exists>nrs. parse_syscall_names env names = Inr nrs) \<longleftrightarrow>
    (\<forall>name \<in> set names. \<exists>nr. syscall_nr_for_name env name = Inr nr \<and> nr \<noteq> - 1)"
  by (induction names) (auto simp: ex_bind_Inr_iff cpp_Inr_iff)

lemma syscall_config_ok: "(\<exists>c. syscall_config_new env a = Inr c) \<longleftrightarrow> syscalls_known env a"
  using parse_syscall_names_ok[of env "arg_all a ''syscall''"]
  by (auto simp: syscall_config_new_def syscalls_known_def ex_bind_Inr_iff)

lemma group_config_ok:
  "(\<exists>g. group_config_new a = Inr g) \<longleftrightarrow> (arg_provided a ''metric-leader'' \<longrightarrow> arg_provided a ''metric-count'')"
  by (simp add: group_config_new_def Let_def)

lemma clock_known:
  "(\<exists>c. get_clock_by_name (if name = ''pebs'' then ''monotonic-raw'' else name) = Inr c) \<longleftrightarrow> name \<in> fst ` set clocks"
  by (auto simp: get_clock_by_name_def clocks_def)

lemma add_accelerators_ok:
  "(\<exists>c'. add_accelerators bf accels c = Inr c') \<longleftrightarrow> (\<forall>accel \<in> set accels. accelerator_supported bf accel)"
  by (induction accels arbitrary: c) (auto simp: accelerator_supported_def)

lemma dwarf_config_ok: "(\<exists>r. dwarf_config_new a environ = Inr r) \<longleftrightarrow> arg_get a ''dwarf'' \<in> {''full'', ''local'', ''none''}"
  by (auto simp: dwarf_config_new_def)

lemma perf_main_config_ok: "(\<exists>r. perf_main_config_new env a = Inr r) \<longleftrightarrow> events_ok env a"
proof -
  have "(\<exists>r. perf_main_config_new env a = Inr r) \<longleftrightarrow>
      (\<exists>c. syscall_config_new env a = Inr c) \<and> (\<exists>g. group_config_new a = Inr g) \<and>
      (\<exists>c. get_clock_by_name (if arg_get a ''clockid'' = ''pebs'' then ''monotonic-raw'' else arg_get a ''clockid'') = Inr c) \<and>
      (arg_provided a ''cgroup'' \<longrightarrow> oe_cgroup_fd env (arg_get a ''cgroup'') \<noteq> - 1)"
    by (simp add: perf_main_config_new_def ex_bind_Inr_iff Let_def case_sum_Inr_iff) blast
  then show ?thesis
    unfolding syscall_config_ok group_config_ok clock_known events_ok_def by blast
qed

lemma perf_main_config_parts:
  assumes "perf_main_config_new env a = Inr (p, clock)"
  shows "pioc_enabled (pc_posix_io p) = arg_given a ''posix-io''"
    "pc_cgroup_fd p = (if arg_provided a ''cgroup'' then oe_cgroup_fd env (arg_get a ''cgroup'') else - 1)"
    "arg_provided a ''cgroup'' \<Longrightarrow> pc_cgroup_fd p \<noteq> - 1"
    "any_perf p = counts_perf a"
    "group_config_new a = Inr (pc_group p)"
proof -
  obtain sys g nm where s: "group_config_new a = Inr g"
    and c: "arg_provided a ''cgroup'' \<longrightarrow> oe_cgroup_fd env (arg_get a ''cgroup'') \<noteq> - 1"
    and p: "p = \<lparr>pc_sampling = (sampling_config_new a)\<lparr>smp_use_pebs := (arg_get a ''clockid'' = ''pebs'')\<rparr>,
           pc_tracepoints = tracepoint_config_new a,
           pc_block_io = block_io_config_new a, pc_posix_io = posix_io_config_new a, pc_syscall = sys,
           pc_userspace = userspace_config_new a, pc_group = g,
           pc_cgroup_fd = (if arg_provided a ''cgroup'' then oe_cgroup_fd env (arg_get a ''cgroup'') else - 1),
           pc_mmap_pages = arg_u64 a ''mmap-pages'',
           pc_clockid = (if bf_hw_breakpoint_compat (oe_build env) then None else Some clock)\<rparr>"
    using assms by (simp add: perf_main_config_new_def ex_bind_Inr_iff Let_def case_sum_Inr_iff split: prod.splits) blast
  have g: "grp_enabled g = (arg_get a ''metric-leader'' \<noteq> [] \<or> arg_all a ''metric-event'' \<noteq> [] \<or> arg_given a ''standard-metrics'')"
    using s by (auto simp: group_config_new_def Let_def split: if_splits)
  show "pioc_enabled (pc_posix_io p) = arg_given a ''posix-io''"
    "pc_cgroup_fd p = (if arg_provided a ''cgroup'' then oe_cgroup_fd env (arg_get a ''cgroup'') else - 1)"
    by (simp_all add: p posix_io_config_new_def)
  show "pc_cgroup_fd p \<noteq> - 1" if "arg_provided a ''cgroup''" using c that by (simp add: p)
  show "any_perf p = counts_perf a"
    by (auto simp: p any_perf_def counts_perf_def g block_io_config_new_def userspace_config_new_def)
  show "group_config_new a = Inr (pc_group p)" using s by (simp add: p)
qed

lemma main_config_ok:
  "(\<exists>r. main_config_new env environ cl = Inr r) \<longleftrightarrow>
    events_ok env (cl_args cl) \<and> arg_get (cl_args cl) ''dwarf'' \<in> {''full'', ''local'', ''none''} \<and>
    (\<forall>accel \<in> set (arg_all (cl_args cl) ''accel''). accelerator_supported (oe_build env) accel)"
proof -
  have "(\<exists>r. main_config_new env environ cl = Inr r) \<longleftrightarrow>
      (\<exists>r. perf_main_config_new env (cl_args cl) = Inr r) \<and> (\<exists>r. dwarf_config_new (cl_args cl) environ = Inr r) \<and>
      (\<exists>r. accelerator_config_new (oe_build env) (cl_args cl) = Inr r)"
    by (auto simp: main_config_new_def ex_bind_Inr_iff Let_def)
  then show ?thesis
    unfolding perf_main_config_ok dwarf_config_ok accelerator_config_new_def add_accelerators_ok by blast
qed

lemma main_config_parts:
  assumes "main_config_new env environ cl = Inr (c, clock, environ')"
  shows "mc_general c = general_config_new cl" "mc_put c = put_config_new cl"
    "perf_main_config_new env (cl_args cl) = Inr (mc_perf c, clock)"
    "environ' ''SUDO_UID'' = environ ''SUDO_UID''"
    "mc_sensors c = sensors_config_new (cl_args cl)" "mc_x86_energy c = arg_given (cl_args cl) ''x86-energy''"
  using assms by (auto simp: main_config_new_def ex_bind_Inr_iff Let_def dwarf_config_new_def split: if_splits)

lemma main_config_check_ok:
  assumes "main_config_new env environ cl = Inr (c, clock, environ')"
  shows "main_config_check env environ' c = Inr () \<longleftrightarrow> rights_ok env environ (cl_args cl) \<and>
    (system_mode (cl_args cl) \<or> arg_provided (cl_args cl) ''pid'' \<and> cl_pid cl ''pid'' \<noteq> - 1 \<or> cl_positionals cl \<noteq> [])"
proof -
  note c = main_config_parts[OF assms] and p = perf_main_config_parts[OF main_config_parts(3)[OF assms]]
  have s: "gc_monitor_type (mc_general c) = CPU_SET \<longleftrightarrow> system_mode (cl_args cl)"
    by (simp add: c general_config_new_def system_mode_def Let_def)
  have pr: "gc_process (mc_general c) = Process_invalid \<longleftrightarrow> \<not> (arg_provided (cl_args cl) ''pid'' \<and> cl_pid cl ''pid'' \<noteq> - 1)"
    by (simp add: c general_config_new_def Process_invalid_def Let_def)
  have u: "au_drop_root (put_as_user (mc_put c)) \<longleftrightarrow> arg_given (cl_args cl) ''drop-root'' \<or> arg_provided (cl_args cl) ''as-user''"
    "au_user (put_as_user (mc_put c)) = [] \<longleftrightarrow> \<not> arg_provided (cl_args cl) ''as-user'' \<or> arg_get (cl_args cl) ''as-user'' = []"
    if "arg_provided (cl_args cl) ''as-user'' \<or> \<not> arg_provided (cl_args cl) ''as-user''"
    by (auto simp: c put_config_new_def as_user_config_new_def)
  have cg: "pc_cgroup_fd (mc_perf c) \<noteq> - 1 \<longleftrightarrow> arg_provided (cl_args cl) ''cgroup''"
    using p(2,3) by auto
  have cmd: "put_command (mc_put c) = cl_positionals cl" by (simp add: c put_config_new_def)
  show ?thesis
    unfolding main_config_check_def Let_def s pr cg cmd p(1,4) c(4)
    using u by (auto simp: rights_ok_def)
qed

lemma parse_program_options_ok:
  "(\<exists>c clock environ'. parse_program_options env environ (Some cl) = Inr (c, clock, environ')) \<longleftrightarrow> options_ok env environ cl"
proof -
  let ?a = "cl_args cl"
  have "(\<exists>c clock environ'. parse_program_options env environ (Some cl) = Inr (c, clock, environ')) \<longleftrightarrow>
      \<not> only_prints ?a \<and> (\<exists>c clock environ'. main_config_new env environ cl = Inr (c, clock, environ') \<and>
        main_config_check env environ' c = Inr ())"
    by (auto simp: parse_program_options_def parse_print_options_def only_prints_def ex_bind_Inr_iff)
  also have "\<dots> \<longleftrightarrow> \<not> only_prints ?a \<and> (\<exists>r. main_config_new env environ cl = Inr r) \<and> rights_ok env environ ?a \<and>
      (system_mode ?a \<or> arg_provided ?a ''pid'' \<and> cl_pid cl ''pid'' \<noteq> - 1 \<or> cl_positionals cl \<noteq> [])"
    using main_config_check_ok[of env environ cl] by (metis prod_cases3)
  finally show ?thesis
    unfolding main_config_ok options_ok_def Let_def by blast
qed


lemma parse_program_options_parts:
  assumes "parse_program_options env environ (Some cl) = Inr (c, clock, environ')"
  shows "main_config_new env environ cl = Inr (c, clock, environ')"
  using assms by (auto simp: parse_program_options_def ex_bind_Inr_iff split: if_splits)

lemma options_ok_u64: "options_ok env environ (cl\<lparr>cl_args := (cl_args cl)\<lparr>arg_u64 := f\<rparr>\<rparr>) = options_ok env environ cl"
  by (simp add: options_ok_def only_prints_def events_ok_def syscalls_known_def rights_ok_def system_mode_def
      counts_perf_def sampling_config_new_def Let_def)

lemma zero_frequency_refused:
  assumes "group_config_new a = Inr g" "\<not> arg_provided a ''metric-leader''" "arg_u64 a ''metric-frequency'' = 0"
  shows "group_config_check g = Inl Exit_failure"
  using assms by (auto simp: group_config_new_def group_config_check_def Let_def)

text \<open>
  C37. The checks of the parts of the configuration are not called: whatever lo2s accepts with the default
  metric leader it also accepts with a metric frequency of zero, which the check of the group configuration
  refuses.
\<close>
theorem zero_metric_frequency_accepted:
  assumes "parse_program_options env environ (Some cl) = Inr (c, clock, environ')"
    "\<not> arg_provided (cl_args cl) ''metric-leader''"
  shows "\<exists>c0 clock0 environ0.
    parse_program_options env environ
      (Some (cl\<lparr>cl_args := (cl_args cl)\<lparr>arg_u64 := (arg_u64 (cl_args cl))(''metric-frequency'' := 0)\<rparr>\<rparr>)) = Inr (c0, clock0, environ0) \<and>
    group_config_check (pc_group (mc_perf c0)) = Inl Exit_failure"
proof -
  let ?cl = "cl\<lparr>cl_args := (cl_args cl)\<lparr>arg_u64 := (arg_u64 (cl_args cl))(''metric-frequency'' := 0)\<rparr>\<rparr>"
  have "options_ok env environ ?cl"
    using assms(1) parse_program_options_ok[of env environ cl] options_ok_u64 by blast
  then obtain c0 clock0 environ0 where c0: "parse_program_options env environ (Some ?cl) = Inr (c0, clock0, environ0)"
    using parse_program_options_ok by blast
  have "group_config_new (cl_args ?cl) = Inr (pc_group (mc_perf c0))"
    by (rule perf_main_config_parts(5)[OF main_config_parts(3)[OF parse_program_options_parts[OF c0]]])
  from c0 zero_frequency_refused[OF this] assms(2) show ?thesis by fastforce
qed

section \<open>An example\<close>

text \<open>The command line \<^verbatim>\<open>lo2s -- a.out\<close>.\<close>

definition example_command_line :: command_line where
  "example_command_line =
    \<lparr>cl_args = \<lparr>arg_provided = (\<lambda>_. False), arg_given = (\<lambda>name. name \<in> {''python'', ''kernel''}),
       arg_get = (\<lambda>name. if name = ''clockid'' then ''monotonic-raw'' else if name = ''dwarf'' then ''local'' else []),
       arg_all = (\<lambda>_. []), arg_u64 = (\<lambda>name. if name = ''metric-frequency'' then 10 else 100)\<rparr>,
     cl_times = (\<lambda>_. 0), cl_pid = (\<lambda>_. 0), cl_positionals = [''a.out''], cl_argv = [''lo2s'', ''--'', ''a.out'']\<rparr>"

definition example_options_env :: options_env where
  "example_options_env =
    \<lparr>oe_build = \<lparr>bf_cuda = False, bf_openmp = True, bf_hip = False, bf_libaudit = True, bf_x86_adapt = False,
       bf_x86_energy = False, bf_sensors = False, bf_debuginfod = False, bf_hw_breakpoint_compat = False\<rparr>,
     oe_uid = 1000, oe_sysctl_paranoid = Some 2, oe_cgroup_fd = (\<lambda>_. - 1), oe_audit_nr = (\<lambda>_. None),
     oe_tracepoints = [], oe_tracefs = Some True\<rparr>"

lemma example_options_ok: "options_ok example_options_env Map.empty example_command_line"
  by (simp add: options_ok_def only_prints_def events_ok_def syscalls_known_def rights_ok_def system_mode_def
      example_command_line_def example_options_env_def clocks_def)

theorem zero_metric_frequency_accepted_witness:
  "\<exists>c0 clock0 environ0.
    parse_program_options example_options_env Map.empty
      (Some (example_command_line\<lparr>cl_args := (cl_args example_command_line)
        \<lparr>arg_u64 := (arg_u64 (cl_args example_command_line))(''metric-frequency'' := 0)\<rparr>\<rparr>)) = Inr (c0, clock0, environ0) \<and>
    group_config_check (pc_group (mc_perf c0)) = Inl Exit_failure"
proof -
  obtain c clock environ' where
    "parse_program_options example_options_env Map.empty (Some example_command_line) = Inr (c, clock, environ')"
    using example_options_ok parse_program_options_ok by blast
  from zero_metric_frequency_accepted[OF this] show ?thesis by (simp add: example_command_line_def)
qed

text \<open>The option for the interval of the sensors has no effect.\<close>

lemma sensors_interval_ignored:
  "snc_read_interval (sensors_config_new (a\<lparr>arg_u64 := (arg_u64 a)(''sensors-read-interval'' := v)\<rparr>)) =
    snc_read_interval (sensors_config_new a)"
  by (simp add: sensors_config_new_def)

text \<open>No command line switches the recording of NEC accelerators on.\<close>

lemma add_accelerators_nec: "add_accelerators bf accels c = Inr c' \<Longrightarrow> acc_nec c' = acc_nec c"
  by (induction accels arbitrary: c) (auto split: if_splits)

lemma nec_never_enabled:
  "parse_program_options env environ (Some cl) = Inr (c, clock, environ') \<Longrightarrow> \<not> acc_nec (mc_accel c)"
  by (drule parse_program_options_parts)
    (auto simp: main_config_new_def ex_bind_Inr_iff Let_def accelerator_config_new_def dest!: add_accelerators_nec)

end
