(* ===== verification/Option_Output.thy ===== *)
theory Option_Output
  imports Options Topology "HOL-Library.Multiset"
begin

text \<open>
  What lo2s prints about its options: the lists of events (\<open>print_availability\<close> in \<^verbatim>\<open>src/config/perf_config.cpp\<close>,
  \<open>list_arguments_sorted\<close> in \<^verbatim>\<open>src/util.cpp\<close>, \<^verbatim>\<open>include/lo2s/io.hpp\<close>) and the configuration as JSON (the functions
  \<open>to_json\<close> below \<^verbatim>\<open>src/config/\<close>). A JSON object is the list of its members; the library prints it ordered by name.
\<close>

section \<open>Lists\<close>

fun insert_string :: "string \<Rightarrow> string list \<Rightarrow> string list" where
  "insert_string s [] = [s]"
| "insert_string s (t # ts) = (if string_less t s then t # insert_string s ts else s # t # ts)"

text \<open>\<^verbatim>\<open>std::sort\<close>\<close>

definition sort_strings :: "string list \<Rightarrow> string list" where
  "sort_strings ss = foldr insert_string ss []"

definition newline :: string where
  "newline = [CHR 0x0A]"

definition argument_list :: "string \<Rightarrow> string list \<Rightarrow> string" where
  "argument_list description items =
    newline @ ''List of '' @ description @ '':'' @ newline @ newline @
    (if items \<noteq> [] then concat (map (\<lambda>item. ''  '' @ item @ newline) items) else ''  (none available)'' @ newline) @ newline"

definition list_arguments_sorted :: "string \<Rightarrow> string list \<Rightarrow> string" where
  "list_arguments_sorted description items = argument_list description (sort_strings items)"

text \<open>The list of knobs: names in a column that is as wide as the longest, and descriptions of several lines.\<close>

definition pad_to :: "nat \<Rightarrow> string \<Rightarrow> string" where
  "pad_to width s = s @ replicate (width - length s) CHR '' ''"

definition knob_entry :: "(string \<Rightarrow> string list) \<Rightarrow> nat \<Rightarrow> string \<times> string \<Rightarrow> string result" where
  "knob_entry split_lines width entry =
    (case split_lines (snd entry) of
       [] \<Rightarrow> Inl Memory_fault
     | line # lines \<Rightarrow>
       Inr (''  '' @ pad_to (width + 2) (fst entry) @ line @ newline @
         concat (map (\<lambda>l. ''  '' @ pad_to (width + 2) [] @ l @ newline) lines)))"

fun knob_entries :: "(string \<Rightarrow> string list) \<Rightarrow> nat \<Rightarrow> (string \<times> string) list \<Rightarrow> string result" where
  "knob_entries split_lines width [] = Inr []"
| "knob_entries split_lines width (e # es) =
    sum_bind (knob_entry split_lines width e) (\<lambda>s. sum_bind (knob_entries split_lines width es) (\<lambda>t. Inr (s @ t)))"

definition knob_list :: "(string \<Rightarrow> string list) \<Rightarrow> string \<Rightarrow> (string \<times> string) list \<Rightarrow> string result" where
  "knob_list split_lines description knobs =
    sum_bind (if knobs = [] then Inr (''  (none available)'' @ newline)
              else knob_entries split_lines (fold (\<lambda>k m. max m (length (fst k))) knobs 0) knobs) (\<lambda>s.
      Inr (newline @ ''List of '' @ description @ '':'' @ newline @ newline @ s @ newline))"

section \<open>Availability of events\<close>

text \<open>The smallest and the largest CPU are read through iterators of an empty vector when there is none.\<close>

definition cpu_label :: "int list \<Rightarrow> string event_result" where
  "cpu_label cpus =
    (case cpus of
       [] \<Rightarrow> Inl Undefined
     | [c] \<Rightarrow> Inr ('' [ CPU '' @ show_int c @ '' ]'')
     | c # cs \<Rightarrow>
       let min_cpu = fold min cs c; max_cpu = fold max cs c in
       if max_cpu - min_cpu + 1 = int (length cpus)
       then Inr ('' [ CPUs '' @ show_int min_cpu @ ''-'' @ show_int max_cpu @ '' ]'')
       else Inr ('' [ CPUs '' @ fmt_join '', '' (map show_int cpus) @ '']''))"

definition event_label :: "Cpu list \<Rightarrow> event_attr \<Rightarrow> string event_result" where
  "event_label cpus ev =
    (if ea_availability ev = PROCESS_MODE then Inr (ea_name ev @ '' *'')
     else if ea_availability ev = SYSTEM_MODE then
       if map fst (ea_cpus ev) \<noteq> cpus
       then ev_bind (cpu_label (map (cpu_as_int \<circ> fst) (ea_cpus ev))) (\<lambda>cpu. Inr (ea_name ev @ '' #'' @ cpu))
       else Inr (ea_name ev @ '' #'')
     else Inr (ea_name ev))"

fun event_labels :: "Cpu list \<Rightarrow> event_attr list \<Rightarrow> string list event_result" where
  "event_labels cpus [] = Inr []"
| "event_labels cpus (ev # evs) =
    ev_bind (event_label cpus ev) (\<lambda>s. ev_bind (event_labels cpus evs) (\<lambda>ss. Inr (s # ss)))"

definition print_availability :: "topology \<Rightarrow> string \<Rightarrow> event_attr list \<Rightarrow> string event_result" where
  "print_availability tp description events =
    ev_bind (event_labels (map fst (tp_cpus tp)) events) (\<lambda>names. Inr (list_arguments_sorted description names))"

section \<open>JSON\<close>

datatype json =
    J_bool bool
  | J_int int
  | J_string string
  | J_array "json list"
  | J_object "(string \<times> json) list"

definition J_strings :: "string list \<Rightarrow> json" where
  "J_strings ss = J_array (map J_string ss)"

definition monitor_type_json :: "MonitorType \<Rightarrow> json" where
  "monitor_type_json ty = J_string (case ty of PROCESS \<Rightarrow> ''process'' | CPU_SET \<Rightarrow> ''cpu_set'')"

definition general_json :: "general_config \<Rightarrow> json" where
  "general_json c =
    J_object [(''quiet'', J_bool (gc_quiet c)), (''monitor_type'', monitor_type_json (gc_monitor_type c)),
      (''process'', J_int (process_as_int (gc_process c))), (''lo2s_command_line'', J_string (gc_command_line c))]"

definition otf2_json :: "string \<Rightarrow> json" where
  "otf2_json trace_path = J_object [(''trace_path'', J_string trace_path)]"

definition as_user_json :: "as_user_config \<Rightarrow> json" where
  "as_user_json c = J_object [(''drop_root'', J_bool (au_drop_root c)), (''user'', J_string (au_user c))]"

definition put_json :: "put_config \<Rightarrow> json" where
  "put_json c =
    J_object [(''as_user'', as_user_json (put_as_user c)), (''command'', J_strings (put_command c)),
      (''use_python'', J_bool (put_use_python c))]"

definition sampling_json :: "sampling_config \<Rightarrow> json" where
  "sampling_json c =
    J_object [(''enabled'', J_bool (smp_enabled c)), (''process_recording'', J_bool (smp_process_recording c)),
      (''period'', J_int (uint (smp_period c))), (''event'', J_string (smp_event c)),
      (''exclude_kernel'', J_bool (smp_exclude_kernel c)), (''enable_callgraph'', J_bool (smp_enable_callgraph c)),
      (''use_pebs'', J_bool (smp_use_pebs c))]"

definition tracepoint_json :: "tracepoint_config \<Rightarrow> json" where
  "tracepoint_json c = J_object [(''events'', J_strings (tpc_events c)), (''read_interval'', J_int (tpc_read_interval c))]"

definition block_io_json :: "block_io_config \<Rightarrow> json" where
  "block_io_json c = J_object [(''enabled'', J_bool (bioc_enabled c))]"

definition posix_io_json :: "posix_io_config \<Rightarrow> json" where
  "posix_io_json c = J_object [(''enabled'', J_bool (pioc_enabled c))]"

definition syscall_json :: "syscall_config \<Rightarrow> json" where
  "syscall_json c = J_object [(''enabled'', J_bool (scc_enabled c)), (''syscalls'', J_array (map J_int (scc_syscalls c)))]"

definition userspace_json :: "userspace_config \<Rightarrow> json" where
  "userspace_json c =
    J_object [(''enabled'', J_bool (usc_enabled c)), (''read_interval'', J_int (usc_read_interval c)),
      (''counters'', J_strings (usc_counters c))]"

definition group_json :: "group_config \<Rightarrow> json" where
  "group_json c =
    J_object [(''enabled'', J_bool (grp_enabled c)), (''use_frequency'', J_bool (grp_use_frequency c)),
      (''count'', J_int (uint (grp_count c))), (''frequency'', J_int (uint (grp_frequency c))),
      (''leader'', J_string (grp_leader c)), (''counters'', J_strings (grp_counters c))]"

definition perf_json :: "perf_main_config \<Rightarrow> json" where
  "perf_json p =
    J_object [(''sampling'', sampling_json (pc_sampling p)), (''tracepoints'', tracepoint_json (pc_tracepoints p)),
      (''block_io'', block_io_json (pc_block_io p)), (''posix_io'', posix_io_json (pc_posix_io p)),
      (''use_perf'', J_bool (any_perf p)), (''use_tracepoints'', J_bool (any_tracepoints p)),
      (''syscall'', syscall_json (pc_syscall p)), (''group'', group_json (pc_group p)),
      (''userspace'', userspace_json (pc_userspace p))]"

definition dwarf_json :: "DwarfUsage \<Rightarrow> json" where
  "dwarf_json usage =
    J_object [(''usage'', J_string (case usage of Dwarf_none \<Rightarrow> ''none'' | Dwarf_local \<Rightarrow> ''local'' | Dwarf_full \<Rightarrow> ''full''))]"

definition x86_energy_json :: "bool \<Rightarrow> json" where
  "x86_energy_json enabled = J_object [(''enabled'', J_bool enabled)]"

definition x86_adapt_json :: "x86_adapt_config \<Rightarrow> json" where
  "x86_adapt_json c = J_object [(''enabled'', J_bool (xac_enabled c)), (''knobs'', J_strings (xac_knobs c))]"

definition sensors_json :: "sensors_config \<Rightarrow> json" where
  "sensors_json c = J_object [(''enabled'', J_bool (snc_enabled c))]"

definition accelerator_json :: "accelerator_config \<Rightarrow> json" where
  "accelerator_json c =
    J_object [(''nvidia'', J_bool (acc_nvidia c)), (''openmp'', J_bool (acc_openmp c)), (''hip'', J_bool (acc_hip c)),
      (''nec'', J_bool (acc_nec c)), (''nec_read_interval'', J_int (acc_nec_read_interval c div 1000)),
      (''nec_check_interval'', J_int (acc_nec_check_interval c div 1000000))]"

definition rb_json :: "rb_config \<Rightarrow> json" where
  "rb_json c =
    J_object [(''socket_path'', J_string (rbc_socket_path c)), (''injectionlib_path'', J_string (rbc_injectionlib_path c)),
      (''size'', J_int (uint (rbc_size c))), (''read_interval'', J_int (rbc_read_interval c))]"

definition main_json :: "main_config \<Rightarrow> json" where
  "main_json c =
    J_object [(''general'', general_json (mc_general c)), (''otf2'', otf2_json (mc_trace_path c)),
      (''program_under_test'', put_json (mc_put c)), (''perf'', perf_json (mc_perf c)), (''dwarf'', dwarf_json (mc_dwarf c)),
      (''x86_energy'', x86_energy_json (mc_x86_energy c)), (''x86_adapt'', x86_adapt_json (mc_x86_adapt c)),
      (''sensors'', sensors_json (mc_sensors c)), (''accel'', accelerator_json (mc_accel c)), (''ringbuf'', rb_json (mc_rb c))]"

section \<open>The lists are sorted\<close>

lemma string_less_irrefl: "\<not> string_less a a"
  by (induction a) auto

lemma string_less_trans: "string_less a b \<Longrightarrow> string_less b c \<Longrightarrow> string_less a c"
proof (induction a b arbitrary: c rule: string_less.induct)
  case (2 d ds)
  then show ?case by (cases c) auto
next
  case (3 x xs y ys)
  then show ?case by (cases c) (auto split: if_splits)
qed simp

lemma string_less_total: "a \<noteq> b \<Longrightarrow> string_less a b \<or> string_less b a"
proof (induction a b rule: string_less.induct)
  case (1 a)
  then show ?case by (cases a) auto
next
  case (3 x xs y ys)
  show ?case
  proof (cases "x = y")
    case True
    with 3 show ?thesis by simp
  next
    case False
    then have "(of_char x :: nat) \<noteq> of_char y" by simp
    then have "(of_char x :: nat) < of_char y \<or> (of_char y :: nat) < of_char x" by (rule neq_iff[THEN iffD1])
    with False show ?thesis by auto
  qed
qed simp

lemma insert_string_mset: "mset (insert_string s ts) = add_mset s (mset ts)"
  by (induction ts) auto

lemma insert_string_sorted:
  "sorted_wrt (\<lambda>a b. \<not> string_less b a) ts \<Longrightarrow> sorted_wrt (\<lambda>a b. \<not> string_less b a) (insert_string s ts)"
proof (induction ts)
  case (Cons t ts)
  have set: "set (insert_string s ts) = insert s (set ts)"
    by (metis insert_string_mset set_mset_mset set_mset_add_mset_insert)
  show ?case
  proof (cases "string_less t s")
    case True
    then have "\<not> string_less s t" using string_less_trans string_less_irrefl by blast
    then show ?thesis using Cons True set by auto
  next
    case False
    have "\<not> string_less u s" if "u \<in> set ts" for u
    proof
      assume us: "string_less u s"
      show False
      proof (cases "t = s")
        case True
        then show ?thesis using Cons.prems us that by auto
      next
        case neq: False
        then have "string_less s t" using False string_less_total by blast
        with us have "string_less u t" using string_less_trans by blast
        with Cons.prems that show False by auto
      qed
    qed
    then show ?thesis using Cons.prems False by auto
  qed
qed simp

lemma sort_strings_sorts:
  "sorted_wrt (\<lambda>a b. \<not> string_less b a) (sort_strings ss)" "mset (sort_strings ss) = mset ss"
  by (induction ss) (auto simp: sort_strings_def insert_string_sorted insert_string_mset)

end
