(* ===== verification/Socket_Monitor.thy ===== *)
theory Socket_Monitor
  imports Poll_Monitor Ringbuf Std_Map Config_Term
begin

text \<open>
  The monitor of the socket on which injected libraries ask for a ring buffer
  (\<^verbatim>\<open>src/monitor/socket_monitor.cpp\<close>): its constructor, the handshake with a client, and the monitors for GPU and
  OpenMP events that it starts and stops. What the system calls answer is an argument, as is what the monitor
  reads in the header of the buffer each time it looks.
\<close>

section \<open>State\<close>

datatype socket_call =
    Start_gpu int
  | Start_openmp int
  | Stop_gpu int
  | Stop_openmp int
  | Close_fd int
  | Unlink_path string

text \<open>The monitors by the descriptor of their buffer, with whether their thread is joinable.\<close>

record socket_monitor =
  so_socket :: int
  so_gpu :: "(int, bool) std_map"
  so_openmp :: "(int, bool) std_map"
  so_calls :: "socket_call list"

definition so_call :: "socket_call list \<Rightarrow> socket_monitor \<Rightarrow> socket_monitor" where
  "so_call calls s = s\<lparr>so_calls := so_calls s @ calls\<rparr>"

text \<open>\<^verbatim>\<open>sun_path\<close> of \<^verbatim>\<open>sockaddr_un\<close> has 108 bytes; a longer path is cut.\<close>

definition bound_path :: "string \<Rightarrow> string" where
  "bound_path path = take 107 path"

record socket_env =
  se_socket :: int
  se_socket_errno :: int
  se_bind :: "string \<Rightarrow> int option"
  se_listen :: "int option"

definition socket_monitor_new :: "socket_env \<Rightarrow> int \<Rightarrow> string \<Rightarrow> socket_monitor poll_monitor result" where
  "socket_monitor_new env eventfd path =
    (if se_socket env = - 1 then Inl (System_error (se_socket_errno env))
     else case se_bind env (bound_path path) of Some e \<Rightarrow> Inl (System_error e)
     | None \<Rightarrow> case se_listen env of Some e \<Rightarrow> Inl (System_error e)
     | None \<Rightarrow> Inr (add_fd (se_socket env) (poll_monitor_new eventfd
         \<lparr>so_socket = se_socket env, so_gpu = [], so_openmp = [], so_calls = [Unlink_path path]\<rparr>)))"

section \<open>The handshake\<close>

text \<open>
  A client: the answer of \<^verbatim>\<open>accept\<close>, the descriptor of the buffer that is created for it, the error of sending it,
  and the type the monitor finds in the header at its first, second, \<open>...\<close> look.
\<close>

record socket_client =
  sk_accept :: "int result"
  sk_reader :: "int result"
  sk_send :: "int option"
  sk_type :: "nat \<Rightarrow> u64"

text \<open>The loop that waits for a type; \<open>None\<close> when it never ends.\<close>

partial_function (option) wait_for_type :: "(nat \<Rightarrow> u64) \<Rightarrow> nat \<Rightarrow> nat option" where
  "wait_for_type ty n = (if ty n = 0 then wait_for_type ty (Suc n) else Some n)"

text \<open>\<open>emplace\<close> and \<open>start\<close>, which asserts that the thread does not run already.\<close>

definition start_monitor :: "int \<Rightarrow> (int, bool) std_map \<Rightarrow> (int, bool) std_map result" where
  "start_monitor fd ms =
    (let ms = fst (std_emplace (<) fd False ms) in
     sum_bind (std_at (<) ms fd) (\<lambda>joinable.
     sum_bind (cpp_assert (\<not> joinable)) (\<lambda>_. Inr (std_update (<) fd (\<lambda>_. True) ms))))"

definition route_client :: "(nat \<Rightarrow> u64) \<Rightarrow> nat \<Rightarrow> int \<Rightarrow> socket_monitor \<Rightarrow> socket_monitor result" where
  "route_client ty n fd s =
    (if ty (n + 1) = measurement_type_code GPU
     then sum_bind (start_monitor fd (so_gpu s)) (\<lambda>ms. Inr (so_call [Start_gpu fd] (s\<lparr>so_gpu := ms\<rparr>)))
     else if ty (n + 2) = measurement_type_code OPENMP
     then sum_bind (start_monitor fd (so_openmp s)) (\<lambda>ms. Inr (so_call [Start_openmp fd] (s\<lparr>so_openmp := ms\<rparr>)))
     else Inl (Runtime_error (''Invalid ring buffer measurement type: '' @ show_u64 (ty (n + 3)))))"

text \<open>\<open>monitor(fd)\<close>, with the configured clock and the client that connected; \<open>None\<close> when it does not return.\<close>

definition socket_handle :: "int option \<Rightarrow> socket_client \<Rightarrow> int \<Rightarrow> socket_monitor \<Rightarrow> socket_monitor event_result option" where
  "socket_handle clockid client fd s =
    (if fd \<noteq> so_socket s then Some (Inr s)
     else case sk_accept client of Inl e \<Rightarrow> Some (Inl (Cpp e))
     | Inr data_socket \<Rightarrow> case clockid of None \<Rightarrow> Some (Inl Bad_optional_access)
     | Some _ \<Rightarrow> case sk_reader client of Inl e \<Rightarrow> Some (Inl (Cpp e))
     | Inr rb \<Rightarrow> case sk_send client of Some e \<Rightarrow> Some (Inl (Cpp (System_error e)))
     | None \<Rightarrow> case wait_for_type (sk_type client) 0 of None \<Rightarrow> None
     | Some n \<Rightarrow> Some (ev_bind (cpp (route_client (sk_type client) n rb s)) (\<lambda>s. Inr (so_call [Close_fd data_socket] s))))"

definition socket_finalize :: "string \<Rightarrow> socket_monitor \<Rightarrow> socket_monitor" where
  "socket_finalize path s =
    (so_call (map (Stop_gpu \<circ> fst) (so_gpu s) @ map (Stop_openmp \<circ> fst) (so_openmp s) @
       [Close_fd (so_socket s), Unlink_path path]) s)\<lparr>so_socket := - 1\<rparr>"

definition socket_destroy :: "socket_monitor \<Rightarrow> socket_monitor" where
  "socket_destroy s = (if so_socket s \<noteq> - 1 then so_call [Close_fd (so_socket s)] s else s)"

section \<open>Waiting for the type\<close>

lemma wait_for_type_reads:
  "(\<forall>i < d. ty (n + i) = 0) \<Longrightarrow> ty (n + d) \<noteq> 0 \<Longrightarrow> wait_for_type ty n = Some (n + d)"
proof (induction d arbitrary: n)
  case 0
  then show ?case by (subst wait_for_type.simps) simp
next
  case (Suc d)
  have "ty n = 0" using Suc.prems(1) by force
  moreover have "wait_for_type ty (Suc n) = Some (Suc n + d)"
    using Suc.prems by (intro Suc.IH) auto
  ultimately show ?case by (subst wait_for_type.simps) simp
qed

lemma wait_for_type_returns: "wait_for_type ty n = Some k \<Longrightarrow> \<exists>i. ty i \<noteq> 0"
  by (erule wait_for_type.raw_induct[rotated]) (auto split: if_splits)

lemma wait_for_type_None: "(\<forall>i. ty i = 0) \<Longrightarrow> wait_for_type ty n = None"
  using wait_for_type_returns[of ty n] by (cases "wait_for_type ty n") auto

lemma start_monitor_fresh:
  assumes "int_key.sorted_keys ms" "std_lookup (<) ms fd = None"
  shows "\<exists>ms'. start_monitor fd ms = Inr ms' \<and> int_key.sorted_keys ms' \<and>
    (\<forall>k. std_lookup (<) ms' k = (if k = fd then Some True else std_lookup (<) ms k))"
proof -
  let ?ms = "fst (std_emplace (<) fd False ms)"
  have l: "std_lookup (<) ?ms k = (if k = fd then Some False else std_lookup (<) ms k)" for k
    using assms by (auto simp: int_key.std_lookup_emplace int_key.eqv_def)
  have s: "int_key.sorted_keys ?ms" by (rule int_key.std_emplace_sorted[OF assms(1)])
  have "std_lookup (<) (std_update (<) fd (\<lambda>_. True) ?ms) k = (if k = fd then Some True else std_lookup (<) ms k)" for k
    using l[of k] by (auto simp: int_key.std_lookup_update[OF s] int_key.eqv_def)
  with s show ?thesis
    by (auto simp: start_monitor_def std_at_def l Let_def int_key.std_update_sorted)
qed

section \<open>Routing of clients\<close>

text \<open>The client sets its type once: after some looks it is there and stays.\<close>

definition writes_type :: "(nat \<Rightarrow> u64) \<Rightarrow> nat \<Rightarrow> u64 \<Rightarrow> bool" where
  "writes_type ty d t \<longleftrightarrow> (\<forall>i. ty i = (if i < d then 0 else t))"

text \<open>
  C18. A client that connects and is sent its buffer is handled by its type: the monitor of that type is
  started for the new buffer, once; with any other type an exception leaves the thread of the socket monitor,
  which ends lo2s; and when the client never sets a type the handler does not return, so that the socket monitor
  serves nobody else and can not be stopped.
\<close>
theorem socket_client_routed:
  assumes "sk_accept client = Inr data_socket" "sk_reader client = Inr rb" "sk_send client = None"
    "writes_type (sk_type client) d t"
    "int_key.sorted_keys (so_gpu s)" "std_lookup (<) (so_gpu s) rb = None"
    "int_key.sorted_keys (so_openmp s)" "std_lookup (<) (so_openmp s) rb = None"
  shows "case socket_handle (Some clock) client (so_socket s) s of
      None \<Rightarrow> t = 0
    | Some (Inl e) \<Rightarrow> t \<noteq> 0 \<and> t \<noteq> measurement_type_code GPU \<and> t \<noteq> measurement_type_code OPENMP \<and>
        e = Cpp (Runtime_error (''Invalid ring buffer measurement type: '' @ show_u64 t))
    | Some (Inr s') \<Rightarrow>
        (t = measurement_type_code GPU \<and> so_calls s' = so_calls s @ [Start_gpu rb, Close_fd data_socket] \<and>
           (\<forall>k. std_lookup (<) (so_gpu s') k = (if k = rb then Some True else std_lookup (<) (so_gpu s) k)) \<and>
           so_openmp s' = so_openmp s) \<or>
        (t = measurement_type_code OPENMP \<and> so_calls s' = so_calls s @ [Start_openmp rb, Close_fd data_socket] \<and>
           (\<forall>k. std_lookup (<) (so_openmp s') k = (if k = rb then Some True else std_lookup (<) (so_openmp s) k)) \<and>
           so_gpu s' = so_gpu s)"
proof (cases "t = 0")
  case True
  with assms(4) have "wait_for_type (sk_type client) 0 = None"
    by (intro wait_for_type_None) (simp add: writes_type_def)
  then show ?thesis using True assms(1-3) by (simp add: socket_handle_def)
next
  case False
  have ty: "sk_type client i = (if i < d then 0 else t)" for i using assms(4) by (simp add: writes_type_def)
  have w: "wait_for_type (sk_type client) 0 = Some d"
    using wait_for_type_reads[of d "sk_type client" 0] False by (simp add: ty)
  obtain gs where gs: "start_monitor rb (so_gpu s) = Inr gs"
    "\<forall>k. std_lookup (<) gs k = (if k = rb then Some True else std_lookup (<) (so_gpu s) k)"
    using start_monitor_fresh[OF assms(5,6)] by blast
  obtain os where os: "start_monitor rb (so_openmp s) = Inr os"
    "\<forall>k. std_lookup (<) os k = (if k = rb then Some True else std_lookup (<) (so_openmp s) k)"
    using start_monitor_fresh[OF assms(7,8)] by blast
  show ?thesis
    using assms(1-3) gs os False by (simp add: socket_handle_def w route_client_def ty so_call_def)
qed

section \<open>The end\<close>

text \<open>At the end every monitor in the tables is stopped once, and the socket is closed once, not again by the destructor.\<close>

lemma socket_finalize_stops:
  "so_calls (socket_destroy (socket_finalize path s)) = so_calls s @
    map (Stop_gpu \<circ> fst) (so_gpu s) @ map (Stop_openmp \<circ> fst) (so_openmp s) @ [Close_fd (so_socket s), Unlink_path path]"
  by (simp add: socket_finalize_def socket_destroy_def so_call_def)

text \<open>A path that is too long for the socket address is cut when it is bound, but removed in full.\<close>

lemma long_path_not_removed: "length path > 107 \<Longrightarrow> bound_path path \<noteq> path"
  by (auto simp: bound_path_def dest: arg_cong[where f = length])

definition example_client :: "u64 \<Rightarrow> socket_client" where
  "example_client t = \<lparr>sk_accept = Inr 9, sk_reader = Inr 10, sk_send = None, sk_type = (\<lambda>i. if i < 3 then 0 else t)\<rparr>"

definition example_socket_monitor :: socket_monitor where
  "example_socket_monitor = \<lparr>so_socket = 5, so_gpu = [(7, True)], so_openmp = [], so_calls = []\<rparr>"

theorem socket_client_routed_witness:
  "case socket_handle (Some 4) (example_client 2) 5 example_socket_monitor of
      None \<Rightarrow> False
    | Some (Inl e) \<Rightarrow> False
    | Some (Inr s') \<Rightarrow> so_calls s' = [Start_openmp 10, Close_fd 9] \<and> std_lookup (<) (so_openmp s') 10 = Some True \<and>
        so_gpu s' = [(7, True)]"
proof -
  have keys: "int_key.sorted_keys (so_gpu example_socket_monitor)" "std_lookup (<) (so_gpu example_socket_monitor) 10 = None"
    "int_key.sorted_keys (so_openmp example_socket_monitor)" "std_lookup (<) (so_openmp example_socket_monitor) 10 = None"
    by (simp_all add: example_socket_monitor_def std_lookup_def std_find_def)
  have "writes_type (sk_type (example_client 2)) 3 2" by (simp add: example_client_def writes_type_def)
  from socket_client_routed[OF _ _ _ this keys, of 9 4] show ?thesis
    by (simp add: example_client_def example_socket_monitor_def split: option.splits sum.splits)
qed

end
