(* ===== verification/Main_Monitor.thy ===== *)
theory Main_Monitor
  imports Options "HOL-Library.Multiset"
begin

text \<open>
  The monitor every mode of lo2s is built on (\<^verbatim>\<open>src/monitor/main_monitor.cpp\<close>), which starts and stops the parts that
  measure the whole system, and what the program makes of the way it ends (\<^verbatim>\<open>src/main.cpp\<close>). The constructors and the
  starts of the parts are arguments: they succeed or throw.
\<close>

section \<open>Parts\<close>

datatype part =
    Part_metrics
  | Part_tracepoints Cpu
  | Part_block_io
  | Part_x86_adapt
  | Part_x86_energy
  | Part_sensors
  | Part_socket

datatype main_call =
    Start_part part
  | Stop_part part
  | Begin_record
  | End_record
  | Finalize_trace

record main_env =
  mn_build :: build_features
  mn_cpus :: "Cpu list"
  mn_converter :: "event_error option"
  mn_construct :: "part \<Rightarrow> event_error option"
  mn_start :: "part \<Rightarrow> event_error option"

text \<open>The parts that were built, those whose threads run, and the calls so far.\<close>

record main_monitor =
  mm_parts :: "part list"
  mm_running :: "part list"
  mm_calls :: "main_call list"

definition mm_call :: "main_call \<Rightarrow> main_monitor \<Rightarrow> main_monitor" where
  "mm_call c m = m\<lparr>mm_calls := mm_calls m @ [c]\<rparr>"

text \<open>A part is built and started; the first exception ends that.\<close>

definition bring_up :: "main_env \<Rightarrow> part \<Rightarrow> main_monitor \<Rightarrow> event_error option \<times> main_monitor" where
  "bring_up env p m =
    (case mn_construct env p of
       Some e \<Rightarrow> (Some e, m)
     | None \<Rightarrow>
       let m = m\<lparr>mm_parts := mm_parts m @ [p]\<rparr> in
       case mn_start env p of
         Some e \<Rightarrow> (Some e, m)
       | None \<Rightarrow> (None, mm_call (Start_part p) (m\<lparr>mm_running := mm_running m @ [p]\<rparr>)))"

text \<open>Exceptions are logged; a failed assertion is none.\<close>

definition logged :: "event_error option \<times> main_monitor \<Rightarrow> main_monitor event_result" where
  "logged r = (if fst r = Some (Cpp Assertion) then Inl (Cpp Assertion) else Inr (snd r))"

definition try_part :: "main_env \<Rightarrow> bool \<Rightarrow> part \<Rightarrow> main_monitor \<Rightarrow> main_monitor event_result" where
  "try_part env enabled p m = (if enabled then logged (bring_up env p m) else Inr m)"

fun bring_up_tracepoints :: "main_env \<Rightarrow> Cpu list \<Rightarrow> main_monitor \<Rightarrow> event_error option \<times> main_monitor" where
  "bring_up_tracepoints env [] m = (None, m)"
| "bring_up_tracepoints env (cpu # cpus) m =
    (case bring_up env (Part_tracepoints cpu) m of
       (Some e, m) \<Rightarrow> (Some e, m)
     | (None, m) \<Rightarrow> bring_up_tracepoints env cpus m)"

text \<open>An exception out of the constructor destroys its members: the destructor of a running monitor asserts.\<close>

definition unwind :: "event_error \<Rightarrow> main_monitor \<Rightarrow> event_error" where
  "unwind e m = (if \<exists>p \<in> set (mm_running m). p \<noteq> Part_metrics then Cpp Assertion else e)"

definition must_part :: "main_env \<Rightarrow> bool \<Rightarrow> part \<Rightarrow> main_monitor \<Rightarrow> main_monitor event_result" where
  "must_part env enabled p m =
    (if enabled then case bring_up env p m of (Some e, m) \<Rightarrow> Inl (unwind e m) | (None, m) \<Rightarrow> Inr m else Inr m)"

section \<open>The constructor and the destructor\<close>

definition main_monitor_new :: "main_env \<Rightarrow> main_config \<Rightarrow> main_monitor event_result" where
  "main_monitor_new env c =
    (let bf = mn_build env; p = mc_perf c in
     case (if smp_enabled (pc_sampling p) then mn_converter env else None) of
       Some e \<Rightarrow> Inl e
     | None \<Rightarrow>
       ev_bind (must_part env True Part_metrics \<lparr>mm_parts = [], mm_running = [], mm_calls = []\<rparr>) (\<lambda>m.
       ev_bind (if tpc_events (pc_tracepoints p) \<noteq> [] then logged (bring_up_tracepoints env (mn_cpus env) (mm_call Begin_record m))
                else Inr (mm_call Begin_record m)) (\<lambda>m.
       ev_bind (must_part env (bioc_enabled (pc_block_io p)) Part_block_io m) (\<lambda>m.
       ev_bind (try_part env (bf_x86_adapt bf \<and> xac_knobs (mc_x86_adapt c) \<noteq> []) Part_x86_adapt m) (\<lambda>m.
       ev_bind (try_part env (bf_x86_energy bf \<and> mc_x86_energy c) Part_x86_energy m) (\<lambda>m.
       ev_bind (try_part env (bf_sensors bf \<and> snc_enabled (mc_sensors c)) Part_sensors m) (\<lambda>m.
         try_part env True Part_socket m)))))))"

text \<open>Stopping a part whose thread does not run only warns.\<close>

definition stop_part :: "part \<Rightarrow> main_monitor \<Rightarrow> main_monitor" where
  "stop_part p m = (if p \<in> set (mm_running m) then mm_call (Stop_part p) m else m)"

definition is_tracepoints :: "part \<Rightarrow> bool" where
  "is_tracepoints p \<longleftrightarrow> (\<exists>cpu. p = Part_tracepoints cpu)"

definition stop_tracepoints :: "main_monitor \<Rightarrow> main_monitor" where
  "stop_tracepoints m = m\<lparr>mm_calls := mm_calls m @ map Stop_part (filter is_tracepoints (mm_running m))\<rparr>"

text \<open>The sensors are stopped through their pointer when they are configured, built or not.\<close>

definition main_monitor_destroy :: "main_env \<Rightarrow> main_config \<Rightarrow> main_monitor \<Rightarrow> main_monitor event_result" where
  "main_monitor_destroy env c m =
    (let bf = mn_build env in
     ev_bind (if bf_sensors bf \<and> snc_enabled (mc_sensors c)
              then if Part_sensors \<in> set (mm_parts m) then Inr (stop_part Part_sensors m) else Inl (Cpp Memory_fault)
              else Inr m) (\<lambda>m.
     let m = stop_part Part_socket m; m = stop_part Part_x86_energy m; m = stop_part Part_x86_adapt m;
         m = (if bioc_enabled (pc_block_io (mc_perf c)) then stop_part Part_block_io m else m);
         m = stop_tracepoints m; m = mm_call End_record m; m = mm_call (Stop_part Part_metrics) m
     in Inr (mm_call Finalize_trace m)))"

section \<open>The end of the program\<close>

datatype ending =
    Ended int bool
  | Aborted

text \<open>The exit status, and whether the summary is shown. A \<^verbatim>\<open>system_error\<close> without an error is the normal end.\<close>

definition main_ending :: "unit program \<Rightarrow> ending" where
  "main_ending r =
    (case r of
       Inr _ \<Rightarrow> Ended 0 True
     | Inl (Exit_status n) \<Rightarrow> Ended n False
     | Inl (Escapes (Cpp (System_error e))) \<Rightarrow> if e = 0 then Ended 0 True else Ended e False
     | Inl (Escapes e) \<Rightarrow>
         if e \<in> {Cpp Assertion, Cpp Memory_fault, Cpp Division_by_zero, Undefined, Diverges} then Aborted else Ended 1 False)"

section \<open>What is started is stopped\<close>

definition starts :: "main_call list \<Rightarrow> part list" where
  "starts cs = concat (map (\<lambda>c. case c of Start_part p \<Rightarrow> [p] | _ \<Rightarrow> []) cs)"

definition stops :: "main_call list \<Rightarrow> part list" where
  "stops cs = concat (map (\<lambda>c. case c of Stop_part p \<Rightarrow> [p] | _ \<Rightarrow> []) cs)"

lemma starts_stops_append [simp]:
  "starts (xs @ ys) = starts xs @ starts ys" "stops (xs @ ys) = stops xs @ stops ys"
  by (simp_all add: starts_def stops_def)

lemma starts_stops_simps [simp]:
  "starts [] = []" "starts (c # cs) = (case c of Start_part p \<Rightarrow> [p] | _ \<Rightarrow> []) @ starts cs"
  "stops [] = []" "stops (c # cs) = (case c of Stop_part p \<Rightarrow> [p] | _ \<Rightarrow> []) @ stops cs"
  by (simp_all add: starts_def stops_def)

lemma stops_map_Stop [simp]: "starts (map Stop_part ps) = []" "stops (map Stop_part ps) = ps"
  by (induction ps) simp_all

text \<open>\<open>m'\<close> continues \<open>m\<close> by running the parts \<open>ps\<close>.\<close>

definition runs_also :: "part list \<Rightarrow> main_monitor \<Rightarrow> main_monitor \<Rightarrow> bool" where
  "runs_also ps m m' \<longleftrightarrow> mm_running m' = mm_running m @ ps \<and> starts (mm_calls m') = starts (mm_calls m) @ ps \<and>
    stops (mm_calls m') = stops (mm_calls m) \<and> set (mm_parts m) \<union> set ps \<subseteq> set (mm_parts m')"

lemma runs_also_refl: "runs_also [] m m"
  by (simp add: runs_also_def)

lemma runs_also_trans: "runs_also ps m1 m2 \<Longrightarrow> runs_also qs m2 m3 \<Longrightarrow> runs_also (ps @ qs) m1 m3"
  by (auto simp: runs_also_def)

lemma runs_also_call: "c = Begin_record \<Longrightarrow> runs_also [] m (mm_call c m)"
  by (simp add: runs_also_def mm_call_def)

lemma bring_up_runs:
  "bring_up env p m = (e, m') \<Longrightarrow> runs_also (if e = None then [p] else []) m m' \<and>
    (p \<in> set (mm_parts m') \<or> mn_construct env p \<noteq> None \<and> mm_parts m' = mm_parts m) \<and>
    set (mm_parts m') \<subseteq> insert p (set (mm_parts m))"
  by (auto simp: bring_up_def runs_also_def mm_call_def Let_def split: option.splits) metis

lemma bring_up_tracepoints_runs:
  "bring_up_tracepoints env cpus m = (e, m') \<Longrightarrow> \<exists>ps. runs_also ps m m' \<and> (\<forall>p \<in> set ps. is_tracepoints p) \<and>
    (\<forall>p \<in> set (mm_parts m'). p \<in> set (mm_parts m) \<or> is_tracepoints p)"
proof (induction cpus arbitrary: m)
  case Nil
  then show ?case using runs_also_refl by fastforce
next
  case (Cons cpu cpus)
  obtain e1 m1 where b: "bring_up env (Part_tracepoints cpu) m = (e1, m1)" by force
  note r = bring_up_runs[OF b]
  have t: "is_tracepoints (Part_tracepoints cpu)" by (simp add: is_tracepoints_def)
  show ?case
  proof (cases e1)
    case None
    then obtain ps where "runs_also ps m1 m'" "\<forall>p \<in> set ps. is_tracepoints p"
      "\<forall>p \<in> set (mm_parts m'). p \<in> set (mm_parts m1) \<or> is_tracepoints p"
      using Cons.IH[of m1] Cons.prems b by auto
    then show ?thesis
      using r None t runs_also_trans[of "[Part_tracepoints cpu]" m m1 ps m'] by (intro exI[of _ "Part_tracepoints cpu # ps"]) auto
  next
    case (Some x)
    then show ?thesis using r Cons.prems b t by (intro exI[of _ "[]"]) auto
  qed
qed

lemma try_part_runs:
  assumes "try_part env enabled p m = Inr m'"
  shows "\<exists>ps. runs_also ps m m' \<and> (ps = [] \<or> enabled \<and> ps = [p]) \<and> set (mm_parts m') \<subseteq> insert p (set (mm_parts m)) \<and>
    (enabled \<longrightarrow> p \<in> set (mm_parts m') \<or> mn_construct env p \<noteq> None \<and> mm_parts m' = mm_parts m)"
proof (cases enabled)
  case True
  obtain e m1 where b: "bring_up env p m = (e, m1)" by force
  with True assms have "m1 = m'" by (auto simp: try_part_def logged_def split: if_splits)
  with bring_up_runs[OF b] True show ?thesis by (intro exI[of _ "if e = None then [p] else []"]) auto
next
  case False
  with assms show ?thesis using runs_also_refl by (auto simp: try_part_def)
qed

lemma must_part_runs:
  "must_part env enabled p m = Inr m' \<Longrightarrow> runs_also (if enabled then [p] else []) m m' \<and>
    set (mm_parts m') \<subseteq> insert p (set (mm_parts m))"
proof (cases enabled)
  case True
  assume m: "must_part env enabled p m = Inr m'"
  obtain e m1 where b: "bring_up env p m = (e, m1)" by force
  with True m have "m1 = m' \<and> e = None" by (auto simp: must_part_def split: option.splits)
  with bring_up_runs[OF b] True show ?thesis by auto
qed (auto simp: must_part_def runs_also_refl)


lemma mm_call_simps: "mm_calls (mm_call c m) = mm_calls m @ [c]" "mm_running (mm_call c m) = mm_running m"
  by (simp_all add: mm_call_def)

lemma stop_tracepoints_simps:
  "mm_calls (stop_tracepoints m) = mm_calls m @ map Stop_part (filter is_tracepoints (mm_running m))"
  "mm_running (stop_tracepoints m) = mm_running m"
  by (simp_all add: stop_tracepoints_def)

lemma stop_part_calls: "mm_calls (stop_part p m) = mm_calls m @ (if p \<in> set (mm_running m) then [Stop_part p] else [])"
  "mm_running (stop_part p m) = mm_running m"
  by (simp_all add: stop_part_def mm_call_def)

lemma main_monitor_new_running:
  assumes "main_monitor_new env c = Inr m"
  shows "\<exists>tps bio xa xe se so. mm_running m = [Part_metrics] @ tps @ bio @ xa @ xe @ se @ so \<and>
    starts (mm_calls m) = mm_running m \<and> stops (mm_calls m) = [] \<and> (\<forall>p \<in> set tps. is_tracepoints p) \<and>
    bio = (if bioc_enabled (pc_block_io (mc_perf c)) then [Part_block_io] else []) \<and>
    (xa = [] \<or> xa = [Part_x86_adapt]) \<and> (xe = [] \<or> xe = [Part_x86_energy]) \<and> (se = [] \<or> se = [Part_sensors]) \<and>
    (so = [] \<or> so = [Part_socket]) \<and>
    (bf_sensors (mn_build env) \<and> snc_enabled (mc_sensors c) \<longrightarrow>
      (Part_sensors \<in> set (mm_parts m) \<longleftrightarrow> mn_construct env Part_sensors = None)) \<and>
    (se \<noteq> [] \<longrightarrow> bf_sensors (mn_build env) \<and> snc_enabled (mc_sensors c))"
proof -
  let ?bio = "bioc_enabled (pc_block_io (mc_perf c))"
  let ?se = "bf_sensors (mn_build env) \<and> snc_enabled (mc_sensors c)"
  define m0 where "m0 = \<lparr>mm_parts = [], mm_running = [], mm_calls = []\<rparr>"
  from assms obtain m1 m2 m3 m4 m5 m6 where
    m1: "must_part env True Part_metrics m0 = Inr m1" and
    m2: "(if tpc_events (pc_tracepoints (mc_perf c)) \<noteq> [] then logged (bring_up_tracepoints env (mn_cpus env) (mm_call Begin_record m1))
      else Inr (mm_call Begin_record m1)) = Inr m2" and
    m3: "must_part env ?bio Part_block_io m2 = Inr m3" and
    m4: "try_part env (bf_x86_adapt (mn_build env) \<and> xac_knobs (mc_x86_adapt c) \<noteq> []) Part_x86_adapt m3 = Inr m4" and
    m5: "try_part env (bf_x86_energy (mn_build env) \<and> mc_x86_energy c) Part_x86_energy m4 = Inr m5" and
    m6: "try_part env ?se Part_sensors m5 = Inr m6" and
    m7: "try_part env True Part_socket m6 = Inr m"
    by (auto simp: main_monitor_new_def ev_bind_Inr_iff Let_def m0_def split: option.splits if_splits)
  obtain tps where t: "runs_also tps (mm_call Begin_record m1) m2" "\<forall>p \<in> set tps. is_tracepoints p"
    "\<forall>p \<in> set (mm_parts m2). p \<in> set (mm_parts m1) \<or> is_tracepoints p"
  proof (cases "tpc_events (pc_tracepoints (mc_perf c)) \<noteq> []")
    case True
    then obtain e where "bring_up_tracepoints env (mn_cpus env) (mm_call Begin_record m1) = (e, m2)"
      using m2 by (cases "bring_up_tracepoints env (mn_cpus env) (mm_call Begin_record m1)") (auto simp: logged_def split: if_splits)
    from bring_up_tracepoints_runs[OF this] that show ?thesis by (auto simp: mm_call_def)
  next
    case False
    with m2 that[of "[]"] show ?thesis by (auto simp: runs_also_refl mm_call_def)
  qed
  note r1 = must_part_runs[OF m1] and r3 = must_part_runs[OF m3]
  obtain xa where r4: "runs_also xa m3 m4" "xa = [] \<or> xa = [Part_x86_adapt]" "set (mm_parts m4) \<subseteq> insert Part_x86_adapt (set (mm_parts m3))"
    using try_part_runs[OF m4] by blast
  obtain xe where r5: "runs_also xe m4 m5" "xe = [] \<or> xe = [Part_x86_energy]" "set (mm_parts m5) \<subseteq> insert Part_x86_energy (set (mm_parts m4))"
    using try_part_runs[OF m5] by blast
  obtain se where r6: "runs_also se m5 m6" "se = [] \<or> ?se \<and> se = [Part_sensors]"
    "?se \<longrightarrow> Part_sensors \<in> set (mm_parts m6) \<or> mn_construct env Part_sensors \<noteq> None \<and> mm_parts m6 = mm_parts m5"
    using try_part_runs[OF m6] by blast
  obtain so where r7: "runs_also so m6 m" "so = [] \<or> so = [Part_socket]" "set (mm_parts m) \<subseteq> insert Part_socket (set (mm_parts m6))"
    using try_part_runs[OF m7] by blast
  have "set (mm_parts m5) \<subseteq> {Part_x86_energy, Part_x86_adapt, Part_block_io} \<union> set (mm_parts m2)"
    using r3 r4(3) r5(3) by blast
  moreover have "Part_sensors \<notin> set (mm_parts m2)"
    using r1 t(3) by (auto simp: m0_def is_tracepoints_def)
  ultimately have no_sensors: "Part_sensors \<notin> set (mm_parts m5)" by blast
  have sensors: "?se \<longrightarrow> (Part_sensors \<in> set (mm_parts m) \<longleftrightarrow> mn_construct env Part_sensors = None)"
  proof
    assume se: ?se
    have "Part_sensors \<in> set (mm_parts m6) \<longleftrightarrow> mn_construct env Part_sensors = None"
    proof (cases "mn_construct env Part_sensors")
      case None
      with r6(3) se show ?thesis by auto
    next
      case (Some e)
      with m6 se have "mm_parts m6 = mm_parts m5" by (auto simp: try_part_def logged_def bring_up_def split: if_splits)
      with Some no_sensors show ?thesis by simp
    qed
    moreover have "Part_sensors \<in> set (mm_parts m) \<longleftrightarrow> Part_sensors \<in> set (mm_parts m6)"
      using r7(1,3) by (auto simp: runs_also_def)
    ultimately show "Part_sensors \<in> set (mm_parts m) \<longleftrightarrow> mn_construct env Part_sensors = None" by simp
  qed
  have "runs_also [Part_metrics] m0 m1" "runs_also (if ?bio then [Part_block_io] else []) m2 m3" using r1 r3 by simp_all
  note r = this
  have "runs_also (((((([Part_metrics] @ []) @ tps) @ (if ?bio then [Part_block_io] else [])) @ xa) @ xe) @ se @ so) m0 m"
    by (rule runs_also_trans[OF runs_also_trans[OF runs_also_trans[OF runs_also_trans[OF runs_also_trans[OF runs_also_trans[OF
      r(1) runs_also_call] t(1)] r(2)] r4(1)] r5(1)] runs_also_trans[OF r6(1) r7(1)]]) simp
  then have "mm_running m = [Part_metrics] @ tps @ (if ?bio then [Part_block_io] else []) @ xa @ xe @ se @ so"
    "starts (mm_calls m) = mm_running m" "stops (mm_calls m) = []"
    by (simp_all add: runs_also_def m0_def)
  moreover from r6(2) have "se = [] \<or> se = [Part_sensors]" "se \<noteq> [] \<longrightarrow> ?se" by auto
  ultimately show ?thesis
    using t(2) r4(2) r5(2) r7(2) sensors by (intro exI conjI) (assumption | rule refl)+
qed

text \<open>
  C17. A main monitor that was built is destroyed without an error, and then every part that was started has been
  stopped exactly once, unless the recorder of the sensors was configured and could not be built: its pointer
  is used although it is null.
\<close>
theorem main_monitor_stops_all:
  assumes "main_monitor_new env c = Inr m"
  shows "case main_monitor_destroy env c m of
      Inl e \<Rightarrow> e = Cpp Memory_fault \<and> bf_sensors (mn_build env) \<and> snc_enabled (mc_sensors c) \<and> mn_construct env Part_sensors \<noteq> None
    | Inr m' \<Rightarrow> \<not> (bf_sensors (mn_build env) \<and> snc_enabled (mc_sensors c) \<and> mn_construct env Part_sensors \<noteq> None) \<and>
        starts (mm_calls m') = starts (mm_calls m) \<and> mset (stops (mm_calls m')) = mset (starts (mm_calls m')) \<and>
        last (mm_calls m') = Finalize_trace"
proof -
  obtain tps bio xa xe se so where
    R: "mm_running m = [Part_metrics] @ tps @ bio @ xa @ xe @ se @ so" "starts (mm_calls m) = mm_running m" "stops (mm_calls m) = []"
    and tps: "\<forall>p \<in> set tps. is_tracepoints p"
    and bio: "bio = (if bioc_enabled (pc_block_io (mc_perf c)) then [Part_block_io] else [])"
    and o: "xa = [] \<or> xa = [Part_x86_adapt]" "xe = [] \<or> xe = [Part_x86_energy]" "se = [] \<or> se = [Part_sensors]"
      "so = [] \<or> so = [Part_socket]"
    and sen: "bf_sensors (mn_build env) \<and> snc_enabled (mc_sensors c) \<longrightarrow>
      (Part_sensors \<in> set (mm_parts m) \<longleftrightarrow> mn_construct env Part_sensors = None)"
      "se \<noteq> [] \<longrightarrow> bf_sensors (mn_build env) \<and> snc_enabled (mc_sensors c)"
    using main_monitor_new_running[OF assms] by (elim exE conjE) (rule that)
  have nt: "Part_block_io \<notin> set tps" "Part_x86_adapt \<notin> set tps" "Part_x86_energy \<notin> set tps" "Part_sensors \<notin> set tps"
    "Part_socket \<notin> set tps" using tps by (auto simp: is_tracepoints_def)
  have one: "(if Part_block_io \<in> set (mm_running m) then [Part_block_io] else []) = bio"
    "(if Part_x86_adapt \<in> set (mm_running m) then [Part_x86_adapt] else []) = xa"
    "(if Part_x86_energy \<in> set (mm_running m) then [Part_x86_energy] else []) = xe"
    "(if Part_sensors \<in> set (mm_running m) then [Part_sensors] else []) = se"
    "(if Part_socket \<in> set (mm_running m) then [Part_socket] else []) = so"
    using nt o bio by (auto simp: R(1))
  have tp: "filter is_tracepoints (mm_running m) = tps"
    using tps o bio by (auto simp: R(1) is_tracepoints_def filter_id_conv)
  let ?fault = "bf_sensors (mn_build env) \<and> snc_enabled (mc_sensors c) \<and> mn_construct env Part_sensors \<noteq> None"
  show ?thesis
  proof (cases ?fault)
    case True
    with sen(1) show ?thesis by (simp add: main_monitor_destroy_def)
  next
    case False
    define m' where "m' = mm_call Finalize_trace (mm_call (Stop_part Part_metrics) (mm_call End_record (stop_tracepoints
      ((if bioc_enabled (pc_block_io (mc_perf c)) then stop_part Part_block_io else id)
        (stop_part Part_x86_adapt (stop_part Part_x86_energy (stop_part Part_socket
          ((if bf_sensors (mn_build env) \<and> snc_enabled (mc_sensors c) then stop_part Part_sensors else id) m))))))))"
    have d: "main_monitor_destroy env c m = Inr m'"
      using False sen(1) by (auto simp: main_monitor_destroy_def m'_def Let_def)
    have stop: "stops (mm_calls (stop_part p x)) = stops (mm_calls x) @ (if p \<in> set (mm_running x) then [p] else [])"
      "starts (mm_calls (stop_part p x)) = starts (mm_calls x)" "mm_running (stop_part p x) = mm_running x" for p x
      by (simp_all add: stop_part_calls)
    have cond: "stops (mm_calls ((if b then stop_part p else id) x)) = stops (mm_calls x) @ (if b then if p \<in> set (mm_running x) then [p] else [] else [])"
      "starts (mm_calls ((if b then stop_part p else id) x)) = starts (mm_calls x)"
      "mm_running ((if b then stop_part p else id) x) = mm_running x" for b p x
      by (simp_all add: stop)
    have two: "(if bf_sensors (mn_build env) \<and> snc_enabled (mc_sensors c) then se else []) = se"
      "(if bioc_enabled (pc_block_io (mc_perf c)) then bio else []) = bio"
      using sen(2) bio by auto
    have "stops (mm_calls m') = se @ so @ xe @ xa @ bio @ tps @ [Part_metrics]"
      by (simp only: m'_def mm_call_simps stop_tracepoints_simps stop cond one two tp R(3) starts_stops_append
          stops_map_Stop starts_stops_simps main_call.case append.simps append_assoc)
    moreover have "starts (mm_calls m') = starts (mm_calls m)"
      by (simp only: m'_def mm_call_simps stop_tracepoints_simps stop cond starts_stops_append
          stops_map_Stop starts_stops_simps main_call.case append.simps append_Nil2)
    moreover have "last (mm_calls m') = Finalize_trace" by (simp add: m'_def mm_call_def)
    ultimately show ?thesis using False d R by simp
  qed
qed

section \<open>An example\<close>

text \<open>A system of two CPUs where only the socket can not be bound.\<close>

definition example_main_env :: main_env where
  "example_main_env = \<lparr>mn_build = oe_build example_options_env, mn_cpus = [Cpu 0, Cpu 1], mn_converter = None,
    mn_construct = (\<lambda>p. if p = Part_socket then Some (Cpp (System_error 98)) else None), mn_start = (\<lambda>_. None)\<rparr>"

lemma example_bring_up:
  "fst (bring_up example_main_env p m) = (if p = Part_socket then Some (Cpp (System_error 98)) else None)"
  by (simp add: bring_up_def example_main_env_def Let_def)

lemma example_bring_up_tracepoints: "fst (bring_up_tracepoints example_main_env cpus m) = None"
proof (induction cpus arbitrary: m)
  case (Cons cpu cpus)
  obtain m' where "bring_up example_main_env (Part_tracepoints cpu) m = (None, m')"
    using example_bring_up[of "Part_tracepoints cpu" m] by (cases "bring_up example_main_env (Part_tracepoints cpu) m") auto
  then show ?case using Cons by simp
qed simp

lemma example_main_monitor_new: "\<exists>m. main_monitor_new example_main_env c = Inr m"
proof -
  have "\<exists>m'. must_part example_main_env b p m = Inr m'" if "p \<noteq> Part_socket" for b p m
    using example_bring_up[of p m] that by (cases "bring_up example_main_env p m") (auto simp: must_part_def)
  moreover have "\<exists>m'. try_part example_main_env b p m = Inr m'" for b p m
    using example_bring_up[of p m] by (auto simp: try_part_def logged_def)
  moreover have "\<exists>m'. logged (bring_up_tracepoints example_main_env cpus m) = Inr m'" for cpus m
    by (simp add: logged_def example_bring_up_tracepoints)
  moreover have "mn_converter example_main_env = None" by (simp add: example_main_env_def)
  ultimately show ?thesis
    unfolding main_monitor_new_def Let_def ev_bind_Inr_iff
    by (simp add: ev_bind_Inr_iff split: if_splits) (metis part.distinct)
qed

theorem main_monitor_stops_all_witness:
  "\<exists>c m m'. main_monitor_new example_main_env c = Inr m \<and> main_monitor_destroy example_main_env c m = Inr m' \<and>
    mset (stops (mm_calls m')) = mset (starts (mm_calls m'))"
proof -
  obtain c clock environ' where
    "parse_program_options example_options_env Map.empty (Some example_command_line) = Inr (c, clock, environ')"
    using example_options_ok parse_program_options_ok by blast
  obtain m where m: "main_monitor_new example_main_env c = Inr m" using example_main_monitor_new by blast
  have "\<not> bf_sensors (mn_build example_main_env)" by (simp add: example_main_env_def example_options_env_def)
  with main_monitor_stops_all[OF m] m show ?thesis
    by (cases "main_monitor_destroy example_main_env c m") auto
qed

end
