(* ===== verification/Program_Start.thy ===== *)
theory Program_Start
  imports Options
begin

text \<open>
  The start of the program under test (\<^verbatim>\<open>src/monitor/process_monitor_main.cpp\<close>, \<^verbatim>\<open>src/main.cpp\<close>, the limits of file
  descriptors in \<^verbatim>\<open>src/util.cpp\<close>): the fork, the environment and the user of the command, and the choice of the
  process to follow. The answers of the system calls are arguments.
\<close>

section \<open>The limit of file descriptors\<close>

text \<open>The limit of the process and the static variable that keeps the first one read; \<open>ok\<close> tells whether \<^verbatim>\<open>getrlimit\<close> succeeds.\<close>

record rlimit_fd =
  rl_cur :: nat
  rl_max :: nat

definition no_rlimit :: rlimit_fd where
  "no_rlimit = \<lparr>rl_cur = 0, rl_max = 0\<rparr>"

definition initial_rlimit_fd :: "bool \<Rightarrow> rlimit_fd \<Rightarrow> rlimit_fd \<Rightarrow> rlimit_fd" where
  "initial_rlimit_fd ok now current = (if rl_cur current = 0 \<and> ok then now else current)"

definition bump_rlimit_fd :: "bool \<Rightarrow> rlimit_fd \<Rightarrow> rlimit_fd" where
  "bump_rlimit_fd ok now = (if ok then now\<lparr>rl_cur := rl_max now\<rparr> else now)"

text \<open>\<open>run_command\<close> goes back to the first limit unless that was not read.\<close>

definition restore_rlimit_fd :: "bool \<Rightarrow> rlimit_fd \<Rightarrow> rlimit_fd \<Rightarrow> rlimit_fd" where
  "restore_rlimit_fd ok now current =
    (let first = initial_rlimit_fd ok now current in if rl_cur first = 0 then now else first)"

text \<open>The limit of the command when lo2s was started with a given one.\<close>

definition command_rlimit_fd :: "bool \<Rightarrow> rlimit_fd \<Rightarrow> rlimit_fd" where
  "command_rlimit_fd ok start = restore_rlimit_fd ok (bump_rlimit_fd ok start) (initial_rlimit_fd ok start no_rlimit)"

text \<open>The command runs with the limit lo2s was started with, unless that is zero: then it gets the highest.\<close>

lemma command_rlimit_restored:
  "command_rlimit_fd ok start = (if ok \<and> rl_cur start = 0 then start\<lparr>rl_cur := rl_max start\<rparr> else start)"
  by (auto simp: command_rlimit_fd_def restore_rlimit_fd_def initial_rlimit_fd_def bump_rlimit_fd_def no_rlimit_def Let_def)

section \<open>The user of the command\<close>

record credentials =
  cr_uid :: u32
  cr_gid :: u32
  cr_groups :: "u32 list"

text \<open>
  The data base of users with the error when a name has no entry, and the errors of the system calls that change
  the credentials; a call that does not fail does what it is asked for.
\<close>

record user_env =
  ue_getpwnam :: "string \<Rightarrow> (u32 \<times> u32) option"
  ue_pw_errno :: int
  ue_setgroups :: "credentials \<Rightarrow> u32 \<Rightarrow> int option"
  ue_setgid :: "credentials \<Rightarrow> u32 \<Rightarrow> int option"
  ue_setuid :: "credentials \<Rightarrow> u32 \<Rightarrow> int option"

definition sys_call :: "int option \<Rightarrow> 'a \<Rightarrow> 'a result" where
  "sys_call err x = (case err of None \<Rightarrow> Inr x | Some e \<Rightarrow> Inl (System_error e))"

lemma sys_call_Inr_iff [simp]: "sys_call err x = Inr y \<longleftrightarrow> err = None \<and> x = y"
  by (cases err) (auto simp: sys_call_def)

text \<open>The user and group to change to: looked up by name when no name is configured, from sudo when one is.\<close>

definition original_ids :: "user_env \<Rightarrow> string \<Rightarrow> environ \<Rightarrow> (u32 \<times> u32) result" where
  "original_ids ue user environ =
    (if user = [] then
       case ue_getpwnam ue user of None \<Rightarrow> Inl (System_error (ue_pw_errno ue)) | Some ids \<Rightarrow> Inr ids
     else
       sum_bind (cpp_assert (environ ''SUDO_UID'' \<noteq> None)) (\<lambda>_.
       case (environ ''SUDO_UID'', environ ''SUDO_GID'') of
         (Some u, Some g) \<Rightarrow> sum_bind (stoi u) (\<lambda>uid. sum_bind (stoi g) (\<lambda>gid. Inr (word_of_int uid, word_of_int gid)))
       | _ \<Rightarrow> Inl (Runtime_error ''No value for SUDO_UID/GID given'')))"

definition drop_privileges :: "user_env \<Rightarrow> string \<Rightarrow> environ \<Rightarrow> credentials \<Rightarrow> credentials result" where
  "drop_privileges ue user environ cr =
    sum_bind (original_ids ue user environ) (\<lambda>(uid, gid).
    sum_bind (if cr_uid cr = 0 \<or> cr_gid cr = 0 then sys_call (ue_setgroups ue cr gid) (cr\<lparr>cr_groups := [gid]\<rparr>) else Inr cr) (\<lambda>cr.
    sum_bind (sys_call (ue_setgid ue cr gid) (cr\<lparr>cr_gid := gid\<rparr>)) (\<lambda>cr.
    sum_bind (sys_call (ue_setuid ue cr uid) (cr\<lparr>cr_uid := uid\<rparr>)) (\<lambda>cr.
    sum_bind (cpp_assert (cr_uid cr \<noteq> 0)) (\<lambda>_.
    sum_bind (cpp_assert (cr_gid cr \<noteq> 0)) (\<lambda>_. Inr cr))))))"

section \<open>The command\<close>

fun set_env :: "(string \<times> string) list \<Rightarrow> environ \<Rightarrow> environ" where
  "set_env [] environ = environ"
| "set_env ((name, val) # vars) environ = set_env vars (environ(name \<mapsto> val))"

definition env_emplace :: "bool \<Rightarrow> string \<Rightarrow> string \<Rightarrow> (string, string) std_map \<Rightarrow> (string, string) std_map" where
  "env_emplace enabled name val vars = (if enabled then fst (std_emplace string_less name val vars) else vars)"

definition injection_library :: string where
  "injection_library = ''liblo2s_injection.so''"

definition command_env :: "build_features \<Rightarrow> main_config \<Rightarrow> environ \<Rightarrow> (string, string) std_map" where
  "command_env bf c environ =
    (let lib = rbc_injectionlib_path (mc_rb c); accel = mc_accel c;
         vars = env_emplace (put_use_python (mc_put c)) ''PYTHONPERFSUPPORT'' ''1'' [];
         vars = env_emplace True ''LO2S_SOCKET'' (rbc_socket_path (mc_rb c)) vars;
         vars = env_emplace True ''LD_LIBRARY_PATH''
           (case environ ''LD_LIBRARY_PATH'' of None \<Rightarrow> lib | Some ld \<Rightarrow> ld @ '':'' @ lib) vars;
         vars = env_emplace (bf_cuda bf \<and> acc_nvidia accel) ''CUDA_INJECTION64_PATH'' injection_library vars;
         vars = env_emplace (bf_openmp bf \<and> acc_openmp accel) ''OMP_TOOL'' ''enabled'' vars;
         vars = env_emplace (bf_openmp bf \<and> acc_openmp accel) ''OMP_TOOL_LIBRARIES'' injection_library vars
     in env_emplace (bf_hip bf \<and> acc_hip accel) ''LD_PRELOAD'' injection_library vars)"

text \<open>What the child does before the command runs, and what \<^verbatim>\<open>execvp\<close> answers; \<open>None\<close> means that the command runs.\<close>

record command_state =
  cs_args :: "string list"
  cs_environ :: environ
  cs_credentials :: credentials

record command_system =
  sys_users :: user_env
  sys_raise_ok :: bool
  sys_execvp :: "command_state \<Rightarrow> int option"

definition run_command ::
    "command_system \<Rightarrow> build_features \<Rightarrow> main_config \<Rightarrow> environ \<Rightarrow> credentials \<Rightarrow> command_state result" where
  "run_command sys bf c environ cr =
    (let environ' = set_env (command_env bf c environ) environ; user = put_as_user (mc_put c) in
     if \<not> sys_raise_ok sys then Inl (Runtime_error ''Could not raise SISTOP in child!'')
     else sum_bind (if au_drop_root user then drop_privileges (sys_users sys) (au_user user) environ' cr else Inr cr) (\<lambda>cr.
       let s = \<lparr>cs_args = put_command (mc_put c), cs_environ = environ', cs_credentials = cr\<rparr> in
       sys_call (sys_execvp sys s) s))"

section \<open>The process to follow\<close>

datatype main_role =
    Run_child
  | Control Process string bool

text \<open>The result of \<^verbatim>\<open>fork\<close> with its error, the error of the attempt to attach, and the name of a process.\<close>

record fork_env =
  fe_fork :: int
  fe_fork_errno :: int
  fe_attach :: "Process \<Rightarrow> int option"
  fe_comm :: "Process \<Rightarrow> string"

definition process_monitor_main :: "fork_env \<Rightarrow> main_config \<Rightarrow> main_role result" where
  "process_monitor_main fe c =
    (let process = gc_process (mc_general c); spawn = (process = Process_invalid) in
     sum_bind (cpp_assert (process_as_int process \<noteq> 0)) (\<lambda>_.
     sum_bind (if spawn then Inr (Process (fe_fork fe)) else sys_call (fe_attach fe process) process) (\<lambda>process.
       if process = Process_invalid then Inl (System_error (fe_fork_errno fe))
       else if process_as_int process = 0 then sum_bind (cpp_assert spawn) (\<lambda>_. Inr Run_child)
       else if spawn then
         case put_command (mc_put c) of [] \<Rightarrow> Inl Out_of_range | name # _ \<Rightarrow> Inr (Control process name spawn)
       else Inr (Control process (fe_comm fe process) spawn))))"

section \<open>Properties\<close>

text \<open>The variables of lo2s reach the command; all others keep their value.\<close>

lemma set_env_lookup:
  "distinct (map fst vars) \<Longrightarrow> set_env vars environ name = (case map_of vars name of None \<Rightarrow> environ name | Some v \<Rightarrow> Some v)"
proof (induction vars arbitrary: environ)
  case (Cons v vars)
  then show ?case by (cases v) (auto simp: map_of_eq_None_iff[THEN iffD2] image_iff split: option.splits dest: map_of_SomeD)
qed simp

lemma set_env_other: "name \<notin> fst ` set vars \<Longrightarrow> set_env vars environ name = environ name"
  by (induction vars arbitrary: environ) force+

lemma env_emplace_names: "fst ` set (env_emplace b name val vars) \<subseteq> insert name (fst ` set vars)"
proof -
  have "fst ` set (fst (std_emplace lt name val vars)) \<subseteq> insert name (fst ` set vars)" for lt
    by (induction vars) (auto simp: std_emplace_def Let_def split: if_splits)
  then show ?thesis by (simp add: env_emplace_def subset_insertI)
qed

definition command_variables :: "string set" where
  "command_variables = {''PYTHONPERFSUPPORT'', ''LO2S_SOCKET'', ''LD_LIBRARY_PATH'', ''CUDA_INJECTION64_PATH'', ''OMP_TOOL'',
     ''OMP_TOOL_LIBRARIES'', ''LD_PRELOAD''}"

lemma command_env_names: "fst ` set (command_env bf c environ) \<subseteq> command_variables"
  unfolding command_env_def Let_def command_variables_def
  by (rule subset_trans[OF env_emplace_names] | rule insert_subset[THEN iffD2] | rule conjI | simp)+

lemma command_env_keeps: "name \<notin> command_variables \<Longrightarrow> set_env (command_env bf c environ) environ name = environ name"
  using command_env_names[of bf c environ] by (intro set_env_other) blast

lemma drop_privileges_ids:
  "drop_privileges ue user environ cr = Inr cr' \<Longrightarrow>
    \<exists>uid gid. original_ids ue user environ = Inr (uid, gid) \<and> cr_uid cr' = uid \<and> cr_gid cr' = gid \<and> uid \<noteq> 0 \<and> gid \<noteq> 0"
  by (auto simp: drop_privileges_def sum_bind_Inr_iff cpp_assert_def split: if_splits)

text \<open>
  C38. A user name given to lo2s is never used: with \<^verbatim>\<open>--as-user\<close> the command runs as the user that called sudo,
  whatever the data base of users says about the name, and with \<^verbatim>\<open>--drop-root\<close> alone it only runs when the data
  base has a user with the empty name.
\<close>
theorem as_user_name_ignored:
  assumes "run_command sys bf c environ cr = Inr s" "au_drop_root (put_as_user (mc_put c))"
  shows "cr_uid (cs_credentials s) \<noteq> 0 \<and> cr_gid (cs_credentials s) \<noteq> 0 \<and>
    (if au_user (put_as_user (mc_put c)) = []
     then ue_getpwnam (sys_users sys) [] = Some (cr_uid (cs_credentials s), cr_gid (cs_credentials s))
     else \<exists>u uid g gid. environ ''SUDO_UID'' = Some u \<and> stoi u = Inr uid \<and> cr_uid (cs_credentials s) = word_of_int uid \<and>
       environ ''SUDO_GID'' = Some g \<and> stoi g = Inr gid \<and> cr_gid (cs_credentials s) = word_of_int gid)"
proof -
  let ?env = "set_env (command_env bf c environ) environ"
  have keep: "?env ''SUDO_UID'' = environ ''SUDO_UID''" "?env ''SUDO_GID'' = environ ''SUDO_GID''"
    by (rule command_env_keeps; simp add: command_variables_def)+
  obtain cr' where cr': "drop_privileges (sys_users sys) (au_user (put_as_user (mc_put c))) ?env cr = Inr cr'"
      "cs_credentials s = cr'"
    using assms by (auto simp: run_command_def sum_bind_Inr_iff Let_def split: if_splits)
  from drop_privileges_ids[OF cr'(1)] obtain uid gid where ids:
    "original_ids (sys_users sys) (au_user (put_as_user (mc_put c))) ?env = Inr (uid, gid)"
    "cr_uid cr' = uid" "cr_gid cr' = gid" "uid \<noteq> 0" "gid \<noteq> 0" by blast
  show ?thesis
  proof (cases "au_user (put_as_user (mc_put c)) = []")
    case True
    with ids cr'(2) show ?thesis by (auto simp: original_ids_def split: option.splits)
  next
    case False
    with ids cr'(2) keep show ?thesis
      by (auto simp: original_ids_def sum_bind_Inr_iff cpp_assert_def split: option.splits if_splits)
  qed
qed

text \<open>
  C39. For a configuration that was accepted for a single process, the choice of the process never reads a command
  that is not there, and its assertions fail exactly for \<^verbatim>\<open>-p 0\<close>, which is accepted.
\<close>
theorem accepted_process_start:
  assumes "parse_program_options env environ (Some cl) = Inr (c, clock, environ')" "gc_monitor_type (mc_general c) = PROCESS"
  shows "process_monitor_main fe c \<noteq> Inl Out_of_range \<and>
    (process_monitor_main fe c = Inl Assertion \<longleftrightarrow> arg_provided (cl_args cl) ''pid'' \<and> cl_pid cl ''pid'' = 0)"
proof -
  have m: "main_config_new env environ cl = Inr (c, clock, environ')" by (rule parse_program_options_parts[OF assms(1)])
  have "main_config_check env environ' c = Inr ()"
    using assms(1) m by (auto simp: parse_program_options_def ex_bind_Inr_iff split: if_splits)
  then have cmd: "gc_process (mc_general c) = Process_invalid \<Longrightarrow> put_command (mc_put c) \<noteq> []"
    using assms(2) by (auto simp: main_config_check_def Let_def split: if_splits)
  have z: "process_as_int (gc_process (mc_general c)) = 0 \<longleftrightarrow> arg_provided (cl_args cl) ''pid'' \<and> cl_pid cl ''pid'' = 0"
    by (simp add: main_config_parts(1)[OF m] general_config_new_def Process_invalid_def Let_def)
  have e: "sys_call err x \<noteq> Inl Out_of_range" "sys_call err x \<noteq> Inl Assertion" for err and x :: Process
    by (auto simp: sys_call_def split: option.splits)
  show ?thesis
  proof (cases "process_as_int (gc_process (mc_general c)) = 0")
    case True
    then show ?thesis using z by (simp add: process_monitor_main_def)
  next
    case False
    then have nz: "process_as_int (gc_process (mc_general c)) \<noteq> 0" "\<not> (arg_provided (cl_args cl) ''pid'' \<and> cl_pid cl ''pid'' = 0)"
      using z by simp_all
    show ?thesis
    proof (cases "gc_process (mc_general c) = Process_invalid")
      case True
      with cmd obtain name args where "put_command (mc_put c) = name # args" by (cases "put_command (mc_put c)") auto
      with True nz show ?thesis by (simp add: process_monitor_main_def Process_invalid_def Let_def)
    next
      case False
      show ?thesis
      proof (cases "fe_attach fe (gc_process (mc_general c))")
        case None
        with nz False show ?thesis by (auto simp: process_monitor_main_def sys_call_def Let_def)
      next
        case (Some err)
        with nz False show ?thesis by (auto simp: process_monitor_main_def sys_call_def Let_def)
      qed
    qed
  qed
qed

section \<open>Examples\<close>

text \<open>\<^verbatim>\<open>sudo lo2s --as-user nobody -- a.out\<close>, called by the user with the number 1000.\<close>

definition example_as_user :: command_line where
  "example_as_user = example_command_line\<lparr>cl_args := (cl_args example_command_line)
    \<lparr>arg_provided := (\<lambda>name. name = ''as-user''),
     arg_get := (\<lambda>name. if name = ''as-user'' then ''nobody'' else arg_get (cl_args example_command_line) name)\<rparr>\<rparr>"

definition sudo_environ :: environ where
  "sudo_environ = [''SUDO_UID'' \<mapsto> ''1000'', ''SUDO_GID'' \<mapsto> ''100'']"

definition example_users :: user_env where
  "example_users = \<lparr>ue_getpwnam = (\<lambda>name. if name = ''nobody'' then Some (65534, 65534) else None), ue_pw_errno = 2,
    ue_setgroups = (\<lambda>_ _. None), ue_setgid = (\<lambda>_ _. None), ue_setuid = (\<lambda>_ _. None)\<rparr>"

definition example_system :: command_system where
  "example_system = \<lparr>sys_users = example_users, sys_raise_ok = True, sys_execvp = (\<lambda>_. None)\<rparr>"

definition root_credentials :: credentials where
  "root_credentials = \<lparr>cr_uid = 0, cr_gid = 0, cr_groups = [0]\<rparr>"

lemma example_as_user_accepted:
  "\<exists>c clock environ'. parse_program_options example_options_env sudo_environ (Some example_as_user) = Inr (c, clock, environ')"
  by (simp add: parse_program_options_ok options_ok_def only_prints_def events_ok_def syscalls_known_def rights_ok_def
      system_mode_def example_as_user_def example_command_line_def example_options_env_def clocks_def)


lemma stoi_sudo: "stoi ''1000'' = Inr 1000" "stoi ''100'' = Inr 100"
  by (simp_all add: stoi_def is_space_def is_digit_def digits_value_def digit_value_def Let_def)

theorem as_user_name_ignored_witness:
  "\<exists>c s. run_command example_system (oe_build example_options_env) c sudo_environ root_credentials = Inr s \<and>
    au_user (put_as_user (mc_put c)) = ''nobody'' \<and> cr_uid (cs_credentials s) = 1000 \<and> cr_gid (cs_credentials s) = 100"
proof -
  obtain c clock environ' where
    "parse_program_options example_options_env sudo_environ (Some example_as_user) = Inr (c, clock, environ')"
    using example_as_user_accepted by blast
  from main_config_parts(2)[OF parse_program_options_parts[OF this]]
  have u: "put_as_user (mc_put c) = \<lparr>au_drop_root = True, au_user = ''nobody''\<rparr>"
    by (simp add: put_config_new_def as_user_config_new_def example_as_user_def)
  have env: "set_env (command_env (oe_build example_options_env) c sudo_environ) sudo_environ ''SUDO_UID'' = Some ''1000''"
    "set_env (command_env (oe_build example_options_env) c sudo_environ) sudo_environ ''SUDO_GID'' = Some ''100''"
    by (simp_all add: command_env_keeps command_variables_def sudo_environ_def)
  have "\<exists>s. run_command example_system (oe_build example_options_env) c sudo_environ root_credentials = Inr s"
    by (simp add: run_command_def u drop_privileges_def original_ids_def env stoi_sudo example_system_def
        example_users_def root_credentials_def sys_call_def Let_def)
  then obtain s where s: "run_command example_system (oe_build example_options_env) c sudo_environ root_credentials = Inr s" ..
  from as_user_name_ignored[OF s] u have "cr_uid (cs_credentials s) = 1000 \<and> cr_gid (cs_credentials s) = 100"
    by (auto simp: sudo_environ_def stoi_sudo)
  with s u have "run_command example_system (oe_build example_options_env) c sudo_environ root_credentials = Inr s \<and>
    au_user (put_as_user (mc_put c)) = ''nobody'' \<and> cr_uid (cs_credentials s) = 1000 \<and> cr_gid (cs_credentials s) = 100" by simp
  then show ?thesis by (intro exI)
qed

text \<open>A system in which the process can be traced.\<close>

definition example_fork_env :: fork_env where
  "example_fork_env = \<lparr>fe_fork = 4711, fe_fork_errno = 0, fe_attach = (\<lambda>_. None), fe_comm = (\<lambda>_. ''a.out'')\<rparr>"

definition attach_to_zero :: command_line where
  "attach_to_zero = example_command_line\<lparr>cl_args := (cl_args example_command_line)\<lparr>arg_provided := (\<lambda>name. name = ''pid'')\<rparr>\<rparr>"

theorem accepted_process_start_witness:
  "\<exists>c clock environ'. parse_program_options example_options_env Map.empty (Some attach_to_zero) = Inr (c, clock, environ') \<and>
    process_monitor_main example_fork_env c = Inl Assertion"
proof -
  have "options_ok example_options_env Map.empty attach_to_zero"
    by (simp add: options_ok_def only_prints_def events_ok_def syscalls_known_def rights_ok_def
        system_mode_def attach_to_zero_def example_command_line_def example_options_env_def clocks_def)
  then obtain c clock environ' where
    c: "parse_program_options example_options_env Map.empty (Some attach_to_zero) = Inr (c, clock, environ')"
    using parse_program_options_ok by blast
  have "gc_monitor_type (mc_general c) = PROCESS"
    by (simp add: main_config_parts(1)[OF parse_program_options_parts[OF c]] general_config_new_def attach_to_zero_def
        example_command_line_def Let_def)
  from accepted_process_start[OF c this, of example_fork_env] c show ?thesis
    by (auto simp: attach_to_zero_def example_command_line_def)
qed

end
