(* ===== verification/Cpu_Set_Monitor.thy ===== *)
theory Cpu_Set_Monitor
  imports Program_Start Process_Monitor Proc_Util
begin

text \<open>
  The monitor of all CPUs (\<^verbatim>\<open>src/monitor/cpu_set_monitor.cpp\<close>): the preparation of resolvers and trace from the running
  processes, the monitor of every CPU, and the run until the measurement ends. Its parts in the main monitor are
  a theory of their own.
\<close>

section \<open>State\<close>

datatype cpu_call = Start_cpu Cpu | Stop_cpu Cpu

text \<open>
  The surroundings: the configuration, the CPUs, the eventfd of their monitors and whether a thread can be
  started for them, the map records their sample writers have kept in the end; the entries of \<^verbatim>\<open>/proc\<close> and the maps of
  the processes when the monitor is built.
\<close>

record 'r cpu_env =
  ce_registry :: "'r registry"
  ce_trace :: trace_env
  ce_composer :: composer_env
  ce_scope :: scope_env
  ce_cpus :: "Cpu list"
  ce_eventfd :: "Cpu \<Rightarrow> int"
  ce_can_start :: "Cpu \<Rightarrow> bool"
  ce_mmaps :: "Cpu \<Rightarrow> mmap_record list"
  ce_proc :: "string list"
  ce_maps :: "Process \<Rightarrow> string list option"

text \<open>An entry of \<open>monitors_\<close> is the monitor and whether its thread is joinable.\<close>

record 'r cpu_set_monitor =
  cu_trace :: "'r trace"
  cu_composer :: composer
  cu_resolvers :: resolvers
  cu_monitors :: "(Cpu, scope_monitor poll_monitor \<times> bool) std_map"
  cu_calls :: "cpu_call list"

section \<open>The constructor\<close>

definition records_processes :: "scope_env \<Rightarrow> bool" where
  "records_processes env \<longleftrightarrow> se_sampling env \<or> se_process_recording env"

definition start_cpu :: "'r cpu_env \<Rightarrow> Cpu \<Rightarrow> 'r cpu_set_monitor \<Rightarrow> event_error option \<times> 'r cpu_set_monitor" where
  "start_cpu env cpu s =
    (let (err, c, tr) = scope_trace (ce_registry env) (ce_trace env) (ce_composer env) (ce_scope env) (scope_of_cpu cpu) False
           (cu_composer s, cu_trace s);
         s = s\<lparr>cu_trace := tr, cu_composer := c\<rparr> in
     case err of
       Some e \<Rightarrow> (Some e, s)
     | None \<Rightarrow>
       (case scope_monitor_new (ce_scope env) (ce_eventfd env cpu) (scope_of_cpu cpu) False of
          Inl e \<Rightarrow> (Some (Cpp e), s)
        | Inr m \<Rightarrow>
          let (monitors, inserted) = std_emplace cpu_less cpu (m, ce_can_start env cpu) (cu_monitors s) in
          if \<not> inserted then (Some (Cpp Assertion), s)
          else if \<not> ce_can_start env cpu then (Some (Cpp (System_error 11)), s\<lparr>cu_monitors := monitors\<rparr>)
          else (None, s\<lparr>cu_monitors := monitors, cu_calls := cu_calls s @ [Start_cpu cpu]\<rparr>)))"

fun start_cpus :: "'r cpu_env \<Rightarrow> Cpu list \<Rightarrow> 'r cpu_set_monitor \<Rightarrow> event_error option \<times> 'r cpu_set_monitor" where
  "start_cpus env [] s = (None, s)"
| "start_cpus env (cpu # cpus) s =
    (case start_cpu env cpu s of (None, s) \<Rightarrow> start_cpus env cpus s | (Some e, s) \<Rightarrow> (Some e, s))"

definition stop_cpu :: "Cpu \<times> scope_monitor poll_monitor \<times> bool \<Rightarrow> 'r cpu_set_monitor \<Rightarrow> 'r cpu_set_monitor" where
  "stop_cpu entry s = (case entry of (cpu, m, joinable) \<Rightarrow>
    if joinable
    then s\<lparr>cu_monitors := std_update cpu_less cpu (\<lambda>(m, _). (m, False)) (cu_monitors s), cu_calls := cu_calls s @ [Stop_cpu cpu]\<rparr>
    else s)"

text \<open>\<open>comms\<close> is the result of \<open>get_comms_for_running_threads\<close>.\<close>

definition enter_threads ::
    "'r cpu_env \<Rightarrow> (Process, (Thread, string) std_map) std_map \<Rightarrow> 'r trace \<Rightarrow> 'r trace event_result" where
  "enter_threads env comms tr =
    (if records_processes (ce_scope env) then cpp (emplace_threads (ce_registry env) (ce_trace env) comms tr) else Inr tr)"

text \<open>A failed assertion ends the program at once; all other exceptions stop the monitors there are and are thrown again.\<close>

definition cpu_set_new ::
    "'r cpu_env \<Rightarrow> Thread \<Rightarrow> (Process, (Thread, string) std_map) std_map \<Rightarrow> composer \<Rightarrow> resolvers \<Rightarrow> 'r trace
      \<Rightarrow> event_error option \<times> 'r cpu_set_monitor" where
  "cpu_set_new env tid comms c rs tr =
    (let tr = emplace_monitoring_thread (ce_registry env) tid ''CpuSetMonitor'' tr;
         s = \<lparr>cu_trace = tr, cu_composer = c, cu_resolvers = rs, cu_monitors = [], cu_calls = []\<rparr> in
     case (if se_sampling (ce_scope env) then prefill (te_resolver (ce_trace env)) (ce_maps env) (ce_proc env) rs else Inr rs) of
       Inl e \<Rightarrow> (Some (Cpp e), s)
     | Inr rs \<Rightarrow>
       (case enter_threads env comms tr of
          Inl e \<Rightarrow> (Some e, s\<lparr>cu_resolvers := rs\<rparr>)
        | Inr tr \<Rightarrow>
          (case start_cpus env (ce_cpus env) (s\<lparr>cu_resolvers := rs, cu_trace := tr\<rparr>) of
             (None, s) \<Rightarrow> (None, s)
           | (Some e, s) \<Rightarrow> (Some e, if e = Cpp Assertion then s else fold stop_cpu (cu_monitors s) s))))"

section \<open>The run\<close>

text \<open>
  The wait for the end: for an interrupt when there is nothing to follow, given the result of
  \<^verbatim>\<open>pthread_sigmask\<close> and the error of \<^verbatim>\<open>sigwait\<close>, otherwise until the program or process ends, which is an
  argument; a \<^verbatim>\<open>system_error\<close> without an error is its normal end.
\<close>

definition cpu_set_wait ::
    "main_config \<Rightarrow> int \<Rightarrow> int option \<Rightarrow> ('r trace \<Rightarrow> event_error option \<times> 'r trace) \<Rightarrow> 'r trace
      \<Rightarrow> event_error option \<times> 'r trace" where
  "cpu_set_wait c sigmask sigwait follow tr =
    (if put_command (mc_put c) = [] \<and> gc_process (mc_general c) = Process_invalid then
       if sigmask \<noteq> 0 then (Some (Cpp (Runtime_error ''Failed to set pthread_sigmask'')), tr)
       else (map_option (Cpp \<circ> System_error) sigwait, tr)
     else case follow tr of (err, tr) \<Rightarrow> (if err = Some (Cpp (System_error 0)) then None else err, tr))"

text \<open>An exception destroys the monitors; the destructor of one that runs asserts that it does not.\<close>

definition cpu_set_unwind :: "event_error \<Rightarrow> 'r cpu_set_monitor \<Rightarrow> event_error \<times> 'r cpu_set_monitor" where
  "cpu_set_unwind e s = (if \<exists>entry \<in> set (cu_monitors s). snd (snd entry) then Cpp Assertion else e, s)"

fun stop_cpus ::
    "'r cpu_env \<Rightarrow> (Cpu \<times> scope_monitor poll_monitor \<times> bool) list \<Rightarrow> 'r cpu_set_monitor
      \<Rightarrow> event_error option \<times> 'r cpu_set_monitor" where
  "stop_cpus env [] s = (None, s)"
| "stop_cpus env (entry # entries) s =
    (let s = stop_cpu entry s in
     case emplace_mmaps (te_resolver (ce_trace env))
         (if records_processes (ce_scope env) then ce_mmaps env (fst entry) else []) (cu_resolvers s) of
       Inl e \<Rightarrow> (Some (Cpp e), s)
     | Inr rs \<Rightarrow> stop_cpus env entries (s\<lparr>cu_resolvers := rs\<rparr>))"

text \<open>The run always ends with an exception, normally one without an error.\<close>

definition cpu_set_run ::
    "'r cpu_env \<Rightarrow> ('r trace \<Rightarrow> event_error option \<times> 'r trace) \<Rightarrow> (Process, (Thread, string) std_map) std_map
      \<Rightarrow> 'r cpu_set_monitor \<Rightarrow> event_error \<times> 'r cpu_set_monitor" where
  "cpu_set_run env wait comms s =
    (case wait (cu_trace s) of
       (Some e, tr) \<Rightarrow> cpu_set_unwind e (s\<lparr>cu_trace := tr\<rparr>)
     | (None, tr) \<Rightarrow>
       (case enter_threads env comms tr of
          Inl e \<Rightarrow> cpu_set_unwind e (s\<lparr>cu_trace := tr\<rparr>)
        | Inr tr \<Rightarrow>
          (case stop_cpus env (cu_monitors s) (s\<lparr>cu_trace := tr\<rparr>) of
             (Some e, s) \<Rightarrow> cpu_set_unwind e s
           | (None, s) \<Rightarrow> (Cpp (System_error 0), s))))"

section \<open>What the run comes to\<close>

definition cpu_starts :: "cpu_call list \<Rightarrow> Cpu list" where
  "cpu_starts cs = concat (map (\<lambda>c. case c of Start_cpu cpu \<Rightarrow> [cpu] | _ \<Rightarrow> []) cs)"

definition cpu_stops :: "cpu_call list \<Rightarrow> Cpu list" where
  "cpu_stops cs = concat (map (\<lambda>c. case c of Stop_cpu cpu \<Rightarrow> [cpu] | _ \<Rightarrow> []) cs)"

lemma cpu_calls_simps [simp]:
  "cpu_starts [] = []" "cpu_starts (c # cs) = (case c of Start_cpu cpu \<Rightarrow> [cpu] | _ \<Rightarrow> []) @ cpu_starts cs"
  "cpu_stops [] = []" "cpu_stops (c # cs) = (case c of Stop_cpu cpu \<Rightarrow> [cpu] | _ \<Rightarrow> []) @ cpu_stops cs"
  "cpu_starts (xs @ ys) = cpu_starts xs @ cpu_starts ys" "cpu_stops (xs @ ys) = cpu_stops xs @ cpu_stops ys"
  by (simp_all add: cpu_starts_def cpu_stops_def)

text \<open>Every monitor runs, and the started CPUs are those with a monitor.\<close>

definition all_running :: "'r cpu_set_monitor \<Rightarrow> bool" where
  "all_running s \<longleftrightarrow> cpu_key.sorted_keys (cu_monitors s) \<and> (\<forall>entry \<in> set (cu_monitors s). snd (snd entry)) \<and>
    mset (cpu_starts (cu_calls s)) = mset (map fst (cu_monitors s)) \<and> cpu_stops (cu_calls s) = []"

lemma emplace_keys:
  assumes "cpu_key.sorted_keys xs" "snd (std_emplace cpu_less k v xs)"
  shows "mset (map fst (fst (std_emplace cpu_less k v xs))) = add_mset k (mset (map fst xs))"
proof -
  have "std_find cpu_less k xs = None" using cpu_key.std_emplace_inserted[OF assms(1)] assms(2) by simp
  with assms(1) show ?thesis
    by (induction xs) (auto simp: cpu_key.std_emplace_Cons cpu_key.std_find_Cons split: if_splits prod.splits)
qed

lemma start_cpu_running:
  assumes "start_cpu env cpu s = (None, s')" "all_running s"
  shows "all_running s' \<and> cu_monitors s' \<noteq> []"
proof -
  obtain err c tr where t: "scope_trace (ce_registry env) (ce_trace env) (ce_composer env) (ce_scope env) (scope_of_cpu cpu) False
           (cu_composer s, cu_trace s) = (err, c, tr)" by (metis prod_cases3)
  obtain m where m: "scope_monitor_new (ce_scope env) (ce_eventfd env cpu) (scope_of_cpu cpu) False = Inr m"
    using assms(1) t by (auto simp: start_cpu_def Let_def split: option.splits sum.splits)
  obtain ms i where e: "std_emplace cpu_less cpu (m, ce_can_start env cpu) (cu_monitors s) = (ms, i)" by force
  have s': "i" "ce_can_start env cpu" "s' = s\<lparr>cu_trace := tr, cu_composer := c, cu_monitors := ms, cu_calls := cu_calls s @ [Start_cpu cpu]\<rparr>"
    using assms(1) t m e by (auto simp: start_cpu_def Let_def split: option.splits if_splits)
  have keys: "cpu_key.sorted_keys (cu_monitors s)" using assms(2) by (simp add: all_running_def)
  have "cpu_key.sorted_keys ms" using cpu_key.std_emplace_sorted[OF keys, of cpu "(m, ce_can_start env cpu)"] e by simp
  moreover have "\<forall>entry \<in> set ms. snd (snd entry)"
    using cpu_key.std_emplace_set[OF keys, of cpu "(m, ce_can_start env cpu)"] e assms(2) s'(2) by (auto simp: all_running_def)
  moreover have "mset (map fst ms) = add_mset cpu (mset (map fst (cu_monitors s)))"
    using emplace_keys[OF keys, of cpu "(m, ce_can_start env cpu)"] e s'(1) by simp
  moreover from this have "ms \<noteq> []" by auto
  ultimately show ?thesis using assms(2) by (auto simp: s'(3) all_running_def)
qed

lemma start_cpus_running:
  "start_cpus env cpus s = (None, s') \<Longrightarrow> all_running s \<Longrightarrow>
    all_running s' \<and> (cpus \<noteq> [] \<or> cu_monitors s \<noteq> [] \<longrightarrow> cu_monitors s' \<noteq> [])"
proof (induction cpus arbitrary: s)
  case (Cons cpu cpus)
  then obtain s1 where "start_cpu env cpu s = (None, s1)" "start_cpus env cpus s1 = (None, s')"
    by (auto split: prod.splits option.splits)
  with start_cpu_running[of env cpu s s1] Cons show ?case by auto
qed simp

lemma cpu_set_new_running:
  assumes "cpu_set_new env tid comms c rs tr = (None, s)" "ce_cpus env \<noteq> []"
  shows "all_running s" "cu_monitors s \<noteq> []"
proof -
  obtain s0 where s0: "start_cpus env (ce_cpus env) s0 = (None, s)" "cu_monitors s0 = []" "cu_calls s0 = []"
    using assms(1) by (auto simp: cpu_set_new_def Let_def split: sum.splits prod.splits option.splits)
  have "all_running s0" by (simp add: all_running_def s0)
  from start_cpus_running[OF s0(1) this] assms(2) show "all_running s" "cu_monitors s \<noteq> []" by auto
qed

lemma unwind_running: "all_running s \<Longrightarrow> cu_monitors s \<noteq> [] \<Longrightarrow> fst (cpu_set_unwind e (s\<lparr>cu_trace := tr\<rparr>)) = Cpp Assertion"
  by (cases "cu_monitors s") (auto simp: cpu_set_unwind_def all_running_def)

lemma emplace_mmaps_error: "emplace_mmaps env evs rs = Inl e \<Longrightarrow> e = Assertion"
proof (induction evs arbitrary: rs)
  case (Cons ev evs)
  then show ?case
    by (cases "emplace_mmap env ev rs") (auto simp: emplace_mmap_def split: sum.splits option.splits if_splits)
qed simp

lemma stop_cpus_stops:
  "stop_cpus env entries s = (err, s') \<Longrightarrow> (\<forall>entry \<in> set entries. snd (snd entry)) \<Longrightarrow>
    (err = None \<and> cu_calls s' = cu_calls s @ map (Stop_cpu \<circ> fst) entries \<or> err = Some (Cpp Assertion))"
proof (induction entries arbitrary: s)
  case (Cons entry entries)
  have calls: "cu_calls (stop_cpu entry s) = cu_calls s @ [Stop_cpu (fst entry)]"
    using Cons.prems(2) by (auto simp: stop_cpu_def split: prod.splits)
  show ?case
  proof (cases "emplace_mmaps (te_resolver (ce_trace env))
         (if records_processes (ce_scope env) then ce_mmaps env (fst entry) else []) (cu_resolvers (stop_cpu entry s))")
    case (Inl e)
    with Cons.prems(1) emplace_mmaps_error[OF Inl] show ?thesis by (auto simp: Let_def)
  next
    case (Inr rs)
    with Cons.prems Cons.IH[of "(stop_cpu entry s)\<lparr>cu_resolvers := rs\<rparr>"] calls show ?thesis by (auto simp: Let_def)
  qed
qed simp

lemma cpu_stops_map: "cpu_starts (map (Stop_cpu \<circ> f) xs) = []" "cpu_stops (map (Stop_cpu \<circ> f) xs) = map f xs"
  by (induction xs) simp_all

text \<open>
  C19. When the monitor of all CPUs was built, its run ends normally only after every CPU monitor has been stopped
  exactly once. Any exception before that, from following the program or from entering the running processes
  into the trace, is never reported: the monitors still run, and their destructors fail an assertion.
\<close>
theorem cpu_set_run_ends:
  assumes "cpu_set_new env tid comms c rs tr = (None, s)" "ce_cpus env \<noteq> []"
    "wait (cu_trace s) = (err, tr')" "cpu_set_run env wait comms' s = (e, s')"
  shows "if err \<noteq> None \<or> (\<forall>tr''. enter_threads env comms' tr' \<noteq> Inr tr'') then e = Cpp Assertion
    else e = Cpp Assertion \<or>
      e = Cpp (System_error 0) \<and> mset (cpu_stops (cu_calls s')) = mset (cpu_starts (cu_calls s')) \<and>
      cpu_starts (cu_calls s') = cpu_starts (cu_calls s)"
proof -
  note run = cpu_set_new_running[OF assms(1,2)]
  show ?thesis
  proof (cases "err \<noteq> None \<or> (\<forall>tr''. enter_threads env comms' tr' \<noteq> Inr tr'')")
    case True
    then have "\<exists>x. fst (cpu_set_run env wait comms' s) = fst (cpu_set_unwind x (s\<lparr>cu_trace := tr'\<rparr>))"
      using assms(3) by (auto simp: cpu_set_run_def split: option.splits sum.splits)
    with unwind_running[OF run] assms(4) True show ?thesis by auto
  next
    case False
    then obtain tr'' where ok: "err = None" "enter_threads env comms' tr' = Inr tr''" by auto
    obtain err2 s2 where stop: "stop_cpus env (cu_monitors s) (s\<lparr>cu_trace := tr''\<rparr>) = (err2, s2)" by force
    have "err2 = None \<and> cu_calls s2 = cu_calls s @ map (Stop_cpu \<circ> fst) (cu_monitors s) \<or> err2 = Some (Cpp Assertion)"
      using stop_cpus_stops[OF stop] run(1) by (auto simp: all_running_def)
    then show ?thesis
      using False ok assms(3,4) stop run(1)
      by (auto simp: cpu_set_run_def cpu_set_unwind_def all_running_def cpu_stops_map split: if_splits)
  qed
qed

section \<open>Processes that end while they are entered\<close>

lemma enter_missing_thread:
  "(p, ts) \<in> set comms \<Longrightarrow> std_lookup thread_less ts (process_as_thread p) = None \<Longrightarrow> \<exists>e. emplace_threads reg env comms tr = Inl e"
proof (induction comms arbitrary: tr)
  case (Cons entry comms)
  obtain q us where q: "entry = (q, us)" by force
  show ?case
  proof (cases "emplace_threads reg env (entry # comms) tr")
    case (Inr tr')
    then obtain name tr1 tr2 where "std_at thread_less us (process_as_thread q) = Inr name"
      "emplace_threads reg env comms tr2 = Inr tr'"
      by (auto simp: q sum_bind_Inr_iff)
    then have "(p, ts) \<noteq> entry" "(p, ts) \<notin> set comms"
      using Cons.prems(2) Cons.IH[of tr2] by (auto simp: q std_at_def)
    with Cons.prems(1) show ?thesis by simp
  qed blast
qed simp

text \<open>
  \<open>get_comms_for_running_threads\<close> lists a process whose task directory is gone with no threads at all: entering
  it into the trace raises an exception.
\<close>

definition comms_step ::
    "(Process \<Rightarrow> Thread \<Rightarrow> string option) \<Rightarrow> string \<times> string list option \<Rightarrow> (Process, (Thread, string) std_map) std_map
      \<Rightarrow> (Process, (Thread, string) std_map) std_map" where
  "comms_step comm_file entry ret = (case entry of (name, tasks) \<Rightarrow>
    (case stoi name of Inl e \<Rightarrow> ret
      | Inr pid \<Rightarrow>
        let ret1 = fst (std_emplace process_less (Process pid) [] ret) in
        case tasks of None \<Rightarrow> ret1
        | Some names \<Rightarrow> std_update process_less (Process pid) (task_comms comm_file (Process pid) names) ret1))"

lemma get_comms_steps: "get_comms_for_running_threads comm_file entries = fold (comms_step comm_file) entries []"
  unfolding get_comms_for_running_threads_def by (intro fold_cong refl) (auto simp: comms_step_def fun_eq_iff split: prod.splits)

lemma comms_step_sorted: "process_key.sorted_keys ret \<Longrightarrow> process_key.sorted_keys (comms_step comm_file entry ret)"
  by (auto simp: comms_step_def Let_def process_key.std_emplace_sorted process_key.std_update_sorted split: prod.splits sum.splits option.splits)

lemma comms_step_other:
  "process_key.sorted_keys ret \<Longrightarrow> stoi (fst entry) \<noteq> Inr pid \<Longrightarrow>
    std_lookup process_less (comms_step comm_file entry ret) (Process pid) = std_lookup process_less ret (Process pid)"
  by (auto simp: comms_step_def Let_def process_key.std_lookup_update process_key.std_lookup_emplace process_key.std_emplace_sorted
      split: prod.splits sum.splits option.splits)

lemma comms_fold_other:
  "process_key.sorted_keys ret \<Longrightarrow> (\<forall>entry \<in> set entries. stoi (fst entry) \<noteq> Inr pid) \<Longrightarrow>
    process_key.sorted_keys (fold (comms_step comm_file) entries ret) \<and>
    std_lookup process_less (fold (comms_step comm_file) entries ret) (Process pid) = std_lookup process_less ret (Process pid)"
  by (induction entries arbitrary: ret) (simp_all add: comms_step_sorted comms_step_other)

text \<open>
  C40. A process that ends between the listing of \<^verbatim>\<open>/proc\<close> and the reading of its threads makes entering the running
  processes into the trace fail with an exception: the processes are listed without the missing threads, but entered
  with the name of their first thread.
\<close>
theorem vanished_process_escapes:
  assumes "stoi name = Inr pid" "\<forall>entry \<in> set earlier \<union> set later. stoi (fst entry) \<noteq> Inr pid"
  shows "\<exists>e. emplace_threads reg env (get_comms_for_running_threads comm_file (earlier @ [(name, None)] @ later)) tr = Inl e"
proof -
  let ?ret = "fold (comms_step comm_file) earlier []"
  let ?comms = "get_comms_for_running_threads comm_file (earlier @ [(name, None)] @ later)"
  have b: "process_key.sorted_keys ?ret" "std_lookup process_less ?ret (Process pid) = None"
    using comms_fold_other[of "[]" earlier pid comm_file] assms(2) by (simp_all add: std_lookup_def)
  let ?ret1 = "comms_step comm_file (name, None) ?ret"
  have s: "process_key.sorted_keys ?ret1" by (rule comms_step_sorted[OF b(1)])
  have "std_lookup process_less ?ret1 (Process pid) = Some []"
    using b assms(1) by (simp add: comms_step_def Let_def process_key.std_lookup_emplace)
  moreover have "?comms = fold (comms_step comm_file) later ?ret1" by (simp add: get_comms_steps)
  ultimately have l: "std_lookup process_less ?comms (Process pid) = Some []" "process_key.sorted_keys ?comms"
    using comms_fold_other[OF s, of later pid comm_file] assms(2) by simp_all
  then obtain k where "(k, []) \<in> set ?comms" "process_key.eqv k (Process pid)"
    using process_key.std_find_Some[OF l(2)] by (fastforce simp: std_lookup_def)
  then have "(Process pid, []) \<in> set ?comms" by simp
  then show ?thesis by (rule enter_missing_thread) (simp add: std_lookup_def)
qed

section \<open>Examples\<close>

text \<open>One CPU, nothing to record, and a process that must not be traced.\<close>

definition example_cpu_env :: "list_registry cpu_env" where
  "example_cpu_env = \<lparr>ce_registry = list_registry, ce_trace = example_trace_env, ce_composer = composing_env,
    ce_scope = idle_scope_env, ce_cpus = [Cpu 0], ce_eventfd = (\<lambda>_. 5), ce_can_start = (\<lambda>_. True), ce_mmaps = (\<lambda>_. []),
    ce_proc = [], ce_maps = (\<lambda>_. None)\<rparr>"

lemma example_cpu_set_new:
  "\<exists>s. cpu_set_new example_cpu_env (Thread 1) [] example_composer \<lparr>function_resolvers = [], gpu_function_resolvers = []\<rparr> example_trace =
    (None, s)"
proof -
  obtain m where "scope_monitor_new idle_scope_env 5 (scope_of_cpu (Cpu 0)) False = Inr m"
    by (simp add: scope_monitor_new_def idle_scope_env_def with_writer_def execution_scope_name_def)
  moreover have "scope_trace list_registry example_trace_env composing_env idle_scope_env (scope_of_cpu (Cpu 0)) False ctr = (None, ctr)" for ctr
    by (simp add: scope_trace_def idle_scope_env_def)
  ultimately show ?thesis
    by (simp add: cpu_set_new_def example_cpu_env_def enter_threads_def records_processes_def idle_scope_env_def start_cpu_def Let_def)
qed

theorem cpu_set_run_ends_witness:
  "\<exists>s. cpu_set_new example_cpu_env (Thread 1) [] example_composer \<lparr>function_resolvers = [], gpu_function_resolvers = []\<rparr> example_trace =
      (None, s) \<and> fst (cpu_set_run example_cpu_env (\<lambda>tr. (Some (Cpp (System_error 1)), tr)) [] s) = Cpp Assertion"
proof -
  obtain s where s: "cpu_set_new example_cpu_env (Thread 1) [] example_composer
      \<lparr>function_resolvers = [], gpu_function_resolvers = []\<rparr> example_trace = (None, s)"
    using example_cpu_set_new by blast
  have "ce_cpus example_cpu_env \<noteq> []" by (simp add: example_cpu_env_def)
  from cpu_set_run_ends[OF s this, of "\<lambda>tr. (Some (Cpp (System_error 1)), tr)"] s show ?thesis
    by (metis fst_conv option.distinct(1) prod.collapse)
qed

text \<open>The process 42 has ended.\<close>

lemma stoi_42: "stoi ''42'' = Inr 42"
  by (simp add: stoi_def is_space_def is_digit_def digits_value_def digit_value_def Let_def)

theorem vanished_process_escapes_witness:
  "\<exists>e. emplace_threads list_registry example_trace_env
    (get_comms_for_running_threads (\<lambda>_ _. None) ([] @ [(''42'', None)] @ [])) example_trace = Inl e"
  by (rule vanished_process_escapes[OF stoi_42]) simp

end
