(* ===== verification/Spec2Isabelle.thy ===== *)
theory Spec2Isabelle
  imports Ringbuf_System Memory_Map Sample_Writer Event_Reader Multi_Reader Counter_Buffer Process_Controller
    Bio_Writer Openmp_Monitor Gpu_Monitor Topology Resolvers Trace_Merge Tracepoint Time_Sync Event_Composer Posix_Monitor
    Scope_Monitor Metric_Types Trace_Session Process_Monitor Option_Output Socket_Monitor Main_Monitor Cpu_Set_Monitor
begin

text \<open>
  Verification of lo2s, a sampling profiler for Linux that records processes and threads into an OTF2 trace.
  Paths are relative to \<^verbatim>\<open>src/\<close> of the repository, whose C++ code is below \<^verbatim>\<open>src/\<close> and \<^verbatim>\<open>include/lo2s/\<close> there.

  \<^bold>\<open>The program.\<close> lo2s starts or attaches to a program under test and follows it with ptrace
  (\<^verbatim>\<open>process_controller.cpp\<close>). For every thread or CPU a monitor opens perf events (\<^verbatim>\<open>perf/event_attr.cpp\<close>, chosen by
  \<^verbatim>\<open>perf/event_resolver.cpp\<close> and \<^verbatim>\<open>perf/event_composer.cpp\<close>), reads the records from the buffer it shares with the
  kernel (\<^verbatim>\<open>perf/event_reader.hpp\<close>, merged across CPUs by \<^verbatim>\<open>perf/multi_reader.hpp\<close>) and hands them to a writer: samples
  and context switches (\<^verbatim>\<open>perf/sample/writer.cpp\<close>), system calls, counters, tracepoints, block I/O. Libraries that
  are injected into the program send OpenMP and GPU events through a ring buffer in shared memory (\<^verbatim>\<open>rb/\<close>), and BPF
  programs send POSIX I/O events. The writers collect calling contexts in a local tree per location; at the end the
  trace (\<^verbatim>\<open>trace/trace.cpp\<close>) merges the local trees into the global one and resolves addresses to functions with
  the memory maps and symbol tables of the processes.

  \<^bold>\<open>The model.\<close> Classes are records or datatypes with the members of the source, methods are functions on
  them, exceptions and failing assertions are values (\<^verbatim>\<open>cpp_error\<close> in \<^verbatim>\<open>Lo2s_Prelude\<close>, \<^verbatim>\<open>event_error\<close> in \<^verbatim>\<open>Config_Term\<close>),
  as are accesses outside of mapped memory and what C++ leaves undefined. Unsigned integers of 64 and 32 bits are
  words. \<^verbatim>\<open>std::map\<close> with a user-defined comparison is the sequence of its entries (\<^verbatim>\<open>Std_Map\<close>); its laws hold for strict
  weak orders, the locale every comparison of the program is interpreted in. Floating point numbers
  are rational numbers. The kernel, the files below \<^verbatim>\<open>/proc\<close> and \<^verbatim>\<open>/sys\<close>, libaudit, libdw, libpfm and the definition
  registry of otf2xx are arguments.

  \<^bold>\<open>Theories.\<close>
  \<^item> \<^verbatim>\<open>Lo2s_Prelude\<close>, \<^verbatim>\<open>Std_Map\<close>, \<^verbatim>\<open>Text_Format\<close>, \<^verbatim>\<open>Regex\<close>: errors, words and bytes, ordered maps, the number formats and
    regular expressions of the parsers.
  \<^item> \<^verbatim>\<open>Fifo_Spec\<close>, \<^verbatim>\<open>Ringbuf\<close>, \<^verbatim>\<open>Ringbuf_Events\<close>, \<^verbatim>\<open>Ringbuf_System\<close>: the ring buffer (\<^verbatim>\<open>rb/shm_ringbuf.cpp\<close>, \<^verbatim>\<open>rb/reader.cpp\<close>,
    \<^verbatim>\<open>rb/writer.cpp\<close>) and the events of \<^verbatim>\<open>ompt/\<close> and \<^verbatim>\<open>gpu/\<close>. The locale of \<^verbatim>\<open>Fifo_Spec\<close> states what a channel promises and is
    interpreted on the OpenMP events; every interleaving of a producer and the monitor is a run of it.
  \<^item> \<^verbatim>\<open>Address_Range\<close>, \<^verbatim>\<open>Memory_Map\<close>: \<^verbatim>\<open>address.hpp\<close>, \<^verbatim>\<open>memory_map.hpp\<close>; \<open>emplace\<close> changes the resolution of addresses as a
    reference function of the old one.
  \<^item> \<^verbatim>\<open>Scopes\<close>: \<^verbatim>\<open>types/\<close>, \<^verbatim>\<open>execution_scope.hpp\<close>, \<^verbatim>\<open>measurement_scope.hpp\<close>, \<^verbatim>\<open>execution_scope_group.hpp\<close>.
  \<^item> \<^verbatim>\<open>Calling_Context\<close>, \<^verbatim>\<open>Local_Cctx_Tree\<close>: \<^verbatim>\<open>calling_context.hpp\<close>, \<^verbatim>\<open>local_cctx_tree.cpp\<close>. The invariant of the reachable
    trees relates the tree, the current path and the events written so far: they are always well nested.
  \<^item> \<^verbatim>\<open>Sample_Writer\<close>: all record handlers of \<^verbatim>\<open>perf/sample/writer.cpp\<close>, and the system call writer.
  \<^item> \<^verbatim>\<open>Event_Reader\<close>, \<^verbatim>\<open>Multi_Reader\<close>: the read loop over the perf buffer, byte by byte, and the merge of several readers.
  \<^item> \<^verbatim>\<open>Counter_Buffer\<close>: \<^verbatim>\<open>perf/counter/\<close>; one locale for both kinds of buffers with the accumulation law.
  \<^item> \<^verbatim>\<open>Config_Term\<close>, \<^verbatim>\<open>Event_Attr\<close>, \<^verbatim>\<open>Event_Resolver\<close>, \<^verbatim>\<open>Event_Composer\<close>: from the formats of sysfs and the command line to the
    attributes given to the kernel.
  \<^item> \<^verbatim>\<open>Bio_Writer\<close>, \<^verbatim>\<open>Tracepoint\<close>, \<^verbatim>\<open>Posix_Monitor\<close>: block I/O, tracepoint records, POSIX I/O.
  \<^item> \<^verbatim>\<open>Openmp_Monitor\<close>, \<^verbatim>\<open>Gpu_Monitor\<close>: the consumers of the ring buffer, composed with the producers.
  \<^item> \<^verbatim>\<open>Process_Controller\<close>: the ptrace loop with its signals, clones and the end of the first child.
  \<^item> \<^verbatim>\<open>Proc_Util\<close>, \<^verbatim>\<open>Topology\<close>, \<^verbatim>\<open>Time_Sync\<close>: \<^verbatim>\<open>util.cpp\<close>, \<^verbatim>\<open>topology.cpp\<close>, \<^verbatim>\<open>time/\<close>.
  \<^item> \<^verbatim>\<open>Resolvers\<close>, \<^verbatim>\<open>Trace\<close>, \<^verbatim>\<open>Trace_Merge\<close>: \<^verbatim>\<open>resolvers/\<close>, \<^verbatim>\<open>trace/trace.cpp\<close>; the merge is proved for every registry that
    satisfies the laws of a map per kind of definition, stated as hypotheses.

  \<^bold>\<open>What is shown.\<close> Invariants of every reachable state (ring buffer, calling context trees, groups, event tables);
  the behaviour of each operation on all branches; end-to-end statements from the callbacks of the OpenMP and GPU
  libraries through the shared buffer to the written trace, and from local trees to the mappings of the merged tree;
  equivalence with reference functions (memory maps, bit deposit, POSIX I/O per thread); round trips of parsers; the
  inputs on which a loop does not end. Properties of kind error state where the code fails or does something
  its comments exclude; the manifest lists them as findings.

  \<^bold>\<open>Loops.\<close> The monitors and the merge of readers take a bound on their iterations and return \<open>None\<close> when it is
  reached; their properties give bounds that suffice (the pending events, and for the merge the events of all
  readers and one iteration each). The loop over a range of CPU numbers is a partial function, because it need not end:
  the property of the parser says exactly when. All other loops are total functions.

  \<^bold>\<open>Not modelled.\<close> System calls and threads around the modelled parts (opening and mapping files, poll, fork, exec,
  sockets, the BPF programs), the command line beyond the sampling and group options, the archive and the OTF2
  handles of I/O definitions, DWARF, the libraries of CUDA, ROCm and OMPT, metric plugins, log output. The ring buffer
  is sequentially consistent, as its atomics are declared, and has one producer at a time.

  \<^bold>\<open>Plan.\<close> Next: the metric classes and I/O handles of the trace, the readers of counters and system calls, the socket and
  CPU set monitors, the summary.
\<close>

end
